(* ===== verification/NB_Prelude.thy ===== *)
theory NB_Prelude
  imports Main "HOL-Library.Monad_Syntax" "HOL-Library.Char_ord"
begin

text \<open>
  Shared vocabulary of the development: text as lists of Unicode code points (a Python
  \<open>str\<close> iterates over code points, and several modules compare against code points no
  eight-bit \<open>char\<close> has), decimal printing and reading, splitting and joining,
  Python slices, the total-correctness judgement \<open>yields\<close> for code that may raise,
  and the generic lemmas and collections the components share.
\<close>

section \<open>Text as code points\<close>

type_synonym ustr = "nat list"

text \<open>\<open>u ''abc''\<close> is the Python literal \<open>"abc"\<close>.\<close>

definition u :: "string \<Rightarrow> ustr" where
  "u s = map of_char s"

lemma u_Nil [simp]: "u [] = []"
  by (simp add: u_def)

lemma u_Cons [simp]: "u (c # cs) = of_char c # u cs"
  by (simp add: u_def)

lemma length_u [simp]: "length (u s) = length s"
  by (simp add: u_def)

lemma u_append: "u (s @ t) = u s @ u t"
  by (simp add: u_def)

lemma u_inj: "u s = u t \<longleftrightarrow> s = t"
proof
  assume "u s = u t"
  then have "map (of_char :: char \<Rightarrow> nat) s = map of_char t"
    by (simp add: u_def)
  moreover have "inj (of_char :: char \<Rightarrow> nat)"
    by (simp add: inj_on_def)
  ultimately show "s = t"
    by (simp add: inj_map_eq_map)
qed simp

section \<open>Results that may raise\<close>

text \<open>
  Code that raises exactly one kind of exception returns \<open>'a option\<close>, \<open>None\<close> being the
  exception. \<open>yields m Q\<close> says that \<open>m\<close> returns (does not raise) and that its value
  satisfies \<open>Q\<close>: total correctness, so a theorem with it in its conclusion says the code
  returns.
\<close>

named_theorems yields_rules "how yields passes through the constructs of a body"

definition yields :: "'a option \<Rightarrow> ('a \<Rightarrow> bool) \<Rightarrow> bool" where
  "yields m Q \<longleftrightarrow> (case m of None \<Rightarrow> False | Some x \<Rightarrow> Q x)"

lemma yields_Some [simp, yields_rules]: "yields (Some x) Q \<longleftrightarrow> Q x"
  by (simp add: yields_def)

lemma yields_None [simp, yields_rules]: "\<not> yields None Q"
  by (simp add: yields_def)

lemma yields_bind [simp, yields_rules]:
  "yields (m \<bind> f) Q \<longleftrightarrow> yields m (\<lambda>x. yields (f x) Q)"
  by (cases m) simp_all

lemma yields_if [yields_rules]:
  "yields (if c then a else b) Q \<longleftrightarrow> (c \<longrightarrow> yields a Q) \<and> (\<not> c \<longrightarrow> yields b Q)"
  by simp

lemma yields_map_option [simp, yields_rules]:
  "yields (map_option f m) Q \<longleftrightarrow> yields m (\<lambda>x. Q (f x))"
  by (cases m) simp_all

lemma yields_mono: "yields m P \<Longrightarrow> (\<And>x. P x \<Longrightarrow> Q x) \<Longrightarrow> yields m Q"
  by (cases m) simp_all

lemma yields_conj: "yields m (\<lambda>x. P x \<and> Q x) \<longleftrightarrow> yields m P \<and> yields m Q"
  by (cases m) auto

lemma yields_ex: "yields m Q \<longleftrightarrow> (\<exists>x. m = Some x \<and> Q x)"
  by (cases m) simp_all

lemma yields_Some_D: "yields m Q \<Longrightarrow> m = Some x \<Longrightarrow> Q x"
  by simp

section \<open>Python sequences\<close>

text \<open>\<open>xs[i]\<close>: raises \<open>IndexError\<close> out of range (the model's indices are never negative
  where this is used).\<close>

definition py_get :: "'a list \<Rightarrow> nat \<Rightarrow> 'a option" where
  "py_get xs i = (if i < length xs then Some (xs ! i) else None)"

text \<open>\<open>xs[i] = v\<close>: raises \<open>IndexError\<close> out of range.\<close>

definition py_set :: "'a list \<Rightarrow> nat \<Rightarrow> 'a \<Rightarrow> 'a list option" where
  "py_set xs i v = (if i < length xs then Some (xs[i := v]) else None)"

text \<open>\<open>xs[a:b] = ys\<close> for \<open>a \<le> b\<close>: Python clamps both ends to the length.\<close>

definition py_splice :: "'a list \<Rightarrow> nat \<Rightarrow> nat \<Rightarrow> 'a list \<Rightarrow> 'a list" where
  "py_splice xs a b ys = take a xs @ ys @ drop (max a b) xs"

lemma yields_py_get [simp]: "yields (py_get xs i) Q \<longleftrightarrow> i < length xs \<and> Q (xs ! i)"
  by (simp add: py_get_def)

lemma yields_py_set [simp]: "yields (py_set xs i v) Q \<longleftrightarrow> i < length xs \<and> Q (xs[i := v])"
  by (simp add: py_set_def)

lemma py_get_Some [simp]: "i < length xs \<Longrightarrow> py_get xs i = Some (xs ! i)"
  by (simp add: py_get_def)

lemma py_set_Some [simp]: "i < length xs \<Longrightarrow> py_set xs i v = Some (xs[i := v])"
  by (simp add: py_set_def)

lemma length_py_splice:
  "a \<le> b \<Longrightarrow> b \<le> length xs \<Longrightarrow> length (py_splice xs a b ys) = length xs + length ys - (b - a)"
  by (simp add: py_splice_def)

lemma nth_py_splice:
  assumes "a \<le> b" "b \<le> length xs" "length ys = b - a" "i < length xs"
  shows "py_splice xs a b ys ! i = (if a \<le> i \<and> i < b then ys ! (i - a) else xs ! i)"
  using assms by (auto simp: py_splice_def nth_append min_def)

lemma set_py_splice: "set (py_splice xs a b ys) \<subseteq> set xs \<union> set ys"
  by (auto simp: py_splice_def dest: in_set_takeD in_set_dropD)

lemma nth_update: "xs[i := x] ! j = (if i = j \<and> j < length xs then x else xs ! j)"
  by (cases "i < length xs") (auto simp: nth_list_update list_update_beyond)

lemma ball_list_update:
  "(\<forall>x\<in>set xs. P x) \<Longrightarrow> P v \<Longrightarrow> \<forall>x\<in>set (xs[i := v]). P x"
  using set_update_subset_insert[of xs i v] by blast

section \<open>Decimal numbers\<close>

text \<open>\<open>str(n)\<close> for \<open>n \<ge> 0\<close>, and \<open>int(s)\<close> for a string of ASCII digits.\<close>

fun dec :: "nat \<Rightarrow> ustr" where
  "dec n = (if n < 10 then [48 + n] else dec (n div 10) @ [48 + n mod 10])"

declare dec.simps [simp del]

definition undec :: "ustr \<Rightarrow> nat" where
  "undec s = foldl (\<lambda>a c. a * 10 + (c - 48)) 0 s"

definition is_digit :: "nat \<Rightarrow> bool" where
  "is_digit c \<longleftrightarrow> 48 \<le> c \<and> c \<le> 57"

lemma undec_Nil [simp]: "undec [] = 0"
  by (simp add: undec_def)

lemma undec_snoc [simp]: "undec (s @ [c]) = undec s * 10 + (c - 48)"
  by (simp add: undec_def)

lemma undec_dec [simp]: "undec (dec n) = n"
proof (induction n rule: dec.induct)
  case (1 n)
  show ?case
  proof (cases "n < 10")
    case True
    then show ?thesis by (subst dec.simps) (simp add: undec_def)
  next
    case False
    with 1 have "undec (dec (n div 10)) = n div 10" by simp
    with False show ?thesis by (subst dec.simps) (simp add: mult.commute)
  qed
qed

lemma dec_digits: "c \<in> set (dec n) \<Longrightarrow> is_digit c"
proof (induction n rule: dec.induct)
  case (1 n)
  then show ?case
    by (subst (asm) (2) dec.simps) (auto simp: is_digit_def split: if_splits)
qed

lemma dec_ne [simp]: "dec n \<noteq> []"
  by (subst dec.simps) simp

lemma dec_inj: "dec m = dec n \<longleftrightarrow> m = n"
  by (metis undec_dec)

lemma length_dec: "n < 10 ^ k \<Longrightarrow> 0 < k \<Longrightarrow> length (dec n) \<le> k"
proof (induction n arbitrary: k rule: dec.induct)
  case (1 n)
  show ?case
  proof (cases "n < 10")
    case True
    with 1 show ?thesis by (subst dec.simps) simp
  next
    case False
    from False 1(2) have k: "1 < k"
      by (metis 1(3) less_one linorder_neqE_nat nat_neq_iff power_one_right)
    then have "n div 10 < 10 ^ (k - 1)"
      using 1(2) by (cases k) (simp_all add: div_less_iff_less_mult mult.commute)
    with 1(1)[OF False, of "k - 1"] k have "length (dec (n div 10)) \<le> k - 1" by simp
    with False k show ?thesis by (subst dec.simps) simp
  qed
qed

text \<open>\<open>netbbs.digits.is_ascii_number\<close>: one or more ASCII digits and nothing else.\<close>

definition is_ascii_number :: "ustr \<Rightarrow> bool" where
  "is_ascii_number s \<longleftrightarrow> s \<noteq> [] \<and> list_all is_digit s"

lemma is_ascii_number_dec [simp]: "is_ascii_number (dec n)"
  by (auto simp: is_ascii_number_def list_all_iff dec_digits)

section \<open>Splitting and joining\<close>

text \<open>\<open>s.split(sep)\<close> for a one-character separator, and \<open>sep.join(parts)\<close>.\<close>

fun split_on :: "'a \<Rightarrow> 'a list \<Rightarrow> 'a list list" where
  "split_on sep [] = [[]]"
| "split_on sep (c # cs) =
     (if c = sep then [] # split_on sep cs
      else (case split_on sep cs of [] \<Rightarrow> [[c]] | p # ps \<Rightarrow> (c # p) # ps))"

fun join_with :: "'a list \<Rightarrow> 'a list list \<Rightarrow> 'a list" where
  "join_with sep [] = []"
| "join_with sep [p] = p"
| "join_with sep (p # ps) = p @ sep @ join_with sep ps"

lemma join_with_snoc:
  "ps \<noteq> [] \<Longrightarrow> join_with sep (ps @ [p]) = join_with sep ps @ sep @ p"
proof (induction ps)
  case (Cons q qs)
  then show ?case by (cases qs) simp_all
qed simp

lemma split_on_ne [simp]: "split_on sep s \<noteq> []"
  by (cases s) (auto split: list.splits)

lemma join_split: "join_with [sep] (split_on sep s) = s"
proof (induction s)
  case (Cons c cs)
  then show ?case
    by (cases "split_on sep cs"; cases "tl (split_on sep cs)") (auto split: list.splits)
qed simp

lemma split_on_absent: "sep \<notin> set s \<Longrightarrow> split_on sep s = [s]"
  by (induction s) auto

lemma split_on_append: "sep \<notin> set p \<Longrightarrow> split_on sep (p @ sep # s) = p # split_on sep s"
  by (induction p) auto

lemma split_join:
  "ps \<noteq> [] \<Longrightarrow> (\<And>p. p \<in> set ps \<Longrightarrow> sep \<notin> set p) \<Longrightarrow> split_on sep (join_with [sep] ps) = ps"
proof (induction ps)
  case (Cons p ps)
  then show ?case
    by (cases ps) (simp_all add: split_on_absent split_on_append)
qed simp

lemma set_split_on: "p \<in> set (split_on sep s) \<Longrightarrow> sep \<notin> set p \<and> set p \<subseteq> set s"
  by (induction s arbitrary: p) (fastforce split: list.splits if_splits)+

section \<open>Bounded integers from int arithmetic\<close>

text \<open>\<open>max(lo, min(x, hi))\<close>, the clamp several modules write.\<close>

definition clamp_int :: "int \<Rightarrow> int \<Rightarrow> int \<Rightarrow> int" where
  "clamp_int lo hi x = max lo (min x hi)"

lemma clamp_int_bounds: "lo \<le> hi \<Longrightarrow> lo \<le> clamp_int lo hi x \<and> clamp_int lo hi x \<le> hi"
  by (simp add: clamp_int_def)

lemma clamp_int_id: "lo \<le> x \<Longrightarrow> x \<le> hi \<Longrightarrow> clamp_int lo hi x = x"
  by (simp add: clamp_int_def)

end
