(* ===== verification/Ansi.thy ===== *)
theory Ansi
  imports NB_Prelude
begin

text \<open>
  \<^verbatim>\<open>src/netbbs/rendering/ansi.py\<close>: the escape sequences every other rendering module is
  built from. A function that raises \<open>ValueError\<close> on a bad argument returns an option here,
  \<open>None\<close> being the exception. \<open>strip_ansi\<close> is the module's one regular expression, written as
  the deterministic matcher it denotes.
\<close>

section \<open>Colours and sequences\<close>

text \<open>The Python type \<open>int | tuple[int, int, int]\<close>.\<close>

datatype color = Palette int | Rgb int int int

definition ESC :: nat where "ESC = 27"

definition csi :: ustr where "csi = [27, 91]"

text \<open>\<open>f"{n}"\<close> of a Python int.\<close>

definition show_int :: "int \<Rightarrow> ustr" where
  "show_int n = (if n < 0 then 45 # dec (nat (- n)) else dec (nat n))"

definition RESET :: ustr where "RESET = csi @ u ''0m''"
definition BOLD :: ustr where "BOLD = csi @ u ''1m''"
definition UNDERLINE :: ustr where "UNDERLINE = csi @ u ''4m''"
definition REVERSE :: ustr where "REVERSE = csi @ u ''7m''"

definition valid_color :: "int \<Rightarrow> bool" where
  "valid_color c \<longleftrightarrow> 0 \<le> c \<and> c \<le> 255"

definition valid_rgb :: "int \<Rightarrow> int \<Rightarrow> int \<Rightarrow> bool" where
  "valid_rgb r g b \<longleftrightarrow> list_all valid_color [r, g, b]"

definition fg :: "int \<Rightarrow> ustr option" where
  "fg c = (if valid_color c then Some (csi @ u ''38;5;'' @ show_int c @ u ''m'') else None)"

definition bg :: "int \<Rightarrow> ustr option" where
  "bg c = (if valid_color c then Some (csi @ u ''48;5;'' @ show_int c @ u ''m'') else None)"

definition fg_rgb :: "int \<Rightarrow> int \<Rightarrow> int \<Rightarrow> ustr option" where
  "fg_rgb r g b =
     (if valid_rgb r g b
      then Some (csi @ u ''38;2;'' @ show_int r @ u '';'' @ show_int g @ u '';'' @ show_int b @ u ''m'')
      else None)"

definition bg_rgb :: "int \<Rightarrow> int \<Rightarrow> int \<Rightarrow> ustr option" where
  "bg_rgb r g b =
     (if valid_rgb r g b
      then Some (csi @ u ''48;2;'' @ show_int r @ u '';'' @ show_int g @ u '';'' @ show_int b @ u ''m'')
      else None)"

text \<open>The two conditional expressions at the end of \<open>colored\<close>.\<close>

fun fg_prefix :: "color option \<Rightarrow> ustr option" where
  "fg_prefix None = Some []"
| "fg_prefix (Some (Palette c)) = fg c"
| "fg_prefix (Some (Rgb r g b)) = fg_rgb r g b"

fun bg_prefix :: "color option \<Rightarrow> ustr option" where
  "bg_prefix None = Some []"
| "bg_prefix (Some (Palette c)) = bg c"
| "bg_prefix (Some (Rgb r g b)) = bg_rgb r g b"

definition colored ::
  "ustr \<Rightarrow> color option \<Rightarrow> color option \<Rightarrow> bool \<Rightarrow> bool \<Rightarrow> bool \<Rightarrow> ustr option" where
  "colored text fg_color bg_color bold reverse underline = do {
     f \<leftarrow> fg_prefix fg_color;
     b \<leftarrow> bg_prefix bg_color;
     let prefix = (if bold then BOLD else []) @ (if underline then UNDERLINE else [])
                  @ (if reverse then REVERSE else []) @ f @ b;
     Some (if prefix = [] then text else prefix @ text @ RESET)
   }"

definition clear_screen :: ustr where
  "clear_screen = csi @ u ''2J'' @ csi @ u ''H''"

definition move_cursor :: "int \<Rightarrow> int \<Rightarrow> ustr option" where
  "move_cursor row col =
     (if row < 1 \<or> col < 1 then None
      else Some (csi @ show_int row @ u '';'' @ show_int col @ u ''H''))"

definition set_scroll_region :: "int \<Rightarrow> int \<Rightarrow> ustr option" where
  "set_scroll_region tp btm =
     (if tp < 1 \<or> btm < tp then None
      else Some (csi @ show_int tp @ u '';'' @ show_int btm @ u ''r''))"

definition reset_scroll_region :: ustr where
  "reset_scroll_region = csi @ u ''r''"

definition reject_keystroke :: "int \<Rightarrow> ustr option" where
  "reject_keystroke count =
     (if count < 1 then None
      else Some (concat (replicate (nat count) [8, 32, 8]) @ [7]))"

section \<open>Removing escape sequences\<close>

text \<open>
  \<open>ANSI_ESCAPE_RE\<close>: after an ESC, three alternatives tried in order. Within each, adjacent
  classes are disjoint, so a greedy match never has to give anything back and the alternative
  either matches in exactly one way or fails. The functions return what is left after the match.
\<close>

definition csi_param :: "nat \<Rightarrow> bool" where
  "csi_param c \<longleftrightarrow> 0x30 \<le> c \<and> c \<le> 0x3f"

definition csi_final :: "nat \<Rightarrow> bool" where
  "csi_final c \<longleftrightarrow> 0x40 \<le> c \<and> c \<le> 0x7e"

definition match_csi_tail :: "ustr \<Rightarrow> ustr option" where
  "match_csi_tail s =
     (let s1 = dropWhile csi_param s;
          s2 = dropWhile (\<lambda>c. 0x20 \<le> c \<and> c \<le> 0x2f) s1
      in case s2 of [] \<Rightarrow> None | c # rest \<Rightarrow> if csi_final c then Some rest else None)"

definition match_osc_tail :: "ustr \<Rightarrow> ustr option" where
  "match_osc_tail s =
     (case dropWhile (\<lambda>c. c \<noteq> 7 \<and> c \<noteq> 27) s of
        [] \<Rightarrow> None
      | c # rest \<Rightarrow>
          if c = 7 then Some rest
          else (case rest of [] \<Rightarrow> None | d # rest' \<Rightarrow> if d = 92 then Some rest' else None))"

definition match_other_tail :: "ustr \<Rightarrow> ustr option" where
  "match_other_tail s =
     (case dropWhile (\<lambda>c. 0x20 \<le> c \<and> c \<le> 0x2f) s of
        [] \<Rightarrow> None
      | c # rest \<Rightarrow> if 0x30 \<le> c \<and> c \<le> 0x7e then Some rest else None)"

definition match_escape :: "ustr \<Rightarrow> ustr option" where
  "match_escape s =
     (case (case s of [] \<Rightarrow> None | c # cs \<Rightarrow>
              if c = 91 then match_csi_tail cs else if c = 93 then match_osc_tail cs else None) of
        Some rest \<Rightarrow> Some rest
      | None \<Rightarrow> match_other_tail s)"

lemma length_dropWhile_Cons: "dropWhile P s = c # rest \<Longrightarrow> length rest < length s"
  using length_dropWhile_le[of P s] by simp

lemma match_escape_shorter: "match_escape s = Some rest \<Longrightarrow> length rest < length s"
proof -
  have other: "match_other_tail s = Some rest \<Longrightarrow> length rest < length s" for s
    by (auto simp: match_other_tail_def split: list.splits if_splits dest: length_dropWhile_Cons)
  have csi: "match_csi_tail s = Some rest \<Longrightarrow> length rest < length s" for s
    using length_dropWhile_le[of csi_param s]
    by (auto simp: match_csi_tail_def Let_def split: list.splits if_splits
        dest!: length_dropWhile_Cons)
  have osc: "match_osc_tail s = Some rest \<Longrightarrow> length rest < length s" for s
    by (auto simp: match_osc_tail_def split: list.splits if_splits dest!: length_dropWhile_Cons)
  assume "match_escape s = Some rest"
  then show ?thesis
    by (auto simp: match_escape_def split: option.splits list.splits if_splits
        dest!: other csi osc)
qed

function strip_ansi :: "ustr \<Rightarrow> ustr" where
  "strip_ansi [] = []"
| "strip_ansi (c # cs) =
     (case (if c = ESC then match_escape cs else None) of
        Some rest \<Rightarrow> strip_ansi rest
      | None \<Rightarrow> c # strip_ansi cs)"
  by pat_completeness auto
termination
  by (relation "measure length") (auto split: if_splits dest: match_escape_shorter)

section \<open>Lemmas\<close>

lemmas ansi_consts = csi_def RESET_def BOLD_def UNDERLINE_def REVERSE_def

lemma show_int_nat [simp]: "0 \<le> n \<Longrightarrow> show_int n = dec (nat n)"
  by (simp add: show_int_def)

lemma show_int_of_nat [simp]: "show_int (int n) = dec n"
  by simp

lemma strip_ansi_plain: "ESC \<notin> set t \<Longrightarrow> strip_ansi (t @ s) = t @ strip_ansi s"
  by (induction t) auto

lemma strip_ansi_no_esc: "ESC \<notin> set t \<Longrightarrow> strip_ansi t = t"
  using strip_ansi_plain[of t "[]"] by simp

lemma csi_param_dec [simp]: "list_all csi_param (dec n)"
  by (auto simp: list_all_iff csi_param_def is_digit_def dest: dec_digits)

lemma match_csi_params:
  assumes "list_all csi_param ps" and "csi_final c"
  shows "match_csi_tail (ps @ c # s) = Some s"
proof -
  have "dropWhile csi_param (ps @ c # s) = c # s"
    using assms by (subst dropWhile_append2) (auto simp: list_all_iff csi_param_def csi_final_def)
  moreover have "dropWhile (\<lambda>c. 0x20 \<le> c \<and> c \<le> 0x2f) (c # s) = c # s"
    using assms(2) by (simp add: csi_final_def)
  ultimately show ?thesis
    using assms(2) by (simp add: match_csi_tail_def Let_def)
qed

lemma strip_ansi_csi:
  "list_all csi_param ps \<Longrightarrow> csi_final c \<Longrightarrow> strip_ansi (csi @ ps @ c # s) = strip_ansi s"
  using match_csi_params[of ps c s] by (simp add: csi_def ESC_def match_escape_def)

lemma csi_param_lits [simp]:
  "csi_param 48" "csi_param 49" "csi_param 50" "csi_param 51" "csi_param 52" "csi_param 53"
  "csi_param 54" "csi_param 55" "csi_param 56" "csi_param 57" "csi_param 59" "csi_final 109"
  "csi_param 63" "csi_final 104" "csi_final 108" "csi_final 114" "csi_final 74" "csi_final 72"
  by (simp_all add: csi_param_def csi_final_def)

lemma strip_ansi_fg: "fg_prefix f = Some p \<Longrightarrow> strip_ansi (p @ s) = strip_ansi s"
proof (induction f rule: fg_prefix.induct)
  case (2 c)
  then show ?case
    using strip_ansi_csi[of "u ''38;5;'' @ dec (nat c)" 109 s]
    by (auto simp: fg_def valid_color_def split: if_splits)
next
  case (3 r g b)
  then show ?case
    using strip_ansi_csi[of "u ''38;2;'' @ dec (nat r) @ u '';'' @ dec (nat g) @ u '';'' @ dec (nat b)" 109 s]
    by (auto simp: fg_rgb_def valid_rgb_def valid_color_def split: if_splits)
qed simp

lemma strip_ansi_bg: "bg_prefix f = Some p \<Longrightarrow> strip_ansi (p @ s) = strip_ansi s"
proof (induction f rule: bg_prefix.induct)
  case (2 c)
  then show ?case
    using strip_ansi_csi[of "u ''48;5;'' @ dec (nat c)" 109 s]
    by (auto simp: bg_def valid_color_def split: if_splits)
next
  case (3 r g b)
  then show ?case
    using strip_ansi_csi[of "u ''48;2;'' @ dec (nat r) @ u '';'' @ dec (nat g) @ u '';'' @ dec (nat b)" 109 s]
    by (auto simp: bg_rgb_def valid_rgb_def valid_color_def split: if_splits)
qed simp

lemma strip_ansi_attr:
  "strip_ansi (BOLD @ s) = strip_ansi s" "strip_ansi (UNDERLINE @ s) = strip_ansi s"
  "strip_ansi (REVERSE @ s) = strip_ansi s" "strip_ansi (RESET @ s) = strip_ansi s"
  using strip_ansi_csi[of "u ''1''" 109 s] strip_ansi_csi[of "u ''4''" 109 s]
    strip_ansi_csi[of "u ''7''" 109 s] strip_ansi_csi[of "u ''0''" 109 s]
  by (simp_all add: BOLD_def UNDERLINE_def REVERSE_def RESET_def)

section \<open>Properties\<close>

text \<open>
  Styling is invisible to whoever strips it: text that carries no escape character comes back
  unchanged after being wrapped in any combination of colours and attributes.
\<close>

theorem strip_colored:
  assumes "colored t f b bold rv ul = Some s" and "ESC \<notin> set t"
  shows "strip_ansi s = t"
proof -
  from assms(1) obtain pf pb where p: "fg_prefix f = Some pf" "bg_prefix b = Some pb"
    by (auto simp: colored_def bind_eq_Some_conv)
  have r: "strip_ansi RESET = []"
    using strip_ansi_attr(4)[of "[]"] by simp
  show ?thesis
    using assms p
    by (auto simp: colored_def Let_def strip_ansi_attr strip_ansi_fg[OF p(1)]
        strip_ansi_bg[OF p(2)] strip_ansi_plain r strip_ansi_no_esc split: if_splits)
qed

theorem strip_colored_witness:
  "strip_ansi (the (colored (u ''hi'') (Some (Palette 9)) (Some (Rgb 1 2 3)) True False True)) = u ''hi''"
  by (rule strip_colored[of _ "Some (Palette 9)" "Some (Rgb 1 2 3)" True False True])
    (simp_all add: colored_def fg_def bg_rgb_def valid_color_def valid_rgb_def ESC_def)

end
