(* ===== verification/Display_Width.thy ===== *)
theory Display_Width
  imports NB_Prelude "HOL-Library.Sublist"
begin

text \<open>
  \<^verbatim>\<open>src/netbbs/rendering/width.py\<close>: display columns instead of characters. The Unicode
  character database behind Python's \<open>unicodedata\<close> and \<open>str\<close> methods is data, not code: it
  is the parameter record \<open>unidata\<close>, and every result below holds for any such data unless it
  says otherwise.
\<close>

section \<open>The character database\<close>

record unidata =
  uni_combining :: "nat \<Rightarrow> nat"       \<comment> \<open>\<open>unicodedata.combining\<close>, 0 for none\<close>
  uni_category :: "nat \<Rightarrow> string"    \<comment> \<open>\<open>unicodedata.category\<close>\<close>
  uni_eaw :: "nat \<Rightarrow> string"         \<comment> \<open>\<open>unicodedata.east_asian_width\<close>\<close>
  uni_printable :: "nat \<Rightarrow> bool"     \<comment> \<open>\<open>str.isprintable\<close>\<close>
  uni_space :: "nat \<Rightarrow> bool"         \<comment> \<open>\<open>str.isspace\<close>, what \<open>str.split()\<close> splits on\<close>

section \<open>Measuring and cutting\<close>

definition char_width :: "unidata \<Rightarrow> nat \<Rightarrow> nat" where
  "char_width U ch =
     (if uni_combining U ch \<noteq> 0 then 0
      else if uni_category U ch \<in> {''Cc'', ''Cf''} then 0
      else if uni_eaw U ch \<in> {''W'', ''F''} then 2 else 1)"

definition display_width :: "unidata \<Rightarrow> ustr \<Rightarrow> nat" where
  "display_width U str = sum_list (map (char_width U) str)"

text \<open>The loop of \<open>cut_to_width\<close>: \<open>used\<close> columns (the code's \<open>total\<close>) are already taken.\<close>

fun cut_from :: "unidata \<Rightarrow> nat \<Rightarrow> ustr \<Rightarrow> nat \<Rightarrow> ustr" where
  "cut_from U used [] width = []"
| "cut_from U used (ch # cs) width =
     (let w = char_width U ch
      in if used + w > width then [] else ch # cut_from U (used + w) cs width)"

definition cut_to_width :: "unidata \<Rightarrow> ustr \<Rightarrow> nat \<Rightarrow> ustr" where
  "cut_to_width U str width = cut_from U 0 str width"

definition truncate_to_width :: "unidata \<Rightarrow> ustr \<Rightarrow> int \<Rightarrow> ustr \<Rightarrow> ustr option" where
  "truncate_to_width U str width ellipsis =
     (if width < 1 then None
      else if display_width U str \<le> nat width then Some str
      else let ellipsis_width = display_width U ellipsis
           in if nat width \<le> ellipsis_width then Some (cut_to_width U ellipsis (nat width))
              else Some (cut_to_width U str (nat width - ellipsis_width) @ ellipsis))"

section \<open>Wrapping\<close>

text \<open>\<open>str.split()\<close>: the maximal runs of non-space characters.\<close>

function split_words :: "unidata \<Rightarrow> ustr \<Rightarrow> ustr list" where
  "split_words U str =
     (let s = dropWhile (uni_space U) str
      in if s = [] then []
         else takeWhile (\<lambda>c. \<not> uni_space U c) s # split_words U (dropWhile (\<lambda>c. \<not> uni_space U c) s))"
  by pat_completeness auto
termination
proof (relation "measure (length \<circ> snd)", simp)
  fix U :: unidata and str s
  assume s: "s = dropWhile (uni_space U) str" and ne: "s \<noteq> []"
  have "\<not> uni_space U (hd s)"
    using s ne hd_dropWhile by blast
  then have "length (dropWhile (\<lambda>c. \<not> uni_space U c) s) < length s"
    using ne by (cases s) (simp_all add: length_dropWhile_le le_imp_less_Suc)
  moreover have "length s \<le> length str"
    by (simp add: s length_dropWhile_le)
  ultimately show "((U, dropWhile (\<lambda>c. \<not> uni_space U c) s), U, str) \<in> measure (length \<circ> snd)"
    by simp
qed

declare split_words.simps [simp del]

text \<open>The inner \<open>while\<close>: hard-break an over-wide word; the pieces and what is left of the word.\<close>

function hard_break :: "unidata \<Rightarrow> nat \<Rightarrow> ustr \<Rightarrow> ustr list \<times> ustr" where
  "hard_break U width word =
     (if display_width U word > width
      then let cut = cut_to_width U word width;
               piece = (if cut = [] then take 1 word else cut);
               (pieces, rest) = hard_break U width (drop (length piece) word)
           in (piece # pieces, rest)
      else ([], word))"
  by pat_completeness auto
termination
proof (relation "measure (\<lambda>(U, width, word). length word)", simp)
  fix U :: unidata and width word cut piece
  assume w: "width < display_width U word" and c: "cut = cut_to_width U word width"
    and p: "piece = (if cut = [] then take 1 word else cut)"
  have "word \<noteq> []" using w by (auto simp: display_width_def)
  moreover from this have "piece \<noteq> []" using p by auto
  ultimately show "((U, width, drop (length piece) word), U, width, word)
      \<in> measure (\<lambda>(U, width, word). length word)"
    by simp
qed

declare hard_break.simps [simp del]

text \<open>One pass of the outer loop; the state is the lines so far, the current line's words and its
  width.\<close>

type_synonym wrap_state = "ustr list \<times> ustr list \<times> nat"

definition wrap_word :: "unidata \<Rightarrow> nat \<Rightarrow> bool \<Rightarrow> wrap_state \<Rightarrow> ustr \<Rightarrow> wrap_state" where
  "wrap_word U width break_long_words st word =
     (case st of (lines, current, current_width) \<Rightarrow>
      let word_width = display_width U word in
      if word_width > width then
        let lines1 = (if current \<noteq> [] then lines @ [join_with [32] current] else lines) in
        if \<not> break_long_words then (lines1 @ [word], [], if current \<noteq> [] then 0 else current_width)
        else let (pieces, rest) = hard_break U width word
             in (lines1 @ pieces, if rest \<noteq> [] then [rest] else [],
                 if rest \<noteq> [] then display_width U rest
                 else if current \<noteq> [] then 0 else current_width)
      else
        let separator_width = (if current \<noteq> [] then 1 else 0) in
        if current \<noteq> [] \<and> current_width + separator_width + word_width > width
        then (lines @ [join_with [32] current], [word], 0 + 0 + word_width)
        else (lines, current @ [word], current_width + separator_width + word_width))"

definition wrap_to_width :: "unidata \<Rightarrow> ustr \<Rightarrow> int \<Rightarrow> bool \<Rightarrow> ustr list option" where
  "wrap_to_width U str width break_long_words =
     (if width < 1 then None
      else case foldl (wrap_word U (nat width) break_long_words) ([], [], 0) (split_words U str) of
             (lines, current, _) \<Rightarrow>
               Some (if current \<noteq> [] then lines @ [join_with [32] current] else lines))"

section \<open>Measuring\<close>

lemma display_width_simps [simp]:
  "display_width U [] = 0"
  "display_width U (c # cs) = char_width U c + display_width U cs"
  "display_width U (s @ t) = display_width U s + display_width U t"
  by (simp_all add: display_width_def)

lemma char_width_le [simp]: "char_width U ch \<le> 2"
  by (simp add: char_width_def)

lemma cut_from_prefix: "prefix (cut_from U used str width) str"
  by (induction U used str width rule: cut_from.induct) (auto simp: Let_def)

lemma cut_from_width:
  "used \<le> width \<Longrightarrow> used + display_width U (cut_from U used str width) \<le> width"
  by (induction U used str width rule: cut_from.induct) (auto simp: Let_def add.assoc)

lemma cut_from_longest:
  "prefix p str \<Longrightarrow> used + display_width U p \<le> width \<Longrightarrow> prefix p (cut_from U used str width)"
proof (induction U used str width arbitrary: p rule: cut_from.induct)
  case (2 U used ch cs width)
  then show ?case
    by (cases p) (auto simp: Let_def)
qed simp

lemma cut_to_width_fits: "display_width U (cut_to_width U str width) \<le> width"
  using cut_from_width[of 0 width U str] by (simp add: cut_to_width_def)

lemma cut_to_width_prefix: "prefix (cut_to_width U str width) str"
  by (simp add: cut_to_width_def cut_from_prefix)

lemma truncate_fits:
  "truncate_to_width U str width ellipsis = Some r \<Longrightarrow> int (display_width U r) \<le> width"
  using cut_to_width_fits[of U ellipsis "nat width"]
    cut_to_width_fits[of U str "nat width - display_width U ellipsis"]
  by (cases width) (auto simp: truncate_to_width_def Let_def split: if_splits)

section \<open>What wrapping keeps\<close>

lemma hard_break_concat: "hard_break U width word = (ps, r) \<Longrightarrow> concat ps @ r = word"
proof (induction U width word arbitrary: ps r rule: hard_break.induct)
  case (1 U width word)
  show ?case
  proof (cases "width < display_width U word")
    case True
    define piece where
      "piece = (if cut_to_width U word width = [] then take 1 word else cut_to_width U word width)"
    have pre: "prefix piece word"
      by (simp add: piece_def cut_to_width_prefix take_is_prefix)
    obtain ps' where br: "hard_break U width (drop (length piece) word) = (ps', r)"
        and ps: "ps = piece # ps'"
      using 1(2) True
      by (subst (asm) hard_break.simps) (auto simp: piece_def Let_def split: prod.splits if_splits)
    have "concat ps' @ r = drop (length piece) word"
      using 1(1)[OF True refl refl, folded piece_def, OF br] .
    then show ?thesis
      using pre ps by (auto simp: prefix_def)
  next
    case False
    then show ?thesis using 1(2) by (subst (asm) hard_break.simps) simp
  qed
qed

lemma hard_break_fits:
  "hard_break U width word = (ps, r) \<Longrightarrow> 2 \<le> width \<Longrightarrow>
    (\<forall>p\<in>set ps. display_width U p \<le> width) \<and> display_width U r \<le> width"
proof (induction U width word arbitrary: ps r rule: hard_break.induct)
  case (1 U width word)
  show ?case
  proof (cases "width < display_width U word")
    case True
    define piece where
      "piece = (if cut_to_width U word width = [] then take 1 word else cut_to_width U word width)"
    have pw: "display_width U piece \<le> width"
    proof (cases "cut_to_width U word width = []")
      case True
      then have "piece = take 1 word" by (simp add: piece_def)
      moreover have "display_width U (take 1 word) \<le> 2"
        by (cases word) simp_all
      ultimately show ?thesis using 1(3) by simp
    qed (simp add: piece_def cut_to_width_fits)
    obtain ps' where br: "hard_break U width (drop (length piece) word) = (ps', r)"
        and ps: "ps = piece # ps'"
      using 1(2) True
      by (subst (asm) hard_break.simps) (auto simp: piece_def Let_def split: prod.splits if_splits)
    show ?thesis
      using 1(1)[OF True refl refl, folded piece_def, OF br 1(3)] ps pw by simp
  next
    case False
    then show ?thesis using 1(2) by (subst (asm) hard_break.simps) simp
  qed
qed

section \<open>Wrapping fits and loses nothing\<close>

text \<open>What the wrapped lines hold, words without the joining spaces.\<close>

definition wrap_ok :: "unidata \<Rightarrow> nat \<Rightarrow> wrap_state \<Rightarrow> bool" where
  "wrap_ok U width st \<longleftrightarrow>
     (case st of (lines, current, current_width) \<Rightarrow>
        (\<forall>l\<in>set lines. display_width U l \<le> width) \<and> current_width \<le> width \<and>
        (if current = [] then current_width = 0
         else current_width = display_width U (join_with [32] current)))"

lemma wrap_word_ok:
  assumes "wrap_ok U width st" and "2 \<le> width" and "char_width U 32 = 1"
  shows "wrap_ok U width (wrap_word U width True st word)"
proof -
  obtain lines current cw where st: "st = (lines, current, cw)" by (cases st)
  obtain ps r where br: "hard_break U width word = (ps, r)" by fastforce
  show ?thesis
    using assms hard_break_fits[OF br assms(2)] unfolding st
    by (cases "current = []") (auto simp: wrap_ok_def wrap_word_def Let_def br join_with_snoc)
qed

lemma foldl_wrap_ok:
  "wrap_ok U width st \<Longrightarrow> 2 \<le> width \<Longrightarrow> char_width U 32 = 1 \<Longrightarrow>
    wrap_ok U width (foldl (wrap_word U width True) st words)"
proof (induction words arbitrary: st)
  case (Cons w ws)
  then show ?case using wrap_word_ok[of U width st w] by simp
qed simp

lemma wrap_to_width_fits:
  assumes "wrap_to_width U str width True = Some lines" and "2 \<le> width" and "char_width U 32 = 1"
  shows "\<forall>l\<in>set lines. int (display_width U l) \<le> width"
proof -
  obtain ls c w where f: "foldl (wrap_word U (nat width) True) ([], [], 0) (split_words U str) = (ls, c, w)"
    by (metis prod_cases3)
  have "wrap_ok U (nat width) (ls, c, w)"
    unfolding f[symmetric] by (rule foldl_wrap_ok) (use assms in \<open>auto simp: wrap_ok_def\<close>)
  then have "display_width U l \<le> nat width" if "l \<in> set lines" for l
    using assms(1,2) f that by (auto simp: wrap_to_width_def wrap_ok_def split: if_splits)
  then show ?thesis using assms(2) by fastforce
qed

definition nonspace :: "unidata \<Rightarrow> ustr \<Rightarrow> ustr" where
  "nonspace U s = filter (\<lambda>c. \<not> uni_space U c) s"

definition wrap_content :: "unidata \<Rightarrow> wrap_state \<Rightarrow> ustr" where
  "wrap_content U st = (case st of (lines, current, _) \<Rightarrow>
     nonspace U (concat lines) @ nonspace U (concat current))"

lemma nonspace_join:
  "uni_space U 32 \<Longrightarrow> nonspace U (join_with [32] ps) = nonspace U (concat ps)"
proof (induction ps)
  case (Cons p ps)
  then show ?case by (cases ps) (simp_all add: nonspace_def)
qed (simp add: nonspace_def)

lemma nonspace_append [simp]: "nonspace U (s @ t) = nonspace U s @ nonspace U t"
  by (simp add: nonspace_def)

lemma nonspace_Nil [simp]: "nonspace U [] = []"
  by (simp add: nonspace_def)

lemma wrap_word_content:
  assumes "uni_space U 32"
  shows "wrap_content U (wrap_word U width b st word) = wrap_content U st @ nonspace U word"
proof -
  obtain lines current cw where st: "st = (lines, current, cw)" by (cases st)
  obtain ps r where br: "hard_break U width word = (ps, r)" by fastforce
  have "nonspace U (concat ps) @ nonspace U r = nonspace U word"
    using hard_break_concat[OF br] by (metis nonspace_append)
  then show ?thesis
    using assms unfolding st
    by (auto simp: wrap_content_def wrap_word_def Let_def br nonspace_join)
qed

lemma foldl_wrap_content:
  "uni_space U 32 \<Longrightarrow>
    wrap_content U (foldl (wrap_word U width b) st words) = wrap_content U st @ nonspace U (concat words)"
  by (induction words arbitrary: st) (simp_all add: wrap_word_content)

lemma nonspace_dropWhile: "nonspace U (dropWhile (uni_space U) s) = nonspace U s"
  by (induction s) (auto simp: nonspace_def)

lemma split_words_content: "nonspace U (concat (split_words U str)) = nonspace U str"
proof (induction U str rule: split_words.induct)
  case (1 U str)
  let ?s = "dropWhile (uni_space U) str"
  show ?case
  proof (cases "?s = []")
    case True
    then show ?thesis
      by (subst split_words.simps) (metis concat.simps(1) nonspace_dropWhile)
  next
    case False
    have "nonspace U (takeWhile (\<lambda>c. \<not> uni_space U c) ?s)
        @ nonspace U (dropWhile (\<lambda>c. \<not> uni_space U c) ?s) = nonspace U str"
      by (metis nonspace_append nonspace_dropWhile takeWhile_dropWhile_id)
    with False 1[OF refl False] show ?thesis
      by (subst split_words.simps) (simp add: Let_def del: dropWhile_eq_Nil_conv)
  qed
qed

lemma wrap_to_width_content:
  assumes "wrap_to_width U str width b = Some lines" and "uni_space U 32"
  shows "nonspace U (concat lines) = nonspace U str"
proof -
  obtain ls c w where f: "foldl (wrap_word U (nat width) b) ([], [], 0) (split_words U str) = (ls, c, w)"
    by (metis prod_cases3)
  have "wrap_content U (ls, c, w) = nonspace U str"
    unfolding f[symmetric] foldl_wrap_content[OF assms(2)]
    by (simp add: wrap_content_def split_words_content)
  then show ?thesis
    using assms f
    by (auto simp: wrap_to_width_def wrap_content_def nonspace_join split: if_splits)
qed

section \<open>Properties\<close>

text \<open>
  C33: Wrapping text to a width of two columns or more fits every line into that width and loses
  nothing: in order, the lines hold exactly the characters of the text that are not white space.
\<close>

theorem wrapping_fits_and_keeps_text:
  assumes "wrap_to_width U str width True = Some lines" and "2 \<le> width"
    and "char_width U 32 = 1" and "uni_space U 32"
  shows "(\<forall>l\<in>set lines. int (display_width U l) \<le> width) \<and> nonspace U (concat lines) = nonspace U str"
  using wrap_to_width_fits[OF assms(1-3)] wrap_to_width_content[OF assms(1,4)] by simp

text \<open>Tables for a few characters: ASCII, and one that is two columns wide.\<close>

definition few_chars :: unidata where
  "few_chars = \<lparr>uni_combining = (\<lambda>_. 0), uni_category = (\<lambda>_. ''Lo''),
     uni_eaw = (\<lambda>c. if c = 0x4e00 then ''W'' else ''Na''), uni_printable = (\<lambda>c. 32 \<le> c),
     uni_space = (\<lambda>c. c = 32)\<rparr>"

theorem wrapping_fits_and_keeps_text_witness:
  "let lines = the (wrap_to_width few_chars (u ''to wrapping'' @ [0x4e00]) 3 True)
   in list_all (\<lambda>l. int (display_width few_chars l) \<le> 3) lines \<and>
      nonspace few_chars (concat lines) = nonspace few_chars (u ''to wrapping'' @ [0x4e00])"
  unfolding Let_def list_all_iff
  by (rule wrapping_fits_and_keeps_text)
    (simp add: wrap_to_width_def split: prod.split, simp, code_simp, simp add: few_chars_def)

end
