(* ===== verification/Screen_Buffer.thy ===== *)
theory Screen_Buffer
  imports Ansi
begin

text \<open>
  \<^verbatim>\<open>src/netbbs/rendering/screen_buffer.py\<close>: a grid of styled cells, and the escape sequences
  that turn a terminal showing one snapshot into one showing another. Bounds checks and colour
  checks that raise are \<open>None\<close>.
\<close>

section \<open>Cells and buffers\<close>

record cell =
  c_char :: ustr
  c_fg :: "color option"
  c_bg :: "color option"
  c_bold :: bool
  c_underline :: bool
  c_reverse :: bool

definition blank_cell :: cell where
  "blank_cell = \<lparr>c_char = [32], c_fg = None, c_bg = None, c_bold = False, c_underline = False,
                 c_reverse = False\<rparr>"

type_synonym snapshot = "cell list list"

record screen_buffer =
  sb_width :: nat
  sb_height :: nat
  sb_rows :: snapshot

definition MAX_WIDTH :: int where "MAX_WIDTH = 500"
definition MAX_HEIGHT :: int where "MAX_HEIGHT = 200"

definition clamp_width :: "int \<Rightarrow> nat" where
  "clamp_width w = nat (max 1 (min w MAX_WIDTH))"

definition clamp_height :: "int \<Rightarrow> nat" where
  "clamp_height h = nat (max 1 (min h MAX_HEIGHT))"

definition blank_grid :: "nat \<Rightarrow> nat \<Rightarrow> snapshot" where
  "blank_grid w h = replicate h (replicate w blank_cell)"

definition new_buffer :: "int \<Rightarrow> int \<Rightarrow> screen_buffer" where
  "new_buffer width height =
     (let w = clamp_width width; h = clamp_height height
      in \<lparr>sb_width = w, sb_height = h, sb_rows = blank_grid w h\<rparr>)"

definition check_bounds :: "screen_buffer \<Rightarrow> int \<Rightarrow> int \<Rightarrow> bool" where
  "check_bounds sb row col \<longleftrightarrow>
     0 \<le> row \<and> row < int (sb_height sb) \<and> 0 \<le> col \<and> col < int (sb_width sb)"

definition put_cell :: "screen_buffer \<Rightarrow> int \<Rightarrow> int \<Rightarrow> cell \<Rightarrow> screen_buffer option" where
  "put_cell sb row col c =
     (if check_bounds sb row col
      then do {
        line \<leftarrow> py_get (sb_rows sb) (nat row);
        line' \<leftarrow> py_set line (nat col) c;
        rows' \<leftarrow> py_set (sb_rows sb) (nat row) line';
        Some (sb\<lparr>sb_rows := rows'\<rparr>)
      } else None)"

definition write_cell ::
  "screen_buffer \<Rightarrow> int \<Rightarrow> int \<Rightarrow> ustr \<Rightarrow> color option \<Rightarrow> color option \<Rightarrow> bool \<Rightarrow> screen_buffer option" where
  "write_cell sb row col ch f b bold =
     put_cell sb row col \<lparr>c_char = ch, c_fg = f, c_bg = b, c_bold = bold, c_underline = False,
                          c_reverse = False\<rparr>"

definition write_wide_cell ::
  "screen_buffer \<Rightarrow> int \<Rightarrow> int \<Rightarrow> ustr \<Rightarrow> color option \<Rightarrow> color option \<Rightarrow> bool \<Rightarrow> screen_buffer option" where
  "write_wide_cell sb row col ch f b bold = do {
     sb1 \<leftarrow> write_cell sb row col ch f b bold;
     if col + 1 < int (sb_width sb1) then write_cell sb1 row (col + 1) [] f b bold else Some sb1
   }"

definition get_cell :: "screen_buffer \<Rightarrow> int \<Rightarrow> int \<Rightarrow> cell option" where
  "get_cell sb row col =
     (if check_bounds sb row col
      then do { line \<leftarrow> py_get (sb_rows sb) (nat row); py_get line (nat col) } else None)"

definition clear_buffer :: "screen_buffer \<Rightarrow> screen_buffer" where
  "clear_buffer sb = sb\<lparr>sb_rows := blank_grid (sb_width sb) (sb_height sb)\<rparr>"

section \<open>Rendering\<close>

definition style_of :: "cell \<Rightarrow> color option \<times> color option \<times> bool \<times> bool \<times> bool" where
  "style_of c = (c_fg c, c_bg c, c_bold c, c_underline c, c_reverse c)"

definition render_run ::
  "ustr \<Rightarrow> color option \<times> color option \<times> bool \<times> bool \<times> bool \<Rightarrow> ustr option" where
  "render_run t st = (case st of (f, b, bold, underline, reverse) \<Rightarrow> colored t f b bold reverse underline)"

text \<open>
  The inner \<open>while\<close> of \<open>diff_ansi\<close>: the first column at or after \<open>col\<close> where the run that began
  with \<open>style\<close> ends. Reading \<open>prev_row[col]\<close> past its end raises.
\<close>

function diff_run_end ::
  "cell list \<Rightarrow> cell list \<Rightarrow> color option \<times> color option \<times> bool \<times> bool \<times> bool \<Rightarrow> nat \<Rightarrow> nat option" where
  "diff_run_end prev cur style col =
     (if col < length cur
      then do {
        p \<leftarrow> py_get prev col;
        if cur ! col \<noteq> p \<and> style_of (cur ! col) = style
        then diff_run_end prev cur style (col + 1) else Some col
      } else Some col)"
  by pat_completeness auto
termination
  by (relation "measure (\<lambda>(prev, cur, style, col). length cur - col)") auto

declare diff_run_end.simps [simp del]

lemma diff_run_end_ge: "diff_run_end prev cur style col = Some e \<Longrightarrow> col \<le> e"
proof (induction prev cur style col rule: diff_run_end.induct)
  case (1 prev cur style col)
  show ?case
  proof (cases "col < length cur \<and> col < length prev \<and> cur ! col \<noteq> prev ! col
      \<and> style_of (cur ! col) = style")
    case True
    then have "diff_run_end prev cur style (col + 1) = Some e"
      using 1(2) by (subst (asm) diff_run_end.simps) (auto simp: py_get_def)
    then show ?thesis using 1(1)[of "prev ! col"] True by simp
  next
    case False
    then show ?thesis
      using 1(2) by (subst (asm) diff_run_end.simps) (auto simp: py_get_def split: if_splits)
  qed
qed

lemma diff_run_end_gt:
  "diff_run_end prev cur (style_of (cur ! col)) col = Some e \<Longrightarrow> col < length cur \<Longrightarrow>
    py_get prev col = Some p \<Longrightarrow> cur ! col \<noteq> p \<Longrightarrow> col < e"
  by (subst (asm) diff_run_end.simps) (auto dest: diff_run_end_ge)

definition run_text :: "cell list \<Rightarrow> nat \<Rightarrow> nat \<Rightarrow> ustr" where
  "run_text cur a b = concat (map c_char (take (b - a) (drop a cur)))"

text \<open>
  The outer \<open>while\<close> for one row. Its second argument bounds the number of passes; each pass moves
  \<open>col\<close> right, so \<open>length cur - col\<close> passes are enough and \<open>diff_row\<close> starts with that many.
\<close>

fun diff_cols :: "nat \<Rightarrow> nat \<Rightarrow> cell list \<Rightarrow> cell list \<Rightarrow> nat \<Rightarrow> ustr option" where
  "diff_cols row 0 prev cur col = (if col < length cur then None else Some [])"
| "diff_cols row (Suc fuel) prev cur col =
     (if col < length cur
      then do {
        p \<leftarrow> py_get prev col;
        if cur ! col = p then diff_cols row fuel prev cur (col + 1)
        else do {
          e \<leftarrow> diff_run_end prev cur (style_of (cur ! col)) col;
          m \<leftarrow> move_cursor (int row + 1) (int col + 1);
          t \<leftarrow> render_run (run_text cur col e) (style_of (cur ! col));
          rest \<leftarrow> diff_cols row fuel prev cur e;
          Some (m @ t @ rest)
        }
      } else Some [])"

definition diff_row :: "nat \<Rightarrow> cell list \<Rightarrow> cell list \<Rightarrow> ustr option" where
  "diff_row row prev cur = diff_cols row (length cur) prev cur 0"

fun diff_rows :: "nat \<Rightarrow> snapshot \<Rightarrow> snapshot \<Rightarrow> ustr option" where
  "diff_rows row (p # ps) (c # cs) = do {
     t \<leftarrow> diff_row row p c;
     rest \<leftarrow> diff_rows (row + 1) ps cs;
     Some (t @ rest)
   }"
| "diff_rows row _ _ = Some []"

definition diff_ansi :: "snapshot \<Rightarrow> snapshot \<Rightarrow> ustr option" where
  "diff_ansi previous current = diff_rows 0 previous current"

text \<open>\<open>full_render_ansi\<close> writes its own copy of the two loops, against \<open>Cell()\<close>.\<close>

function full_run_end ::
  "cell list \<Rightarrow> color option \<times> color option \<times> bool \<times> bool \<times> bool \<Rightarrow> nat \<Rightarrow> nat" where
  "full_run_end cur style col =
     (if col < length cur \<and> cur ! col \<noteq> blank_cell \<and> style_of (cur ! col) = style
      then full_run_end cur style (col + 1) else col)"
  by pat_completeness auto
termination
  by (relation "measure (\<lambda>(cur, style, col). length cur - col)") auto

declare full_run_end.simps [simp del]

fun full_cols :: "nat \<Rightarrow> nat \<Rightarrow> cell list \<Rightarrow> nat \<Rightarrow> ustr option" where
  "full_cols row 0 cur col = (if col < length cur then None else Some [])"
| "full_cols row (Suc fuel) cur col =
     (if col < length cur
      then if cur ! col = blank_cell then full_cols row fuel cur (col + 1)
           else do {
             let e = full_run_end cur (style_of (cur ! col)) col;
             m \<leftarrow> move_cursor (int row + 1) (int col + 1);
             t \<leftarrow> render_run (run_text cur col e) (style_of (cur ! col));
             rest \<leftarrow> full_cols row fuel cur e;
             Some (m @ t @ rest)
           }
      else Some [])"

fun full_rows :: "nat \<Rightarrow> snapshot \<Rightarrow> ustr option" where
  "full_rows row [] = Some []"
| "full_rows row (c # cs) = do {
     t \<leftarrow> full_cols row (length c) c 0;
     rest \<leftarrow> full_rows (row + 1) cs;
     Some (t @ rest)
   }"

definition full_render_ansi :: "snapshot \<Rightarrow> ustr option" where
  "full_render_ansi current = do { t \<leftarrow> full_rows 0 current; Some (clear_screen @ t) }"

section \<open>The buffer as a total map on its coordinates\<close>

definition buffer_wf :: "screen_buffer \<Rightarrow> bool" where
  "buffer_wf sb \<longleftrightarrow> 1 \<le> sb_width sb \<and> sb_width sb \<le> 500 \<and> 1 \<le> sb_height sb \<and> sb_height sb \<le> 200 \<and>
     length (sb_rows sb) = sb_height sb \<and> (\<forall>r\<in>set (sb_rows sb). length r = sb_width sb)"

lemma clamp_width_bounds [simp]: "Suc 0 \<le> clamp_width w" "clamp_width w \<le> 500" "0 < clamp_width w"
  by (simp_all add: clamp_width_def MAX_WIDTH_def)

lemma clamp_height_bounds [simp]: "Suc 0 \<le> clamp_height h" "clamp_height h \<le> 200" "0 < clamp_height h"
  by (simp_all add: clamp_height_def MAX_HEIGHT_def)

lemma blank_grid_dims [simp]:
  "length (blank_grid w h) = h" "r \<in> set (blank_grid w h) \<Longrightarrow> length r = w"
  by (auto simp: blank_grid_def)

lemma new_buffer_wf: "buffer_wf (new_buffer w h)"
  by (auto simp: buffer_wf_def new_buffer_def Let_def)

lemma clear_buffer_wf: "buffer_wf sb \<Longrightarrow> buffer_wf (clear_buffer sb)"
  by (auto simp: buffer_wf_def clear_buffer_def)

lemma put_cell_Some:
  assumes "buffer_wf sb" and "check_bounds sb row col"
  shows "put_cell sb row col c =
    Some (sb\<lparr>sb_rows := (sb_rows sb)[nat row := (sb_rows sb ! nat row)[nat col := c]]\<rparr>)"
proof -
  have "nat row < length (sb_rows sb)" "nat col < length (sb_rows sb ! nat row)"
    using assms by (auto simp: buffer_wf_def check_bounds_def nat_less_iff)
  then show ?thesis using assms(2) by (simp add: put_cell_def)
qed

lemma put_cell_defined: "buffer_wf sb \<Longrightarrow> put_cell sb row col c \<noteq> None \<longleftrightarrow> check_bounds sb row col"
  by (cases "check_bounds sb row col") (simp_all add: put_cell_Some, simp add: put_cell_def)

lemma put_cell_check: "put_cell sb row col c = Some sb' \<Longrightarrow> check_bounds sb row col"
  by (simp add: put_cell_def split: if_splits)

lemma put_cell_wf:
  assumes "buffer_wf sb" and "put_cell sb row col c = Some sb'"
  shows "buffer_wf sb'"
proof -
  have cb: "check_bounds sb row col" using assms(2) by (rule put_cell_check)
  then have "length (sb_rows sb ! nat row) = sb_width sb"
    using assms(1) by (simp add: buffer_wf_def check_bounds_def nat_less_iff)
  moreover have "sb' = sb\<lparr>sb_rows := (sb_rows sb)[nat row := (sb_rows sb ! nat row)[nat col := c]]\<rparr>"
    using assms(2) put_cell_Some[OF assms(1) cb] by simp
  ultimately show ?thesis
    using assms(1) ball_list_update[of "sb_rows sb" "\<lambda>r. length r = sb_width sb"
        "(sb_rows sb ! nat row)[nat col := c]" "nat row"]
    by (simp add: buffer_wf_def)
qed

lemma get_put_cell:
  assumes "buffer_wf sb" and "put_cell sb row col c = Some sb'"
  shows "get_cell sb' r' c' = (if r' = row \<and> c' = col then Some c else get_cell sb r' c')"
proof -
  have cb: "check_bounds sb row col" using assms(2) by (rule put_cell_check)
  have sb': "sb' = sb\<lparr>sb_rows := (sb_rows sb)[nat row := (sb_rows sb ! nat row)[nat col := c]]\<rparr>"
    using assms put_cell_Some[OF assms(1) cb] by simp
  have len: "length (sb_rows sb ! nat r) = sb_width sb" if "0 \<le> r" "r < int (sb_height sb)" for r
    using assms(1) that by (simp add: buffer_wf_def nat_less_iff)
  show ?thesis
    using cb assms(1) len[of row] len[of r'] unfolding sb'
    by (auto simp: get_cell_def check_bounds_def buffer_wf_def nat_less_iff nth_list_update
        eq_nat_nat_iff)
qed

section \<open>A full render is a diff against a blank screen\<close>

lemma diff_run_end_blank:
  "length prev = length cur \<Longrightarrow> \<forall>c\<in>set prev. c = blank_cell \<Longrightarrow>
    diff_run_end prev cur style col = Some (full_run_end cur style col)"
proof (induction prev cur style col rule: diff_run_end.induct)
  case (1 prev cur style col)
  show ?case
  proof (cases "col < length cur")
    case True
    then have g: "py_get prev col = Some blank_cell"
      using 1(2,3) by (simp add: py_get_def)
    have "diff_run_end prev cur style (col + 1) = Some (full_run_end cur style (col + 1))"
      if "cur ! col \<noteq> blank_cell \<and> style_of (cur ! col) = style"
      using 1(1)[OF True g that 1(2,3)] .
    with True g show ?thesis
      by (subst diff_run_end.simps, subst full_run_end.simps) simp
  qed (simp add: diff_run_end.simps[of prev] full_run_end.simps[of cur])
qed

lemma diff_cols_blank:
  "length prev = length cur \<Longrightarrow> \<forall>c\<in>set prev. c = blank_cell \<Longrightarrow>
    diff_cols row fuel prev cur col = full_cols row fuel cur col"
proof (induction row fuel prev cur col rule: diff_cols.induct)
  case (2 row fuel prev cur col)
  show ?case
  proof (cases "col < length cur")
    case True
    then have p: "py_get prev col = Some blank_cell"
      using 2(3,4) by (simp add: py_get_def)
    note r = diff_run_end_blank[OF 2(3,4)]
    show ?thesis
    proof (cases "cur ! col = blank_cell")
      case True
      with \<open>col < length cur\<close> p show ?thesis
        using 2(1)[OF \<open>col < length cur\<close> p True 2(3,4)] by simp
    next
      case False
      with \<open>col < length cur\<close> p show ?thesis
        using 2(2)[OF \<open>col < length cur\<close> p False r _ _ 2(3,4)]
        by (simp add: r Let_def cong: Option.bind_cong)
    qed
  qed simp
qed simp

lemma diff_rows_blank:
  "length prev = length cur \<Longrightarrow> (\<forall>p\<in>set prev. \<forall>c\<in>set p. c = blank_cell) \<Longrightarrow>
    (\<forall>(p, c)\<in>set (zip prev cur). length p = length c) \<Longrightarrow>
    diff_rows row prev cur = full_rows row cur"
proof (induction row prev cur rule: diff_rows.induct)
  case (1 row p ps c cs)
  then have e: "diff_row row p c = full_cols row (length c) c 0"
    by (simp add: diff_row_def diff_cols_blank)
  show ?case
  proof (cases "diff_row row p c")
    case (Some t)
    with 1 have "diff_rows (row + 1) ps cs = full_rows (row + 1) cs" by simp
    with e show ?thesis by simp
  qed (use e in simp)
qed (auto simp: length_Suc_conv)

section \<open>Properties\<close>

text \<open>
  C32: The full repaint and the incremental update agree: repainting a screen writes exactly a clear
  followed by the difference from a blank screen of the same size, though the code writes the two
  loops separately.
\<close>

theorem full_render_is_diff:
  assumes "\<forall>r\<in>set cur. length r = w"
  shows "full_render_ansi cur =
    map_option (\<lambda>t. clear_screen @ t) (diff_ansi (blank_grid w (length cur)) cur)"
proof -
  have "diff_rows 0 (blank_grid w (length cur)) cur = full_rows 0 cur"
    using assms by (intro diff_rows_blank) (auto simp: blank_grid_def set_zip)
  then show ?thesis
    by (simp add: full_render_ansi_def diff_ansi_def bind_map_option map_conv_bind_option o_def)
qed

theorem full_render_is_diff_witness:
  "full_render_ansi [[blank_cell, blank_cell\<lparr>c_char := u ''x'', c_bold := True\<rparr>]] =
    map_option (\<lambda>t. clear_screen @ t)
      (diff_ansi (blank_grid 2 (length [[blank_cell, blank_cell\<lparr>c_char := u ''x'', c_bold := True\<rparr>]]))
        [[blank_cell, blank_cell\<lparr>c_char := u ''x'', c_bold := True\<rparr>]])"
  by (rule full_render_is_diff) simp

text \<open>
  The buffer is a map on its coordinates: a write inside the screen is read back at its cell and
  changes no other cell, and keeps the buffer's shape.
\<close>

theorem buffer_write_read:
  assumes "buffer_wf sb" and "put_cell sb row col c = Some sb'"
  shows "get_cell sb' r' c' = (if r' = row \<and> c' = col then Some c else get_cell sb r' c') \<and> buffer_wf sb'"
  using get_put_cell[OF assms] put_cell_wf[OF assms] by simp

theorem buffer_write_read_witness:
  "get_cell (the (put_cell (new_buffer 3 2) 1 2 (blank_cell\<lparr>c_bold := True\<rparr>))) 1 2 =
     (if (1::int) = 1 \<and> (2::int) = 2 then Some (blank_cell\<lparr>c_bold := True\<rparr>) else get_cell (new_buffer 3 2) 1 2) \<and>
   buffer_wf (the (put_cell (new_buffer 3 2) 1 2 (blank_cell\<lparr>c_bold := True\<rparr>)))"
  by (rule buffer_write_read[OF new_buffer_wf]) code_simp

end
