(* ===== verification/Terminal_Emulator.thy ===== *)
theory Terminal_Emulator
  imports Screen_Buffer Display_Width
begin

text \<open>
  \<^verbatim>\<open>src/netbbs/rendering/terminal_emulator.py\<close>: the server-side copy of a caller's terminal.
  Every list access that Python checks is checked here: an operation returns \<open>None\<close> exactly where
  the code would raise \<open>IndexError\<close>, so the class docstring's "never raise" is a theorem
  (theory \<open>Emulator_Invariant\<close>) and not an artefact of total functions.

  The two memo tables (\<open>_SGR_CACHE\<close> and \<open>_cells_by_pen\<close>) hold results of pure functions; the
  emulator calls those functions directly, and \<open>apply_sgr\<close>'s table is modelled on its own.
\<close>

section \<open>Pens and SGR\<close>

record pen =
  p_fg :: "color option"
  p_bg :: "color option"
  p_bold :: bool
  p_underline :: bool
  p_reverse :: bool

definition default_pen :: pen where
  "default_pen = \<lparr>p_fg = None, p_bg = None, p_bold = False, p_underline = False, p_reverse = False\<rparr>"

definition clamp_byte :: "nat \<Rightarrow> int" where
  "clamp_byte v = max 0 (min 255 (int v))"

text \<open>
  One pass of the \<open>while\<close> loop of \<open>_apply_sgr\<close>: the code just read, the parameters after it; the
  pen it leaves and the parameters still to read (a colour consumes the ones it is made of).
\<close>

definition set_color :: "nat \<Rightarrow> pen \<Rightarrow> color \<Rightarrow> pen" where
  "set_color code p color = (if code = 38 then p\<lparr>p_fg := Some color\<rparr> else p\<lparr>p_bg := Some color\<rparr>)"

definition sgr_pass :: "pen \<Rightarrow> nat \<Rightarrow> nat list \<Rightarrow> pen \<times> nat list" where
  "sgr_pass p code rest =
     (if code = 0 then (default_pen, rest)
      else if code = 1 then (p\<lparr>p_bold := True\<rparr>, rest)
      else if code = 22 then (p\<lparr>p_bold := False\<rparr>, rest)
      else if code = 4 then (p\<lparr>p_underline := True\<rparr>, rest)
      else if code = 24 then (p\<lparr>p_underline := False\<rparr>, rest)
      else if code = 7 then (p\<lparr>p_reverse := True\<rparr>, rest)
      else if code = 27 then (p\<lparr>p_reverse := False\<rparr>, rest)
      else if 30 \<le> code \<and> code \<le> 37 then (p\<lparr>p_fg := Some (Palette (int code - 30))\<rparr>, rest)
      else if 90 \<le> code \<and> code \<le> 97 then (p\<lparr>p_fg := Some (Palette (int code - 90 + 8))\<rparr>, rest)
      else if code = 39 then (p\<lparr>p_fg := None\<rparr>, rest)
      else if 40 \<le> code \<and> code \<le> 47 then (p\<lparr>p_bg := Some (Palette (int code - 40))\<rparr>, rest)
      else if 100 \<le> code \<and> code \<le> 107 then (p\<lparr>p_bg := Some (Palette (int code - 100 + 8))\<rparr>, rest)
      else if code = 49 then (p\<lparr>p_bg := None\<rparr>, rest)
      else if code \<in> {38, 48} \<and> 2 \<le> length rest \<and> rest ! 0 = 5
      then (set_color code p (Palette (clamp_byte (rest ! 1))), drop 2 rest)
      else if code \<in> {38, 48} \<and> 4 \<le> length rest \<and> rest ! 0 = 2
      then (set_color code p (Rgb (clamp_byte (rest ! 1)) (clamp_byte (rest ! 2)) (clamp_byte (rest ! 3))),
            drop 4 rest)
      else (p, rest))"

lemma sgr_pass_shorter: "sgr_pass p code rest = (p', rest') \<Longrightarrow> length rest' \<le> length rest"
  by (auto simp: sgr_pass_def split: if_splits)

function sgr_loop :: "pen \<Rightarrow> nat list \<Rightarrow> pen" where
  "sgr_loop p [] = p"
| "sgr_loop p (code # rest) = (case sgr_pass p code rest of (p', rest') \<Rightarrow> sgr_loop p' rest')"
  by pat_completeness auto
termination
  by (relation "measure (\<lambda>(p, ps). length ps)")
    (auto split: prod.splits intro!: le_imp_less_Suc sgr_pass_shorter)

definition apply_sgr_pure :: "pen \<Rightarrow> nat list \<Rightarrow> pen" where
  "apply_sgr_pure p params = sgr_loop p (if params = [] then [0] else params)"

text \<open>\<open>apply_sgr\<close> with its table, an association from (pen, parameters) to the result.\<close>

type_synonym sgr_cache = "(pen \<times> nat list) \<rightharpoonup> pen"

definition SGR_CACHE_LIMIT :: nat where "SGR_CACHE_LIMIT = 4096"

definition apply_sgr :: "sgr_cache \<Rightarrow> pen \<Rightarrow> nat list \<Rightarrow> pen \<times> sgr_cache" where
  "apply_sgr cache p params =
     (case cache (p, params) of
        Some cached \<Rightarrow> (cached, cache)
      | None \<Rightarrow>
          let result = apply_sgr_pure p params;
              cache1 = (if SGR_CACHE_LIMIT \<le> card (dom cache) then Map.empty else cache)
          in (result, cache1((p, params) \<mapsto> result)))"

definition int_or_zero :: "ustr \<Rightarrow> nat" where
  "int_or_zero f = (if is_ascii_number f then undec f else 0)"

definition colon_part :: "ustr \<Rightarrow> nat list" where
  "colon_part part =
     (if 58 \<notin> set part then [int_or_zero part]
      else let numbers = map int_or_zero (split_on 58 part); k = length numbers
           in if numbers ! 0 \<in> {38, 48} \<and> 3 \<le> k \<and> numbers ! 1 = 5
              then [numbers ! 0, 5, numbers ! 2]
              else if numbers ! 0 \<in> {38, 48} \<and> 5 \<le> k \<and> numbers ! 1 = 2
              then [numbers ! 0, 2] @ (if 6 \<le> k then take 3 (drop 3 numbers) else take 3 (drop 2 numbers))
              else [numbers ! 0])"

definition sgr_params_with_colons :: "ustr \<Rightarrow> nat list" where
  "sgr_params_with_colons body = concat (map colon_part (split_on 59 body))"

fun sgr_color_code :: "nat \<Rightarrow> color option \<Rightarrow> ustr list" where
  "sgr_color_code base None = []"
| "sgr_color_code base (Some (Palette c)) = [dec base @ u '';5;'' @ show_int c]"
| "sgr_color_code base (Some (Rgb r g b)) =
     [dec base @ u '';2;'' @ show_int r @ u '';'' @ show_int g @ u '';'' @ show_int b]"

definition pen_sgr :: "pen \<Rightarrow> ustr" where
  "pen_sgr p =
     csi @ join_with [59]
       ([u ''0''] @ (if p_bold p then [u ''1''] else []) @ (if p_underline p then [u ''4''] else [])
        @ (if p_reverse p then [u ''7''] else []) @ sgr_color_code 38 (p_fg p) @ sgr_color_code 48 (p_bg p))
     @ u ''m''"

section \<open>The terminal's state\<close>

datatype pstate = Ground | Escape | Csi | Osc | OscEscape | Charset | CsiIgnore

record emu =
  e_width :: nat
  e_height :: nat
  e_wraps_immediately :: bool
  e_rows :: snapshot
  e_row :: nat
  e_col :: nat
  e_pen :: pen
  e_visible :: bool
  e_top :: nat
  e_bottom :: nat
  e_pending :: bool
  e_saved :: "(nat \<times> nat \<times> pen) option"
  e_main_rows :: "snapshot option"
  e_main_saved :: "(nat \<times> nat \<times> pen) option"
  e_main_margins :: "nat \<times> nat"
  e_state :: pstate
  e_seq :: ustr

definition MAX_SEQUENCE :: nat where "MAX_SEQUENCE = 64"
definition MAX_CELL_CHARS :: nat where "MAX_CELL_CHARS = 8"

definition fresh :: "nat \<Rightarrow> nat \<Rightarrow> bool \<Rightarrow> emu" where
  "fresh w h wraps =
     \<lparr>e_width = w, e_height = h, e_wraps_immediately = wraps, e_rows = blank_grid w h,
      e_row = 0, e_col = 0, e_pen = default_pen, e_visible = True, e_top = 0, e_bottom = h - 1,
      e_pending = False, e_saved = None, e_main_rows = None, e_main_saved = None,
      e_main_margins = (0, h - 1), e_state = Ground, e_seq = []\<rparr>"

definition new_emulator :: "int \<Rightarrow> int \<Rightarrow> bool \<Rightarrow> emu" where
  "new_emulator width height wraps = fresh (clamp_width width) (clamp_height height) wraps"

definition reset :: "emu \<Rightarrow> emu" where
  "reset e = fresh (e_width e) (e_height e) (e_wraps_immediately e)"

text \<open>What erasing leaves: blank, in the pen's background.\<close>

definition erased :: "emu \<Rightarrow> cell" where
  "erased e = (if p_bg (e_pen e) \<noteq> None then blank_cell\<lparr>c_bg := p_bg (e_pen e)\<rparr> else blank_cell)"

definition pen_cell :: "emu \<Rightarrow> ustr \<Rightarrow> cell" where
  "pen_cell e ch =
     \<lparr>c_char = ch, c_fg = p_fg (e_pen e), c_bg = p_bg (e_pen e), c_bold = p_bold (e_pen e),
      c_underline = p_underline (e_pen e), c_reverse = p_reverse (e_pen e)\<rparr>"

text \<open>An operation on one row in place: \<open>line = self._rows[row]\<close>, then mutating \<open>line\<close>.\<close>

definition on_line :: "emu \<Rightarrow> nat \<Rightarrow> (cell list \<Rightarrow> cell list option) \<Rightarrow> emu option" where
  "on_line e r f = do {
     line \<leftarrow> py_get (e_rows e) r;
     line' \<leftarrow> f line;
     Some (e\<lparr>e_rows := (e_rows e)[r := line']\<rparr>)
   }"

section \<open>Movement and scrolling\<close>

definition scroll_up :: "emu \<Rightarrow> int \<Rightarrow> nat \<Rightarrow> emu" where
  "scroll_up e n tp =
     (let count = nat (max 0 (min n (int (e_bottom e) - int tp + 1)))
      in if count = 0 then e
         else let blank = replicate (e_width e) (erased e);
                  rows1 = take tp (e_rows e) @ drop (tp + count) (e_rows e);
                  i = e_bottom e + 1 - count
              in e\<lparr>e_rows := take i rows1 @ replicate count blank @ drop i rows1\<rparr>)"

definition scroll_down :: "emu \<Rightarrow> int \<Rightarrow> nat \<Rightarrow> emu" where
  "scroll_down e n tp =
     (let count = nat (max 0 (min n (int (e_bottom e) - int tp + 1)))
      in if count = 0 then e
         else let blank = replicate (e_width e) (erased e);
                  i = e_bottom e + 1 - count;
                  rows1 = take i (e_rows e) @ drop (e_bottom e + 1) (e_rows e)
              in e\<lparr>e_rows := take tp rows1 @ replicate count blank @ drop tp rows1\<rparr>)"

definition linefeed :: "emu \<Rightarrow> emu" where
  "linefeed e =
     (let e = e\<lparr>e_pending := False\<rparr>
      in if e_row e = e_bottom e then scroll_up e 1 (e_top e)
         else if int (e_row e) < int (e_height e) - 1 then e\<lparr>e_row := e_row e + 1\<rparr>
         else e)"

definition reverse_index :: "emu \<Rightarrow> emu" where
  "reverse_index e =
     (let e = e\<lparr>e_pending := False\<rparr>
      in if e_row e = e_top e then scroll_down e 1 (e_top e)
         else if e_row e > 0 then e\<lparr>e_row := e_row e - 1\<rparr>
         else e)"

definition restore_cursor :: "emu \<Rightarrow> emu" where
  "restore_cursor e =
     (case e_saved e of
        None \<Rightarrow> e\<lparr>e_row := 0, e_col := 0, e_pending := False\<rparr>
      | Some (r, c, p) \<Rightarrow>
          e\<lparr>e_pen := p, e_row := min r (e_height e - 1), e_col := min c (e_width e - 1),
            e_pending := False\<rparr>)"

definition move_to :: "emu \<Rightarrow> int \<Rightarrow> int \<Rightarrow> emu" where
  "move_to e r c =
     e\<lparr>e_row := nat (max 0 (min r (int (e_height e) - 1))),
       e_col := nat (max 0 (min c (int (e_width e) - 1))),
       e_pending := False\<rparr>"

section \<open>Printing\<close>

text \<open>One edge of \<open>_split_wide\<close>: blank both halves of a wide glyph the edge cuts through.\<close>

definition split_edge :: "nat \<Rightarrow> cell \<Rightarrow> cell list \<Rightarrow> nat \<Rightarrow> cell list option" where
  "split_edge w blank line edge =
     (if 0 < edge \<and> edge < w
      then do {
        c \<leftarrow> py_get line edge;
        if c_char c = []
        then do {
          p \<leftarrow> py_get line (edge - 1);
          if c_char p \<noteq> []
          then do { l1 \<leftarrow> py_set line (edge - 1) blank; py_set l1 edge blank }
          else Some line
        } else Some line
      } else Some line)"

definition split_line :: "emu \<Rightarrow> nat \<Rightarrow> nat \<Rightarrow> cell list \<Rightarrow> cell list option" where
  "split_line e a b line = do {
     l1 \<leftarrow> split_edge (e_width e) (erased e) line a;
     split_edge (e_width e) (erased e) l1 b
   }"

definition split_wide :: "emu \<Rightarrow> nat \<Rightarrow> nat \<Rightarrow> nat \<Rightarrow> emu option" where
  "split_wide e r a b = on_line e r (split_line e a b)"

definition last_column_written :: "emu \<Rightarrow> emu" where
  "last_column_written e =
     (if e_wraps_immediately e
      then (linefeed (e\<lparr>e_col := 0\<rparr>))\<lparr>e_pending := False\<rparr>
      else e\<lparr>e_col := e_width e - 1, e_pending := True\<rparr>)"

text \<open>The end of both printing routines: move right, and see whether the last column was passed.\<close>

definition advance :: "emu \<Rightarrow> nat \<Rightarrow> emu" where
  "advance e k =
     (let e = e\<lparr>e_col := e_col e + k\<rparr>
      in if e_col e \<ge> e_width e then last_column_written e else e)"

definition wrap_if_pending :: "emu \<Rightarrow> emu" where
  "wrap_if_pending e =
     (if e_pending e then (linefeed (e\<lparr>e_col := 0\<rparr>))\<lparr>e_pending := False\<rparr> else e)"

text \<open>
  The loop of \<open>_print_ascii\<close>. A pass that takes no character would loop for ever, so the loop is a
  \<^theory_text>\<open>partial_function\<close>: returning is part of what is proved.
\<close>

definition ascii_step :: "emu \<Rightarrow> ustr \<Rightarrow> (emu \<times> nat) option" where
  "ascii_step e run =
     (let e = wrap_if_pending e;
          tk = min (length run) (e_width e - e_col e)
      in do {
        e1 \<leftarrow> split_wide e (e_row e) (e_col e) (e_col e + tk);
        e2 \<leftarrow> on_line e1 (e_row e1)
               (\<lambda>line. Some (py_splice line (e_col e1) (e_col e1 + tk)
                               (map (\<lambda>ch. pen_cell e1 [ch]) (take tk run))));
        Some (advance e2 tk, tk)
      })"

partial_function (option) print_ascii :: "emu \<Rightarrow> ustr \<Rightarrow> emu option" where
  "print_ascii e run =
     (if run = [] then Some e
      else do { (e', tk) \<leftarrow> ascii_step e run; print_ascii e' (drop tk run) })"

text \<open>A zero-width character joins the one before it.\<close>

definition mark_at :: "emu \<Rightarrow> int \<Rightarrow> nat \<Rightarrow> emu option" where
  "mark_at e col ch =
     (if 0 \<le> col \<and> col < int (e_width e)
      then on_line e (e_row e) (\<lambda>line. do {
             c \<leftarrow> py_get line (nat col);
             if c_char c \<noteq> [] \<and> length (c_char c) < MAX_CELL_CHARS
             then py_set line (nat col) (c\<lparr>c_char := c_char c @ [ch]\<rparr>) else Some line })
      else Some e)"

definition combine_mark :: "emu \<Rightarrow> nat \<Rightarrow> emu option" where
  "combine_mark e ch =
     (let col = (if e_pending e then int (e_col e) else int (e_col e) - 1)
      in if 0 < col
         then do {
           line \<leftarrow> py_get (e_rows e) (e_row e);
           c \<leftarrow> py_get line (nat col);
           mark_at e (if c_char c = [] then col - 1 else col) ch
         }
         else mark_at e col ch)"

text \<open>Writing one glyph of width 1 or 2 at the cursor.\<close>

definition place_glyph :: "emu \<Rightarrow> nat \<Rightarrow> nat \<Rightarrow> emu option" where
  "place_glyph e ch width = do {
     e1 \<leftarrow> split_wide e (e_row e) (e_col e) (e_col e + width);
     e2 \<leftarrow> on_line e1 (e_row e1) (\<lambda>line. do {
             l1 \<leftarrow> py_set line (e_col e1) (pen_cell e1 [ch]);
             if width = 2 then py_set l1 (e_col e1 + 1) (pen_cell e1 []) else Some l1 });
     Some (advance e2 width)
   }"

definition print_char :: "unidata \<Rightarrow> emu \<Rightarrow> nat \<Rightarrow> emu option" where
  "print_char U e ch =
     (if \<not> uni_printable U ch \<and> uni_combining U ch = 0 then Some e
      else let width = char_width U ch in
      if width = 0 then combine_mark e ch
      else let e = wrap_if_pending e in
      if width = 2 \<and> int (e_col e) = int (e_width e) - 1
      then if e_width e < 2 then Some e
           else do {
             e1 \<leftarrow> split_wide e (e_row e) (e_col e) (e_col e + 1);
             e2 \<leftarrow> on_line e1 (e_row e1) (\<lambda>line. py_set line (e_col e1) (erased e1));
             place_glyph (linefeed (e2\<lparr>e_col := 0\<rparr>)) ch width
           }
      else place_glyph e ch width)"

section \<open>Erasing, inserting, deleting\<close>

definition erase_line :: "emu \<Rightarrow> nat \<Rightarrow> emu option" where
  "erase_line e mode = do {
     _ \<leftarrow> py_get (e_rows e) (e_row e);
     if mode = 0 \<and> e_pending e then Some e
     else do {
       e1 \<leftarrow> (if mode = 0 then do {
                e1 \<leftarrow> split_wide e (e_row e) (e_col e) (e_width e);
                on_line e1 (e_row e1) (\<lambda>line. Some (take (e_col e1) line @
                  replicate (e_width e1 - e_col e1) (erased e1))) }
              else if mode = 1 then do {
                e1 \<leftarrow> split_wide e (e_row e) 0 (e_col e + 1);
                on_line e1 (e_row e1) (\<lambda>line. Some (replicate (e_col e1 + 1) (erased e1) @
                  drop (e_col e1 + 1) line)) }
              else if mode = 2 then
                on_line e (e_row e) (\<lambda>line. Some (replicate (e_width e) (erased e)))
              else Some e);
       Some (e1\<lparr>e_pending := False\<rparr>)
     }
   }"

text \<open>\<open>for row in range(a, b): self._rows[row] = [blank] * self.width\<close>.\<close>

definition blank_rows :: "emu \<Rightarrow> nat \<Rightarrow> nat \<Rightarrow> emu option" where
  "blank_rows e a b =
     (if a < b \<and> length (e_rows e) < b then None
      else Some (e\<lparr>e_rows := map (\<lambda>(i, r). if a \<le> i \<and> i < b then replicate (e_width e) (erased e) else r)
                                (zip [0..<length (e_rows e)] (e_rows e))\<rparr>))"

definition erase_display :: "emu \<Rightarrow> nat \<Rightarrow> emu option" where
  "erase_display e mode = do {
     e1 \<leftarrow> (if mode = 0 then do { e1 \<leftarrow> erase_line e 0; blank_rows e1 (e_row e1 + 1) (e_height e1) }
           else if mode = 1 then do { e1 \<leftarrow> erase_line e 1; blank_rows e1 0 (e_row e1) }
           else if mode = 2 then
             Some (e\<lparr>e_rows := replicate (e_height e) (replicate (e_width e) (erased e))\<rparr>)
           else Some e);
     Some (e1\<lparr>e_pending := False\<rparr>)
   }"

definition insert_chars :: "emu \<Rightarrow> nat \<Rightarrow> emu option" where
  "insert_chars e n = do {
     _ \<leftarrow> py_get (e_rows e) (e_row e);
     let count = min n (e_width e - e_col e);
     e1 \<leftarrow> split_wide e (e_row e) (e_col e) (e_col e);
     e2 \<leftarrow> split_wide e1 (e_row e1) (e_width e1 - count) (e_width e1);
     on_line e2 (e_row e2) (\<lambda>line. Some (take (e_width e2)
       (take (e_col e2) line @ replicate count (erased e2) @ drop (e_col e2) line)))
   }"

definition delete_chars :: "emu \<Rightarrow> nat \<Rightarrow> emu option" where
  "delete_chars e n = do {
     _ \<leftarrow> py_get (e_rows e) (e_row e);
     let count = min n (e_width e - e_col e);
     e1 \<leftarrow> split_wide e (e_row e) (e_col e) (e_col e + count);
     on_line e1 (e_row e1) (\<lambda>line. Some (take (e_col e1) line @ drop (e_col e1 + count) line
       @ replicate count (erased e1)))
   }"

definition erase_chars :: "emu \<Rightarrow> nat \<Rightarrow> emu option" where
  "erase_chars e n = do {
     let count = min n (e_width e - e_col e);
     e1 \<leftarrow> split_wide e (e_row e) (e_col e) (e_col e + count);
     on_line e1 (e_row e1) (\<lambda>line. Some (py_splice line (e_col e1) (e_col e1 + count)
       (replicate count (erased e1))))
   }"

definition alternate_screen :: "emu \<Rightarrow> bool \<Rightarrow> bool \<Rightarrow> emu" where
  "alternate_screen e enter save_cursor =
     (case e_main_rows e of
        None \<Rightarrow>
          if enter then
            e\<lparr>e_main_saved := (if save_cursor then Some (e_row e, e_col e, e_pen e) else e_saved e),
              e_main_margins := (e_top e, e_bottom e), e_main_rows := Some (e_rows e),
              e_rows := blank_grid (e_width e) (e_height e), e_top := 0, e_bottom := e_height e - 1,
              e_pending := False\<rparr>
          else e
      | Some rows \<Rightarrow>
          if \<not> enter then
            let e1 = e\<lparr>e_rows := rows, e_main_rows := None, e_saved := e_main_saved e,
                       e_main_saved := None, e_top := fst (e_main_margins e),
                       e_bottom := snd (e_main_margins e)\<rparr>
            in if save_cursor then restore_cursor e1 else e1
          else e)"

section \<open>Control sequences\<close>

text \<open>The parameters of a CSI, as \<open>_csi\<close> reads them (no colon in the body).\<close>

definition csi_number :: "ustr \<Rightarrow> nat" where
  "csi_number part =
     (if is_ascii_number part then undec part
      else let digits = filter is_digit part in if digits \<noteq> [] then undec digits else 0)"

definition csi_params :: "ustr \<Rightarrow> nat list" where
  "csi_params body = (if body = [] then [] else map csi_number (split_on 59 body))"

definition arg :: "nat list \<Rightarrow> nat \<Rightarrow> nat \<Rightarrow> nat" where
  "arg params i dflt =
     (let value = (if i < length params then params ! i else 0) in if value \<noteq> 0 then value else dflt)"

text \<open>The final bytes are written as the characters the source compares them with.\<close>

definition csi_private :: "emu \<Rightarrow> nat list \<Rightarrow> nat \<Rightarrow> emu" where
  "csi_private e params final =
     (let hl = (final = of_char CHR ''h'' \<or> final = of_char CHR ''l'');
          on = (final = of_char CHR ''h'');
          e1 = (if hl \<and> 25 \<in> set params then e\<lparr>e_visible := on\<rparr> else e)
      in if hl \<and> {47, 1047, 1049} \<inter> set params \<noteq> {}
         then alternate_screen e1 on (1049 \<in> set params) else e1)"

definition set_margins :: "emu \<Rightarrow> int \<Rightarrow> int \<Rightarrow> emu" where
  "set_margins e tp btm =
     move_to (if 0 \<le> tp \<and> tp < btm \<and> btm < int (e_height e)
              then e\<lparr>e_top := nat tp, e_bottom := nat btm\<rparr>
              else e\<lparr>e_top := 0, e_bottom := e_height e - 1\<rparr>) 0 0"

definition csi_public :: "emu \<Rightarrow> nat list \<Rightarrow> nat \<Rightarrow> emu option" where
  "csi_public e params final =
     (let a = (\<lambda>i d. int (arg params i d)); r = int (e_row e); c = int (e_col e) in
      if final = of_char CHR ''H'' \<or> final = of_char CHR ''f'' then Some (move_to e (a 0 1 - 1) (a 1 1 - 1))
      else if final = of_char CHR ''A''
        then Some (move_to e (max (if e_row e \<ge> e_top e then int (e_top e) else 0) (r - a 0 1)) c)
      else if final = of_char CHR ''B''
        then Some (move_to e (min (if e_row e \<le> e_bottom e then int (e_bottom e) else int (e_height e) - 1)
                                  (r + a 0 1)) c)
      else if final = of_char CHR ''C'' then Some (move_to e r (c + a 0 1))
      else if final = of_char CHR ''D'' then Some (move_to e r (c - a 0 1))
      else if final = of_char CHR ''E'' then Some (move_to e (r + a 0 1) 0)
      else if final = of_char CHR ''F'' then Some (move_to e (r - a 0 1) 0)
      else if final = of_char CHR ''G'' then Some (move_to e r (a 0 1 - 1))
      else if final = of_char CHR ''d'' then Some (move_to e (a 0 1 - 1) c)
      else if final = of_char CHR ''J'' then erase_display e (arg params 0 0)
      else if final = of_char CHR ''K'' then erase_line e (arg params 0 0)
      else if final = of_char CHR ''L''
        then Some (if e_top e \<le> e_row e \<and> e_row e \<le> e_bottom e
                   then move_to (scroll_down e (a 0 1) (e_row e)) r 0 else e)
      else if final = of_char CHR ''M''
        then Some (if e_top e \<le> e_row e \<and> e_row e \<le> e_bottom e
                   then move_to (scroll_up e (a 0 1) (e_row e)) r 0 else e)
      else if final = of_char CHR ''@'' then insert_chars e (arg params 0 1)
      else if final = of_char CHR ''P'' then delete_chars e (arg params 0 1)
      else if final = of_char CHR ''X'' then erase_chars e (arg params 0 1)
      else if final = of_char CHR ''S'' then Some (scroll_up e (a 0 1) (e_top e))
      else if final = of_char CHR ''T'' then Some (scroll_down e (a 0 1) (e_top e))
      else if final = of_char CHR ''r'' then Some (set_margins e (a 0 1 - 1) (a 1 (e_height e) - 1))
      else if final = of_char CHR ''s'' then Some (e\<lparr>e_saved := Some (e_row e, e_col e, e_pen e)\<rparr>)
      else if final = of_char CHR ''u'' then Some (restore_cursor e)
      else if final = of_char CHR ''m'' then Some (e\<lparr>e_pen := apply_sgr_pure (e_pen e) params\<rparr>)
      else Some e)"

definition run_csi :: "emu \<Rightarrow> ustr \<Rightarrow> nat \<Rightarrow> emu option" where
  "run_csi e seq final =
     (if list_ex (\<lambda>ch. 0x20 \<le> ch \<and> ch \<le> 0x2f) seq then Some e
      else let private = (seq \<noteq> [] \<and> hd seq \<in> {63, 62, 60, 61});
               body = (if private then tl seq else seq)
           in if 58 \<in> set body \<and> (final \<noteq> of_char CHR ''m'' \<or> private) then Some e
              else let params = (if 58 \<in> set body then sgr_params_with_colons body else csi_params body)
                   in if final = of_char CHR ''m'' \<and> \<not> private
                      then Some (e\<lparr>e_pen := apply_sgr_pure (e_pen e) params\<rparr>)
                      else if private then Some (csi_private e params final)
                      else csi_public e params final)"

section \<open>The parser\<close>

definition control :: "emu \<Rightarrow> nat \<Rightarrow> emu" where
  "control e ch =
     (if ch = 13 then e\<lparr>e_col := 0, e_pending := False\<rparr>
      else if ch \<in> {10, 11, 12} then linefeed e
      else if ch = 8 then e\<lparr>e_col := (if e_col e > 0 then e_col e - 1 else e_col e), e_pending := False\<rparr>
      else if ch = 9 then e\<lparr>e_col := min (e_width e - 1) ((e_col e div 8 + 1) * 8), e_pending := False\<rparr>
      else e)"

definition escape :: "emu \<Rightarrow> nat \<Rightarrow> emu" where
  "escape e ch =
     (let e = e\<lparr>e_state := Ground\<rparr> in
      if ch = of_char CHR ''['' then e\<lparr>e_state := Csi, e_seq := []\<rparr>
      else if ch \<in> set (u '']PX^_'') then e\<lparr>e_state := Osc\<rparr>
      else if 0x20 \<le> ch \<and> ch \<le> 0x2f then e\<lparr>e_state := Charset\<rparr>
      else if ch = of_char CHR ''7'' then e\<lparr>e_saved := Some (e_row e, e_col e, e_pen e)\<rparr>
      else if ch = of_char CHR ''8'' then restore_cursor e
      else if ch = of_char CHR ''D'' then linefeed e
      else if ch = of_char CHR ''E'' then linefeed (e\<lparr>e_col := 0\<rparr>)
      else if ch = of_char CHR ''M'' then reverse_index e
      else if ch = of_char CHR ''c'' then reset e
      else e)"

text \<open>One character through the state machine (the loop body below the two fast paths).\<close>

definition feed_char :: "unidata \<Rightarrow> emu \<Rightarrow> nat \<Rightarrow> emu option" where
  "feed_char U e ch =
     (case e_state e of
        Ground \<Rightarrow>
          if ch = ESC then Some (e\<lparr>e_state := Escape\<rparr>)
          else if ch < 32 \<or> ch = 127 then Some (control e ch)
          else print_char U e ch
      | Escape \<Rightarrow> Some (escape e ch)
      | Csi \<Rightarrow>
          if csi_final ch then run_csi (e\<lparr>e_state := Ground\<rparr>) (e_seq e) ch
          else if MAX_SEQUENCE \<le> length (e_seq e) then Some (e\<lparr>e_state := CsiIgnore\<rparr>)
          else Some (e\<lparr>e_seq := e_seq e @ [ch]\<rparr>)
      | CsiIgnore \<Rightarrow> Some (if csi_final ch then e\<lparr>e_state := Ground\<rparr> else e)
      | Osc \<Rightarrow>
          Some (if ch = 7 then e\<lparr>e_state := Ground\<rparr>
                else if ch = ESC then e\<lparr>e_state := OscEscape\<rparr> else e)
      | OscEscape \<Rightarrow> Some (e\<lparr>e_state := Ground\<rparr>)
      | Charset \<Rightarrow>
          Some (if ch = ESC then e\<lparr>e_state := Escape\<rparr>
                else if \<not> (0x20 \<le> ch \<and> ch \<le> 0x2f) then e\<lparr>e_state := Ground\<rparr> else e))"

definition ascii_printable :: "nat \<Rightarrow> bool" where
  "ascii_printable c \<longleftrightarrow> 0x20 \<le> c \<and> c \<le> 0x7e"

text \<open>\<open>_WHOLE_CSI\<close>: parameter bytes (at most 64), final byte, rest.\<close>

definition whole_csi :: "ustr \<Rightarrow> (ustr \<times> nat \<times> ustr) option" where
  "whole_csi s =
     (if take 2 s = csi
      then let body = takeWhile csi_param (drop 2 s)
           in if length body \<le> 64
              then (case dropWhile csi_param (drop 2 s) of
                      [] \<Rightarrow> None
                    | c # rest \<Rightarrow> if csi_final c then Some (body, c, rest) else None)
              else None
      else None)"

lemma whole_csi_shorter: "whole_csi s = Some (b, c, rest) \<Longrightarrow> length rest < length s"
  by (auto simp: whole_csi_def Let_def split: if_splits list.splits dest!: length_dropWhile_Cons)

function feed :: "unidata \<Rightarrow> emu \<Rightarrow> ustr \<Rightarrow> emu option" where
  "feed U e [] = Some e"
| "feed U e (ch # rest) =
     (if e_state e = Ground \<and> ascii_printable ch
      then do {
        e' \<leftarrow> print_ascii e (takeWhile ascii_printable (ch # rest));
        feed U e' (dropWhile ascii_printable (ch # rest))
      }
      else case (if e_state e = Ground then whole_csi (ch # rest) else None) of
        Some (body, final, rest') \<Rightarrow> do { e' \<leftarrow> run_csi e body final; feed U e' rest' }
      | None \<Rightarrow> do { e' \<leftarrow> feed_char U e ch; feed U e' rest })"
  by pat_completeness auto
termination
  by (relation "measure (\<lambda>(U, e, s). length s)")
    (auto simp: le_imp_less_Suc length_dropWhile_le split: if_splits dest: whole_csi_shorter)

section \<open>Size and inspection\<close>

definition reshape_row :: "nat \<Rightarrow> cell list \<Rightarrow> cell list option" where
  "reshape_row width row =
     (let kept = take width row @ replicate (width - length row) blank_cell
      in if width < length row \<and> c_char (row ! width) = []
         then do { l \<leftarrow> py_get kept (length kept - 1);
                   if c_char l \<noteq> [] then py_set kept (length kept - 1) blank_cell else Some kept }
         else Some kept)"

fun map_opt :: "('a \<Rightarrow> 'b option) \<Rightarrow> 'a list \<Rightarrow> 'b list option" where
  "map_opt f [] = Some []"
| "map_opt f (x # xs) = do { y \<leftarrow> f x; ys \<leftarrow> map_opt f xs; Some (y # ys) }"

definition reshape :: "nat \<Rightarrow> nat \<Rightarrow> snapshot \<Rightarrow> snapshot option" where
  "reshape width height grid = do {
     rows \<leftarrow> map_opt (reshape_row width) (take height grid);
     Some (rows @ replicate (height - length rows) (replicate width blank_cell))
   }"

definition resize :: "emu \<Rightarrow> int \<Rightarrow> int \<Rightarrow> emu option" where
  "resize e w h =
     (let width = clamp_width w; height = clamp_height h
      in if (width, height) = (e_width e, e_height e) then Some e
         else do {
           rows \<leftarrow> reshape width height (e_rows e);
           main \<leftarrow> (case e_main_rows e of None \<Rightarrow> Some None
                     | Some m \<Rightarrow> map_option Some (reshape width height m));
           Some (e\<lparr>e_rows := rows, e_main_rows := main, e_width := width, e_height := height,
                   e_top := 0, e_bottom := height - 1, e_main_margins := (0, height - 1),
                   e_row := min (e_row e) (height - 1), e_col := min (e_col e) (width - 1),
                   e_pending := False\<rparr>)
         })"

definition restore_ansi :: "emu \<Rightarrow> ustr option" where
  "restore_ansi e = do {
     full \<leftarrow> full_render_ansi (e_rows e);
     region \<leftarrow> (if (e_top e, e_bottom e) \<noteq> (0, e_height e - 1)
               then set_scroll_region (int (e_top e) + 1) (int (e_bottom e) + 1) else Some []);
     cur \<leftarrow> move_cursor (int (e_row e) + 1) (int (e_col e) + 1);
     last \<leftarrow> (if e_pending e
             then do {
               line \<leftarrow> py_get (e_rows e) (e_row e);
               (col, back) \<leftarrow> (if 0 < e_col e
                 then do { c \<leftarrow> py_get line (e_col e);
                           if c_char c = []
                           then do { b \<leftarrow> move_cursor (int (e_row e) + 1) (int (e_col e - 1) + 1);
                                     Some (e_col e - 1, b) }
                           else Some (e_col e, []) }
                 else Some (e_col e, []));
               c \<leftarrow> py_get line col;
               t \<leftarrow> (if c_char c \<noteq> []
                    then colored (c_char c) (c_fg c) (c_bg c) (c_bold c) (c_reverse c) (c_underline c)
                    else Some []);
               Some (back @ t)
             } else Some []);
     Some (csi @ u ''r'' @ full @ region @ cur @ last @ pen_sgr (e_pen e)
           @ (if e_visible e then csi @ u ''?25h'' else csi @ u ''?25l''))
   }"

end
