(* ===== verification/Emulator_Invariant.thy ===== *)
theory Emulator_Invariant
  imports Terminal_Emulator
begin

text \<open>
  The terminal copy never raises and keeps its shape: a well-formedness invariant (dimensions,
  cursor and margins in range, colours in 0-255, at most eight code points in a cell, no
  continuation half without its leading half) that every operation keeps, for any text fed.
\<close>

section \<open>Lines without half glyphs\<close>

fun color_ok :: "color option \<Rightarrow> bool" where
  "color_ok None = True"
| "color_ok (Some (Palette c)) = valid_color c"
| "color_ok (Some (Rgb r g b)) = valid_rgb r g b"

definition pen_ok :: "pen \<Rightarrow> bool" where
  "pen_ok p \<longleftrightarrow> color_ok (p_fg p) \<and> color_ok (p_bg p)"

definition cell_ok :: "cell \<Rightarrow> bool" where
  "cell_ok c \<longleftrightarrow> color_ok (c_fg c) \<and> color_ok (c_bg c) \<and> length (c_char c) \<le> MAX_CELL_CHARS"

text \<open>Every continuation cell (empty \<open>char\<close>) stands right of a cell that is not one.\<close>

definition cells_ok :: "cell list \<Rightarrow> bool" where
  "cells_ok l \<longleftrightarrow> (\<forall>i<length l. c_char (l ! i) = [] \<longrightarrow> 0 < i \<and> c_char (l ! (i - 1)) \<noteq> [])"

definition line_ok :: "nat \<Rightarrow> cell list \<Rightarrow> bool" where
  "line_ok w l \<longleftrightarrow> length l = w \<and> cells_ok l \<and> (\<forall>c\<in>set l. cell_ok c)"

definition clean_at :: "cell list \<Rightarrow> nat \<Rightarrow> bool" where
  "clean_at l i \<longleftrightarrow> (i < length l \<longrightarrow> c_char (l ! i) \<noteq> [])"

lemma cells_ok_Nil [simp]: "cells_ok []"
  by (simp add: cells_ok_def)

lemma cells_ok_append: "cells_ok xs \<Longrightarrow> cells_ok ys \<Longrightarrow> cells_ok (xs @ ys)"
  unfolding cells_ok_def
proof (intro allI impI)
  fix i
  assume xs: "\<forall>i<length xs. c_char (xs ! i) = [] \<longrightarrow> 0 < i \<and> c_char (xs ! (i - 1)) \<noteq> []"
    and ys: "\<forall>i<length ys. c_char (ys ! i) = [] \<longrightarrow> 0 < i \<and> c_char (ys ! (i - 1)) \<noteq> []"
    and i: "i < length (xs @ ys)" and e: "c_char ((xs @ ys) ! i) = []"
  show "0 < i \<and> c_char ((xs @ ys) ! (i - 1)) \<noteq> []"
  proof (cases "i < length xs")
    case True
    then show ?thesis using xs e by (auto simp: nth_append)
  next
    case False
    then have "i - length xs < length ys" "c_char (ys ! (i - length xs)) = []"
      using i e by (auto simp: nth_append)
    then have "0 < i - length xs" "c_char (ys ! (i - length xs - 1)) \<noteq> []"
      using ys by auto
    then show ?thesis by (auto simp: nth_append)
  qed
qed

lemma cells_ok_take [simp]: "cells_ok xs \<Longrightarrow> cells_ok (take n xs)"
  by (auto simp: cells_ok_def)

lemma cells_ok_drop: "cells_ok xs \<Longrightarrow> clean_at xs n \<Longrightarrow> cells_ok (drop n xs)"
  unfolding cells_ok_def clean_at_def
proof (intro allI impI)
  fix i
  assume xs: "\<forall>i<length xs. c_char (xs ! i) = [] \<longrightarrow> 0 < i \<and> c_char (xs ! (i - 1)) \<noteq> []"
    and n: "n < length xs \<longrightarrow> c_char (xs ! n) \<noteq> []"
    and i: "i < length (drop n xs)" and e: "c_char (drop n xs ! i) = []"
  then have "i \<noteq> 0" by (cases i) auto
  moreover have "c_char (xs ! (n + i - 1)) \<noteq> []"
    using xs i e by auto
  ultimately show "0 < i \<and> c_char (drop n xs ! (i - 1)) \<noteq> []"
    using i by (cases i) auto
qed

lemma cells_ok_nonempty: "(\<forall>c\<in>set xs. c_char c \<noteq> []) \<Longrightarrow> cells_ok xs"
  by (auto simp: cells_ok_def)

lemma cells_ok_replicate [simp]: "c_char c \<noteq> [] \<Longrightarrow> cells_ok (replicate n c)"
  by (rule cells_ok_nonempty) simp

lemma cells_ok_clean_0: "cells_ok xs \<Longrightarrow> clean_at xs 0"
  by (auto simp: cells_ok_def clean_at_def)

lemma line_ok_splice:
  assumes "line_ok w l" "a \<le> b" "b \<le> w" "clean_at l b" "length ns = b - a"
    and "cells_ok ns" "\<forall>c\<in>set ns. cell_ok c"
  shows "line_ok w (take a l @ ns @ drop b l)"
  using assms
  by (auto simp: line_ok_def intro!: cells_ok_append cells_ok_take cells_ok_drop
      dest: in_set_takeD in_set_dropD)

lemma blank_cell_ok [simp]: "cell_ok blank_cell" "c_char blank_cell = [32]"
  by (simp_all add: cell_ok_def blank_cell_def MAX_CELL_CHARS_def)

lemma line_ok_replicate [simp]:
  "cell_ok c \<Longrightarrow> c_char c \<noteq> [] \<Longrightarrow> line_ok w (replicate w c)"
  by (simp add: line_ok_def)

section \<open>The invariant\<close>

definition grid_ok :: "nat \<Rightarrow> nat \<Rightarrow> snapshot \<Rightarrow> bool" where
  "grid_ok w h rows \<longleftrightarrow> length rows = h \<and> (\<forall>l\<in>set rows. line_ok w l)"

definition saved_ok :: "(nat \<times> nat \<times> pen) option \<Rightarrow> bool" where
  "saved_ok s \<longleftrightarrow> (case s of None \<Rightarrow> True | Some (_, _, p) \<Rightarrow> pen_ok p)"

definition main_ok :: "nat \<Rightarrow> nat \<Rightarrow> snapshot option \<Rightarrow> bool" where
  "main_ok w h m \<longleftrightarrow> (case m of None \<Rightarrow> True | Some g \<Rightarrow> grid_ok w h g)"

lemma main_ok_simps [simp]: "main_ok w h None" "main_ok w h (Some g) \<longleftrightarrow> grid_ok w h g"
  by (simp_all add: main_ok_def)

lemma saved_ok_simps [simp]: "saved_ok None" "saved_ok (Some (r, c, p)) \<longleftrightarrow> pen_ok p"
  by (simp_all add: saved_ok_def)

definition emu_wf :: "emu \<Rightarrow> bool" where
  "emu_wf e \<longleftrightarrow>
     1 \<le> e_width e \<and> e_width e \<le> 500 \<and> 1 \<le> e_height e \<and> e_height e \<le> 200 \<and>
     grid_ok (e_width e) (e_height e) (e_rows e) \<and>
     e_row e < e_height e \<and> e_col e < e_width e \<and>
     e_top e \<le> e_bottom e \<and> e_bottom e < e_height e \<and>
     (e_pending e \<longrightarrow> e_col e = e_width e - 1) \<and>
     pen_ok (e_pen e) \<and> saved_ok (e_saved e) \<and> saved_ok (e_main_saved e) \<and>
     main_ok (e_width e) (e_height e) (e_main_rows e) \<and>
     fst (e_main_margins e) \<le> snd (e_main_margins e) \<and> snd (e_main_margins e) < e_height e \<and>
     length (e_seq e) \<le> MAX_SEQUENCE"

lemma grid_ok_blank [simp]: "grid_ok w h (blank_grid w h)"
  by (auto simp: grid_ok_def blank_grid_def)

lemma grid_ok_update: "grid_ok w h rows \<Longrightarrow> line_ok w l \<Longrightarrow> grid_ok w h (rows[r := l])"
  unfolding grid_ok_def using ball_list_update[of rows "line_ok w" l r] by simp

lemma grid_ok_nth: "grid_ok w h rows \<Longrightarrow> r < h \<Longrightarrow> line_ok w (rows ! r)"
  by (simp add: grid_ok_def)

lemma default_pen_ok [simp]: "pen_ok default_pen"
  by (simp add: pen_ok_def default_pen_def)

lemma fresh_wf:
  "1 \<le> w \<Longrightarrow> w \<le> 500 \<Longrightarrow> 1 \<le> h \<Longrightarrow> h \<le> 200 \<Longrightarrow> emu_wf (fresh w h wraps)"
  by (simp add: emu_wf_def fresh_def saved_ok_def)

lemma new_emulator_wf: "emu_wf (new_emulator w h wraps)"
  by (simp add: new_emulator_def fresh_wf)

lemma reset_wf: "emu_wf e \<Longrightarrow> emu_wf (reset e)"
  by (auto simp: reset_def intro!: fresh_wf) (auto simp: emu_wf_def)

lemma erased_ok [simp]: "emu_wf e \<Longrightarrow> cell_ok (erased e)" "c_char (erased e) \<noteq> []"
  by (auto simp: erased_def emu_wf_def pen_ok_def cell_ok_def blank_cell_def MAX_CELL_CHARS_def)

lemma pen_cell_ok: "emu_wf e \<Longrightarrow> length ch \<le> 8 \<Longrightarrow> cell_ok (pen_cell e ch)"
  by (simp add: pen_cell_def emu_wf_def pen_ok_def cell_ok_def MAX_CELL_CHARS_def)

lemma pen_cell_char [simp]: "c_char (pen_cell e ch) = ch"
  by (simp add: pen_cell_def)

lemma emu_wf_set_line:
  "emu_wf e \<Longrightarrow> line_ok (e_width e) l \<Longrightarrow> emu_wf (e\<lparr>e_rows := (e_rows e)[r := l]\<rparr>)"
  by (simp add: emu_wf_def grid_ok_update)

lemma emu_wf_row_line: "emu_wf e \<Longrightarrow> r < e_height e \<Longrightarrow> line_ok (e_width e) (e_rows e ! r)"
  by (auto simp: emu_wf_def intro: grid_ok_nth)

lemma emu_wf_length_rows: "emu_wf e \<Longrightarrow> length (e_rows e) = e_height e"
  by (simp add: emu_wf_def grid_ok_def)

lemma on_line_Some:
  "emu_wf e \<Longrightarrow> r < e_height e \<Longrightarrow> f (e_rows e ! r) = Some l \<Longrightarrow>
    on_line e r f = Some (e\<lparr>e_rows := (e_rows e)[r := l]\<rparr>)"
  by (simp add: on_line_def emu_wf_length_rows)

section \<open>Pens\<close>

lemma clamp_byte_valid [simp]: "valid_color (clamp_byte v)"
  by (simp add: clamp_byte_def valid_color_def)

lemma sgr_pass_ok: "pen_ok p \<Longrightarrow> sgr_pass p code rest = (p', rest') \<Longrightarrow> pen_ok p'"
  by (simp add: sgr_pass_def pen_ok_def set_color_def split: if_splits)
    (auto simp: valid_color_def valid_rgb_def clamp_byte_def default_pen_def)

lemma sgr_loop_ok: "pen_ok p \<Longrightarrow> pen_ok (sgr_loop p ps)"
proof (induction p ps rule: sgr_loop.induct)
  case (2 p code rest)
  then show ?case
    by (cases "sgr_pass p code rest") (simp add: sgr_pass_ok)
qed simp

lemma apply_sgr_ok: "pen_ok p \<Longrightarrow> pen_ok (apply_sgr_pure p ps)"
  by (simp add: apply_sgr_pure_def sgr_loop_ok)

section \<open>Movement and scrolling\<close>

lemma emu_wf_simps:
  "emu_wf e \<Longrightarrow> e_row e < e_height e" "emu_wf e \<Longrightarrow> e_col e < e_width e"
  "emu_wf e \<Longrightarrow> 0 < e_width e" "emu_wf e \<Longrightarrow> 0 < e_height e" "emu_wf e \<Longrightarrow> e_bottom e < e_height e"
  "emu_wf e \<Longrightarrow> e_top e \<le> e_bottom e"
  by (auto simp: emu_wf_def)

lemma emu_wf_grid: "emu_wf e \<Longrightarrow> grid_ok (e_width e) (e_height e) rows \<Longrightarrow> emu_wf (e\<lparr>e_rows := rows\<rparr>)"
  by (simp add: emu_wf_def)

lemma grid_ok_scroll:
  assumes "grid_ok w h rows" "tp + count \<le> b + 1" "b < h" "cell_ok c" "c_char c \<noteq> []"
  shows "grid_ok w h (take (b + 1 - count) (take tp rows @ drop (tp + count) rows)
      @ replicate count (replicate w c) @ drop (b + 1 - count) (take tp rows @ drop (tp + count) rows))"
    (is ?up)
    and "grid_ok w h (take tp (take (b + 1 - count) rows @ drop (b + 1) rows)
      @ replicate count (replicate w c) @ drop tp (take (b + 1 - count) rows @ drop (b + 1) rows))"
    (is ?down)
  using assms by (auto simp: grid_ok_def min_def dest: in_set_takeD in_set_dropD)

definition scroll_count :: "emu \<Rightarrow> int \<Rightarrow> nat \<Rightarrow> nat" where
  "scroll_count e n tp = nat (max 0 (min n (int (e_bottom e) - int tp + 1)))"

lemma scroll_count_bound: "scroll_count e n tp \<noteq> 0 \<Longrightarrow> tp + scroll_count e n tp \<le> e_bottom e + 1"
  unfolding scroll_count_def by linarith

lemma scroll_up_wf:
  assumes "emu_wf e"
  shows "emu_wf (scroll_up e n tp)"
proof (cases "scroll_count e n tp = 0")
  case True
  then show ?thesis using assms by (simp add: scroll_up_def scroll_count_def[symmetric])
next
  case False
  have "grid_ok (e_width e) (e_height e) (e_rows e)" using assms by (simp add: emu_wf_def)
  from grid_ok_scroll(1)[OF this scroll_count_bound[OF False] emu_wf_simps(5)[OF assms] erased_ok(1)[OF assms] erased_ok(2)]
  show ?thesis
    using False assms
    by (simp add: scroll_up_def scroll_count_def[symmetric] Let_def del: take_append drop_append)
      (rule emu_wf_grid, simp_all del: take_append drop_append)
qed

lemma scroll_down_wf:
  assumes "emu_wf e"
  shows "emu_wf (scroll_down e n tp)"
proof (cases "scroll_count e n tp = 0")
  case True
  then show ?thesis using assms by (simp add: scroll_down_def scroll_count_def[symmetric])
next
  case False
  have "grid_ok (e_width e) (e_height e) (e_rows e)" using assms by (simp add: emu_wf_def)
  from grid_ok_scroll(2)[OF this scroll_count_bound[OF False] emu_wf_simps(5)[OF assms] erased_ok(1)[OF assms] erased_ok(2)]
  show ?thesis
    using False assms
    by (simp add: scroll_down_def scroll_count_def[symmetric] Let_def del: take_append drop_append)
      (rule emu_wf_grid, simp_all del: take_append drop_append)
qed

text \<open>Scrolling touches only the grid.\<close>

lemma scroll_frame:
  "\<exists>rows. scroll_up e n tp = e\<lparr>e_rows := rows\<rparr>" "\<exists>rows. scroll_down e n tp = e\<lparr>e_rows := rows\<rparr>"
  by (auto simp: scroll_up_def scroll_down_def Let_def intro: exI[of _ "e_rows e"])

lemma emu_wf_pending_False: "emu_wf e \<Longrightarrow> emu_wf (e\<lparr>e_pending := False\<rparr>)"
  by (simp add: emu_wf_def)

lemma emu_wf_col: "emu_wf e \<Longrightarrow> c < e_width e \<Longrightarrow> emu_wf (e\<lparr>e_col := c, e_pending := False\<rparr>)"
  by (simp add: emu_wf_def)

lemma emu_wf_row: "emu_wf e \<Longrightarrow> r < e_height e \<Longrightarrow> emu_wf (e\<lparr>e_row := r\<rparr>)"
  by (simp add: emu_wf_def)

lemma linefeed_wf: "emu_wf (e\<lparr>e_pending := False\<rparr>) \<Longrightarrow> emu_wf (linefeed e)"
  by (auto simp: linefeed_def Let_def intro!: scroll_up_wf emu_wf_row)

lemma reverse_index_wf: "emu_wf e \<Longrightarrow> emu_wf (reverse_index e)"
  using emu_wf_simps(1)[of e]
  by (auto simp: reverse_index_def Let_def intro!: scroll_down_wf emu_wf_row emu_wf_pending_False)

lemma move_to_wf: "emu_wf e \<Longrightarrow> emu_wf (move_to e r c)"
  by (auto simp: move_to_def emu_wf_def)

lemma restore_cursor_wf: "emu_wf e \<Longrightarrow> emu_wf (restore_cursor e)"
  by (auto simp: restore_cursor_def emu_wf_def saved_ok_def split: option.splits)

lemma linefeed_frame:
  "e_width (linefeed e) = e_width e" "e_height (linefeed e) = e_height e"
  "e_col (linefeed e) = e_col e" "e_pen (linefeed e) = e_pen e" "e_pending (linefeed e) = False"
  "e_state (linefeed e) = e_state e" "e_seq (linefeed e) = e_seq e"
  "e_wraps_immediately (linefeed e) = e_wraps_immediately e"
  using scroll_frame(1)[of "e\<lparr>e_pending := False\<rparr>" 1 "e_top e"]
  by (auto simp: linefeed_def Let_def)

lemma emu_wf_col0: "emu_wf e \<Longrightarrow> emu_wf (e\<lparr>e_col := 0, e_pending := False\<rparr>)"
  by (simp add: emu_wf_def)

lemma linefeed_col0_wf: "emu_wf e \<Longrightarrow> emu_wf (linefeed (e\<lparr>e_col := 0\<rparr>))"
  by (rule linefeed_wf) (simp add: emu_wf_col0)

lemma wrap_if_pending_wf: "emu_wf e \<Longrightarrow> emu_wf (wrap_if_pending e)"
  by (simp add: wrap_if_pending_def linefeed_col0_wf emu_wf_pending_False)

lemma wrap_if_pending_frame:
  "e_width (wrap_if_pending e) = e_width e" "e_height (wrap_if_pending e) = e_height e"
  "e_pen (wrap_if_pending e) = e_pen e" "e_pending (wrap_if_pending e) = False"
  "e_state (wrap_if_pending e) = e_state e" "e_seq (wrap_if_pending e) = e_seq e"
  "e_wraps_immediately (wrap_if_pending e) = e_wraps_immediately e"
  by (simp_all add: wrap_if_pending_def linefeed_frame)

lemma last_column_written_wf:
  assumes "emu_wf (e\<lparr>e_col := 0, e_pending := False\<rparr>)"
  shows "emu_wf (last_column_written e)"
proof (cases "e_wraps_immediately e")
  case True
  have "emu_wf (linefeed (e\<lparr>e_col := 0\<rparr>))"
    using assms by (intro linefeed_wf) simp
  then show ?thesis using True by (simp add: last_column_written_def emu_wf_pending_False)
next
  case False
  then show ?thesis using assms by (simp add: last_column_written_def emu_wf_def)
qed

lemma advance_wf:
  assumes "emu_wf e" "\<not> e_pending e"
  shows "emu_wf (advance e k)"
proof (cases "e_width e \<le> e_col e + k")
  case True
  have "emu_wf (last_column_written (e\<lparr>e_col := e_col e + k\<rparr>))"
    using emu_wf_col0[OF assms(1)] by (intro last_column_written_wf) simp
  with True show ?thesis by (simp add: advance_def)
next
  case False
  then show ?thesis using assms by (simp add: advance_def emu_wf_def)
qed

lemma advance_frame:
  "e_width (advance e k) = e_width e" "e_height (advance e k) = e_height e"
  "e_pen (advance e k) = e_pen e" "e_state (advance e k) = e_state e" "e_seq (advance e k) = e_seq e"
  "e_wraps_immediately (advance e k) = e_wraps_immediately e"
  by (simp_all add: advance_def Let_def last_column_written_def linefeed_frame)

section \<open>Writing on a line\<close>

lemma line_ok_blank_pair:
  assumes "line_ok w l" "cell_ok b" "c_char b \<noteq> []"
  shows "line_ok w (l[i - Suc 0 := b, i := b])"
proof -
  have "cells_ok (l[i - 1 := b, i := b])"
    using assms(1,3) by (auto simp: line_ok_def cells_ok_def nth_update)
  moreover have "\<forall>c\<in>set (l[i - 1 := b, i := b]). cell_ok c"
    using assms(1,2) by (intro ball_list_update) (auto simp: line_ok_def)
  ultimately show ?thesis using assms(1) by (simp add: line_ok_def)
qed

lemma split_edge_Some:
  assumes "line_ok w l" "cell_ok b" "c_char b \<noteq> []"
  obtains l' where "split_edge w b l i = Some l'" "line_ok w l'" "clean_at l' i"
    "\<And>j. clean_at l j \<Longrightarrow> clean_at l' j"
proof (cases "0 < i \<and> i < w \<and> c_char (l ! i) = []")
  case True
  then have "c_char (l ! (i - 1)) \<noteq> []"
    using assms(1) by (auto simp: line_ok_def cells_ok_def)
  moreover have "i < length l" using assms(1) True by (simp add: line_ok_def)
  ultimately have "split_edge w b l i = Some (l[i - Suc 0 := b, i := b])"
    using True by (simp add: split_edge_def)
  moreover have "clean_at (l[i - Suc 0 := b, i := b]) i"
    using assms(3) by (simp add: clean_at_def)
  moreover have "clean_at l j \<Longrightarrow> clean_at (l[i - Suc 0 := b, i := b]) j" for j
    using assms(3) by (auto simp: clean_at_def nth_update)
  ultimately show thesis
    using that line_ok_blank_pair[OF assms] by blast
next
  case False
  then have "split_edge w b l i = Some l"
    using assms(1) by (auto simp: split_edge_def line_ok_def)
  moreover have "clean_at l i"
    using False assms(1) by (auto simp: clean_at_def line_ok_def cells_ok_def)
  ultimately show thesis using that assms(1) by blast
qed

lemma split_wide_Some:
  assumes "emu_wf e" "r < e_height e"
  obtains l where "split_wide e r a b = Some (e\<lparr>e_rows := (e_rows e)[r := l]\<rparr>)"
    "line_ok (e_width e) l" "clean_at l a" "clean_at l b" "split_line e a b (e_rows e ! r) = Some l"
    "\<And>j. clean_at (e_rows e ! r) j \<Longrightarrow> clean_at l j"
proof -
  obtain l1 where 1: "split_edge (e_width e) (erased e) (e_rows e ! r) a = Some l1"
      "line_ok (e_width e) l1" "clean_at l1 a" "\<And>j. clean_at (e_rows e ! r) j \<Longrightarrow> clean_at l1 j"
    using split_edge_Some[OF emu_wf_row_line[OF assms] erased_ok(1)[OF assms(1)] erased_ok(2)] by blast
  obtain l2 where 2: "split_edge (e_width e) (erased e) l1 b = Some l2" "line_ok (e_width e) l2"
      "clean_at l2 b" "\<And>j. clean_at l1 j \<Longrightarrow> clean_at l2 j"
    using split_edge_Some[OF 1(2) erased_ok(1)[OF assms(1)] erased_ok(2)] by blast
  have sl: "split_line e a b (e_rows e ! r) = Some l2"
    using 1 2 by (simp add: split_line_def)
  then have "split_wide e r a b = Some (e\<lparr>e_rows := (e_rows e)[r := l2]\<rparr>)"
    unfolding split_wide_def by (rule on_line_Some[OF assms])
  then show thesis using that 1 2 sl by blast
qed

text \<open>\<open>split_wide\<close>, then one whole-line change that is right whenever both edges are clean.\<close>

lemma split_then_line:
  assumes "emu_wf e" "r < e_height e"
    and "\<And>l. line_ok (e_width e) l \<Longrightarrow> clean_at l a \<Longrightarrow> clean_at l b \<Longrightarrow>
      yields (f l) (line_ok (e_width e))"
  obtains l l' where "split_wide e r a b = Some (e\<lparr>e_rows := (e_rows e)[r := l]\<rparr>)"
    "line_ok (e_width e) l" "f l = Some l'" "line_ok (e_width e) l'"
    "on_line (e\<lparr>e_rows := (e_rows e)[r := l]\<rparr>) r f = Some (e\<lparr>e_rows := (e_rows e)[r := l']\<rparr>)"
proof -
  obtain l where l: "split_wide e r a b = Some (e\<lparr>e_rows := (e_rows e)[r := l]\<rparr>)"
      "line_ok (e_width e) l" "clean_at l a" "clean_at l b"
    using split_wide_Some[OF assms(1,2)] by blast
  obtain l' where l': "f l = Some l'" "line_ok (e_width e) l'"
    using assms(3)[OF l(2-4)] by (auto simp: yields_ex)
  have "on_line (e\<lparr>e_rows := (e_rows e)[r := l]\<rparr>) r f = Some (e\<lparr>e_rows := (e_rows e)[r := l']\<rparr>)"
    using l'(1) assms(1,2) by (simp add: on_line_def emu_wf_length_rows)
  then show thesis using that l l' by blast
qed

lemma rows_update_simps [simp]:
  "erased (e\<lparr>e_rows := rows\<rparr>) = erased e" "pen_cell (e\<lparr>e_rows := rows\<rparr>) ch = pen_cell e ch"
  by (simp_all add: erased_def pen_cell_def)

lemma line_ok_py_splice:
  "line_ok w l \<Longrightarrow> a \<le> b \<Longrightarrow> b \<le> w \<Longrightarrow> clean_at l b \<Longrightarrow> length ns = b - a \<Longrightarrow> cells_ok ns \<Longrightarrow>
    \<forall>c\<in>set ns. cell_ok c \<Longrightarrow> line_ok w (py_splice l a b ns)"
  using line_ok_splice[of w l a b ns] by (simp add: py_splice_def max_def)

section \<open>Printing\<close>

lemma ascii_step_wf:
  assumes "emu_wf e" "run \<noteq> []"
  obtains e' tk where "ascii_step e run = Some (e', tk)" "emu_wf e'" "0 < tk" "tk \<le> length run"
    "e_state e' = e_state e" "e_seq e' = e_seq e"
proof -
  define e0 where "e0 = wrap_if_pending e"
  define tk where "tk = min (length run) (e_width e0 - e_col e0)"
  have w0: "emu_wf e0" by (simp add: e0_def wrap_if_pending_wf assms)
  note b = emu_wf_simps[OF w0]
  have tk: "0 < tk" "tk \<le> length run" "e_col e0 + tk \<le> e_width e0"
    using b assms(2) by (auto simp: tk_def)
  let ?f = "\<lambda>line. Some (py_splice line (e_col e0) (e_col e0 + tk)
      (map (\<lambda>ch. pen_cell e0 [ch]) (take tk run)))"
  obtain l l' where s: "split_wide e0 (e_row e0) (e_col e0) (e_col e0 + tk)
        = Some (e0\<lparr>e_rows := (e_rows e0)[e_row e0 := l]\<rparr>)"
      and l': "line_ok (e_width e0) l'"
      and o: "on_line (e0\<lparr>e_rows := (e_rows e0)[e_row e0 := l]\<rparr>) (e_row e0) ?f
        = Some (e0\<lparr>e_rows := (e_rows e0)[e_row e0 := l']\<rparr>)"
  proof (rule split_then_line[OF w0 b(1), of "e_col e0" "e_col e0 + tk" ?f])
    fix l assume "line_ok (e_width e0) l" "clean_at l (e_col e0 + tk)"
    then show "yields (?f l) (line_ok (e_width e0))"
      using tk w0 by (auto intro!: line_ok_py_splice cells_ok_nonempty pen_cell_ok)
  qed blast
  let ?e1 = "e0\<lparr>e_rows := (e_rows e0)[e_row e0 := l']\<rparr>"
  have "emu_wf (advance ?e1 tk)"
    using emu_wf_set_line[OF w0 l'] by (rule advance_wf) (simp add: e0_def wrap_if_pending_frame)
  moreover have "ascii_step e run = Some (advance ?e1 tk, tk)"
    using s o by (simp add: ascii_step_def Let_def e0_def[symmetric] tk_def[symmetric])
  moreover have "e_state (advance ?e1 tk) = e_state e" "e_seq (advance ?e1 tk) = e_seq e"
    by (simp_all add: advance_frame e0_def wrap_if_pending_frame)
  ultimately show thesis using that tk by blast
qed

lemma print_ascii_wf:
  "emu_wf e \<Longrightarrow> yields (print_ascii e run) (\<lambda>e'. emu_wf e' \<and> e_state e' = e_state e \<and> e_seq e' = e_seq e)"
proof (induction "length run" arbitrary: e run rule: less_induct)
  case less
  show ?case
  proof (cases "run = []")
    case True
    with less.prems show ?thesis by (simp add: print_ascii.simps)
  next
    case False
    obtain e' tk where s: "ascii_step e run = Some (e', tk)" "emu_wf e'" "0 < tk" "tk \<le> length run"
        "e_state e' = e_state e" "e_seq e' = e_seq e"
      using ascii_step_wf[OF less.prems False] .
    then have "yields (print_ascii e' (drop tk run))
        (\<lambda>e''. emu_wf e'' \<and> e_state e'' = e_state e' \<and> e_seq e'' = e_seq e')"
      using False by (intro less.hyps) auto
    with s False show ?thesis by (simp add: print_ascii.simps[of e run])
  qed
qed

lemma line_ok_set_char:
  assumes "line_ok w l" "i < w" "c_char c \<noteq> []" "cell_ok c" "c_char (l ! i) \<noteq> []"
  shows "line_ok w (l[i := c])"
proof -
  have "cells_ok (l[i := c])"
    using assms by (auto simp: line_ok_def cells_ok_def nth_update)
  moreover have "\<forall>c\<in>set (l[i := c]). cell_ok c"
    using assms(1,4) by (intro ball_list_update) (auto simp: line_ok_def)
  ultimately show ?thesis using assms(1) by (simp add: line_ok_def)
qed

text \<open>What any printing keeps, besides the invariant.\<close>

definition same_parser :: "emu \<Rightarrow> emu \<Rightarrow> bool" where
  "same_parser e e' \<longleftrightarrow> e_state e' = e_state e \<and> e_seq e' = e_seq e"

lemma mark_at_wf:
  assumes "emu_wf e"
  shows "yields (mark_at e col ch) (\<lambda>e'. emu_wf e' \<and> same_parser e e')"
proof (cases "0 \<le> col \<and> col < int (e_width e)")
  case True
  let ?l = "e_rows e ! e_row e" and ?i = "nat col"
  let ?c = "?l ! ?i"
  have lo: "line_ok (e_width e) ?l"
    using emu_wf_row_line[OF assms emu_wf_simps(1)[OF assms]] .
  have i: "?i < e_width e" using True by (simp add: nat_less_iff)
  have len: "length ?l = e_width e" "e_row e < length (e_rows e)"
    using lo assms emu_wf_simps(1)[OF assms] by (auto simp: line_ok_def emu_wf_length_rows)
  have "cell_ok ?c" using lo i by (simp add: line_ok_def)
  then have "line_ok (e_width e) (?l[?i := ?c\<lparr>c_char := c_char ?c @ [ch]\<rparr>])"
    if "c_char ?c \<noteq> []" "length (c_char ?c) < MAX_CELL_CHARS"
    using lo i that by (intro line_ok_set_char) (auto simp: cell_ok_def)
  with lo True len i assms show ?thesis
    by (auto simp: mark_at_def on_line_def same_parser_def intro!: emu_wf_set_line)
qed (use assms in \<open>auto simp: mark_at_def same_parser_def\<close>)

lemma combine_mark_wf:
  assumes "emu_wf e"
  shows "yields (combine_mark e ch) (\<lambda>e'. emu_wf e' \<and> same_parser e e')"
proof -
  have "line_ok (e_width e) (e_rows e ! e_row e)" "e_row e < length (e_rows e)" "e_col e < e_width e"
    using assms emu_wf_simps[OF assms] emu_wf_row_line[OF assms emu_wf_simps(1)[OF assms]]
    by (auto simp: emu_wf_length_rows)
  then show ?thesis
    by (auto simp: combine_mark_def Let_def line_ok_def mark_at_wf[OF assms])
qed

lemma place_glyph_wf:
  assumes "emu_wf e" "\<not> e_pending e" "width = 1 \<or> width = 2" "e_col e + width \<le> e_width e"
  shows "yields (place_glyph e ch width) (\<lambda>e'. emu_wf e' \<and> same_parser e e')"
proof -
  let ?ns = "pen_cell e [ch] # (if width = 2 then [pen_cell e []] else [])"
  let ?f = "\<lambda>line. do {
      l1 \<leftarrow> py_set line (e_col e) (pen_cell e [ch]);
      if width = 2 then py_set l1 (e_col e + 1) (pen_cell e []) else Some l1 }"
  have len: "length ?ns = width" using assms(3) by auto
  have ok: "cells_ok ?ns" "\<forall>c\<in>set ?ns. cell_ok c"
    by (auto simp: cells_ok_def less_Suc_eq_0_disj intro!: pen_cell_ok[OF assms(1)])
  obtain l l' where s: "split_wide e (e_row e) (e_col e) (e_col e + width)
        = Some (e\<lparr>e_rows := (e_rows e)[e_row e := l]\<rparr>)"
      and l': "line_ok (e_width e) l'"
      and o: "on_line (e\<lparr>e_rows := (e_rows e)[e_row e := l]\<rparr>) (e_row e) ?f
        = Some (e\<lparr>e_rows := (e_rows e)[e_row e := l']\<rparr>)"
  proof (rule split_then_line[OF assms(1) emu_wf_simps(1)[OF assms(1)], of "e_col e" "e_col e + width" ?f])
    fix l assume l: "line_ok (e_width e) l" "clean_at l (e_col e + width)"
    have "length l = e_width e" using l(1) by (simp add: line_ok_def)
    then have "?f l = Some (py_splice l (e_col e) (e_col e + width) ?ns)"
      using assms(3,4)
      by (auto simp: py_splice_def list_eq_iff_nth_eq nth_append nth_update nth_Cons' min_def)
        (rule arg_cong[where f = "nth l"], arith)
    moreover have "line_ok (e_width e) (py_splice l (e_col e) (e_col e + width) ?ns)"
      using l assms(4) len ok by (intro line_ok_py_splice) auto
    ultimately show "yields (?f l) (line_ok (e_width e))"
      by (simp only: yields_Some)
  qed blast
  have "emu_wf (advance (e\<lparr>e_rows := (e_rows e)[e_row e := l']\<rparr>) width)"
    using emu_wf_set_line[OF assms(1) l'] by (rule advance_wf) (simp add: assms(2))
  then show ?thesis
    using s o by (simp add: place_glyph_def same_parser_def advance_frame cong: if_cong)
qed

lemma print_char_wf:
  assumes "emu_wf e"
  shows "yields (print_char U e ch) (\<lambda>e'. emu_wf e' \<and> same_parser e e')"
proof -
  let ?e = "wrap_if_pending e" and ?w = "char_width U ch"
  have w: "emu_wf ?e" using assms by (rule wrap_if_pending_wf)
  have sp: "same_parser e ?e" "\<not> e_pending ?e"
    by (simp_all add: same_parser_def wrap_if_pending_frame)
  have cw: "?w = 0 \<or> ?w = 1 \<or> ?w = 2" by (simp add: char_width_def)
  have wide: "yields (do {
             e1 \<leftarrow> split_wide ?e (e_row ?e) (e_col ?e) (e_col ?e + 1);
             e2 \<leftarrow> on_line e1 (e_row e1) (\<lambda>line. py_set line (e_col e1) (erased e1));
             place_glyph (linefeed (e2\<lparr>e_col := 0\<rparr>)) ch 2
           }) (\<lambda>e'. emu_wf e' \<and> same_parser e e')"
    if last: "int (e_col ?e) = int (e_width ?e) - 1" and two: "2 \<le> e_width ?e"
  proof -
    let ?f = "\<lambda>line. py_set line (e_col ?e) (erased ?e)"
    obtain l l' where s: "split_wide ?e (e_row ?e) (e_col ?e) (e_col ?e + 1)
          = Some (?e\<lparr>e_rows := (e_rows ?e)[e_row ?e := l]\<rparr>)"
        and l': "line_ok (e_width ?e) l'"
        and o: "on_line (?e\<lparr>e_rows := (e_rows ?e)[e_row ?e := l]\<rparr>) (e_row ?e) ?f
          = Some (?e\<lparr>e_rows := (e_rows ?e)[e_row ?e := l']\<rparr>)"
    proof (rule split_then_line[OF w emu_wf_simps(1)[OF w], of "e_col ?e" "e_col ?e + 1" ?f])
      fix l assume l: "line_ok (e_width ?e) l" "clean_at l (e_col ?e)"
      then have "e_col ?e < length l" "c_char (l ! e_col ?e) \<noteq> []"
        using emu_wf_simps[OF w] by (auto simp: line_ok_def clean_at_def)
      then show "yields (?f l) (line_ok (e_width ?e))"
        using l w emu_wf_simps[OF w] by (auto intro!: line_ok_set_char)
    qed blast
    let ?e2 = "?e\<lparr>e_rows := (e_rows ?e)[e_row ?e := l']\<rparr>"
    have w2: "emu_wf (linefeed (?e2\<lparr>e_col := 0\<rparr>))"
      using emu_wf_set_line[OF w l'] by (rule linefeed_col0_wf)
    have "yields (place_glyph (linefeed (?e2\<lparr>e_col := 0\<rparr>)) ch 2)
        (\<lambda>e'. emu_wf e' \<and> same_parser (linefeed (?e2\<lparr>e_col := 0\<rparr>)) e')"
      using two by (intro place_glyph_wf[OF w2]) (simp_all add: linefeed_frame)
    then show ?thesis
      using s o sp by (simp add: same_parser_def linefeed_frame)
  qed
  show ?thesis
  proof (cases "?w = 2 \<and> int (e_col ?e) = int (e_width ?e) - 1")
    case True
    then show ?thesis
      using assms w sp wide by (auto simp: print_char_def Let_def same_parser_def)
  next
    case False
    have "yields (place_glyph ?e ch ?w) (\<lambda>e'. emu_wf e' \<and> same_parser ?e e')" if "?w \<noteq> 0"
      using False cw that emu_wf_simps[OF w] sp by (intro place_glyph_wf[OF w]) auto
    then have "yields (place_glyph ?e ch ?w) (\<lambda>e'. emu_wf e' \<and> same_parser e e')" if "?w \<noteq> 0"
      using that sp(1) by (auto simp: same_parser_def)
    then show ?thesis
      using False assms combine_mark_wf[OF assms]
      by (auto simp: print_char_def Let_def same_parser_def)
  qed
qed

section \<open>Erasing, inserting, deleting\<close>

text \<open>The operations that split at two edges and then rewrite the cursor's line.\<close>

lemma split_line_op:
  assumes "emu_wf e"
    and "\<And>l. line_ok (e_width e) l \<Longrightarrow> clean_at l a \<Longrightarrow> clean_at l b \<Longrightarrow> line_ok (e_width e) (f l)"
    and "\<And>rows l. g (e\<lparr>e_rows := rows\<rparr>) l = f l"
  shows "yields (split_wide e (e_row e) a b \<bind> (\<lambda>e1. on_line e1 (e_row e1) (\<lambda>l. Some (g e1 l))))
      (\<lambda>e'. emu_wf e' \<and> same_parser e e' \<and> e_row e' = e_row e \<and> e_height e' = e_height e)"
proof -
  obtain l l' where s: "split_wide e (e_row e) a b = Some (e\<lparr>e_rows := (e_rows e)[e_row e := l]\<rparr>)"
      and l': "line_ok (e_width e) l'"
      and o: "on_line (e\<lparr>e_rows := (e_rows e)[e_row e := l]\<rparr>) (e_row e) (\<lambda>l. Some (f l))
        = Some (e\<lparr>e_rows := (e_rows e)[e_row e := l']\<rparr>)"
    by (rule split_then_line[OF assms(1) emu_wf_simps(1)[OF assms(1)], of a b "\<lambda>l. Some (f l)"])
      (use assms(2) in auto)
  then show ?thesis
    using emu_wf_set_line[OF assms(1) l'] by (simp add: assms(3) same_parser_def)
qed

lemma emu_wf_row_get: "emu_wf e \<Longrightarrow> e_row e < length (e_rows e)"
  by (simp add: emu_wf_length_rows emu_wf_simps)

lemma erase_line_wf:
  assumes "emu_wf e"
  shows "yields (erase_line e mode)
    (\<lambda>e'. emu_wf e' \<and> same_parser e e' \<and> e_row e' = e_row e \<and> e_height e' = e_height e)"
proof -
  note b = emu_wf_simps[OF assms] and er = erased_ok(1)[OF assms] erased_ok(2)[of e]
  have m0: "yields (split_wide e (e_row e) (e_col e) (e_width e) \<bind> (\<lambda>e1.
        on_line e1 (e_row e1) (\<lambda>line. Some (take (e_col e1) line @
          replicate (e_width e1 - e_col e1) (erased e1)))))
      (\<lambda>e'. emu_wf e' \<and> same_parser e e' \<and> e_row e' = e_row e \<and> e_height e' = e_height e)"
    by (rule split_line_op[OF assms, where f = "\<lambda>line. take (e_col e) line @
          replicate (e_width e - e_col e) (erased e)"])
      (use b er line_ok_splice[of "e_width e" _ "e_col e" "e_width e" "replicate (e_width e - e_col e) (erased e)"]
       in \<open>simp_all add: line_ok_def\<close>)
  have m1: "yields (split_wide e (e_row e) 0 (e_col e + 1) \<bind> (\<lambda>e1.
        on_line e1 (e_row e1) (\<lambda>line. Some (replicate (e_col e1 + 1) (erased e1) @
          drop (e_col e1 + 1) line))))
      (\<lambda>e'. emu_wf e' \<and> same_parser e e' \<and> e_row e' = e_row e \<and> e_height e' = e_height e)"
    by (rule split_line_op[OF assms, where f = "\<lambda>line. replicate (e_col e + 1) (erased e) @
          drop (e_col e + 1) line"])
      (use b er line_ok_splice[of "e_width e" _ 0 "e_col e + 1" "replicate (e_col e + 1) (erased e)"]
       in \<open>simp_all del: replicate_Suc\<close>)
  have m2: "yields (on_line e (e_row e) (\<lambda>line. Some (replicate (e_width e) (erased e))))
      (\<lambda>e'. emu_wf e' \<and> same_parser e e' \<and> e_row e' = e_row e \<and> e_height e' = e_height e)"
    using b er emu_wf_row_get[OF assms]
    by (auto simp: on_line_def same_parser_def intro!: emu_wf_set_line[OF assms])
  show ?thesis
    using m0 m1 m2 assms emu_wf_row_get[OF assms]
    by (auto simp: erase_line_def same_parser_def emu_wf_pending_False elim!: yields_mono)
qed

lemma erase_chars_wf:
  assumes "emu_wf e"
  shows "yields (erase_chars e n) (\<lambda>e'. emu_wf e' \<and> same_parser e e')"
proof -
  note b = emu_wf_simps[OF assms] and er = erased_ok(1)[OF assms] erased_ok(2)[of e]
  define k where "k = min n (e_width e - e_col e)"
  have "yields (split_wide e (e_row e) (e_col e) (e_col e + k) \<bind> (\<lambda>e1.
        on_line e1 (e_row e1) (\<lambda>line. Some (py_splice line (e_col e1) (e_col e1 + k)
          (replicate k (erased e1))))))
      (\<lambda>e'. emu_wf e' \<and> same_parser e e' \<and> e_row e' = e_row e \<and> e_height e' = e_height e)"
    by (rule split_line_op[OF assms, where f = "\<lambda>line. py_splice line (e_col e) (e_col e + k)
          (replicate k (erased e))"])
      (use b er in \<open>auto simp: k_def intro!: line_ok_py_splice\<close>)
  then show ?thesis
    by (simp add: erase_chars_def k_def[symmetric] Let_def yields_conj)
qed

lemma delete_chars_wf:
  assumes "emu_wf e"
  shows "yields (delete_chars e n) (\<lambda>e'. emu_wf e' \<and> same_parser e e')"
proof -
  note b = emu_wf_simps[OF assms] and er = erased_ok(1)[OF assms] erased_ok(2)[of e]
  define k where "k = min n (e_width e - e_col e)"
  have "yields (split_wide e (e_row e) (e_col e) (e_col e + k) \<bind> (\<lambda>e1.
        on_line e1 (e_row e1) (\<lambda>line. Some (take (e_col e1) line @ drop (e_col e1 + k) line
          @ replicate k (erased e1)))))
      (\<lambda>e'. emu_wf e' \<and> same_parser e e' \<and> e_row e' = e_row e \<and> e_height e' = e_height e)"
    by (rule split_line_op[OF assms, where f = "\<lambda>line. take (e_col e) line @ drop (e_col e + k) line
          @ replicate k (erased e)"])
      (use b er in \<open>auto simp: k_def line_ok_def intro!: cells_ok_append cells_ok_drop
        dest: in_set_takeD in_set_dropD\<close>)
  then show ?thesis
    using emu_wf_row_get[OF assms]
    by (simp add: delete_chars_def k_def[symmetric] Let_def yields_conj)
qed

lemma insert_chars_wf:
  assumes "emu_wf e"
  shows "yields (insert_chars e n) (\<lambda>e'. emu_wf e' \<and> same_parser e e')"
proof -
  note b = emu_wf_simps[OF assms] and er = erased_ok(1)[OF assms] erased_ok(2)[of e]
  define k where "k = min n (e_width e - e_col e)"
  obtain l1 where 1: "split_wide e (e_row e) (e_col e) (e_col e)
        = Some (e\<lparr>e_rows := (e_rows e)[e_row e := l1]\<rparr>)"
      "line_ok (e_width e) l1" "clean_at l1 (e_col e)"
    using split_wide_Some[OF assms b(1)] by metis
  let ?e1 = "e\<lparr>e_rows := (e_rows e)[e_row e := l1]\<rparr>"
  have w1: "emu_wf ?e1" using emu_wf_set_line[OF assms 1(2)] .
  obtain l2 where 2: "split_wide ?e1 (e_row ?e1) (e_width ?e1 - k) (e_width ?e1)
        = Some (?e1\<lparr>e_rows := (e_rows ?e1)[e_row ?e1 := l2]\<rparr>)"
      "line_ok (e_width ?e1) l2" "\<And>j. clean_at (e_rows ?e1 ! e_row ?e1) j \<Longrightarrow> clean_at l2 j"
    by (rule split_wide_Some[OF w1 emu_wf_simps(1)[OF w1], of "e_width ?e1 - k" "e_width ?e1"]) blast
  let ?l = "take (e_width e) (take (e_col e) l2 @ replicate k (erased e) @ drop (e_col e) l2)"
  have "clean_at l2 (e_col e)"
    using 2(3)[of "e_col e"] 1(3) emu_wf_row_get[OF assms] by simp
  then have "cells_ok ?l" "\<forall>c\<in>set ?l. cell_ok c"
    using 2(2) er
    by (auto simp: line_ok_def intro!: cells_ok_take cells_ok_append cells_ok_drop
        simp del: take_append dest!: in_set_takeD in_set_dropD)
  then have "line_ok (e_width e) ?l"
    using 2(2) b by (simp add: line_ok_def)
  from emu_wf_set_line[OF assms this, of "e_row e"] show ?thesis
    using 1(1) 2(1) emu_wf_row_get[OF assms]
    by (simp add: insert_chars_def k_def[symmetric] Let_def on_line_def same_parser_def del: take_append)
qed

lemma blank_rows_wf:
  assumes "emu_wf e" "b \<le> e_height e"
  shows "yields (blank_rows e a b) (\<lambda>e'. emu_wf e' \<and> same_parser e e')"
proof -
  have "grid_ok (e_width e) (e_height e) (map (\<lambda>(i, r). if a \<le> i \<and> i < b
      then replicate (e_width e) (erased e) else r) (zip [0..<length (e_rows e)] (e_rows e)))"
    using assms(1) erased_ok(1)[OF assms(1)] erased_ok(2)[of e]
    by (auto simp: emu_wf_def grid_ok_def dest!: set_zip_rightD)
  then show ?thesis
    using assms by (simp add: blank_rows_def emu_wf_length_rows same_parser_def emu_wf_grid)
qed

lemma erase_display_wf:
  assumes "emu_wf e"
  shows "yields (erase_display e mode) (\<lambda>e'. emu_wf e' \<and> same_parser e e')"
proof -
  have rows: "yields (erase_line e m \<bind> (\<lambda>e1. blank_rows e1 (f e1) (g e1)))
      (\<lambda>e'. emu_wf e' \<and> same_parser e e')"
    if "\<And>e1. emu_wf e1 \<Longrightarrow> g e1 \<le> e_height e1" for m f g
  proof -
    obtain e1 where e1: "erase_line e m = Some e1" "emu_wf e1" "same_parser e e1"
      using erase_line_wf[OF assms, of m] by (auto simp: yields_ex)
    then show ?thesis
      using blank_rows_wf[OF e1(2) that[OF e1(2)], of "f e1"] by (auto simp: same_parser_def)
  qed
  have le: "e_row e1 \<le> e_height e1" if "emu_wf e1" for e1
    using emu_wf_simps(1)[OF that] by simp
  have m2: "grid_ok (e_width e) (e_height e)
      (replicate (e_height e) (replicate (e_width e) (erased e)))"
    using erased_ok(1)[OF assms] erased_ok(2)[of e] by (simp add: grid_ok_def)
  show ?thesis
    using rows[of "e_height" 0 "\<lambda>e. e_row e + 1"] rows[of e_row 1 "\<lambda>e. 0", OF le] m2 assms
    by (auto simp: erase_display_def yields_conj same_parser_def
        elim!: yields_mono intro!: emu_wf_pending_False emu_wf_grid)
qed

end
