(* ===== verification/Emulator_Views.thy ===== *)
theory Emulator_Views
  imports Emulator_Feed
begin

text \<open>
  Around the parser: the two bounded memo tables return what the uncached functions do, a resize
  keeps the terminal well formed, and repainting a terminal (\<open>restore_ansi\<close>) never raises.
\<close>

section \<open>Bounded memo tables\<close>

text \<open>
  A table in front of a pure function \<open>f\<close>. When it is full it is emptied before the next entry.
  The laws: the table's answers are \<open>f\<close>'s, and it never outgrows its limit.
\<close>

fun lookups :: "(('k \<rightharpoonup> 'v) \<Rightarrow> 'k \<Rightarrow> 'v \<times> ('k \<rightharpoonup> 'v)) \<Rightarrow> ('k \<rightharpoonup> 'v) \<Rightarrow> 'k list \<Rightarrow> 'v list \<times> ('k \<rightharpoonup> 'v)" where
  "lookups lookup t [] = ([], t)"
| "lookups lookup t (k # ks) =
     (case lookup t k of (v, t') \<Rightarrow> case lookups lookup t' ks of (vs, t'') \<Rightarrow> (v # vs, t''))"

locale memo =
  fixes lookup :: "('k \<rightharpoonup> 'v) \<Rightarrow> 'k \<Rightarrow> 'v \<times> ('k \<rightharpoonup> 'v)"
    and f :: "'k \<Rightarrow> 'v"
    and limit :: nat
  assumes hit: "t k = Some v \<Longrightarrow> lookup t k = (v, t)"
    and miss: "t k = None \<Longrightarrow>
      lookup t k = (f k, (if limit \<le> card (dom t) then Map.empty else t)(k \<mapsto> f k))"
    and limit_pos: "0 < limit"
begin

definition sound :: "('k \<rightharpoonup> 'v) \<Rightarrow> bool" where
  "sound t \<longleftrightarrow> finite (dom t) \<and> card (dom t) \<le> limit \<and> (\<forall>k v. t k = Some v \<longrightarrow> v = f k)"

lemma sound_empty: "sound Map.empty"
  by (simp add: sound_def)

lemma lookup_value: "sound t \<Longrightarrow> fst (lookup t k) = f k"
  using hit[of t k] miss[of t k] by (cases "t k") (simp_all add: sound_def)

lemma sound_insert: "sound t \<Longrightarrow> card (dom t) < limit \<Longrightarrow> sound (t(k \<mapsto> f k))"
  by (simp add: sound_def card_insert_if)

lemma lookup_sound:
  assumes "sound t"
  shows "sound (snd (lookup t k))"
proof (cases "t k")
  case (Some v)
  then show ?thesis using assms hit[of t k] by simp
next
  case None
  have "sound (Map.empty(k \<mapsto> f k))"
    using sound_insert[OF sound_empty] limit_pos by simp
  then show ?thesis
    using sound_insert[OF assms] using miss[of t k] None by simp
qed

lemma lookups_sound: "sound t \<Longrightarrow> fst (lookups lookup t ks) = map f ks \<and> sound (snd (lookups lookup t ks))"
proof (induction ks arbitrary: t)
  case (Cons k ks)
  obtain v t' where l: "lookup t k = (v, t')" by (cases "lookup t k")
  then have "v = f k" "sound t'"
    using lookup_value[OF Cons.prems, of k] lookup_sound[OF Cons.prems, of k] by simp_all
  then show ?case
    using Cons.IH[of t'] l by (simp add: case_prod_beta)
qed simp

lemma lookups_from_empty: "fst (lookups lookup Map.empty ks) = map f ks"
  using lookups_sound[OF sound_empty] by blast

lemma table_bounded: "card (dom (snd (lookups lookup Map.empty ks))) \<le> limit"
  using lookups_sound[OF sound_empty, of ks] by (simp add: sound_def)

end

interpretation sgr: memo "\<lambda>t (p, ps). apply_sgr t p ps" "\<lambda>(p, ps). apply_sgr_pure p ps" SGR_CACHE_LIMIT
  by unfold_locales (auto simp: apply_sgr_def Let_def SGR_CACHE_LIMIT_def)

section \<open>Resizing\<close>

lemma line_ok_last_blank:
  assumes "line_ok w l" "0 < w"
  shows "line_ok w (l[w - 1 := blank_cell])"
proof -
  have "l = take (w - 1) l @ [l ! (w - 1)]"
    using assms by (simp add: line_ok_def) (metis One_nat_def Suc_pred take_Suc_conv_app_nth diff_Suc_less take_all order_refl)
  then have "l[w - 1 := blank_cell] = take (w - 1) l @ [blank_cell] @ drop w l"
    using assms by (subst upd_conv_take_nth_drop) (auto simp: line_ok_def)
  then show ?thesis
    using line_ok_splice[OF assms(1), of "w - 1" w "[blank_cell]"] assms
    by (simp add: line_ok_def clean_at_def cells_ok_nonempty)
qed

lemma reshape_row_ok:
  assumes "line_ok w row" "0 < width"
  shows "yields (reshape_row width row) (line_ok width)"
proof -
  let ?kept = "take width row @ replicate (width - length row) blank_cell"
  have k: "line_ok width ?kept"
    using assms by (auto simp: line_ok_def intro!: cells_ok_append dest: in_set_takeD)
  show ?thesis
    using k line_ok_last_blank[OF k assms(2)] assms(2)
    by (auto simp: reshape_row_def line_ok_def Let_def)
qed

lemma map_opt_yields:
  "(\<And>x. x \<in> set xs \<Longrightarrow> yields (f x) Q) \<Longrightarrow>
    yields (map_opt f xs) (\<lambda>ys. length ys = length xs \<and> (\<forall>y\<in>set ys. Q y))"
proof (induction xs)
  case (Cons x xs)
  have "yields (f x) Q" "yields (map_opt f xs) (\<lambda>ys. length ys = length xs \<and> (\<forall>y\<in>set ys. Q y))"
    using Cons by auto
  then show ?case by (auto simp: yields_ex)
qed simp

lemma reshape_ok:
  assumes "grid_ok w h grid" "0 < width"
  shows "yields (reshape width height grid) (grid_ok width height)"
proof -
  have "yields (map_opt (reshape_row width) (take height grid))
    (\<lambda>ys. length ys = length (take height grid) \<and> (\<forall>y\<in>set ys. line_ok width y))"
    using assms by (intro map_opt_yields reshape_row_ok) (auto simp: grid_ok_def dest: in_set_takeD)
  then show ?thesis
    by (auto simp: reshape_def yields_ex grid_ok_def)
qed

lemma resize_wf:
  assumes "emu_wf e"
  shows "yields (resize e w h) (\<lambda>e'. emu_wf e' \<and> e_width e' = clamp_width w \<and> e_height e' = clamp_height h)"
proof -
  obtain rows where rows: "reshape (clamp_width w) (clamp_height h) (e_rows e) = Some rows"
    "grid_ok (clamp_width w) (clamp_height h) rows"
    using reshape_ok[of "e_width e" "e_height e" "e_rows e" "clamp_width w" "clamp_height h"] assms
    by (auto simp: yields_ex emu_wf_def)
  obtain main where main: "(case e_main_rows e of None \<Rightarrow> Some None
      | Some m \<Rightarrow> map_option Some (reshape (clamp_width w) (clamp_height h) m)) = Some main"
    "main_ok (clamp_width w) (clamp_height h) main"
  proof (cases "e_main_rows e")
    case None
    then show ?thesis using that[of None] by simp
  next
    case (Some m)
    then have "yields (reshape (clamp_width w) (clamp_height h) m) (grid_ok (clamp_width w) (clamp_height h))"
      using reshape_ok[of "e_width e" "e_height e" m "clamp_width w" "clamp_height h"] assms
      by (simp add: emu_wf_def)
    then show ?thesis using Some that by (auto simp: yields_ex)
  qed
  show ?thesis
  proof (cases "(clamp_width w, clamp_height h) = (e_width e, e_height e)")
    case True
    then show ?thesis using assms by (simp add: resize_def)
  next
    case False
    have "clamp_height h - 1 < clamp_height h" "clamp_width w - 1 < clamp_width w"
      using clamp_height_bounds(3)[of h] clamp_width_bounds(3)[of w] by simp_all
    then show ?thesis
      using False rows main assms unfolding resize_def Let_def
      by (simp add: emu_wf_def min_less_iff_disj)
  qed
qed

section \<open>Repainting\<close>

lemma full_run_end_gt:
  "col < length cur \<Longrightarrow> cur ! col \<noteq> blank_cell \<Longrightarrow> col < full_run_end cur (style_of (cur ! col)) col"
proof -
  have ge: "c \<le> full_run_end cur st c" for st c
    by (induction cur st c rule: full_run_end.induct) (subst full_run_end.simps, auto)
  assume "col < length cur" "cur ! col \<noteq> blank_cell"
  then show ?thesis
    using ge[of "Suc col" "style_of (cur ! col)"] by (subst full_run_end.simps) simp
qed

lemma colored_yields:
  "color_ok f \<Longrightarrow> color_ok b \<Longrightarrow> yields (colored t f b bold rv ul) (\<lambda>_. True)"
  by (cases "(f, b)" rule: prod.exhaust; cases f rule: color_ok.cases; cases b rule: color_ok.cases)
    (auto simp: colored_def fg_def bg_def fg_rgb_def bg_rgb_def)

lemma move_cursor_yields: "1 \<le> r \<Longrightarrow> 1 \<le> c \<Longrightarrow> yields (move_cursor r c) (\<lambda>_. True)"
  by (simp add: move_cursor_def)

lemma full_cols_yields:
  "\<forall>c\<in>set cur. color_ok (c_fg c) \<and> color_ok (c_bg c) \<Longrightarrow> length cur - col \<le> fuel \<Longrightarrow>
    yields (full_cols row fuel cur col) (\<lambda>_. True)"
proof (induction fuel arbitrary: col)
  case (Suc fuel)
  show ?case
  proof (cases "col < length cur \<and> cur ! col \<noteq> blank_cell")
    case True
    let ?e = "full_run_end cur (style_of (cur ! col)) col"
    have "yields (full_cols row fuel cur ?e) (\<lambda>_. True)"
      using full_run_end_gt[of col cur] True Suc by (intro Suc.IH) auto
    moreover have "yields (render_run t (style_of (cur ! col))) (\<lambda>_. True)" for t
      using Suc.prems(1) True by (auto simp: render_run_def style_of_def intro!: colored_yields)
    ultimately show ?thesis
      using True by (simp add: Let_def move_cursor_yields)
  next
    case False
    then show ?thesis using Suc by auto
  qed
qed simp

lemma full_rows_yields:
  "\<forall>l\<in>set cur. \<forall>c\<in>set l. color_ok (c_fg c) \<and> color_ok (c_bg c) \<Longrightarrow>
    yields (full_rows row cur) (\<lambda>_. True)"
  by (induction cur arbitrary: row) (auto simp: full_cols_yields)

lemma full_render_yields:
  "grid_ok w h g \<Longrightarrow> yields (full_render_ansi g) (\<lambda>_. True)"
  by (auto simp: full_render_ansi_def grid_ok_def line_ok_def cell_ok_def intro!: full_rows_yields)

lemma restore_ansi_yields:
  assumes "emu_wf e"
  shows "yields (restore_ansi e) (\<lambda>_. True)"
proof -
  have "line_ok (e_width e) (e_rows e ! e_row e)"
    using assms grid_ok_nth[of "e_width e" "e_height e"] by (simp add: emu_wf_def)
  then have l: "length (e_rows e ! e_row e) = e_width e"
    "c < e_width e \<Longrightarrow> color_ok (c_fg (e_rows e ! e_row e ! c)) \<and> color_ok (c_bg (e_rows e ! e_row e ! c))" for c
    by (auto simp: line_ok_def cell_ok_def)
  obtain full where "full_render_ansi (e_rows e) = Some full"
    using full_render_yields[of "e_width e" "e_height e" "e_rows e"] assms
    by (auto simp: emu_wf_def yields_ex)
  moreover have "\<exists>region. (if (e_top e, e_bottom e) \<noteq> (0, e_height e - 1)
      then set_scroll_region (int (e_top e) + 1) (int (e_bottom e) + 1) else Some []) = Some region"
    using assms by (simp add: set_scroll_region_def emu_wf_def)
  then obtain region where "(if (e_top e, e_bottom e) \<noteq> (0, e_height e - 1)
      then set_scroll_region (int (e_top e) + 1) (int (e_bottom e) + 1) else Some []) = Some region" ..
  moreover obtain cur where "move_cursor (int (e_row e) + 1) (int (e_col e) + 1) = Some cur"
    by (simp add: move_cursor_def)
  moreover have "yields (colored (c_char (e_rows e ! e_row e ! i)) (c_fg (e_rows e ! e_row e ! i))
      (c_bg (e_rows e ! e_row e ! i)) (c_bold (e_rows e ! e_row e ! i))
      (c_reverse (e_rows e ! e_row e ! i)) (c_underline (e_rows e ! e_row e ! i))) (\<lambda>_. True)"
    if "i < e_width e" for i
    using l(2)[of i] that by (simp add: colored_yields)
  moreover have "e_row e < length (e_rows e)" "e_col e < e_width e"
    using assms by (simp_all add: emu_wf_def grid_ok_def)
  ultimately show ?thesis
    unfolding restore_ansi_def by (simp add: l(1) move_cursor_yields move_cursor_def)
qed

section \<open>Properties\<close>

text \<open>What a terminal copy goes through: text written to it, and changes of the caller's window.\<close>

datatype terminal_event = Write ustr | Resize int int

fun run_events :: "unidata \<Rightarrow> emu \<Rightarrow> terminal_event list \<Rightarrow> emu option" where
  "run_events U e [] = Some e"
| "run_events U e (Write s # evs) = do { e' \<leftarrow> feed U e s; run_events U e' evs }"
| "run_events U e (Resize w h # evs) = do { e' \<leftarrow> resize e w h; run_events U e' evs }"

lemma run_events_wf: "emu_wf e \<Longrightarrow> yields (run_events U e evs) emu_wf"
proof (induction evs arbitrary: e)
  case (Cons ev evs)
  show ?case
  proof (cases ev)
    case (Write s)
    then show ?thesis using feed_wf[OF Cons.prems, of U s] Cons.IH by (auto intro: yields_mono)
  next
    case (Resize w h)
    then show ?thesis using resize_wf[OF Cons.prems, of w h] Cons.IH by (auto intro: yields_mono)
  qed
qed simp

text \<open>
  C1: The terminal copy never raises, whatever is written to it: any text in any number of pieces,
  with the window resized in between, leaves a screen of the clamped size with every row full, the
  cursor and the scroll region inside it, and a screen that can be repainted.
\<close>

theorem terminal_never_raises:
  "\<exists>e. run_events U (new_emulator w h wraps) evs = Some e \<and>
     1 \<le> e_width e \<and> e_width e \<le> 500 \<and> 1 \<le> e_height e \<and> e_height e \<le> 200 \<and>
     map length (e_rows e) = replicate (e_height e) (e_width e) \<and>
     e_row e < e_height e \<and> e_col e < e_width e \<and> e_top e \<le> e_bottom e \<and> e_bottom e < e_height e \<and>
     (\<exists>t. restore_ansi e = Some t)"
proof -
  obtain e where e: "run_events U (new_emulator w h wraps) evs = Some e" "emu_wf e"
    using run_events_wf[OF new_emulator_wf, of U w h wraps evs] unfolding yields_ex by blast
  obtain t where t: "restore_ansi e = Some t"
    using restore_ansi_yields[OF e(2)] unfolding yields_ex by blast
  have "map length (e_rows e) = replicate (e_height e) (e_width e)"
    using e(2) by (auto simp: emu_wf_def grid_ok_def line_ok_def intro: replicate_eqI)
  then show ?thesis
    using e t unfolding emu_wf_def by simp
qed

text \<open>
  The table of colour changes is invisible: through any sequence of lookups, the table starting
  empty, every answer is what the uncached function computes, and the table stays within its limit.
\<close>

theorem sgr_table_transparent:
  "fst (lookups (\<lambda>t (p, ps). apply_sgr t p ps) Map.empty keys) = map (\<lambda>(p, ps). apply_sgr_pure p ps) keys \<and>
   card (dom (snd (lookups (\<lambda>t (p, ps). apply_sgr t p ps) Map.empty keys))) \<le> SGR_CACHE_LIMIT"
  using sgr.lookups_from_empty sgr.table_bounded by blast

end
