(* ===== verification/Terminal_Output.thy ===== *)
theory Terminal_Output
  imports Emulator_Views
begin

text \<open>
  What the pieces of output the server builds do to a terminal: a cursor command moves the cursor,
  each part of a \<open>colored\<close> prefix sets its part of the pen, text fills cells. \<open>does\<close> is for a
  piece that ends its own escape sequence; \<open>sends\<close> for text, which the emulator reads up to the
  next escape character or the end. Both compose, so a repaint is proved piece by piece, as a
  compiler's output is.
\<close>

section \<open>What a piece of output does\<close>

definition starts_escape :: "ustr \<Rightarrow> bool" where
  "starts_escape s \<longleftrightarrow> s = [] \<or> hd s = ESC"

definition sends :: "unidata \<Rightarrow> emu \<Rightarrow> ustr \<Rightarrow> emu \<Rightarrow> bool" where
  "sends U e t e' \<longleftrightarrow> (\<forall>rest. starts_escape rest \<longrightarrow> feed U e (t @ rest) = feed U e' rest)"

definition does :: "unidata \<Rightarrow> emu \<Rightarrow> ustr \<Rightarrow> emu \<Rightarrow> bool" where
  "does U e t e' \<longleftrightarrow> (\<forall>rest. feed U e (t @ rest) = feed U e' rest)"

lemma starts_escape_simps [simp]:
  "starts_escape []" "starts_escape (ESC # s)" "starts_escape (csi @ s)" "starts_escape csi"
  "starts_escape (27 # s)"
  by (simp_all add: starts_escape_def csi_def ESC_def)

lemma starts_escape_append: "starts_escape s \<Longrightarrow> starts_escape t \<Longrightarrow> starts_escape (s @ t)"
  by (cases s) (auto simp: starts_escape_def)

lemma sends_Nil [simp]: "sends U e [] e"
  by (simp add: sends_def)

lemma does_Nil [simp]: "does U e [] e"
  by (simp add: does_def)

lemma does_sends: "does U e t e' \<Longrightarrow> sends U e t e'"
  by (simp add: sends_def does_def)

lemma does_append: "does U e s e1 \<Longrightarrow> does U e1 t e2 \<Longrightarrow> does U e (s @ t) e2"
  by (simp add: does_def)

lemma does_then_sends: "does U e s e1 \<Longrightarrow> sends U e1 t e2 \<Longrightarrow> sends U e (s @ t) e2"
  by (simp add: sends_def does_def)

lemma sends_append:
  "sends U e s e1 \<Longrightarrow> sends U e1 t e2 \<Longrightarrow> starts_escape t \<Longrightarrow> sends U e (s @ t) e2"
  by (simp add: sends_def starts_escape_append)

lemma sends_feed: "sends U e t e' \<Longrightarrow> feed U e t = Some e'"
  unfolding sends_def by (drule spec[of _ "[]"]) simp

section \<open>Control sequences\<close>

lemma csi_param_final: "csi_final c \<Longrightarrow> \<not> csi_param c"
  by (simp add: csi_final_def csi_param_def)

lemma whole_csi_match:
  assumes "list_all csi_param ps" "csi_final c" "length ps \<le> 64"
  shows "whole_csi (csi @ ps @ c # s) = Some (ps, c, s)"
proof -
  have "takeWhile csi_param (ps @ c # s) = ps" "dropWhile csi_param (ps @ c # s) = c # s"
    using assms(1,2) csi_param_final
    by (simp_all add: list_all_iff takeWhile_append2 dropWhile_append2)
  then show ?thesis using assms by (simp add: whole_csi_def csi_def)
qed

lemma does_csi:
  assumes "e_state e = Ground" "list_all csi_param ps" "csi_final c" "length ps \<le> 64"
    and "run_csi e ps c = Some e'"
  shows "does U e (csi @ ps @ [c]) e'"
  unfolding does_def
proof
  fix rest
  have "\<not> ascii_printable 27" by (simp add: ascii_printable_def)
  then show "feed U e ((csi @ ps @ [c]) @ rest) = feed U e' rest"
    using whole_csi_match[OF assms(2-4), of rest] assms(1,5) by (simp add: csi_def)
qed

text \<open>Digits and semicolons: what a public sequence's parameters are made of.\<close>

definition sgr_byte :: "nat \<Rightarrow> bool" where
  "sgr_byte c \<longleftrightarrow> is_digit c \<or> c = 59"

lemma sgr_byte_lits [simp]:
  "sgr_byte 48" "sgr_byte 49" "sgr_byte 50" "sgr_byte 51" "sgr_byte 52" "sgr_byte 53"
  "sgr_byte 54" "sgr_byte 55" "sgr_byte 56" "sgr_byte 57" "sgr_byte 59"
  by (simp_all add: sgr_byte_def is_digit_def)

lemma params_plain:
  assumes "list_all sgr_byte ps"
  shows "run_csi e ps c = (if c = 109 then Some (e\<lparr>e_pen := apply_sgr_pure (e_pen e) (csi_params ps)\<rparr>)
    else csi_public e (csi_params ps) c)"
proof -
  have 1: "\<not> list_ex (\<lambda>ch. 32 \<le> ch \<and> ch \<le> 47) ps" "58 \<notin> set ps"
    using assms by (auto simp: list_all_iff list_ex_iff sgr_byte_def is_digit_def)
  have 2: "(ps \<noteq> [] \<and> hd ps \<in> {63, 62, 60, 61}) = False"
    using assms by (cases ps) (auto simp: sgr_byte_def is_digit_def)
  show ?thesis unfolding run_csi_def Let_def 2 by (simp add: 1)
qed

lemma dec_plain [simp]: "list_all sgr_byte (dec n)"
  by (auto simp: list_all_iff sgr_byte_def dec_digits)

lemma dec_no_semicolon [simp]: "59 \<notin> set (dec n)"
  using dec_digits[of 59 n] by (auto simp: is_digit_def)

lemma csi_number_dec [simp]: "csi_number (dec n) = n"
  by (simp add: csi_number_def)

lemma csi_params_last [simp]: "csi_params (dec n) = [n]"
  by (simp add: csi_params_def split_on_absent)

lemma csi_params_more:
  "q \<noteq> [] \<Longrightarrow> 59 \<notin> set p \<Longrightarrow> csi_params (p @ 59 # q) = csi_number p # csi_params q"
  by (simp add: csi_params_def split_on_append)

lemma length_dec_small: "n < 1000 \<Longrightarrow> length (dec n) \<le> 3"
  using length_dec[of n 3] by simp

text \<open>The cursor command lands on the coordinates it names.\<close>

lemma does_move_cursor:
  assumes "e_state e = Ground" "r < e_height e" "c < e_width e" "e_height e \<le> 200" "e_width e \<le> 500"
    and "move_cursor (int r + 1) (int c + 1) = Some t"
  shows "does U e t (e\<lparr>e_row := r, e_col := c, e_pending := False\<rparr>)"
proof -
  let ?ps = "dec (r + 1) @ 59 # dec (c + 1)"
  have t: "t = csi @ ?ps @ [72]"
    using assms(6) show_int_of_nat[of "r + 1"] show_int_of_nat[of "c + 1"]
    by (simp add: move_cursor_def del: show_int_of_nat show_int_nat) (simp add: add.commute)
  have "list_all csi_param ?ps" by simp
  moreover have "length ?ps \<le> 64"
    using length_dec_small[of "r + 1"] length_dec_small[of "c + 1"] assms by simp
  moreover have "run_csi e ?ps 72 = Some (move_to e (int r) (int c))"
    by (simp add: params_plain csi_params_more csi_public_def arg_def)
  moreover have "move_to e (int r) (int c) = e\<lparr>e_row := r, e_col := c, e_pending := False\<rparr>"
    using assms by (simp add: move_to_def min_def)
  ultimately show ?thesis unfolding t using assms(1) by (intro does_csi) auto
qed

section \<open>Colours and attributes\<close>

lemma does_sgr:
  assumes "e_state e = Ground" "list_all sgr_byte ps" "length ps \<le> 64"
    and "apply_sgr_pure (e_pen e) (csi_params ps) = p"
  shows "does U e (csi @ ps @ [109]) (e\<lparr>e_pen := p\<rparr>)"
proof -
  have "list_all csi_param ps"
    using assms(2) by (auto simp: list_all_iff sgr_byte_def is_digit_def csi_param_def)
  then show ?thesis using assms by (intro does_csi) (simp_all add: params_plain)
qed

lemma csi_params_lits:
  "csi_params [48] = [0]" "csi_params [49] = [1]" "csi_params [52] = [4]" "csi_params [55] = [7]"
  "csi_number [53] = 5" "csi_number [50] = 2" "csi_number [51, 56] = 38" "csi_number [52, 56] = 48"
  by (simp_all add: csi_params_def csi_number_def is_ascii_number_def is_digit_def undec_def)

lemma does_attr:
  assumes "e_state e = Ground"
  shows "does U e BOLD (e\<lparr>e_pen := (e_pen e)\<lparr>p_bold := True\<rparr>\<rparr>)"
    "does U e UNDERLINE (e\<lparr>e_pen := (e_pen e)\<lparr>p_underline := True\<rparr>\<rparr>)"
    "does U e REVERSE (e\<lparr>e_pen := (e_pen e)\<lparr>p_reverse := True\<rparr>\<rparr>)"
    "does U e RESET (e\<lparr>e_pen := default_pen\<rparr>)"
  using does_sgr[OF assms, of "[49]"] does_sgr[OF assms, of "[52]"]
    does_sgr[OF assms, of "[55]"] does_sgr[OF assms, of "[48]"]
  by (simp_all add: ansi_consts csi_params_lits apply_sgr_pure_def sgr_pass_def)

lemma params_palette: "csi_params (51 # 56 # 59 # 53 # 59 # dec n) = [38, 5, n]"
  "csi_params (52 # 56 # 59 # 53 # 59 # dec n) = [48, 5, n]"
  using csi_params_more[of "53 # 59 # dec n" "[51, 56]"] csi_params_more[of "dec n" "[53]"]
    csi_params_more[of "53 # 59 # dec n" "[52, 56]"]
  by (simp_all add: csi_params_lits)

lemma params_rgb:
  "csi_params (51 # 56 # 59 # 50 # 59 # dec r @ 59 # dec g @ 59 # dec b) = [38, 2, r, g, b]"
  "csi_params (52 # 56 # 59 # 50 # 59 # dec r @ 59 # dec g @ 59 # dec b) = [48, 2, r, g, b]"
  using csi_params_more[of "50 # 59 # dec r @ 59 # dec g @ 59 # dec b" "[51, 56]"]
    csi_params_more[of "50 # 59 # dec r @ 59 # dec g @ 59 # dec b" "[52, 56]"]
    csi_params_more[of "dec r @ 59 # dec g @ 59 # dec b" "[50]"]
  by (simp_all add: csi_params_lits csi_params_more)

lemma clamp_byte_id: "valid_color c \<Longrightarrow> clamp_byte (nat c) = c"
  by (simp add: clamp_byte_def valid_color_def)

lemma length_dec_color: "valid_color c \<Longrightarrow> length (dec (nat c)) \<le> 3"
  by (rule length_dec_small) (simp add: valid_color_def nat_less_iff)

lemma does_fg:
  assumes "e_state e = Ground" "fg_prefix f = Some t" "f \<noteq> None"
  shows "does U e t (e\<lparr>e_pen := (e_pen e)\<lparr>p_fg := f\<rparr>\<rparr>)"
proof (cases f rule: fg_prefix.cases)
  case (2 c)
  then have c: "valid_color c" "t = csi @ (51 # 56 # 59 # 53 # 59 # dec (nat c)) @ [109]"
    using assms(2) by (auto simp: fg_def valid_color_def split: if_splits)
  show ?thesis
    unfolding c(2) 2 using length_dec_color[OF c(1)] clamp_byte_id[OF c(1)]
    by (intro does_sgr assms(1))
      (simp_all add: params_palette apply_sgr_pure_def sgr_pass_def set_color_def)
next
  case (3 r g b)
  then have c: "valid_color r" "valid_color g" "valid_color b"
    "t = csi @ (51 # 56 # 59 # 50 # 59 # dec (nat r) @ 59 # dec (nat g) @ 59 # dec (nat b)) @ [109]"
    using assms(2) by (auto simp: fg_rgb_def valid_rgb_def valid_color_def split: if_splits)
  show ?thesis
    unfolding c(4) 3 using c(1-3)[THEN length_dec_color] c(1-3)[THEN clamp_byte_id]
    by (intro does_sgr assms(1))
      (simp_all add: params_rgb apply_sgr_pure_def sgr_pass_def set_color_def)
qed (use assms in simp)

lemma does_bg:
  assumes "e_state e = Ground" "bg_prefix f = Some t" "f \<noteq> None"
  shows "does U e t (e\<lparr>e_pen := (e_pen e)\<lparr>p_bg := f\<rparr>\<rparr>)"
proof (cases f rule: bg_prefix.cases)
  case (2 c)
  then have c: "valid_color c" "t = csi @ (52 # 56 # 59 # 53 # 59 # dec (nat c)) @ [109]"
    using assms(2) by (auto simp: bg_def valid_color_def split: if_splits)
  show ?thesis
    unfolding c(2) 2 using length_dec_color[OF c(1)] clamp_byte_id[OF c(1)]
    by (intro does_sgr assms(1))
      (simp_all add: params_palette apply_sgr_pure_def sgr_pass_def set_color_def)
next
  case (3 r g b)
  then have c: "valid_color r" "valid_color g" "valid_color b"
    "t = csi @ (52 # 56 # 59 # 50 # 59 # dec (nat r) @ 59 # dec (nat g) @ 59 # dec (nat b)) @ [109]"
    using assms(2) by (auto simp: bg_rgb_def valid_rgb_def valid_color_def split: if_splits)
  show ?thesis
    unfolding c(4) 3 using c(1-3)[THEN length_dec_color] c(1-3)[THEN clamp_byte_id]
    by (intro does_sgr assms(1))
      (simp_all add: params_rgb apply_sgr_pure_def sgr_pass_def set_color_def)
qed (use assms in simp)


section \<open>Text\<close>

text \<open>One column of text: printable ASCII, or a printable character of width one beyond it.\<close>

definition glyph :: "unidata \<Rightarrow> nat \<Rightarrow> bool" where
  "glyph U ch \<longleftrightarrow> ascii_printable ch \<or> 128 \<le> ch \<and> uni_printable U ch \<and> char_width U ch = 1"

text \<open>A screen without half glyphs.\<close>

definition solid :: "nat \<Rightarrow> nat \<Rightarrow> snapshot \<Rightarrow> bool" where
  "solid w h rows \<longleftrightarrow> length rows = h \<and> (\<forall>l\<in>set rows. length l = w \<and> (\<forall>c\<in>set l. c_char c \<noteq> []))"

lemma solid_row:
  "solid w h rows \<Longrightarrow> r < h \<Longrightarrow> length (rows ! r) = w \<and> (\<forall>c\<in>set (rows ! r). c_char c \<noteq> [])"
  unfolding solid_def using nth_mem by blast

lemma solid_update:
  "solid w h rows \<Longrightarrow> length l = w \<Longrightarrow> \<forall>c\<in>set l. c_char c \<noteq> [] \<Longrightarrow> solid w h (rows[r := l])"
  unfolding solid_def using ball_list_update[of rows "\<lambda>l. length l = w \<and> (\<forall>c\<in>set l. c_char c \<noteq> [])" l r]
  by simp

definition ready :: "emu \<Rightarrow> bool" where
  "ready e \<longleftrightarrow> e_state e = Ground \<and> \<not> e_pending e \<and> \<not> e_wraps_immediately e \<and>
     solid (e_width e) (e_height e) (e_rows e) \<and> e_row e < e_height e \<and> e_col e < e_width e"

definition with_text :: "emu \<Rightarrow> ustr \<Rightarrow> snapshot" where
  "with_text e t = (e_rows e)[e_row e :=
     py_splice (e_rows e ! e_row e) (e_col e) (e_col e + length t) (map (\<lambda>ch. pen_cell e [ch]) t)]"

definition written :: "emu \<Rightarrow> ustr \<Rightarrow> emu" where
  "written e t =
     (if e_width e \<le> e_col e + length t
      then e\<lparr>e_rows := with_text e t, e_col := e_width e - 1, e_pending := True\<rparr>
      else e\<lparr>e_rows := with_text e t, e_col := e_col e + length t\<rparr>)"

lemma advance_written:
  "\<not> e_wraps_immediately e \<Longrightarrow> advance (e\<lparr>e_rows := with_text e t\<rparr>) (length t) = written e t"
  by (simp add: advance_def written_def Let_def last_column_written_def)

lemma solid_with_text:
  assumes "ready e" "e_col e + length t \<le> e_width e"
  shows "solid (e_width e) (e_height e) (with_text e t)"
  unfolding with_text_def
proof (rule solid_update)
  show s: "solid (e_width e) (e_height e) (e_rows e)" using assms by (simp add: ready_def)
  let ?l = "e_rows e ! e_row e"
  have l: "length ?l = e_width e" "\<forall>c\<in>set ?l. c_char c \<noteq> []"
    using solid_row[OF s] assms by (auto simp: ready_def)
  show "length (py_splice ?l (e_col e) (e_col e + length t) (map (\<lambda>ch. pen_cell e [ch]) t)) = e_width e"
    using assms l by (simp add: length_py_splice)
  show "\<forall>c\<in>set (py_splice ?l (e_col e) (e_col e + length t) (map (\<lambda>ch. pen_cell e [ch]) t)). c_char c \<noteq> []"
    using l(2) by (auto dest!: set_py_splice[THEN subsetD])
qed

lemma split_edge_solid:
  "length l = w \<Longrightarrow> \<forall>c\<in>set l. c_char c \<noteq> [] \<Longrightarrow> split_edge w b l i = Some l"
  by (simp add: split_edge_def)

lemma split_wide_solid:
  assumes "solid (e_width e) (e_height e) (e_rows e)" "r < e_height e"
  shows "split_wide e r a b = Some e"
proof -
  have "r < length (e_rows e)" using assms by (simp add: solid_def)
  then show ?thesis
    using solid_row[OF assms] by (simp add: split_wide_def on_line_def split_line_def split_edge_solid)
qed

lemma ready_simps:
  assumes "ready e"
  shows "wrap_if_pending e = e" "e_row e < length (e_rows e)" "split_wide e (e_row e) a b = Some e"
    "length (e_rows e ! e_row e) = e_width e"
  using assms split_wide_solid[of e "e_row e" a b] solid_row[of _ _ "e_rows e" "e_row e"]
  by (auto simp: ready_def wrap_if_pending_def solid_def)

lemma print_ascii_written:
  assumes "ready e" "t \<noteq> []" "e_col e + length t \<le> e_width e"
  shows "print_ascii e t = Some (written e t)"
proof -
  note r = ready_simps[OF assms(1)]
  have "min (length t) (e_width e - e_col e) = length t" using assms by simp
  then have "ascii_step e t = Some (advance (e\<lparr>e_rows := with_text e t\<rparr>) (length t), length t)"
    by (simp add: ascii_step_def r Let_def on_line_def with_text_def)
  then have "ascii_step e t = Some (written e t, length t)"
    using assms(1) by (simp add: advance_written ready_def)
  then show ?thesis using assms(2) by (simp add: print_ascii.simps)
qed

lemma place_glyph_written:
  assumes "ready e"
  shows "place_glyph e ch 1 = Some (written e [ch])"
proof -
  note r = ready_simps[OF assms]
  have "e_col e < e_width e" using assms by (simp add: ready_def)
  then have "with_text e [ch] = (e_rows e)[e_row e := (e_rows e ! e_row e)[e_col e := pen_cell e [ch]]]"
    by (simp add: with_text_def py_splice_def upd_conv_take_nth_drop r)
  then have "place_glyph e ch 1 = Some (advance (e\<lparr>e_rows := with_text e [ch]\<rparr>) (length [ch]))"
    using r \<open>e_col e < e_width e\<close> by (simp add: place_glyph_def on_line_def)
  then show ?thesis using assms by (simp add: advance_written[of e "[ch]", simplified] ready_def)
qed

lemma written_ready: "ready e \<Longrightarrow> e_col e + length t < e_width e \<Longrightarrow> ready (written e t)"
  using solid_with_text[of e t] by (simp add: ready_def written_def)

lemma written_frame [simp]:
  "e_width (written e t) = e_width e" "e_height (written e t) = e_height e"
  "e_row (written e t) = e_row e" "e_pen (written e t) = e_pen e" "e_state (written e t) = e_state e"
  "e_rows (written e t) = with_text e t"
  by (simp_all add: written_def)

lemma written_cursor:
  "\<exists>c p. written e t = e\<lparr>e_rows := with_text e t, e_col := c, e_pending := p\<rparr>"
proof (cases "e_width e \<le> e_col e + length t")
  case False
  then have "written e t = e\<lparr>e_rows := with_text e t, e_col := e_col e + length t, e_pending := e_pending e\<rparr>"
    by (simp add: written_def)
  then show ?thesis by blast
qed (auto simp: written_def)

lemma splice_splice:
  assumes "c + n + length ys \<le> length l" "length xs = n"
  shows "py_splice (py_splice l c (c + n) xs) (c + n) (c + n + length ys) ys
    = py_splice l c (c + n + length ys) (xs @ ys)"
  using assms by (simp add: py_splice_def drop_drop add.commute)

lemma written_written:
  assumes "ready e" "e_col e + length (s @ t) \<le> e_width e" "t \<noteq> []"
  shows "written (written e s) t = written e (s @ t)"
proof -
  note r = ready_simps[OF assms(1)]
  have c: "e_col (written e s) = e_col e + length s" using assms(2,3) by (cases t) (auto simp: written_def)
  have p: "pen_cell (written e s) ch = pen_cell e ch" for ch by (simp add: pen_cell_def)
  have "with_text (written e s) t = with_text e (s @ t)"
    using assms(2) splice_splice[of "e_col e" "length s" "map (\<lambda>ch. pen_cell e [ch]) t"
        "e_rows e ! e_row e" "map (\<lambda>ch. pen_cell e [ch]) s"] r
    by (simp add: with_text_def c p add.assoc)
  then show ?thesis using assms(2,3) c by (cases t) (auto simp: written_def)
qed

lemma ascii_run_split:
  "starts_escape r \<Longrightarrow> takeWhile ascii_printable (t @ r) = takeWhile ascii_printable t \<and>
    dropWhile ascii_printable (t @ r) = dropWhile ascii_printable t @ r"
  by (induction t; cases r) (auto simp: starts_escape_def ascii_printable_def ESC_def)

lemma feed_one_glyph:
  assumes "ready e" "glyph U ch" "\<not> ascii_printable ch"
  shows "feed U e (ch # s) = feed U (written e [ch]) s"
proof -
  have ch: "128 \<le> ch" "uni_printable U ch" "char_width U ch = 1" using assms(2,3) by (auto simp: glyph_def)
  have "whole_csi (ch # s) = None" using ch by (auto simp: whole_csi_def csi_def)
  moreover have "print_char U e ch = Some (written e [ch])"
    using ch place_glyph_written[OF assms(1), of ch] ready_simps[OF assms(1)] by (simp add: print_char_def)
  ultimately show ?thesis
    using assms ch by (simp add: ready_def feed_char_def ESC_def)
qed

lemma sends_text:
  "ready e \<Longrightarrow> \<forall>ch\<in>set t. glyph U ch \<Longrightarrow> e_col e + length t \<le> e_width e \<Longrightarrow> t \<noteq> [] \<Longrightarrow>
    sends U e t (written e t)"
proof (induction t arbitrary: e rule: length_induct)
  case (1 t)
  note rd = "1.prems"(1)
  define a where "a = (if ascii_printable (hd t) then takeWhile ascii_printable t else [hd t])"
  define b where "b = drop (length a) t"
  have "t = a @ b" "a \<noteq> []"
    using "1.prems"(4) unfolding a_def b_def
    by (cases t; simp add: dropWhile_eq_drop[symmetric])+
  have feed_a: "feed U e (t @ r) = feed U (written e a) (b @ r)" if r: "starts_escape r" for r
  proof (cases "ascii_printable (hd t)")
    case True
    have w: "print_ascii e a = Some (written e a)"
      using \<open>t = a @ b\<close> \<open>a \<noteq> []\<close> "1.prems"(3) by (intro print_ascii_written[OF rd]) auto
    have "takeWhile ascii_printable (t @ r) = a" "dropWhile ascii_printable (t @ r) = b @ r"
      using ascii_run_split[OF r, of t] True unfolding a_def b_def
      by (simp_all add: dropWhile_eq_drop[of _ t, symmetric])
    then show ?thesis
      using w True "1.prems"(4) rd by (cases t) (simp_all add: ready_def del: takeWhile.simps dropWhile.simps)
  next
    case False
    then show ?thesis
      using feed_one_glyph[OF rd, of U "hd t" "b @ r"] "1.prems"(2,4)
      by (cases t) (simp_all add: a_def b_def)
  qed
  show ?case
  proof (cases "b = []")
    case True
    then show ?thesis using feed_a \<open>t = a @ b\<close> by (simp add: sends_def)
  next
    case False
    have len: "e_col e + length a + length b \<le> e_width e" "0 < length b"
      using "1.prems"(3) \<open>t = a @ b\<close> False by simp_all
    then have "e_col e + length a < e_width e" by linarith
    then have "ready (written e a)" "e_col (written e a) = e_col e + length a"
      using written_ready[OF rd] by (simp, simp add: written_def)
    then have "sends U (written e a) b (written (written e a) b)"
      using "1.prems"(2) \<open>t = a @ b\<close> \<open>a \<noteq> []\<close> False len
      by (intro "1.IH"[rule_format]) auto
    then show ?thesis
      using feed_a written_written[OF rd, of a b] \<open>t = a @ b\<close> False "1.prems"(3)
      by (simp add: sends_def)
  qed
qed


section \<open>A styled run\<close>

definition style_pen :: "color option \<times> color option \<times> bool \<times> bool \<times> bool \<Rightarrow> pen" where
  "style_pen st = (case st of (f, b, bold, underline, reverse) \<Rightarrow>
     \<lparr>p_fg = f, p_bg = b, p_bold = bold, p_underline = underline, p_reverse = reverse\<rparr>)"

lemma pen_eta: "p\<lparr>p_fg := p_fg p\<rparr> = p" "p\<lparr>p_bg := p_bg p\<rparr> = p" "e\<lparr>e_pen := e_pen e\<rparr> = e"
  by simp_all

lemma prefix_starts_escape:
  "fg_prefix f = Some t \<Longrightarrow> starts_escape t" "bg_prefix f = Some t \<Longrightarrow> starts_escape t"
  by (cases f rule: fg_prefix.cases; auto simp: fg_def fg_rgb_def split: if_splits)
    (cases f rule: bg_prefix.cases; auto simp: bg_def bg_rgb_def split: if_splits)

lemma attr_starts_escape [simp]:
  "starts_escape BOLD" "starts_escape UNDERLINE" "starts_escape REVERSE" "starts_escape RESET"
  by (simp_all add: ansi_consts)

lemma prefix_Nil:
  "fg_prefix f = Some [] \<longleftrightarrow> f = None" "bg_prefix f = Some [] \<longleftrightarrow> f = None"
  by (cases f rule: fg_prefix.cases; simp add: fg_def fg_rgb_def csi_def)
    (cases f rule: bg_prefix.cases; simp add: bg_def bg_rgb_def csi_def)

text \<open>The five parts of \<open>colored\<close>'s prefix each set their part of a default pen.\<close>

lemma does_colors:
  assumes "e_state e = Ground" "e_pen e = default_pen\<lparr>p_bold := bold, p_underline := ul, p_reverse := rv\<rparr>"
    and "fg_prefix f = Some tf" "bg_prefix b = Some tb"
  shows "does U e (tf @ tb) (e\<lparr>e_pen := style_pen (f, b, bold, ul, rv)\<rparr>)"
proof -
  let ?e1 = "e\<lparr>e_pen := (e_pen e)\<lparr>p_fg := f\<rparr>\<rparr>"
  have p: "p_fg (e_pen e) = None" "p_bg (e_pen e) = None"
    by (simp_all add: assms(2) default_pen_def)
  have "does U e tf ?e1"
  proof (cases "f = None")
    case True
    moreover have "(e_pen e)\<lparr>p_fg := None\<rparr> = e_pen e" using p(1) by (cases "e_pen e") simp
    ultimately show ?thesis using assms(3) by simp
  qed (rule does_fg[OF assms(1,3)])
  moreover have "does U ?e1 tb (e\<lparr>e_pen := style_pen (f, b, bold, ul, rv)\<rparr>)"
  proof (cases "b = None")
    case True
    then show ?thesis using assms(4) by (simp add: assms(2) style_pen_def default_pen_def)
  next
    case False
    have "does U ?e1 tb (?e1\<lparr>e_pen := (e_pen ?e1)\<lparr>p_bg := b\<rparr>\<rparr>)"
      using assms(1) by (intro does_bg[OF _ assms(4) False]) simp
    then show ?thesis by (simp add: assms(2) style_pen_def default_pen_def)
  qed
  ultimately show ?thesis
    by (rule does_append)
qed

lemma does_optional:
  "(c \<Longrightarrow> does U e t (e\<lparr>e_pen := p\<rparr>)) \<Longrightarrow> (\<not> c \<Longrightarrow> e_pen e = p) \<Longrightarrow>
    does U e (if c then t else []) (e\<lparr>e_pen := p\<rparr>)"
  by auto

lemma does_attrs:
  assumes "e_state e = Ground" "e_pen e = default_pen"
  shows "does U e ((if bold then BOLD else []) @ (if ul then UNDERLINE else []) @ (if rv then REVERSE else []))
    (e\<lparr>e_pen := default_pen\<lparr>p_bold := bold, p_underline := ul, p_reverse := rv\<rparr>\<rparr>)"
proof -
  have d: "default_pen\<lparr>p_bold := False\<rparr> = default_pen" "default_pen\<lparr>p_underline := False\<rparr> = default_pen"
    by (simp_all add: default_pen_def)
  let ?e1 = "e\<lparr>e_pen := default_pen\<lparr>p_bold := bold\<rparr>\<rparr>"
  let ?e2 = "e\<lparr>e_pen := default_pen\<lparr>p_bold := bold, p_underline := ul\<rparr>\<rparr>"
  have 1: "does U e (if bold then BOLD else []) ?e1"
    using does_attr(1)[OF assms(1), of U] assms(2) d by (intro does_optional) simp_all
  have 2: "does U ?e1 (if ul then UNDERLINE else []) ?e2"
    using does_attr(2)[of ?e1 U] assms(1) by (cases ul) (simp_all add: default_pen_def)
  have 3: "does U ?e2 (if rv then REVERSE else [])
      (e\<lparr>e_pen := default_pen\<lparr>p_bold := bold, p_underline := ul, p_reverse := rv\<rparr>\<rparr>)"
    using does_attr(3)[of ?e2 U] assms(1) by (cases rv) (simp_all add: default_pen_def)
  show ?thesis
    by (rule does_append[OF 1 does_append[OF 2 3]])
qed

lemma sends_render_run:
  assumes "ready e" "e_pen e = default_pen" "render_run t st = Some s"
    and "\<forall>ch\<in>set t. glyph U ch" "e_col e + length t \<le> e_width e" "t \<noteq> []"
  shows "sends U e s ((written (e\<lparr>e_pen := style_pen st\<rparr>) t)\<lparr>e_pen := default_pen\<rparr>)"
proof -
  obtain f b bold ul rv where st: "st = (f, b, bold, ul, rv)" by (cases st)
  obtain tf tb where p: "fg_prefix f = Some tf" "bg_prefix b = Some tb"
    using assms(3) by (auto simp: render_run_def st colored_def bind_eq_Some_conv)
  define at where "at = (if bold then BOLD else []) @ (if ul then UNDERLINE else []) @ (if rv then REVERSE else [])"
  let ?e1 = "e\<lparr>e_pen := default_pen\<lparr>p_bold := bold, p_underline := ul, p_reverse := rv\<rparr>\<rparr>"
  let ?e2 = "e\<lparr>e_pen := style_pen st\<rparr>"
  have g: "e_state e = Ground" using assms(1) by (simp add: ready_def)
  have "does U e at ?e1" unfolding at_def by (rule does_attrs[OF g assms(2)])
  moreover have "does U ?e1 (tf @ tb) ?e2"
    using does_colors[where e = ?e1 and bold = bold and ul = ul and rv = rv, OF _ _ p] g by (simp add: st)
  ultimately have pre: "does U e (at @ tf @ tb) ?e2"
    by (rule does_append)
  have "ready ?e2" using assms(1) by (simp add: ready_def)
  then have printed: "sends U ?e2 t (written ?e2 t)" using assms(4-6) by (intro sends_text) auto
  show ?thesis
  proof (cases "at @ tf @ tb = []")
    case True
    then have "f = None" "b = None" "\<not> bold" "\<not> ul" "\<not> rv"
      using p prefix_Nil by (auto simp: at_def ansi_consts split: if_splits)
    then have "style_pen st = default_pen" by (simp add: st style_pen_def default_pen_def)
    moreover have "s = t" using assms(3) p True by (auto simp: render_run_def st colored_def at_def)
    ultimately show ?thesis using printed assms(2) pen_eta(3) by (metis written_frame(4))
  next
    case False
    then have s: "s = (at @ tf @ tb) @ t @ RESET"
      using assms(3) p by (auto simp: render_run_def st colored_def at_def Let_def)
    have "does U (written ?e2 t) RESET ((written ?e2 t)\<lparr>e_pen := default_pen\<rparr>)"
      using g by (intro does_attr) simp
    then have "sends U ?e2 (t @ RESET) ((written ?e2 t)\<lparr>e_pen := default_pen\<rparr>)"
      by (intro sends_append[OF printed] does_sends) simp_all
    with pre show ?thesis unfolding s by (rule does_then_sends)
  qed
qed


end
