(* ===== verification/Repaint.thy ===== *)
theory Repaint
  imports Terminal_Output
begin

text \<open>
  \<open>diff_ansi\<close> against the terminal that reads it: the text it returns turns a terminal showing the
  old screen into one showing the new. The screens are of single-column characters; a wide
  character's half is a cell the terminal itself rewrites, which is not treated here.
\<close>

section \<open>Painting part of a row\<close>

text \<open>A cell that holds one glyph, in colours the escape sequences can name.\<close>

definition narrow_cell :: "unidata \<Rightarrow> cell \<Rightarrow> bool" where
  "narrow_cell U c \<longleftrightarrow> list_all (glyph U) (c_char c) \<and> length (c_char c) = 1 \<and>
     color_ok (c_fg c) \<and> color_ok (c_bg c)"

definition narrow_screen :: "unidata \<Rightarrow> nat \<Rightarrow> nat \<Rightarrow> snapshot \<Rightarrow> bool" where
  "narrow_screen U w h rows \<longleftrightarrow>
     length rows = h \<and> (\<forall>l\<in>set rows. length l = w \<and> (\<forall>c\<in>set l. narrow_cell U c))"

lemma narrow_char: "narrow_cell U c \<Longrightarrow> \<exists>ch. c_char c = [ch] \<and> glyph U ch"
  by (cases "c_char c") (auto simp: narrow_cell_def)

lemma narrow_ne: "narrow_cell U c \<Longrightarrow> c_char c \<noteq> []"
  by (auto simp: narrow_cell_def)

lemma narrow_solid: "narrow_screen U w h rows \<Longrightarrow> solid w h rows"
  using narrow_char by (fastforce simp: narrow_screen_def solid_def)

lemma run_cells:
  assumes "\<forall>c\<in>set cs. narrow_cell U c \<and> style_of c = st"
  shows "map (\<lambda>ch. pen_cell (e\<lparr>e_pen := style_pen st\<rparr>) [ch]) (concat (map c_char cs)) = cs"
    "length (concat (map c_char cs)) = length cs" "\<forall>ch\<in>set (concat (map c_char cs)). glyph U ch"
  using assms
proof (induction cs)
  case (Cons c cs)
  {
    case 1
    then obtain ch where "c_char c = [ch]" using narrow_char by force
    then show ?case using Cons.IH(1) 1
      by (auto simp: pen_cell_def style_pen_def style_of_def)
  next
    case 2
    then obtain ch where "c_char c = [ch]" using narrow_char by force
    then show ?case using Cons.IH(2) 2 by simp
  next
    case 3
    then show ?case using Cons.IH(3) by (auto simp: narrow_cell_def list_all_iff)
  }
qed simp_all

definition idle :: "emu \<Rightarrow> bool" where
  "idle e \<longleftrightarrow> e_state e = Ground \<and> \<not> e_wraps_immediately e \<and> e_pen e = default_pen \<and>
     solid (e_width e) (e_height e) (e_rows e) \<and> e_width e \<le> 500 \<and> e_height e \<le> 200"

text \<open>Output that changes the screen to \<open>rows\<close>, moves the cursor, and does nothing else.\<close>

definition paints :: "unidata \<Rightarrow> emu \<Rightarrow> ustr \<Rightarrow> snapshot \<Rightarrow> bool" where
  "paints U e t rows \<longleftrightarrow> starts_escape t \<and>
     (\<exists>r c p. sends U e t (e\<lparr>e_rows := rows, e_row := r, e_col := c, e_pending := p\<rparr>))"

lemma emu_same_cursor:
  "e\<lparr>e_rows := e_rows e, e_row := e_row e, e_col := e_col e, e_pending := e_pending e\<rparr> = e"
  by simp

lemma paints_Nil: "paints U e [] (e_rows e)"
  unfolding paints_def using sends_Nil[of U e] emu_same_cursor by (metis starts_escape_simps(1))

lemma paints_same: "e_rows e = rows \<Longrightarrow> paints U e [] rows"
  using paints_Nil by blast

lemma paints_append:
  assumes "paints U e s rows1"
    and "\<And>r c p. paints U (e\<lparr>e_rows := rows1, e_row := r, e_col := c, e_pending := p\<rparr>) t rows2"
  shows "paints U e (s @ t) rows2"
proof -
  obtain r c p where 1: "starts_escape s"
      "sends U e s (e\<lparr>e_rows := rows1, e_row := r, e_col := c, e_pending := p\<rparr>)"
    using assms(1) by (auto simp: paints_def)
  obtain r' c' p' where 2: "starts_escape t"
      "sends U (e\<lparr>e_rows := rows1, e_row := r, e_col := c, e_pending := p\<rparr>) t
        (e\<lparr>e_rows := rows2, e_row := r', e_col := c', e_pending := p'\<rparr>)"
    using assms(2)[where r = r and c = c and p = p] by (auto simp: paints_def)
  show ?thesis
    unfolding paints_def using sends_append[OF 1(2) 2(2,1)] starts_escape_append[OF 1(1) 2(1)] by blast
qed

lemma idle_update:
  "idle e \<Longrightarrow> solid (e_width e) (e_height e) rows \<Longrightarrow>
    idle (e\<lparr>e_rows := rows, e_row := r, e_col := c, e_pending := p\<rparr>)"
  by (simp add: idle_def)

lemma run_renders:
  "narrow_cell U c \<Longrightarrow> \<exists>s. render_run t (style_of c) = Some s"
  using colored_yields[of "c_fg c" "c_bg c" t]
  by (auto simp: render_run_def style_of_def narrow_cell_def yields_ex)

lemma paints_run:
  assumes "idle e" "r < e_height e" "c < e_width e" "cs \<noteq> []" "c + length cs \<le> e_width e"
    and "\<forall>x\<in>set cs. narrow_cell U x \<and> style_of x = st"
  obtains m s where "move_cursor (int r + 1) (int c + 1) = Some m"
    "render_run (concat (map c_char cs)) st = Some s"
    "paints U e (m @ s) ((e_rows e)[r := py_splice (e_rows e ! r) c (c + length cs) cs])"
proof -
  let ?t = "concat (map c_char cs)"
  let ?e1 = "e\<lparr>e_row := r, e_col := c, e_pending := False\<rparr>"
  obtain m where m: "move_cursor (int r + 1) (int c + 1) = Some m" by (simp add: move_cursor_def)
  obtain s where s: "render_run ?t st = Some s"
    using run_renders[of U "hd cs" ?t] assms(4,6) by (metis list.set_sel(1))
  note t = run_cells[OF assms(6)]
  have ne: "?t \<noteq> []" using t(2) assms(4) by (metis length_0_conv)
  have rd: "ready ?e1" using assms(1-3) by (simp add: ready_def idle_def)
  have d1: "does U e m ?e1"
    using assms(1-3) m by (intro does_move_cursor) (simp_all add: idle_def)
  have d2: "sends U ?e1 s ((written (?e1\<lparr>e_pen := style_pen st\<rparr>) ?t)\<lparr>e_pen := default_pen\<rparr>)"
    using assms(1,5) s t(2,3) ne by (intro sends_render_run[OF rd]) (simp_all add: idle_def)
  have "with_text (?e1\<lparr>e_pen := style_pen st\<rparr>) ?t
      = (e_rows e)[r := py_splice (e_rows e ! r) c (c + length cs) cs]"
    using t(1)[of "?e1"] t(2) by (simp add: with_text_def)
  moreover obtain c' p' where "written (?e1\<lparr>e_pen := style_pen st\<rparr>) ?t
      = ?e1\<lparr>e_pen := style_pen st, e_rows := with_text (?e1\<lparr>e_pen := style_pen st\<rparr>) ?t,
          e_col := c', e_pending := p'\<rparr>"
    using written_cursor by blast
  ultimately have "(written (?e1\<lparr>e_pen := style_pen st\<rparr>) ?t)\<lparr>e_pen := default_pen\<rparr>
      = e\<lparr>e_rows := (e_rows e)[r := py_splice (e_rows e ! r) c (c + length cs) cs],
          e_row := r, e_col := c', e_pending := p'\<rparr>"
    using assms(1) by (cases e) (simp add: idle_def)
  then have "paints U e (m @ s) ((e_rows e)[r := py_splice (e_rows e ! r) c (c + length cs) cs])"
    using does_then_sends[OF d1 d2] m
    by (auto simp: paints_def move_cursor_def csi_def intro!: exI)
  then show thesis using that m s by blast
qed


section \<open>Painting rows and screens\<close>

lemma diff_run_end_run:
  "length prev = length cur \<Longrightarrow> col \<le> length cur \<Longrightarrow>
    \<exists>e. diff_run_end prev cur style col = Some e \<and> e \<le> length cur \<and>
      (\<forall>i. col \<le> i \<and> i < e \<longrightarrow> style_of (cur ! i) = style)"
proof (induction prev cur style col rule: diff_run_end.induct)
  case (1 prev cur style col)
  show ?case
  proof (cases "col < length cur \<and> cur ! col \<noteq> prev ! col \<and> style_of (cur ! col) = style")
    case True
    then obtain e where e: "diff_run_end prev cur style (col + 1) = Some e" "e \<le> length cur"
        "\<forall>i. col + 1 \<le> i \<and> i < e \<longrightarrow> style_of (cur ! i) = style"
      using 1 by auto
    have "diff_run_end prev cur style col = Some e"
      using True e(1) 1(2) by (subst diff_run_end.simps) simp
    moreover have "style_of (cur ! i) = style" if "col \<le> i" "i < e" for i
      using e(3) True that by (cases "i = col") auto
    ultimately show ?thesis using e(2) by blast
  next
    case False
    then have "diff_run_end prev cur style col = Some col"
      using 1(2,3) by (subst diff_run_end.simps) auto
    then show ?thesis using 1(3) by auto
  qed
qed

lemma splice_prefix:
  assumes "length prev = length cur" "col < e" "e \<le> length cur"
  shows "py_splice (take col cur @ drop col prev) col (col + (e - col)) (take (e - col) (drop col cur))
    = take e cur @ drop e prev"
proof -
  have "take e cur = take col cur @ take (e - col) (drop col cur)"
    using assms by (metis add_diff_inverse_nat less_imp_le_nat not_less take_add)
  then show ?thesis using assms by (simp add: py_splice_def min_def)
qed

lemma prev_solid:
  assumes "idle e" "r < e_height e" "e_rows e ! r = take col cur @ drop col prev"
  shows "col \<le> n \<Longrightarrow> x \<in> set (drop n prev) \<Longrightarrow> c_char x \<noteq> []"
proof -
  assume "col \<le> n" "x \<in> set (drop n prev)"
  then have "x \<in> set (drop col prev)"
    using set_drop_subset_set_drop[of col n prev] by blast
  then show ?thesis
    using solid_row[of "e_width e" "e_height e" "e_rows e" r] assms by (auto simp: idle_def)
qed

lemma diff_cols_paints:
  assumes "idle e" "r < e_height e" "length cur = e_width e" "length prev = e_width e"
    and "\<forall>c\<in>set cur. narrow_cell U c" "e_rows e ! r = take col cur @ drop col prev"
    and "col \<le> e_width e" "e_width e - col \<le> fuel"
  shows "\<exists>t. diff_cols r fuel prev cur col = Some t \<and> paints U e t ((e_rows e)[r := cur])"
  using assms
proof (induction fuel arbitrary: e col)
  case 0
  then have "e_rows e ! r = cur" by simp
  then have "(e_rows e)[r := cur] = e_rows e" by (metis list_update_id)
  then show ?case using paints_Nil[of U e] "0.prems" by simp
next
  case (Suc fuel)
  note P = Suc.prems
  show ?case
  proof (cases "col < e_width e")
    case False
    then have "e_rows e ! r = cur" using P by simp
    then have "(e_rows e)[r := cur] = e_rows e" by (metis list_update_id)
    then show ?thesis using paints_Nil[of U e] P False by simp
  next
    case True
    show ?thesis
    proof (cases "cur ! col = prev ! col")
      case same: True
      have "e_rows e ! r = take (col + 1) cur @ drop (col + 1) prev"
        using P True same by (simp add: take_Suc_conv_app_nth Cons_nth_drop_Suc)
      then show ?thesis using Suc.IH[of e "col + 1"] P True same by simp
    next
      case False
      let ?st = "style_of (cur ! col)"
      obtain b where b: "diff_run_end prev cur ?st col = Some b" "b \<le> e_width e"
          "\<forall>i. col \<le> i \<and> i < b \<longrightarrow> style_of (cur ! i) = ?st"
        using diff_run_end_run[of prev cur col ?st] P True by auto
      have "col < b" using diff_run_end_gt[OF b(1)] P True False by simp
      define cs where "cs = take (b - col) (drop col cur)"
      have "length cs = b - col" using b P by (simp add: cs_def)
      moreover have "narrow_cell U x \<and> style_of x = ?st" if x: "x \<in> set cs" for x
      proof -
        obtain i where i: "i < b - col" "x = cur ! (col + i)"
          using x b(2) P(3) unfolding cs_def in_set_conv_nth by auto
        then have "col + i < b" by simp
        moreover then have "x \<in> set cur" using i(2) b(2) P(3) by simp
        ultimately show ?thesis using i(2) b(3)[rule_format, of "col + i"] P(5) by simp
      qed
      ultimately have cs: "length cs = b - col" "\<forall>x\<in>set cs. narrow_cell U x \<and> style_of x = ?st"
        by blast+
      obtain m s where ms: "move_cursor (int r + 1) (int col + 1) = Some m"
          "render_run (concat (map c_char cs)) ?st = Some s"
          "paints U e (m @ s) ((e_rows e)[r := py_splice (e_rows e ! r) col (col + length cs) cs])"
        by (rule paints_run[OF P(1,2) True _ _ cs(2)]) (use cs(1) b(2) \<open>col < b\<close> in auto)
      have sp: "py_splice (e_rows e ! r) col (col + length cs) cs = take b cur @ drop b prev"
        using splice_prefix[of prev cur col b] P \<open>col < b\<close> b(2) cs(1) by (simp add: cs_def)
      let ?line = "take b cur @ drop b prev" and ?rows = "(e_rows e)[r := take b cur @ drop b prev]"
      have "c_char c \<noteq> []" if "c \<in> set ?line" for c
        using that P(5) narrow_ne prev_solid[OF P(1,2,6) less_imp_le[OF \<open>col < b\<close>]]
        by (metis Un_iff in_set_takeD set_append)
      then have sol: "solid (e_width e) (e_height e) ?rows"
        using P(1,3,4) b(2) by (intro solid_update) (auto simp: idle_def)
      have step: "\<exists>t. diff_cols r fuel prev cur b = Some t \<and>
          paints U (e\<lparr>e_rows := ?rows, e_row := r', e_col := c', e_pending := p'\<rparr>) t ((e_rows e)[r := cur])"
        for r' c' p'
      proof -
        let ?e = "e\<lparr>e_rows := ?rows, e_row := r', e_col := c', e_pending := p'\<rparr>"
        have i: "idle ?e" by (rule idle_update[OF P(1) sol])
        have "r < length (e_rows e)" using P(1,2) by (simp add: idle_def solid_def)
        then have "e_rows ?e ! r = ?line" by simp
        then have "\<exists>t. diff_cols r fuel prev cur b = Some t \<and> paints U ?e t ((e_rows ?e)[r := cur])"
          using P(2-5,8) \<open>col < b\<close> b(2) by (intro Suc.IH[OF i]) simp_all
        then show ?thesis by simp
      qed
      then obtain t where t: "diff_cols r fuel prev cur b = Some t" by blast
      have "paints U e ((m @ s) @ t) ((e_rows e)[r := cur])"
        using ms(3) unfolding sp by (rule paints_append) (use step t in auto)
      moreover have "run_text cur col b = concat (map c_char cs)" by (simp add: run_text_def cs_def)
      then have "diff_cols r (Suc fuel) prev cur col = Some (m @ s @ t)"
        using True False by (simp add: P(3,4) b(1) ms(1,2) t)
      ultimately show ?thesis by simp
    qed
  qed
qed


lemma diff_rows_paints:
  assumes "idle e" "e_rows e = front @ ps" "length front = row" "length ps = length cs"
    and "\<forall>l\<in>set cs. length l = e_width e \<and> (\<forall>c\<in>set l. narrow_cell U c)"
  shows "\<exists>t. diff_rows row ps cs = Some t \<and> paints U e t (front @ cs)"
  using assms
proof (induction row ps cs arbitrary: e front rule: diff_rows.induct)
  case (1 row p ps c cs)
  note P = "1.prems"
  have s: "solid (e_width e) (e_height e) (front @ p # ps)" using P(1,2) by (simp add: idle_def)
  have len: "length p = e_width e" "row < e_height e" "e_rows e ! row = p"
    using s P by (auto simp: solid_def)
  obtain t where t: "diff_row row p c = Some t" "paints U e t ((e_rows e)[row := c])"
    using diff_cols_paints[OF P(1) len(2), of c p U 0 "e_width e"] P(5) len by (auto simp: diff_row_def)
  have rows: "(e_rows e)[row := c] = (front @ [c]) @ ps"
    using P(3) by (auto simp: P(2) list_update_append)
  have "solid (e_width e) (e_height e) ((front @ [c]) @ ps)"
    using s P(5) narrow_ne by (auto simp: solid_def)
  then have step: "\<exists>t. diff_rows (row + 1) ps cs = Some t \<and>
      paints U (e\<lparr>e_rows := (front @ [c]) @ ps, e_row := r', e_col := c', e_pending := p'\<rparr>) t (front @ c # cs)"
    for r' c' p'
    using "1.IH"[OF t(1) idle_update[OF P(1)], where front = "front @ [c]"] P(3-5) by simp
  then obtain t' where t': "diff_rows (row + 1) ps cs = Some t'" by blast
  have "paints U e (t @ t') (front @ c # cs)"
    using t(2) unfolding rows by (rule paints_append) (use step t' in auto)
  then show ?case using t(1) t' by simp
qed (auto intro: paints_same)

lemma diff_ansi_paints:
  assumes "idle e" "narrow_screen U (e_width e) (e_height e) cur"
  shows "\<exists>t. diff_ansi (e_rows e) cur = Some t \<and> paints U e t cur"
proof -
  have "length (e_rows e) = length cur" using assms by (simp add: idle_def solid_def narrow_screen_def)
  then show ?thesis
    using diff_rows_paints[OF assms(1), of "[]" "e_rows e" 0 cur U] assms(2)
    by (auto simp: diff_ansi_def narrow_screen_def)
qed

lemma idle_wf:
  "emu_wf e \<Longrightarrow> e_state e = Ground \<Longrightarrow> e_pen e = default_pen \<Longrightarrow> \<not> e_wraps_immediately e \<Longrightarrow>
    narrow_screen U (e_width e) (e_height e) (e_rows e) \<Longrightarrow> idle e"
  by (auto simp: idle_def emu_wf_def narrow_solid)

text \<open>
  C2: Sending a terminal the difference between two screens shows the second: from a terminal that
  shows the first, in its default colours and not inside an escape sequence, the text is accepted whole
  and the terminal ends with every cell of the second and nothing else changed but the cursor's place
  and its pending wrap. The screens may hold any single-column characters in any colours and attributes,
  but no wide glyph and no combining mark, and the terminal is one that keeps a wrap pending at its last
  column: of the terminals classed as wrapping at once, where a character in the bottom right corner
  scrolls the screen, this says nothing.
\<close>

theorem diff_repaints_terminal:
  assumes "emu_wf e" and "e_state e = Ground" and "e_pen e = default_pen" and "\<not> e_wraps_immediately e"
    and "narrow_screen U (e_width e) (e_height e) (e_rows e)"
    and "narrow_screen U (e_width e) (e_height e) cur"
  shows "\<exists>t r c p. diff_ansi (e_rows e) cur = Some t \<and>
    feed U e t = Some (e\<lparr>e_rows := cur, e_row := r, e_col := c, e_pending := p\<rparr>)"
  using diff_ansi_paints[OF idle_wf[OF assms(1-5)] assms(6)] sends_feed
  unfolding paints_def by blast

definition demo_screen :: snapshot where
  "demo_screen =
     [[blank_cell, blank_cell\<lparr>c_char := u ''x''\<rparr>],
      [blank_cell\<lparr>c_bg := Some (Palette 4)\<rparr>, blank_cell\<lparr>c_char := [0x2588], c_fg := Some (Rgb 1 2 3), c_bold := True\<rparr>]]"

lemma demo_narrow: "narrow_screen few_chars (e_width (fresh 2 2 False)) (e_height (fresh 2 2 False)) demo_screen"
  by (simp add: fresh_def demo_screen_def narrow_screen_def narrow_cell_def blank_cell_def glyph_def
      ascii_printable_def few_chars_def char_width_def valid_color_def valid_rgb_def)

lemma fresh_narrow: "narrow_screen U (e_width (fresh w h v)) (e_height (fresh w h v)) (e_rows (fresh w h v))"
  by (auto simp: fresh_def narrow_screen_def blank_grid_def narrow_cell_def blank_cell_def glyph_def
      ascii_printable_def)

theorem diff_repaints_terminal_witness:
  "\<exists>t r c p. diff_ansi (e_rows (fresh 2 2 False)) demo_screen = Some t \<and>
     feed few_chars (fresh 2 2 False) t =
       Some ((fresh 2 2 False)\<lparr>e_rows := demo_screen, e_row := r, e_col := c, e_pending := p\<rparr>)"
  by (rule diff_repaints_terminal)
    (simp_all add: fresh_wf fresh_narrow demo_narrow, simp_all add: fresh_def)

end
