(* ===== verification/Restore.thy ===== *)
theory Restore
  imports Repaint
begin

text \<open>
  \<open>restore_ansi\<close> against the terminal that reads it: the copy's cells, scroll region, cursor, pending
  wrap, pen and cursor visibility arrive on a terminal in its default colours; on one whose pen has a
  background they do not.
\<close>

section \<open>Sequences\<close>

lemma move_to_in:
  "r < e_height e \<Longrightarrow> c < e_width e \<Longrightarrow>
    move_to e (int r) (int c) = e\<lparr>e_row := r, e_col := c, e_pending := False\<rparr>"
  by (simp add: move_to_def min_def)

lemma csi_params_Nil [simp]: "csi_params [] = []"
  by (simp add: csi_params_def)

lemma does_public:
  assumes "e_state e = Ground" "list_all sgr_byte ps" "length ps \<le> 64" "csi_final c" "c \<noteq> 109"
    and "csi_public e (csi_params ps) c = Some e'"
  shows "does U e (csi @ ps @ [c]) e'"
proof -
  have "list_all csi_param ps"
    using assms(2) by (auto simp: list_all_iff sgr_byte_def is_digit_def csi_param_def)
  then show ?thesis using assms by (intro does_csi) (simp_all add: params_plain)
qed

lemma margins_whole:
  "0 < e_height e \<Longrightarrow> 0 < e_width e \<Longrightarrow> set_margins e 0 (int (e_height e) - 1) =
    e\<lparr>e_top := 0, e_bottom := e_height e - 1, e_row := 0, e_col := 0, e_pending := False\<rparr>"
  by (auto simp: set_margins_def move_to_def nat_diff_distrib)

lemma does_whole_region:
  assumes "e_state e = Ground" "0 < e_height e" "0 < e_width e"
  shows "does U e (csi @ u ''r'')
    (e\<lparr>e_top := 0, e_bottom := e_height e - 1, e_row := 0, e_col := 0, e_pending := False\<rparr>)"
  using does_public[of e "[]" 114] assms margins_whole[of e]
  by (simp add: csi_public_def arg_def)

lemma does_clear_screen:
  assumes "e_state e = Ground" "0 < e_height e" "0 < e_width e"
  shows "does U e clear_screen
    (e\<lparr>e_rows := replicate (e_height e) (replicate (e_width e) (erased e)),
       e_row := 0, e_col := 0, e_pending := False\<rparr>)"
proof -
  let ?e1 = "e\<lparr>e_rows := replicate (e_height e) (replicate (e_width e) (erased e)), e_pending := False\<rparr>"
  have p: "csi_params [50] = [2]"
    by (simp add: csi_params_def csi_number_def is_ascii_number_def is_digit_def undec_def)
  have 1: "does U e (csi @ [50] @ [74]) ?e1"
    using assms(1) p by (intro does_public) (simp_all add: csi_public_def arg_def erase_display_def)
  have 2: "does U ?e1 (csi @ [] @ [72]) (move_to ?e1 0 0)"
    using assms(1) by (intro does_public) (simp_all add: csi_public_def arg_def)
  have 3: "move_to ?e1 0 0 = ?e1\<lparr>e_row := 0, e_col := 0, e_pending := False\<rparr>"
    using move_to_in[of 0 ?e1 0] assms by simp
  show ?thesis
    using does_append[OF 1 2[unfolded 3]] by (simp add: clear_screen_def)
qed

lemma does_region:
  assumes "e_state e = Ground" "a < b" "b < e_height e" "e_height e \<le> 200" "0 < e_width e"
    and "set_scroll_region (int a + 1) (int b + 1) = Some t"
  shows "does U e t (e\<lparr>e_top := a, e_bottom := b, e_row := 0, e_col := 0, e_pending := False\<rparr>)"
proof -
  let ?ps = "dec (a + 1) @ 59 # dec (b + 1)"
  have t: "t = csi @ ?ps @ [114]"
    using assms(6) show_int_of_nat[of "a + 1"] show_int_of_nat[of "b + 1"]
    by (simp add: set_scroll_region_def del: show_int_of_nat show_int_nat split: if_splits) (simp add: add.commute)
  have "set_margins e (int a) (int b) = move_to (e\<lparr>e_top := a, e_bottom := b\<rparr>) 0 0"
    using assms(2,3) by (simp add: set_margins_def)
  also have "\<dots> = e\<lparr>e_top := a, e_bottom := b, e_row := 0, e_col := 0, e_pending := False\<rparr>"
    using move_to_in[of 0 "e\<lparr>e_top := a, e_bottom := b\<rparr>" 0] assms by simp
  finally have "csi_public e (csi_params ?ps) 114
      = Some (e\<lparr>e_top := a, e_bottom := b, e_row := 0, e_col := 0, e_pending := False\<rparr>)"
    by (simp add: csi_params_more csi_public_def arg_def)
  moreover have "length ?ps \<le> 64"
    using length_dec_small[of "a + 1"] length_dec_small[of "b + 1"] assms by simp
  ultimately show ?thesis
    unfolding t using assms(1) by (intro does_public) simp_all
qed

lemma does_visible:
  assumes "e_state e = Ground"
  shows "does U e (if v then csi @ u ''?25h'' else csi @ u ''?25l'') (e\<lparr>e_visible := v\<rparr>)"
proof -
  have p: "csi_params [50, 53] = [25]"
    by (simp add: csi_params_def csi_number_def is_ascii_number_def is_digit_def undec_def)
  have "run_csi e [63, 50, 53] 104 = Some (e\<lparr>e_visible := True\<rparr>)"
    "run_csi e [63, 50, 53] 108 = Some (e\<lparr>e_visible := False\<rparr>)"
    by (simp_all add: run_csi_def p csi_private_def)
  then show ?thesis
    using does_csi[OF assms, of "[63, 50, 53]" 104] does_csi[OF assms, of "[63, 50, 53]" 108]
    by (cases v) simp_all
qed

section \<open>The pen's sequence\<close>

lemma split_on_join: "split_on sep (p @ sep # s) = split_on sep p @ split_on sep s"
proof (induction p)
  case (Cons c p)
  then show ?case by (auto split: list.splits simp: append_eq_Cons_conv)
qed simp

lemma csi_params_join:
  assumes "ps \<noteq> []" "\<forall>p\<in>set ps. p \<noteq> []"
  shows "csi_params (join_with [59] ps) = concat (map csi_params ps)"
  using assms
proof (induction ps)
  case (Cons p ps)
  show ?case
  proof (cases ps)
    case (Cons q qs)
    then have "join_with [59] ps \<noteq> []" using Cons.prems by (cases qs) auto
    then show ?thesis
      using Cons Cons.IH Cons.prems by (simp add: csi_params_def split_on_join)
  qed simp
qed simp


fun color_params :: "nat \<Rightarrow> color option \<Rightarrow> nat list" where
  "color_params base None = []"
| "color_params base (Some (Palette c)) = [base, 5, nat c]"
| "color_params base (Some (Rgb r g b)) = [base, 2, nat r, nat g, nat b]"

lemma dec_38_48: "dec 38 = [51, 56]" "dec 48 = [52, 56]"
  by (simp_all add: dec.simps)

lemma color_code_params:
  assumes "color_ok f"
  shows "concat (map csi_params (sgr_color_code 38 f)) = color_params 38 f"
    "concat (map csi_params (sgr_color_code 48 f)) = color_params 48 f"
  using assms
  by (cases f rule: color_ok.cases;
      simp add: dec_38_48 params_palette params_rgb valid_color_def valid_rgb_def)+

lemma color_code_text:
  assumes "color_ok f" "base = 38 \<or> base = 48" "p \<in> set (sgr_color_code base f)"
  shows "p \<noteq> [] \<and> list_all sgr_byte p"
  using assms
  by (cases f rule: color_ok.cases) (auto simp: valid_color_def valid_rgb_def dec_38_48)

lemma sgr_steps:
  "sgr_loop p (0 # xs) = sgr_loop default_pen xs"
  "sgr_loop p (1 # xs) = sgr_loop (p\<lparr>p_bold := True\<rparr>) xs"
  "sgr_loop p (4 # xs) = sgr_loop (p\<lparr>p_underline := True\<rparr>) xs"
  "sgr_loop p (7 # xs) = sgr_loop (p\<lparr>p_reverse := True\<rparr>) xs"
  by (simp_all add: sgr_pass_def)

lemma sgr_color_steps:
  assumes "color_ok (Some c)"
  shows "sgr_loop p (color_params 38 (Some c) @ xs) = sgr_loop (p\<lparr>p_fg := Some c\<rparr>) xs"
    "sgr_loop p (color_params 48 (Some c) @ xs) = sgr_loop (p\<lparr>p_bg := Some c\<rparr>) xs"
  using assms by (cases c; simp add: sgr_pass_def set_color_def clamp_byte_id valid_rgb_def)+

lemma sgr_colors:
  assumes "color_ok f" "color_ok b" "p_fg p = None" "p_bg p = None"
  shows "sgr_loop p (color_params 38 f @ color_params 48 b) = p\<lparr>p_fg := f, p_bg := b\<rparr>"
proof -
  have 1: "sgr_loop q (color_params 48 b) = q\<lparr>p_bg := b\<rparr>" if "p_bg q = None" for q
  proof (cases b)
    case None
    then show ?thesis using that by (cases q) simp
  next
    case (Some c)
    then show ?thesis using sgr_color_steps(2)[of c q "[]"] assms(2) by simp
  qed
  show ?thesis
  proof (cases f)
    case None
    then show ?thesis using 1[of p] assms(3,4) by (cases p) simp
  next
    case (Some c)
    then show ?thesis using sgr_color_steps(1)[of c p] assms(1,4) 1[of "p\<lparr>p_fg := f\<rparr>"] by simp
  qed
qed

definition pen_parts :: "pen \<Rightarrow> ustr list" where
  "pen_parts p = [u ''0''] @ (if p_bold p then [u ''1''] else []) @ (if p_underline p then [u ''4''] else [])
        @ (if p_reverse p then [u ''7''] else []) @ sgr_color_code 38 (p_fg p) @ sgr_color_code 48 (p_bg p)"

lemma apply_pen_params:
  assumes "pen_ok p"
  shows "apply_sgr_pure q (csi_params (join_with [59] (pen_parts p))) = p"
proof -
  have c: "color_ok (p_fg p)" "color_ok (p_bg p)" using assms by (simp_all add: pen_ok_def)
  have ne: "pen_parts p \<noteq> []" "\<forall>x\<in>set (pen_parts p). x \<noteq> []"
    using color_code_text[OF c(1), of 38] color_code_text[OF c(2), of 48]
    by (auto simp: pen_parts_def split: if_splits)
  let ?q = "default_pen\<lparr>p_bold := p_bold p, p_underline := p_underline p, p_reverse := p_reverse p\<rparr>"
  have "csi_params (join_with [59] (pen_parts p)) = 0 # (if p_bold p then [1] else [])
      @ (if p_underline p then [4] else []) @ (if p_reverse p then [7] else [])
      @ color_params 38 (p_fg p) @ color_params 48 (p_bg p)"
    using color_code_params[OF c(1)] color_code_params[OF c(2)]
    by (simp add: csi_params_join[OF ne]) (simp add: pen_parts_def csi_params_lits)
  moreover have "sgr_loop default_pen ((if p_bold p then [1] else []) @ (if p_underline p then [4] else [])
      @ (if p_reverse p then [7] else []) @ color_params 38 (p_fg p) @ color_params 48 (p_bg p))
      = sgr_loop ?q (color_params 38 (p_fg p) @ color_params 48 (p_bg p))"
    by (cases "p_bold p"; cases "p_underline p"; cases "p_reverse p")
      (simp_all add: sgr_steps sgr_steps(2)[unfolded One_nat_def] default_pen_def del: sgr_loop.simps)
  moreover have "\<dots> = p"
    using sgr_colors[OF c, of ?q] by (cases p) (simp add: default_pen_def)
  ultimately show ?thesis by (simp only: apply_sgr_pure_def if_False list.distinct sgr_steps)
qed

lemma length_join_with: "length (join_with [x] ps) \<le> sum_list (map (\<lambda>p. length p + 1) ps)"
  by (induction "[x]" ps rule: join_with.induct) auto

lemma join_bytes: "\<forall>p\<in>set ps. list_all sgr_byte p \<Longrightarrow> list_all sgr_byte (join_with [59] ps)"
  by (induction "[59::nat]" ps rule: join_with.induct) auto

lemma color_code_length:
  assumes "color_ok f" "base = 38 \<or> base = 48"
  shows "sum_list (map (\<lambda>p. length p + 1) (sgr_color_code base f)) \<le> 18"
proof (cases f rule: color_ok.cases)
  case (2 c)
  then show ?thesis
    using assms length_dec_color[of c] by (auto simp: valid_color_def dec_38_48)
next
  case (3 r g b)
  then show ?thesis
    using assms length_dec_color[of r] length_dec_color[of g] length_dec_color[of b]
    by (auto simp: valid_color_def valid_rgb_def dec_38_48)
qed simp

lemma does_pen:
  assumes "e_state e = Ground" "pen_ok p"
  shows "does U e (pen_sgr p) (e\<lparr>e_pen := p\<rparr>)"
proof -
  have c: "color_ok (p_fg p)" "color_ok (p_bg p)" using assms by (simp_all add: pen_ok_def)
  have "list_all sgr_byte x" if "x \<in> set (pen_parts p)" for x
    using that color_code_text[OF c(1), of 38] color_code_text[OF c(2), of 48]
    by (auto simp: pen_parts_def split: if_splits)
  then have "list_all sgr_byte (join_with [59] (pen_parts p))"
    by (intro join_bytes) blast
  moreover have "sum_list (map (\<lambda>x. length x + 1) (pen_parts p)) \<le> 64"
    using color_code_length[OF c(1), of 38] color_code_length[OF c(2), of 48]
    by (simp add: pen_parts_def)
  then have "length (join_with [59] (pen_parts p)) \<le> 64"
    using length_join_with[of 59 "pen_parts p"] by linarith
  ultimately have "does U e (csi @ join_with [59] (pen_parts p) @ [109]) (e\<lparr>e_pen := p\<rparr>)"
    using assms(1) apply_pen_params[OF assms(2)] by (intro does_sgr) auto
  then show ?thesis by (simp add: pen_sgr_def pen_parts_def)
qed

section \<open>The whole repaint\<close>

text \<open>What the text leaves in the terminal that reads it, besides the screen.\<close>

definition shows_state :: "emu \<Rightarrow> emu \<Rightarrow> emu" where
  "shows_state e r = r\<lparr>e_rows := e_rows e, e_row := e_row e, e_col := e_col e, e_pen := e_pen e,
     e_visible := e_visible e, e_top := e_top e, e_bottom := e_bottom e, e_pending := e_pending e\<rparr>"

lemma full_rows_diff:
  assumes "length cur = h" "\<forall>l\<in>set cur. length l = w"
  shows "full_rows 0 cur = diff_ansi (blank_grid w h) cur"
proof -
  have "diff_rows 0 (blank_grid w h) cur = full_rows 0 cur"
    using assms by (intro diff_rows_blank) (auto simp: blank_grid_def set_zip)
  then show ?thesis by (simp add: diff_ansi_def)
qed

definition receptive :: "emu \<Rightarrow> bool" where
  "receptive r \<longleftrightarrow> e_state r = Ground \<and> \<not> e_wraps_immediately r \<and> e_pen r = default_pen \<and>
     0 < e_width r \<and> e_width r \<le> 500 \<and> 0 < e_height r \<and> e_height r \<le> 200"

lemma receptive_idle:
  "receptive r \<Longrightarrow> solid (e_width r) (e_height r) rows \<Longrightarrow>
    idle (r\<lparr>e_rows := rows, e_row := r', e_col := c', e_pending := p'\<rparr>)"
  by (simp add: receptive_def idle_def)

lemma paints_full:
  assumes "receptive r" "narrow_screen U (e_width r) (e_height r) cur"
  shows "\<exists>t. full_render_ansi cur = Some t \<and> paints U r t cur"
proof -
  let ?blank = "blank_grid (e_width r) (e_height r)"
  have er: "erased r = blank_cell" using assms(1) by (simp add: erased_def receptive_def default_pen_def)
  have cl: "does U r clear_screen (r\<lparr>e_rows := ?blank, e_row := 0, e_col := 0, e_pending := False\<rparr>)"
    using does_clear_screen[of r U] assms by (simp add: receptive_def er blank_grid_def)
  have "solid (e_width r) (e_height r) ?blank" by (auto simp: solid_def blank_grid_def)
  then have i: "idle (r\<lparr>e_rows := ?blank, e_row := r', e_col := c', e_pending := p'\<rparr>)" for r' c' p'
    by (rule receptive_idle[OF assms(1)])
  have d: "\<exists>t. full_rows 0 cur = Some t \<and>
      paints U (r\<lparr>e_rows := ?blank, e_row := r', e_col := c', e_pending := p'\<rparr>) t cur" for r' c' p'
    using diff_ansi_paints[OF i, where U = U and cur = cur] full_rows_diff[of cur "e_height r" "e_width r"] assms(2)
    by (simp add: narrow_screen_def)
  then obtain t where t: "full_rows 0 cur = Some t" by blast
  have "paints U r clear_screen ?blank"
    using does_sends[OF cl] unfolding paints_def by (auto simp: clear_screen_def intro!: exI)
  then have "paints U r (clear_screen @ t) cur"
    by (rule paints_append) (use d t in auto)
  then show ?thesis using t by (simp add: full_render_ansi_def)
qed

text \<open>The parts after the screen: the region, the cursor, a pending wrap.\<close>

lemma does_region_part:
  assumes "idle r" "0 < e_height r" "0 < e_width r" "e_top r = 0" "e_bottom r = e_height r - 1"
    and "a < b \<or> e_height r = 1 \<and> a = 0" "b < e_height r" "a \<le> b"
  obtains t r' c' p' where "(if (a, b) \<noteq> (0, e_height r - 1)
      then set_scroll_region (int a + 1) (int b + 1) else Some []) = Some t" "starts_escape t"
    "does U r t (r\<lparr>e_top := a, e_bottom := b, e_row := r', e_col := c', e_pending := p'\<rparr>)"
proof (cases "(a, b) = (0, e_height r - 1)")
  case True
  then have "r\<lparr>e_top := a, e_bottom := b, e_row := e_row r, e_col := e_col r, e_pending := e_pending r\<rparr> = r"
    using assms(4,5) by simp
  then show thesis using that[where t = "[]" and r' = "e_row r" and c' = "e_col r" and p' = "e_pending r"] True by simp
next
  case False
  then have "a < b" using assms(6-8) by auto
  obtain t where t: "set_scroll_region (int a + 1) (int b + 1) = Some t"
    using \<open>a < b\<close> by (simp add: set_scroll_region_def)
  have "starts_escape t" using t by (auto simp: set_scroll_region_def split: if_splits)
  moreover have "does U r t (r\<lparr>e_top := a, e_bottom := b, e_row := 0, e_col := 0, e_pending := False\<rparr>)"
    using assms \<open>a < b\<close> t by (intro does_region) (auto simp: idle_def)
  ultimately show thesis using that[where t = t] t False by simp
qed

lemma same_cell_with_text:
  assumes "ready r" "c_char x = [ch]" "e_rows r ! e_row r ! e_col r = x"
  shows "with_text (r\<lparr>e_pen := style_pen (style_of x)\<rparr>) [ch] = e_rows r"
proof -
  note s = ready_simps[OF assms(1)]
  have c: "e_col r < e_width r" using assms(1) by (simp add: ready_def)
  have "pen_cell (r\<lparr>e_pen := style_pen (style_of x)\<rparr>) [ch] = x"
    using assms(2) by (simp add: pen_cell_def style_pen_def style_of_def)
  then have "with_text (r\<lparr>e_pen := style_pen (style_of x)\<rparr>) [ch]
      = (e_rows r)[e_row r := (e_rows r ! e_row r)[e_col r := x]]"
    using c s by (simp add: with_text_def py_splice_def upd_conv_take_nth_drop)
  then show ?thesis using assms(3) by (metis list_update_id)
qed

lemma sends_last_cell:
  assumes "idle r" "e_row r < e_height r" "e_col r = e_width r - 1" "0 < e_width r" "\<not> e_pending r"
    and "e_rows r ! e_row r ! e_col r = x" "narrow_cell U x"
  obtains t where "colored (c_char x) (c_fg x) (c_bg x) (c_bold x) (c_reverse x) (c_underline x) = Some t"
    "sends U r t (r\<lparr>e_pending := True\<rparr>)"
proof -
  obtain ch where ch: "c_char x = [ch]" "glyph U ch" using narrow_char[OF assms(7)] by blast
  obtain t where t: "render_run [ch] (style_of x) = Some t" using run_renders[OF assms(7)] by blast
  have rd: "ready r" using assms(1-5) by (simp add: ready_def idle_def)
  have "sends U r t ((written (r\<lparr>e_pen := style_pen (style_of x)\<rparr>) [ch])\<lparr>e_pen := default_pen\<rparr>)"
    using assms(1,3,4) ch(2) t by (intro sends_render_run[OF rd]) (simp_all add: idle_def)
  moreover have "(written (r\<lparr>e_pen := style_pen (style_of x)\<rparr>) [ch])\<lparr>e_pen := default_pen\<rparr> = r\<lparr>e_pending := True\<rparr>"
    using same_cell_with_text[OF rd ch(1) assms(6)] assms(1,3,4)
    by (cases r) (simp add: written_def idle_def)
  moreover have "colored (c_char x) (c_fg x) (c_bg x) (c_bold x) (c_reverse x) (c_underline x) = Some t"
    using t ch(1) by (simp add: render_run_def style_of_def)
  ultimately show thesis using that by simp
qed

definition last_cell :: "emu \<Rightarrow> cell" where
  "last_cell e = e_rows e ! e_row e ! e_col e"

lemma last_cell_narrow:
  assumes "emu_wf e" "narrow_screen U (e_width e) (e_height e) (e_rows e)"
  shows "narrow_cell U (last_cell e)" "e_row e < length (e_rows e)" "e_col e < length (e_rows e ! e_row e)"
proof -
  note b = emu_wf_simps[OF assms(1)]
  show r: "e_row e < length (e_rows e)" using assms b by (simp add: narrow_screen_def)
  then have "e_rows e ! e_row e \<in> set (e_rows e)" by simp
  then have l: "length (e_rows e ! e_row e) = e_width e" "\<forall>c\<in>set (e_rows e ! e_row e). narrow_cell U c"
    using assms(2) by (auto simp: narrow_screen_def)
  then show "e_col e < length (e_rows e ! e_row e)" using b by simp
  then show "narrow_cell U (last_cell e)" using l(2) by (simp add: last_cell_def)
qed

text \<open>Without half glyphs the reprint of the last cell never steps back.\<close>

lemma restore_ansi_narrow:
  assumes "emu_wf e" "narrow_screen U (e_width e) (e_height e) (e_rows e)"
  shows "restore_ansi e = do {
     full \<leftarrow> full_render_ansi (e_rows e);
     region \<leftarrow> (if (e_top e, e_bottom e) \<noteq> (0, e_height e - 1)
               then set_scroll_region (int (e_top e) + 1) (int (e_bottom e) + 1) else Some []);
     cur \<leftarrow> move_cursor (int (e_row e) + 1) (int (e_col e) + 1);
     last \<leftarrow> (if e_pending e then colored (c_char (last_cell e)) (c_fg (last_cell e)) (c_bg (last_cell e))
         (c_bold (last_cell e)) (c_reverse (last_cell e)) (c_underline (last_cell e)) else Some []);
     Some (csi @ u ''r'' @ full @ region @ cur @ last @ pen_sgr (e_pen e)
           @ (if e_visible e then csi @ u ''?25h'' else csi @ u ''?25l''))
   }"
proof -
  note l = last_cell_narrow[OF assms]
  have "c_char (e_rows e ! e_row e ! e_col e) \<noteq> []" using narrow_ne[OF l(1)] by (simp add: last_cell_def)
  then show ?thesis using l(2,3) by (simp add: restore_ansi_def last_cell_def cong: if_cong)
qed

lemma sends_cursor_and_wrap:
  assumes "emu_wf e" "narrow_screen U (e_width e) (e_height e) (e_rows e)"
    and "idle q" "e_width q = e_width e" "e_height q = e_height e" "e_rows q = e_rows e"
    and "move_cursor (int (e_row e) + 1) (int (e_col e) + 1) = Some m"
  obtains t where "(if e_pending e then colored (c_char (last_cell e)) (c_fg (last_cell e)) (c_bg (last_cell e))
      (c_bold (last_cell e)) (c_reverse (last_cell e)) (c_underline (last_cell e)) else Some []) = Some t"
    "sends U q (m @ t) (q\<lparr>e_row := e_row e, e_col := e_col e, e_pending := e_pending e\<rparr>)"
proof -
  note b = emu_wf_simps[OF assms(1)]
  let ?q = "q\<lparr>e_row := e_row e, e_col := e_col e, e_pending := False\<rparr>"
  have mv: "does U q m ?q"
    using assms(3-7) b by (intro does_move_cursor) (simp_all add: idle_def)
  show thesis
  proof (cases "e_pending e")
    case True
    then have "e_col e = e_width e - 1" using assms(1) by (simp add: emu_wf_def)
    moreover have "idle ?q" using assms(3) by (simp add: idle_def)
    ultimately obtain t where "colored (c_char (last_cell e)) (c_fg (last_cell e)) (c_bg (last_cell e))
        (c_bold (last_cell e)) (c_reverse (last_cell e)) (c_underline (last_cell e)) = Some t"
        "sends U ?q t (?q\<lparr>e_pending := True\<rparr>)"
      using b assms(4-6) last_cell_narrow(1)[OF assms(1,2)]
      by (elim sends_last_cell[of ?q "last_cell e" U, rotated -1]) (simp_all add: last_cell_def)
    then show thesis using that does_then_sends[OF mv] True by simp
  next
    case False
    then show thesis using that[of "[]"] does_sends[OF mv] by simp
  qed
qed

definition last_text :: "emu \<Rightarrow> ustr option" where
  "last_text e = (if e_pending e then colored (c_char (last_cell e)) (c_fg (last_cell e)) (c_bg (last_cell e))
      (c_bold (last_cell e)) (c_reverse (last_cell e)) (c_underline (last_cell e)) else Some [])"

definition region_text :: "emu \<Rightarrow> ustr option" where
  "region_text e = (if (e_top e, e_bottom e) \<noteq> (0, e_height e - 1)
     then set_scroll_region (int (e_top e) + 1) (int (e_bottom e) + 1) else Some [])"

definition visible_text :: "emu \<Rightarrow> ustr" where
  "visible_text e = (if e_visible e then csi @ u ''?25h'' else csi @ u ''?25l'')"

lemma restore_tail:
  assumes "emu_wf e" "narrow_screen U (e_width e) (e_height e) (e_rows e)"
    and "e_top e < e_bottom e \<or> e_height e = 1"
    and "idle q" "e_width q = e_width e" "e_height q = e_height e" "e_rows q = e_rows e"
    and "e_top q = 0" "e_bottom q = e_height e - 1"
  obtains reg m l where "region_text e = Some reg" "last_text e = Some l"
    "move_cursor (int (e_row e) + 1) (int (e_col e) + 1) = Some m"
    "starts_escape (reg @ (m @ l) @ pen_sgr (e_pen e) @ visible_text e)"
    "sends U q (reg @ (m @ l) @ pen_sgr (e_pen e) @ visible_text e) (shows_state e q)"
proof -
  note b = emu_wf_simps[OF assms(1)]
  obtain reg r' c' p' where reg: "region_text e = Some reg" "starts_escape reg"
    and s1: "does U q reg (q\<lparr>e_top := e_top e, e_bottom := e_bottom e, e_row := r', e_col := c', e_pending := p'\<rparr>)"
    using does_region_part[OF assms(4), of "e_top e" "e_bottom e" U thesis] b assms(3,5-9)
    by (auto simp: region_text_def)
  let ?q1 = "q\<lparr>e_top := e_top e, e_bottom := e_bottom e, e_row := r', e_col := c', e_pending := p'\<rparr>"
  have i1: "idle ?q1" using assms(4) by (simp add: idle_def)
  obtain m where m: "move_cursor (int (e_row e) + 1) (int (e_col e) + 1) = Some m" by (simp add: move_cursor_def)
  obtain l where l: "last_text e = Some l"
    and s2: "sends U ?q1 (m @ l) (?q1\<lparr>e_row := e_row e, e_col := e_col e, e_pending := e_pending e\<rparr>)"
    using sends_cursor_and_wrap[OF assms(1,2) i1 _ _ _ m] assms(5-7) by (auto simp: last_text_def)
  let ?q2 = "?q1\<lparr>e_row := e_row e, e_col := e_col e, e_pending := e_pending e\<rparr>"
  have g: "e_state q = Ground" using assms(4) by (simp add: idle_def)
  have s3: "does U ?q2 (pen_sgr (e_pen e) @ visible_text e) (?q2\<lparr>e_pen := e_pen e, e_visible := e_visible e\<rparr>)"
    using does_pen[of ?q2 "e_pen e" U] does_visible[of "?q2\<lparr>e_pen := e_pen e\<rparr>" U "e_visible e"] g assms(1)
    by (intro does_append[where ?e1.0 = "?q2\<lparr>e_pen := e_pen e\<rparr>"]) (simp_all add: emu_wf_def visible_text_def)
  have eq: "?q2\<lparr>e_pen := e_pen e, e_visible := e_visible e\<rparr> = shows_state e q"
    using assms(7) by (cases q) (simp add: shows_state_def)
  have se: "starts_escape (pen_sgr (e_pen e) @ visible_text e)" "starts_escape (m @ l)"
    using m by (auto simp: pen_sgr_def csi_def move_cursor_def)
  have "sends U ?q1 ((m @ l) @ pen_sgr (e_pen e) @ visible_text e) (shows_state e q)"
    using sends_append[OF s2 does_sends[OF s3] se(1)] by (simp only: eq)
  then have "sends U q (reg @ (m @ l) @ pen_sgr (e_pen e) @ visible_text e) (shows_state e q)"
    by (rule does_then_sends[OF s1])
  then show thesis
    using that reg l m starts_escape_append[OF reg(2) starts_escape_append[OF se(2,1)]] by blast
qed

lemma restore_sends:
  assumes "emu_wf e" "narrow_screen U (e_width e) (e_height e) (e_rows e)"
    and "e_top e < e_bottom e \<or> e_height e = 1"
    and "receptive r" "e_width r = e_width e" "e_height r = e_height e"
  obtains t where "restore_ansi e = Some t" "sends U r t (shows_state e r)"
proof -
  let ?r1 = "r\<lparr>e_top := 0, e_bottom := e_height e - 1, e_row := 0, e_col := 0, e_pending := False\<rparr>"
  have g: "e_state r = Ground" using assms(4) by (simp add: receptive_def)
  have s1: "does U r (csi @ u ''r'') ?r1"
    using does_whole_region[OF g, of U] emu_wf_simps[OF assms(1)] assms(5,6) by simp
  have rec1: "receptive ?r1" using assms(4) by (simp add: receptive_def)
  obtain full r' c' p' where full: "full_render_ansi (e_rows e) = Some full" "starts_escape full"
      and s2: "sends U ?r1 full (?r1\<lparr>e_rows := e_rows e, e_row := r', e_col := c', e_pending := p'\<rparr>)"
    using paints_full[OF rec1, of U "e_rows e"] assms(2,5,6) by (auto simp: paints_def)
  let ?r2 = "?r1\<lparr>e_rows := e_rows e, e_row := r', e_col := c', e_pending := p'\<rparr>"
  have sol: "solid (e_width ?r1) (e_height ?r1) (e_rows e)" using narrow_solid[OF assms(2)] assms(5,6) by simp
  have i2: "idle ?r2" by (rule receptive_idle[OF rec1 sol])
  have q: "e_width ?r2 = e_width e" "e_height ?r2 = e_height e" "e_rows ?r2 = e_rows e"
    "e_top ?r2 = 0" "e_bottom ?r2 = e_height e - 1" using assms(5,6) by simp_all
  obtain reg m l where tl: "region_text e = Some reg" "last_text e = Some l"
      "move_cursor (int (e_row e) + 1) (int (e_col e) + 1) = Some m"
    and se: "starts_escape (reg @ (m @ l) @ pen_sgr (e_pen e) @ visible_text e)"
    and s3: "sends U ?r2 (reg @ (m @ l) @ pen_sgr (e_pen e) @ visible_text e) (shows_state e ?r2)"
    using restore_tail[OF assms(1-3) i2 q] by blast
  have "shows_state e ?r2 = shows_state e r" by (cases r) (simp add: shows_state_def)
  then have "sends U ?r1 (full @ reg @ (m @ l) @ pen_sgr (e_pen e) @ visible_text e) (shows_state e r)"
    using sends_append[OF s2 s3 se] by (simp only:)
  then have "sends U r ((csi @ u ''r'') @ full @ reg @ (m @ l) @ pen_sgr (e_pen e) @ visible_text e) (shows_state e r)"
    by (rule does_then_sends[OF s1])
  moreover have "restore_ansi e = Some ((csi @ u ''r'') @ full @ reg @ (m @ l) @ pen_sgr (e_pen e) @ visible_text e)"
    using tl by (simp only: restore_ansi_narrow[OF assms(1,2)] full(1) bind.bind_lunit append_assoc
        region_text_def[symmetric] last_text_def[symmetric] visible_text_def[symmetric])
  ultimately show thesis using that by blast
qed

section \<open>Properties\<close>

text \<open>
  C3: Repainting a caller's terminal from the server's copy puts it back. The copy may be in any state the
  emulator can reach whose screen holds single-column characters only (no wide glyph, no combining mark)
  and whose scroll region has two rows or is the whole of a one-row screen; the terminal is of the same
  size, in its default colours, not inside an escape sequence, and keeps a wrap pending at its last column
  rather than wrapping at once. Then, whatever the terminal shows and wherever its cursor and scroll region
  are, the text leaves the copy's every cell, cursor, pen, cursor visibility, scroll region and pending
  wrap, and touches nothing else.
\<close>

theorem restore_reproduces_terminal:
  assumes "emu_wf e" and "narrow_screen U (e_width e) (e_height e) (e_rows e)"
    and "e_top e < e_bottom e \<or> e_height e = 1"
    and "receptive r" and "e_width r = e_width e" and "e_height r = e_height e"
  shows "\<exists>t. restore_ansi e = Some t \<and>
    feed U r t = Some (r\<lparr>e_rows := e_rows e, e_row := e_row e, e_col := e_col e, e_pen := e_pen e,
      e_visible := e_visible e, e_top := e_top e, e_bottom := e_bottom e, e_pending := e_pending e\<rparr>)"
proof -
  obtain t where "restore_ansi e = Some t" "sends U r t (shows_state e r)"
    using restore_sends[OF assms] .
  then show ?thesis using sends_feed[of U r t] by (simp add: shows_state_def)
qed

definition demo_terminal :: emu where
  "demo_terminal = (fresh 2 2 False)\<lparr>e_rows := demo_screen, e_col := 1, e_pending := True,
     e_pen := default_pen\<lparr>p_bg := Some (Palette 1), p_bold := True\<rparr>, e_visible := False\<rparr>"

lemma demo_terminal_wf: "emu_wf demo_terminal"
proof -
  have "grid_ok 2 2 demo_screen"
    by (simp add: grid_ok_def demo_screen_def line_ok_def cell_ok_def blank_cell_def MAX_CELL_CHARS_def
        valid_color_def valid_rgb_def cells_ok_nonempty)
  then show ?thesis
    by (simp add: demo_terminal_def emu_wf_def fresh_def pen_ok_def default_pen_def valid_color_def)
qed

theorem restore_reproduces_terminal_witness:
  "\<exists>t. restore_ansi demo_terminal = Some t \<and> feed few_chars (fresh 2 2 False) t =
     Some ((fresh 2 2 False)\<lparr>e_rows := e_rows demo_terminal, e_row := e_row demo_terminal,
       e_col := e_col demo_terminal, e_pen := e_pen demo_terminal, e_visible := e_visible demo_terminal,
       e_top := e_top demo_terminal, e_bottom := e_bottom demo_terminal, e_pending := e_pending demo_terminal\<rparr>)"
  by (rule restore_reproduces_terminal[OF demo_terminal_wf])
    (use demo_narrow in \<open>simp_all add: demo_terminal_def fresh_def receptive_def\<close>)

lemma full_cols_all_blank:
  "\<forall>c\<in>set cur. c = blank_cell \<Longrightarrow> length cur - col \<le> fuel \<Longrightarrow> full_cols row fuel cur col = Some []"
  by (induction fuel arbitrary: col) auto

lemma full_rows_all_blank:
  "\<forall>l\<in>set cur. \<forall>c\<in>set l. c = blank_cell \<Longrightarrow> full_rows row cur = Some []"
  by (induction cur arbitrary: row) (simp_all add: full_cols_all_blank)

lemma restore_blank:
  assumes "e_rows e = blank_grid w h" "e_top e = 0" "e_bottom e = e_height e - 1" "\<not> e_pending e"
  obtains m where "move_cursor (int (e_row e) + 1) (int (e_col e) + 1) = Some m"
    "restore_ansi e = Some ((csi @ u ''r'') @ clear_screen @ m @ pen_sgr (e_pen e) @ visible_text e)"
proof -
  have "full_rows 0 (blank_grid w h) = Some []"
    by (rule full_rows_all_blank) (auto simp: blank_grid_def)
  moreover obtain m where "move_cursor (int (e_row e) + 1) (int (e_col e) + 1) = Some m"
    by (simp add: move_cursor_def)
  ultimately show thesis
    using that assms by (simp add: restore_ansi_def full_render_ansi_def visible_text_def)
qed

text \<open>
  C4: The repaint assumes default colours and does not set them, so it cannot be sent twice. Take a copy
  whose screen is blank, with its whole height as scroll region, wherever its cursor is, and with a
  background colour in its pen: sent to such a terminal in its default colours, the repaint leaves exactly
  the copy, the pen included; sent again, the same text leaves every cell filled with that background,
  where the copy has none. \<open>end_break_in\<close> sends it again whenever output arrives during the first repaint.
\<close>

theorem repeated_restore_floods_background:
  assumes "emu_wf e" and "e_state e = Ground" and "\<not> e_wraps_immediately e" and "\<not> e_pending e"
    and "e_rows e = blank_grid (e_width e) (e_height e)" and "e_top e = 0" and "e_bottom e = e_height e - 1"
    and "p_bg (e_pen e) = Some b"
  shows "\<exists>t. restore_ansi e = Some t \<and>
    feed U (e\<lparr>e_pen := default_pen\<rparr>) t = Some e \<and>
    feed U e t = Some (e\<lparr>e_rows := replicate (e_height e) (replicate (e_width e) (blank_cell\<lparr>c_bg := Some b\<rparr>))\<rparr>)"
proof -
  let ?d = "e\<lparr>e_pen := default_pen\<rparr>"
  let ?flood = "replicate (e_height e) (replicate (e_width e) (erased e))"
  note wf = emu_wf_simps[OF assms(1)]
  have lim: "e_width e \<le> 500" "e_height e \<le> 200" "pen_ok (e_pen e)" using assms(1) by (simp_all add: emu_wf_def)
  obtain m where m: "move_cursor (int (e_row e) + 1) (int (e_col e) + 1) = Some m"
      "restore_ansi e = Some ((csi @ u ''r'') @ clear_screen @ m @ pen_sgr (e_pen e) @ visible_text e)"
    using restore_blank[OF assms(5-7,4)] by blast
  let ?t = "(csi @ u ''r'') @ clear_screen @ m @ pen_sgr (e_pen e) @ visible_text e"
  have shown: "does U x ?t (x\<lparr>e_rows := replicate (e_height e) (replicate (e_width e) (erased x)), e_pen := e_pen e\<rparr>)"
    if "x = ?d \<or> x = e" for x
  proof -
    let ?x1 = "x\<lparr>e_row := 0, e_col := 0\<rparr>"
    let ?x2 = "?x1\<lparr>e_rows := replicate (e_height e) (replicate (e_width e) (erased x))\<rparr>"
    let ?x3 = "?x2\<lparr>e_row := e_row e, e_col := e_col e\<rparr>"
    have x: "x\<lparr>e_top := 0, e_bottom := e_height e - 1, e_row := 0, e_col := 0, e_pending := False\<rparr> = ?x1"
      "e_state x = Ground" "e_height x = e_height e" "e_width x = e_width e"
      using that assms(2,4,6,7) by auto
    have 1: "does U x (csi @ u ''r'') ?x1"
      using does_whole_region[of x U, unfolded x(3) x(1)] x(2) wf(3,4) by (simp only: x(4))
    have 2: "does U ?x1 clear_screen ?x2"
    proof -
      have "?x1\<lparr>e_rows := R, e_row := 0, e_col := 0, e_pending := False\<rparr> = ?x1\<lparr>e_rows := R\<rparr>" for R
        using that assms(4) by auto
      moreover have "erased ?x1 = erased x" by (simp add: erased_def)
      ultimately show ?thesis using does_clear_screen[of ?x1 U] x(2-4) wf(3,4) by simp
    qed
    have 3: "does U ?x2 m ?x3"
    proof -
      have "?x2\<lparr>e_row := e_row e, e_col := e_col e, e_pending := False\<rparr> = ?x3"
        using that assms(4) by auto
      then show ?thesis
        using does_move_cursor[of ?x2 "e_row e" "e_col e" m U] m(1) x(2-4) wf(1,2) lim(1,2) by simp
    qed
    have 4: "does U ?x3 (pen_sgr (e_pen e)) (?x3\<lparr>e_pen := e_pen e\<rparr>)"
      using does_pen[of ?x3 "e_pen e" U] x(2) lim(3) by simp
    have 5: "does U (?x3\<lparr>e_pen := e_pen e\<rparr>) (visible_text e) (?x3\<lparr>e_pen := e_pen e\<rparr>)"
    proof -
      have "?x3\<lparr>e_pen := e_pen e, e_visible := e_visible e\<rparr> = ?x3\<lparr>e_pen := e_pen e\<rparr>" using that by auto
      then show ?thesis
        using does_visible[of "?x3\<lparr>e_pen := e_pen e\<rparr>" U "e_visible e"] x(2) by (simp add: visible_text_def)
    qed
    have "?x3\<lparr>e_pen := e_pen e\<rparr> = x\<lparr>e_rows := replicate (e_height e) (replicate (e_width e) (erased x)), e_pen := e_pen e\<rparr>"
      using that by auto
    then show ?thesis
      using does_append[OF 1 does_append[OF 2 does_append[OF 3 does_append[OF 4 5]]]] by (simp only:)
  qed
  have "?d\<lparr>e_rows := replicate (e_height e) (replicate (e_width e) (erased ?d)), e_pen := e_pen e\<rparr> = e"
    using assms(5) by (simp add: erased_def default_pen_def blank_grid_def)
  then have first: "feed U ?d ?t = Some e" using shown[of ?d, THEN does_sends, THEN sends_feed] by simp
  have "erased e = blank_cell\<lparr>c_bg := Some b\<rparr>" using assms(8) by (simp add: erased_def)
  then have again: "feed U e ?t = Some (e\<lparr>e_rows := replicate (e_height e) (replicate (e_width e) (blank_cell\<lparr>c_bg := Some b\<rparr>))\<rparr>)"
    using shown[of e, THEN does_sends, THEN sends_feed] by simp
  from m(2) first again show ?thesis by blast
qed

definition painted_terminal :: emu where
  "painted_terminal = (fresh 2 1 False)\<lparr>e_col := 1, e_pen := default_pen\<lparr>p_bg := Some (Palette 4)\<rparr>\<rparr>"

lemma painted_wf: "emu_wf painted_terminal"
  using fresh_wf[of 2 1 False]
  by (simp add: painted_terminal_def emu_wf_def fresh_def pen_ok_def default_pen_def valid_color_def)

theorem repeated_restore_floods_background_witness:
  "\<exists>t. restore_ansi painted_terminal = Some t \<and>
    feed few_chars (painted_terminal\<lparr>e_pen := default_pen\<rparr>) t = Some painted_terminal \<and>
    feed few_chars painted_terminal t =
      Some (painted_terminal\<lparr>e_rows := replicate 1 (replicate 2 (blank_cell\<lparr>c_bg := Some (Palette 4)\<rparr>))\<rparr>)"
  using repeated_restore_floods_background[of painted_terminal "Palette 4" few_chars] painted_wf
  by (simp add: painted_terminal_def fresh_def)

end
