(* ===== verification/Py_Text.thy ===== *)
theory Py_Text
  imports NB_Prelude
begin

text \<open>
  The parts of Python's text handling that depend on the Unicode tables. The tables are a
  parameter; what the code relies on is that they agree with ASCII below 128 and that every decimal
  digit is a digit (\<open>unicode_laws\<close>).
\<close>

record unitext =
  ut_space :: "nat \<Rightarrow> bool"
  ut_isdigit :: "nat \<Rightarrow> bool"
  ut_decimal :: "nat \<Rightarrow> nat option"

definition ascii_space :: "nat \<Rightarrow> bool" where
  "ascii_space c \<longleftrightarrow> (9 \<le> c \<and> c \<le> 13) \<or> (28 \<le> c \<and> c \<le> 32)"

definition unicode_laws :: "unitext \<Rightarrow> bool" where
  "unicode_laws T \<longleftrightarrow>
     (\<forall>c<128. ut_space T c = ascii_space c) \<and>
     (\<forall>c<128. ut_isdigit T c = is_digit c) \<and>
     (\<forall>c<128. ut_decimal T c = (if is_digit c then Some (c - 48) else None)) \<and>
     (\<forall>c v. ut_decimal T c = Some v \<longrightarrow> ut_isdigit T c \<and> \<not> ut_space T c \<and> v < 10)"

text \<open>Tables that know ASCII and one character more: the superscript two, a digit but no decimal.\<close>

definition small_tables :: unitext where
  "small_tables = \<lparr>ut_space = ascii_space, ut_isdigit = (\<lambda>c. is_digit c \<or> c = 178),
     ut_decimal = (\<lambda>c. if is_digit c then Some (c - 48) else None)\<rparr>"

lemma small_tables_laws: "unicode_laws small_tables"
  by (auto simp: unicode_laws_def small_tables_def is_digit_def ascii_space_def)

section \<open>Stripping and splitting\<close>

definition py_lstrip :: "(nat \<Rightarrow> bool) \<Rightarrow> ustr \<Rightarrow> ustr" where
  "py_lstrip sp s = dropWhile sp s"

definition py_rstrip :: "(nat \<Rightarrow> bool) \<Rightarrow> ustr \<Rightarrow> ustr" where
  "py_rstrip sp s = rev (dropWhile sp (rev s))"

definition py_strip :: "(nat \<Rightarrow> bool) \<Rightarrow> ustr \<Rightarrow> ustr" where
  "py_strip sp s = py_rstrip sp (py_lstrip sp s)"

lemma dropWhile_id: "s = [] \<or> \<not> P (hd s) \<Longrightarrow> dropWhile P s = s"
  by (cases s) auto

lemma py_strip_id: "s \<noteq> [] \<Longrightarrow> \<not> sp (hd s) \<Longrightarrow> \<not> sp (last s) \<Longrightarrow> py_strip sp s = s"
  by (simp add: py_strip_def py_rstrip_def py_lstrip_def dropWhile_id hd_rev)

lemma py_strip_Nil [simp]: "py_strip sp [] = []"
  by (simp add: py_strip_def py_rstrip_def py_lstrip_def)

text \<open>\<open>s.split()\<close>.\<close>

function py_words :: "(nat \<Rightarrow> bool) \<Rightarrow> ustr \<Rightarrow> ustr list" where
  "py_words sp s =
     (let t = dropWhile sp s
      in if t = [] then [] else takeWhile (\<lambda>c. \<not> sp c) t # py_words sp (dropWhile (\<lambda>c. \<not> sp c) t))"
  by pat_completeness auto
termination
proof (relation "measure (\<lambda>(sp, s). length s)")
  fix sp s t
  assume t: "t = dropWhile sp s" "t \<noteq> []"
  then have "\<not> sp (hd t)" using hd_dropWhile[of sp s] by simp
  then have "length (dropWhile (\<lambda>c. \<not> sp c) t) < length t"
    using t(2) by (cases t) (auto intro: le_imp_less_Suc length_dropWhile_le)
  then show "((sp, dropWhile (\<lambda>c. \<not> sp c) t), sp, s) \<in> measure (\<lambda>(sp, s). length s)"
    using length_dropWhile_le[of sp s] t(1) by simp
qed simp

declare py_words.simps [simp del]

lemma py_words_Nil [simp]: "py_words sp [] = []"
  by (simp add: py_words.simps)

lemma py_words_space [simp]: "sp c \<Longrightarrow> py_words sp (c # s) = py_words sp s"
  by (subst (1 2) py_words.simps) simp

lemma py_words_word:
  assumes "w \<noteq> []" "\<forall>c\<in>set w. \<not> sp c" "s = [] \<or> sp (hd s)"
  shows "py_words sp (w @ s) = w # py_words sp s"
proof -
  have "dropWhile sp (w @ s) = w @ s" using assms(1,2) by (cases w) auto
  moreover have "takeWhile (\<lambda>c. \<not> sp c) (w @ s) = w" "dropWhile (\<lambda>c. \<not> sp c) (w @ s) = s"
    using assms(2,3) by (auto simp: takeWhile_append dropWhile_append takeWhile_eq_Nil_iff) (cases s; simp)+
  ultimately show ?thesis using assms(1) by (subst py_words.simps) (simp add: Let_def)
qed

lemma py_words_join:
  assumes "sp sep" "\<forall>w\<in>set ws. w \<noteq> [] \<and> (\<forall>c\<in>set w. \<not> sp c)"
  shows "py_words sp (join_with [sep] ws) = ws"
  using assms(2)
proof (induction "[sep]" ws rule: join_with.induct)
  case (2 p)
  then show ?case using py_words_word[of p sp "[]"] by simp
next
  case (3 p q ps)
  then show ?case using assms(1) py_words_word[of p sp "sep # join_with [sep] (q # ps)"] by simp
qed simp

section \<open>Numbers\<close>

definition py_isdigit :: "unitext \<Rightarrow> ustr \<Rightarrow> bool" where
  "py_isdigit T s \<longleftrightarrow> s \<noteq> [] \<and> list_all (ut_isdigit T) s"

definition undec_in :: "unitext \<Rightarrow> ustr \<Rightarrow> nat" where
  "undec_in T s = foldl (\<lambda>a c. a * 10 + (case ut_decimal T c of Some v \<Rightarrow> v | None \<Rightarrow> 0)) 0 s"

text \<open>
  \<open>int(s)\<close> for a string of digits: \<open>ValueError\<close> if one of them is no decimal digit, or if there are
  more than 4300 (\<open>sys.int_info.default_max_str_digits\<close>).
\<close>

definition INT_MAX_DIGITS :: nat where "INT_MAX_DIGITS = 4300"

definition py_int :: "unitext \<Rightarrow> ustr \<Rightarrow> nat option" where
  "py_int T s =
     (if s = [] \<or> list_ex (\<lambda>c. ut_decimal T c = None) s \<or> INT_MAX_DIGITS < length s then None
      else Some (undec_in T s))"

lemma digit_laws:
  assumes "unicode_laws T" "is_digit c"
  shows "ut_isdigit T c" "ut_decimal T c = Some (c - 48)" "\<not> ut_space T c"
  using assms by (auto simp: unicode_laws_def is_digit_def ascii_space_def)

lemma undec_in_digits:
  assumes "unicode_laws T" "\<forall>c\<in>set s. is_digit c"
  shows "undec_in T s = undec s"
  using assms(2)
proof (induction s rule: rev_induct)
  case (snoc c s)
  then show ?case using digit_laws(2)[OF assms(1), of c] by (simp add: undec_in_def undec_def)
qed (simp add: undec_in_def)

lemma py_isdigit_dec [simp]: "unicode_laws T \<Longrightarrow> py_isdigit T (dec n)"
  using digit_laws(1) dec_digits by (fastforce simp: py_isdigit_def list_all_iff)

lemma py_int_dec:
  assumes "unicode_laws T" "n < 10 ^ k" "0 < k" "k \<le> 4300"
  shows "py_int T (dec n) = Some n"
proof -
  have "\<forall>c\<in>set (dec n). ut_decimal T c \<noteq> None"
    using digit_laws(2)[OF assms(1)] dec_digits by fastforce
  moreover have "length (dec n) \<le> 4300" using length_dec[OF assms(2,3)] assms(4) by simp
  moreover have "undec_in T (dec n) = n" using undec_in_digits[OF assms(1)] dec_digits by simp
  ultimately show ?thesis by (simp add: py_int_def list_ex_iff INT_MAX_DIGITS_def)
qed

lemma py_int_dec16: "unicode_laws T \<Longrightarrow> n < 65536 \<Longrightarrow> py_int T (dec n) = Some n"
  by (rule py_int_dec[where k = 5]) simp_all

lemma dec_not_space: "unicode_laws T \<Longrightarrow> c \<in> set (dec n) \<Longrightarrow> \<not> ut_space T c"
  using digit_laws(3) dec_digits by blast

end
