(* ===== verification/Pipe_Codes.thy ===== *)
theory Pipe_Codes
  imports Py_Text Terminal_Output
begin

text \<open>
  Untrusted text on its way to a terminal: \<^verbatim>\<open>src/netbbs/rendering/sanitize.py\<close>, which removes every
  character that could start a control sequence or reorder a line, and \<^verbatim>\<open>rendering/pipe_codes.py\<close>, the
  Mystic colour tokens (a bar and two alphanumerics) that chat and posts carry. What a rendered line
  does to a screen is stated on the terminal emulator of this development.
\<close>

section \<open>Sanitising\<close>

text \<open>Unicode's category Cc is closed: these 65 characters and no others, in every version.\<close>

definition is_control :: "nat \<Rightarrow> bool" where
  "is_control c \<longleftrightarrow> c < 32 \<or> (127 \<le> c \<and> c < 160)"

definition BIDI_CONTROLS :: "nat list" where
  "BIDI_CONTROLS = [0x202A, 0x202B, 0x202C, 0x202D, 0x202E, 0x2066, 0x2067, 0x2068, 0x2069]"

definition keeps_char :: "bool \<Rightarrow> nat \<Rightarrow> bool" where
  "keeps_char allow_newlines c \<longleftrightarrow>
     (if c = 9 then True
      else if c = 10 then allow_newlines
      else if c = 13 then False
      else if is_control c then False
      else c \<notin> set BIDI_CONTROLS)"

definition sanitize_text :: "bool \<Rightarrow> ustr \<Rightarrow> ustr" where
  "sanitize_text allow_newlines s = filter (keeps_char allow_newlines) s"

section \<open>Tokens\<close>

definition ascii_alnum :: "nat \<Rightarrow> bool" where
  "ascii_alnum c \<longleftrightarrow> is_digit c \<or> (65 \<le> c \<and> c \<le> 90) \<or> (97 \<le> c \<and> c \<le> 122)"

definition BAR :: nat where "BAR = 124"

text \<open>\<open>_PIPE_TOKEN_RE.sub(f, text)\<close>: one pass from the left, every match replaced.\<close>

fun pipe_sub :: "(nat \<Rightarrow> nat \<Rightarrow> ustr) \<Rightarrow> ustr \<Rightarrow> ustr" where
  "pipe_sub f (c # a # b # s) =
     (if c = BAR \<and> ascii_alnum a \<and> ascii_alnum b then f a b @ pipe_sub f s
      else c # pipe_sub f (a # b # s))"
| "pipe_sub f s = s"

definition strip_pipe_codes :: "ustr \<Rightarrow> ustr" where
  "strip_pipe_codes = pipe_sub (\<lambda>a b. [])"

definition keep_color :: "nat \<Rightarrow> nat \<Rightarrow> ustr" where
  "keep_color a b = (if is_ascii_number [a, b] \<and> undec [a, b] < 24 then [BAR, a, b] else [])"

definition strip_non_color_pipe_codes :: "ustr \<Rightarrow> ustr" where
  "strip_non_color_pipe_codes = pipe_sub keep_color"

definition CGA_TO_XTERM :: "nat list" where
  "CGA_TO_XTERM = [0, 4, 2, 6, 1, 5, 3, 7]"

definition cga_to_xterm :: "nat \<Rightarrow> nat" where
  "cga_to_xterm code = CGA_TO_XTERM ! (code mod 8) + (if 8 \<le> code then 8 else 0)"

text \<open>\<open>render_pipe_codes\<close>: the replacement of one token, with whether it set the flag \<open>emitted\<close>;
  \<open>fg\<close> and \<open>bg\<close> raise on a colour that is not of the palette.\<close>

definition replace_token :: "nat \<Rightarrow> nat \<Rightarrow> (ustr \<times> bool) option" where
  "replace_token a b =
     (if \<not> is_ascii_number [a, b] then Some ([], False)
      else let code = undec [a, b] in
           if code < 16 then map_option (\<lambda>t. (t, True)) (fg (int (cga_to_xterm code)))
           else if code < 24
           then (if code = 16 then Some (csi @ u ''49m'', True)
                 else map_option (\<lambda>t. (t, True)) (bg (int (cga_to_xterm (code - 16)))))
           else Some ([], False))"

fun render_tokens :: "ustr \<Rightarrow> (ustr \<times> bool) option" where
  "render_tokens (c # a # b # s) =
     (if c = BAR \<and> ascii_alnum a \<and> ascii_alnum b
      then do {(t, e) \<leftarrow> replace_token a b; (r, e') \<leftarrow> render_tokens s; Some (t @ r, e \<or> e')}
      else do {(r, e) \<leftarrow> render_tokens (a # b # s); Some (c # r, e)})"
| "render_tokens s = Some (s, False)"

definition render_pipe_codes :: "ustr \<Rightarrow> ustr option" where
  "render_pipe_codes s =
     do {(rendered, emitted) \<leftarrow> render_tokens s; Some (if emitted then rendered @ RESET else rendered)}"

section \<open>Pasted colour\<close>

text \<open>
  \<open>PastedColor\<close>. The readers pass parameters of digits and semicolons, at most 64 bytes on a byte
  stream and less than a key event's 4096 characters in a browser, so \<open>int(part)\<close> reads every part.
\<close>

record pasted =
  pc_foreground :: "nat option"
  pc_background :: "nat option"
  pc_bold :: bool

definition new_pasted :: pasted where
  "new_pasted = \<lparr>pc_foreground = None, pc_background = None, pc_bold = False\<rparr>"

definition XTERM_TO_CGA :: "nat list" where
  "XTERM_TO_CGA = [0, 4, 2, 6, 1, 5, 3, 7]"

definition extended_length :: "nat \<Rightarrow> nat \<Rightarrow> nat" where
  "extended_length kind missing = (if kind = 5 then 1 else if kind = 2 then 3 else missing)"

text \<open>One turn of the loop of \<open>translate\<close>: what is left of the codes, and which colours were set.\<close>

definition pasted_code :: "pasted \<Rightarrow> nat \<Rightarrow> nat list \<Rightarrow> nat \<Rightarrow> pasted \<times> nat list \<times> bool \<times> bool" where
  "pasted_code p code rest n =
     (if code = 0 then (new_pasted, rest, True, True)
      else if code = 1 \<or> code = 22 then (p\<lparr>pc_bold := (code = 1)\<rparr>, rest, True, False)
      else if 30 \<le> code \<and> code \<le> 37 \<or> 90 \<le> code \<and> code \<le> 97 \<or> code = 39
      then (p\<lparr>pc_foreground := (if code = 39 then None
                else Some (XTERM_TO_CGA ! (code mod 10) + (if 90 \<le> code then 8 else 0)))\<rparr>, rest, True, False)
      else if 40 \<le> code \<and> code \<le> 47 \<or> 100 \<le> code \<and> code \<le> 107 \<or> code = 49
      then (p\<lparr>pc_background := (if code = 49 then None else Some (XTERM_TO_CGA ! (code mod 10)))\<rparr>, rest, False, True)
      else if code = 38 \<or> code = 48
      then (p, (if rest = [] then [] else drop (1 + extended_length (hd rest) n) rest), False, False)
      else (p, rest, False, False))"

lemma pasted_code_shorter: "pasted_code p code rest n = (p', rest', f, b) \<Longrightarrow> length rest' \<le> length rest"
  by (auto simp: pasted_code_def split: if_splits)

function pasted_loop :: "pasted \<Rightarrow> nat list \<Rightarrow> nat \<Rightarrow> bool \<Rightarrow> bool \<Rightarrow> pasted \<times> bool \<times> bool" where
  "pasted_loop p [] n f b = (p, f, b)"
| "pasted_loop p (code # rest) n f b =
     (case pasted_code p code rest n of (p', rest', f', b') \<Rightarrow> pasted_loop p' rest' n (f \<or> f') (b \<or> b'))"
  by pat_completeness auto
termination
  by (relation "measure (\<lambda>(p, codes, r). length codes)") (auto dest!: pasted_code_shorter[OF sym])

definition effective_foreground :: "pasted \<Rightarrow> nat option" where
  "effective_foreground p =
     (if \<not> pc_bold p then pc_foreground p
      else case pc_foreground p of None \<Rightarrow> Some 15 | Some c \<Rightarrow> Some (or c 8))"

definition dec2 :: "nat \<Rightarrow> ustr" where
  "dec2 n = (if n < 10 then 48 # dec n else dec n)"

definition split_codes :: "ustr \<Rightarrow> nat list" where
  "split_codes params =
     (if params = [] then [0] else map (\<lambda>part. if part = [] then 0 else undec part) (split_on 59 params))"

definition translate :: "pasted \<Rightarrow> ustr \<Rightarrow> ustr \<times> pasted" where
  "translate p params =
     (let codes = split_codes params;
          (p', sets_foreground, sets_background) = pasted_loop p codes (length codes) False False
      in ((if sets_foreground
           then BAR # dec2 (case effective_foreground p' of None \<Rightarrow> 7 | Some c \<Rightarrow> c) else []) @
          (if sets_background
           then BAR # dec (16 + (case pc_background p' of None \<Rightarrow> 0 | Some c \<Rightarrow> c)) else []), p'))"


section \<open>One pass over the tokens\<close>

lemma pipe_sub_token [simp]:
  "ascii_alnum a \<Longrightarrow> ascii_alnum b \<Longrightarrow> pipe_sub f (BAR # a # b # s) = f a b @ pipe_sub f s"
  by simp

lemma pipe_sub_char: "c \<noteq> BAR \<Longrightarrow> pipe_sub f (c # s) = c # pipe_sub f s"
  by (cases s; cases "tl s") auto

lemma pipe_sub_plain: "BAR \<notin> set s \<Longrightarrow> pipe_sub f s = s"
  by (induction s) (auto simp: pipe_sub_char)

lemma pipe_sub_set: "(\<And>a b. set (f a b) \<subseteq> {BAR, a, b}) \<Longrightarrow> set (pipe_sub f s) \<subseteq> set s"
  by (induction f s rule: pipe_sub.induct) (auto, blast+)

lemma strip_pipe_set: "set (strip_pipe_codes s) \<subseteq> set s"
  unfolding strip_pipe_codes_def by (rule pipe_sub_set) simp

lemma strip_non_color_set: "set (strip_non_color_pipe_codes s) \<subseteq> set s"
  unfolding strip_non_color_pipe_codes_def by (rule pipe_sub_set) (auto simp: keep_color_def)

lemma length_pipe_sub: "(\<And>a b. length (f a b) \<le> 3) \<Longrightarrow> length (pipe_sub f s) \<le> length s"
  by (induction f s rule: pipe_sub.induct) (auto intro: order_trans[OF add_mono])

lemma length_strip_pipe: "length (strip_pipe_codes s) \<le> length s"
  unfolding strip_pipe_codes_def by (rule length_pipe_sub) simp

lemma length_strip_non_color: "length (strip_non_color_pipe_codes s) \<le> length s"
  unfolding strip_non_color_pipe_codes_def by (rule length_pipe_sub) (simp add: keep_color_def)


section \<open>What a rendered line does to a screen\<close>

definition glyphs :: "snapshot \<Rightarrow> ustr list list" where
  "glyphs = map (map c_char)"

text \<open>\<open>e'\<close> is \<open>e\<close> with the characters of \<open>t\<close> written at the cursor, in whatever colours.\<close>

definition wrote :: "emu \<Rightarrow> ustr \<Rightarrow> emu \<Rightarrow> bool" where
  "wrote e t e' \<longleftrightarrow> ready e' \<and> e_width e' = e_width e \<and> e_height e' = e_height e \<and> e_row e' = e_row e \<and>
     e_col e' = e_col e + length t \<and>
     glyphs (e_rows e') = (glyphs (e_rows e))[e_row e :=
       py_splice (glyphs (e_rows e) ! e_row e) (e_col e) (e_col e + length t) (map (\<lambda>ch. [ch]) t)]"

lemma ready_row: "ready e \<Longrightarrow> e_row e < length (e_rows e) \<and> length (e_rows e ! e_row e) = e_width e"
  using ready_simps(2,4) by blast

lemma map_py_splice: "map f (py_splice xs a b ys) = py_splice (map f xs) a b (map f ys)"
  by (simp add: py_splice_def take_map drop_map)

lemma wrote_text:
  assumes "ready e" "e_col e + length t < e_width e"
  shows "wrote e t (written e t)"
  using written_ready[OF assms] assms ready_row[OF assms(1)]
  by (simp add: wrote_def written_def with_text_def glyphs_def map_update map_py_splice comp_def pen_cell_def)

lemma wrote_pen: "wrote e t e' \<Longrightarrow> wrote e t (e'\<lparr>e_pen := p\<rparr>)"
  by (auto simp: wrote_def ready_def)

lemma wrote_Nil: "ready e \<Longrightarrow> wrote e [] e"
  using ready_row[of e] by (simp add: wrote_def py_splice_def glyphs_def) (metis list_update_id nth_map length_map)

lemma wrote_trans:
  assumes "wrote e s e1" "wrote e1 t e2" "e_row e < length (e_rows e)"
    "e_col e + length (s @ t) \<le> length (e_rows e ! e_row e)"
  shows "wrote e (s @ t) e2"
  using assms splice_splice[of "e_col e" "length s" "map (\<lambda>ch. [ch]) t" "glyphs (e_rows e) ! e_row e"
      "map (\<lambda>ch. [ch]) s"]
  by (simp add: wrote_def glyphs_def add.assoc)

lemma wrote_ready: "wrote e t e' \<Longrightarrow> ready e'"
  by (simp add: wrote_def)

lemma light_grey [simp]: "cga_to_xterm 7 = 7"
  by code_simp

lemma cga_to_xterm_bound: "c < 16 \<Longrightarrow> cga_to_xterm c < 16"
proof -
  have "\<forall>c\<in>set [0..<16]. cga_to_xterm c < 16" by code_simp
  then show "c < 16 \<Longrightarrow> cga_to_xterm c < 16" by simp
qed

lemma replace_token_does:
  assumes "e_state e = Ground"
  shows "\<exists>t em p. replace_token a b = Some (t, em) \<and> (em \<or> t = []) \<and>
    (em \<longrightarrow> t \<noteq> [] \<and> starts_escape t \<and> does U e t (e\<lparr>e_pen := p\<rparr>))"
proof -
  let ?code = "undec [a, b]"
  consider (no) "\<not> is_ascii_number [a, b] \<or> 24 \<le> ?code" | (fg) "is_ascii_number [a, b]" "?code < 16"
    | (bg) "is_ascii_number [a, b]" "16 < ?code" "?code < 24" | (default) "is_ascii_number [a, b]" "?code = 16"
    by linarith
  then show ?thesis
  proof cases
    case no
    then show ?thesis by (auto simp: replace_token_def)
  next
    case fg
    let ?c = "Palette (int (cga_to_xterm ?code))"
    have "fg (int (cga_to_xterm ?code)) = fg_prefix (Some ?c)" "valid_color (int (cga_to_xterm ?code))"
      using cga_to_xterm_bound[OF fg(2)] by (simp_all add: valid_color_def)
    then show ?thesis
      using fg does_fg[OF assms, of "Some ?c" _ U] by (auto simp: replace_token_def fg_def csi_def)
  next
    case bg
    let ?c = "Palette (int (cga_to_xterm (?code - 16)))"
    have "?code - 16 < 16" using bg by linarith
    then have "bg (int (cga_to_xterm (?code - 16))) = bg_prefix (Some ?c)" "valid_color (int (cga_to_xterm (?code - 16)))"
      using cga_to_xterm_bound[of "?code - 16"] bg by (simp_all add: valid_color_def)
    then show ?thesis
      using bg does_bg[OF assms, of "Some ?c" _ U] by (auto simp: replace_token_def bg_def csi_def)
  next
    case default
    have "csi_params [52, 57] = [49]"
      by (simp add: csi_params_def csi_number_def is_ascii_number_def is_digit_def undec_def)
    then show ?thesis
      using default does_sgr[OF assms, of "[52, 57]" _ U] by (auto simp: replace_token_def csi_def)
  qed
qed

lemma render_default: "render_tokens s = Some (s, False)" "strip_pipe_codes s = s"
  if "s = [] \<or> (\<exists>a. s = [a]) \<or> (\<exists>a b. s = [a, b])"
  using that by (auto simp: strip_pipe_codes_def)

lemma flush_text:
  assumes "ready e" "\<forall>ch\<in>set t. glyph U ch" "e_col e + length t < e_width e"
  shows "\<exists>e1. sends U e t e1 \<and> wrote e t e1 \<and> e_pen e1 = e_pen e"
proof (cases "t = []")
  case True
  then show ?thesis using assms by (auto intro!: exI[of _ e] wrote_Nil)
next
  case False
  then show ?thesis using assms sends_text[of e t U] wrote_text[of e t] by (intro exI[of _ "written e t"]) auto
qed

lemma render_short:
  assumes "s = [] \<or> (\<exists>a. s = [a]) \<or> (\<exists>a b. s = [a, b])" "ready e" "\<forall>ch\<in>set (pend @ s). glyph U ch"
    and "e_col e + length (pend @ strip_pipe_codes s) < e_width e"
  shows "\<exists>r em e'. render_tokens s = Some (r, em) \<and> wrote e (pend @ strip_pipe_codes s) e' \<and>
    (\<forall>rest. starts_escape rest \<longrightarrow> feed U e (pend @ r @ rest) = feed U e' rest) \<and> (em \<or> e_pen e' = e_pen e)"
proof -
  note d = render_default[OF assms(1)]
  obtain e1 where "sends U e (pend @ s) e1" "wrote e (pend @ s) e1" "e_pen e1 = e_pen e"
    using flush_text[OF assms(2,3)] assms(4) d(2) by auto
  then show ?thesis using d by (intro exI[of _ s] exI[of _ False] exI[of _ e1]) (simp add: sends_def)
qed

lemma render_types:
  assumes "ready e" "\<forall>ch\<in>set (pend @ s). glyph U ch"
    and "e_col e + length (pend @ strip_pipe_codes s) < e_width e"
  shows "\<exists>r em e'. render_tokens s = Some (r, em) \<and> wrote e (pend @ strip_pipe_codes s) e' \<and>
    (\<forall>rest. starts_escape rest \<longrightarrow> feed U e (pend @ r @ rest) = feed U e' rest) \<and> (em \<or> e_pen e' = e_pen e)"
  using assms
proof (induction "\<lambda>(a :: nat) (b :: nat). [] :: ustr" s arbitrary: pend e rule: pipe_sub.induct)
  case (1 c a b s)
  show ?case
  proof (cases "c = BAR \<and> ascii_alnum a \<and> ascii_alnum b")
    case False
    then have strip: "strip_pipe_codes (c # a # b # s) = c # strip_pipe_codes (a # b # s)"
      by (auto simp: strip_pipe_codes_def)
    have "\<forall>ch\<in>set ((pend @ [c]) @ a # b # s). glyph U ch"
      "e_col e + length ((pend @ [c]) @ strip_pipe_codes (a # b # s)) < e_width e"
      using "1.prems"(2,3) strip by simp_all
    from "1.hyps"(2)[OF False "1.prems"(1) this] obtain r em e' where r: "render_tokens (a # b # s) = Some (r, em)"
        "wrote e ((pend @ [c]) @ strip_pipe_codes (a # b # s)) e'" "em \<or> e_pen e' = e_pen e"
        "\<forall>rest. starts_escape rest \<longrightarrow> feed U e ((pend @ [c]) @ r @ rest) = feed U e' rest"
      by blast
    have "render_tokens (c # a # b # s) = Some (c # r, em)" using False r(1) by auto
    then show ?thesis using r(2-4) unfolding strip by auto
  next
    case tok: True
    then have strip: "strip_pipe_codes (c # a # b # s) = strip_pipe_codes s" by (simp add: strip_pipe_codes_def)
    have "\<forall>ch\<in>set pend. glyph U ch" "e_col e + length pend < e_width e" using "1.prems" by auto
    then obtain e1 where e1: "sends U e pend e1" "wrote e pend e1" "e_pen e1 = e_pen e"
      using flush_text "1.prems"(1) by blast
    have "e_state e1 = Ground" using e1(2) by (simp add: wrote_def ready_def)
    then obtain t em p where t: "replace_token a b = Some (t, em)" "em \<or> t = []"
        "em \<longrightarrow> t \<noteq> [] \<and> starts_escape t \<and> does U e1 t (e1\<lparr>e_pen := p\<rparr>)"
      using replace_token_does by blast
    show ?thesis
    proof (cases em)
      case False
      then show ?thesis using "1.hyps"(1)[OF tok, of e pend] "1.prems" t strip tok by auto
    next
      case True
      let ?e = "e1\<lparr>e_pen := p\<rparr>"
      have w: "wrote e pend ?e" using e1(2) by (rule wrote_pen)
      have room: "e_col ?e + length ([] @ strip_pipe_codes s) < e_width ?e"
        using w "1.prems"(3) strip by (simp add: wrote_def)
      obtain r em' e' where r: "render_tokens s = Some (r, em')" "wrote ?e (strip_pipe_codes s) e'"
          "\<forall>rest. starts_escape rest \<longrightarrow> feed U ?e (r @ rest) = feed U e' rest"
        using "1.hyps"(1)[OF tok wrote_ready[OF w], of "[]"] "1.prems"(2) room by auto
      have "wrote e (pend @ strip_pipe_codes s) e'"
        using wrote_trans[OF w r(2)] ready_row[OF "1.prems"(1)] "1.prems"(3) strip by simp
      moreover have "feed U e (pend @ (t @ r) @ rest) = feed U e' rest" if "starts_escape rest" for rest
        using e1(1) t(3) True r(3) that unfolding sends_def does_def
        by (cases t) (auto simp: starts_escape_def)
      ultimately show ?thesis using t(1) True r(1) strip tok by auto
    qed
  qed
qed (rule render_short; simp)+

text \<open>
  C5: a line of untrusted text, once its control characters are gone, can do nothing to the screen but
  fill cells: whatever pipe codes it holds, rendering it never raises, and feeding the result to the
  terminal writes, at the cursor, exactly the characters that \<open>strip_pipe_codes\<close> leaves, moves the
  cursor over them, changes no other cell's character, and leaves the pen as it was or reset, so that no
  colour bleeds into what follows. This is for a line of one-column characters that ends before the last column, on a
  terminal that is not inside an escape sequence and has no wrap pending (and is not one that wraps at
  once), and whose screen shows no wide glyph: writing over half of one would blank its other half too.
\<close>

theorem rendered_line_shows_plain_text:
  assumes "ready e" "\<forall>ch\<in>set s. glyph U ch" "e_col e + length (strip_pipe_codes s) < e_width e"
  shows "\<exists>r e'. render_pipe_codes s = Some r \<and> feed U e r = Some e' \<and> wrote e (strip_pipe_codes s) e' \<and>
    (e_pen e' = e_pen e \<or> e_pen e' = default_pen)"
proof -
  obtain r em e' where r: "render_tokens s = Some (r, em)" "wrote e (strip_pipe_codes s) e'"
      "\<And>rest. starts_escape rest \<Longrightarrow> feed U e (r @ rest) = feed U e' rest" "em \<or> e_pen e' = e_pen e"
    using render_types[of e "[]" s U] assms by auto
  have reset: "feed U e' RESET = Some (e'\<lparr>e_pen := default_pen\<rparr>)"
    using does_attr(4)[of e' U] wrote_ready[OF r(2)] does_sends sends_feed unfolding ready_def by blast
  show ?thesis
  proof (cases em)
    case True
    moreover have "starts_escape RESET" by (simp add: RESET_def)
    ultimately show ?thesis
      using r(1) r(3)[of RESET] reset wrote_pen[OF r(2)] by (auto simp: render_pipe_codes_def)
  next
    case False
    then show ?thesis using r(1,2,4) r(3)[of "[]"] by (auto simp: render_pipe_codes_def)
  qed
qed

section \<open>Pasted colour and the terminal\<close>

text \<open>A pasted colour as the palette numbers it; a bright background has only its base colour.\<close>

definition cga_color :: "color option \<Rightarrow> nat option \<Rightarrow> bool" where
  "cga_color terminal cga \<longleftrightarrow>
     (case cga of None \<Rightarrow> terminal = None | Some c \<Rightarrow> c < 16 \<and> terminal = Some (Palette (int (cga_to_xterm c))))"

definition cga_background :: "color option \<Rightarrow> nat option \<Rightarrow> bool" where
  "cga_background terminal cga \<longleftrightarrow>
     (case cga of None \<Rightarrow> terminal = None
      | Some c \<Rightarrow> c < 8 \<and> terminal \<in> {Some (Palette (int (cga_to_xterm c))), Some (Palette (int (cga_to_xterm c) + 8))})"

definition follows :: "pasted \<Rightarrow> pen \<Rightarrow> bool" where
  "follows p q \<longleftrightarrow> pc_bold p = p_bold q \<and> cga_color (p_fg q) (pc_foreground p) \<and> cga_background (p_bg q) (pc_background p)"

lemma xterm_to_cga:
  "i < 8 \<Longrightarrow> XTERM_TO_CGA ! i < 8 \<and> cga_to_xterm (XTERM_TO_CGA ! i) = i \<and> cga_to_xterm (XTERM_TO_CGA ! i + 8) = i + 8"
proof -
  have "\<forall>i\<in>set [0..<8]. XTERM_TO_CGA ! i < 8 \<and> cga_to_xterm (XTERM_TO_CGA ! i) = i \<and>
      cga_to_xterm (XTERM_TO_CGA ! i + 8) = i + 8"
    by code_simp
  then show "i < 8 \<Longrightarrow> ?thesis" by simp
qed

lemma cga_none [simp]: "cga_color None None" "cga_background None None"
  by (simp_all add: cga_color_def cga_background_def)

lemma cga_some:
  assumes "i < 8"
  shows "cga_color (Some (Palette (int i))) (Some (XTERM_TO_CGA ! i))"
    "cga_color (Some (Palette (int i + 8))) (Some (XTERM_TO_CGA ! i + 8))"
    "cga_background (Some (Palette (int i))) (Some (XTERM_TO_CGA ! i))"
    "cga_background (Some (Palette (int i + 8))) (Some (XTERM_TO_CGA ! i))"
  using xterm_to_cga[OF assms] by (simp_all add: cga_color_def cga_background_def)

lemma palette_codes:
  "k \<le> code \<and> code \<le> k + 7 \<Longrightarrow> \<exists>i<8. code = k + i" for code k :: nat
  by (rule exI[of _ "code - k"]) linarith

lemma palette_digit:
  fixes i :: nat
  assumes "i < 8"
  shows "(30 + i) mod 10 = i" "(40 + i) mod 10 = i" "(90 + i) mod 10 = i" "(100 + i) mod 10 = i"
  using assms mod_mult_self3[of 3 10 i] mod_mult_self3[of 4 10 i] mod_mult_self3[of 9 10 i] mod_mult_self3[of 10 10 i]
  by simp_all

lemma pasted_other:
  assumes "code \<notin> {0, 1, 22, 39, 49, 38, 48}" "\<not> (30 \<le> code \<and> code \<le> 37)" "\<not> (40 \<le> code \<and> code \<le> 47)"
    "\<not> (90 \<le> code \<and> code \<le> 97)" "\<not> (100 \<le> code \<and> code \<le> 107)"
  shows "pasted_code p code rest n = (p, rest, False, False)"
proof -
  have "code \<noteq> 0" "code \<noteq> 1" "code \<noteq> 22" "code \<noteq> 39" "code \<noteq> 49" "code \<noteq> 38" "code \<noteq> 48"
    using assms(1) by simp_all
  then show ?thesis by (simp only: pasted_code_def assms(2-) simp_thms if_False)
qed

lemma sgr_other:
  assumes "code \<notin> {0, 1, 22, 39, 49, 38, 48}" "\<not> (30 \<le> code \<and> code \<le> 37)" "\<not> (40 \<le> code \<and> code \<le> 47)"
    "\<not> (90 \<le> code \<and> code \<le> 97)" "\<not> (100 \<le> code \<and> code \<le> 107)"
  shows "\<exists>q'. sgr_pass q code rest = (q', rest) \<and> p_bold q' = p_bold q \<and> p_fg q' = p_fg q \<and> p_bg q' = p_bg q"
proof -
  have "code \<noteq> 0" "code \<noteq> 1" "code \<noteq> 22" "code \<noteq> 39" "code \<noteq> 49" "code \<notin> {38, 48}"
    using assms(1) by simp_all
  then show ?thesis
    by (simp only: sgr_pass_def assms(2-) simp_thms if_False split: if_split) simp
qed

lemma follows_code:
  assumes "follows p q" "code \<notin> {38, 48}" "pasted_code p code rest n = (p', rest', f, b)" "sgr_pass q code rest = (q', rest'')"
  shows "follows p' q' \<and> rest' = rest \<and> rest'' = rest"
proof -
  consider "code \<in> {0, 1, 22, 39, 49}" | (fg) "30 \<le> code \<and> code \<le> 37" | (bg) "40 \<le> code \<and> code \<le> 47"
    | (bfg) "90 \<le> code \<and> code \<le> 97" | (bbg) "100 \<le> code \<and> code \<le> 107"
    | (other) "code \<notin> {0, 1, 22, 39, 49, 38, 48}" "\<not> (30 \<le> code \<and> code \<le> 37)" "\<not> (40 \<le> code \<and> code \<le> 47)"
        "\<not> (90 \<le> code \<and> code \<le> 97)" "\<not> (100 \<le> code \<and> code \<le> 107)"
    using assms(2) by (metis insert_iff empty_iff)
  then show ?thesis
  proof cases
    case 1
    then consider "code = 0" | "code = 1" | "code = 22" | "code = 39" | "code = 49" by blast
    then show ?thesis
      by cases (use assms in \<open>auto simp: pasted_code_def sgr_pass_def follows_def new_pasted_def default_pen_def\<close>)
  next
    case fg
    then obtain i where i: "i < 8" "code = 30 + i" using palette_codes[of 30 code] by auto
    then show ?thesis
      using assms cga_some[of i] by (auto simp: palette_digit pasted_code_def sgr_pass_def follows_def)
  next
    case bg
    then obtain i where i: "i < 8" "code = 40 + i" using palette_codes[of 40 code] by auto
    then show ?thesis
      using assms cga_some[of i] by (auto simp: palette_digit pasted_code_def sgr_pass_def follows_def)
  next
    case bfg
    then obtain i where i: "i < 8" "code = 90 + i" using palette_codes[of 90 code] by auto
    then show ?thesis
      using assms cga_some[of i] by (auto simp: palette_digit pasted_code_def sgr_pass_def follows_def)
  next
    case bbg
    then obtain i where i: "i < 8" "code = 100 + i" using palette_codes[of 100 code] by auto
    then show ?thesis
      using assms cga_some[of i] by (auto simp: palette_digit pasted_code_def sgr_pass_def follows_def)
  next
    case other
    show ?thesis
      using assms(1,3,4) pasted_other[OF other] sgr_other[OF other, of q rest] by (auto simp: follows_def)
  qed
qed

lemma follows_loop:
  "follows p q \<Longrightarrow> set codes \<inter> {38, 48} = {} \<Longrightarrow> pasted_loop p codes n f b = (p', f', b') \<Longrightarrow>
    follows p' (sgr_loop q codes)"
proof (induction codes arbitrary: p q f b)
  case (Cons code codes)
  obtain p1 r1 f1 b1 q1 r2 where s: "pasted_code p code codes n = (p1, r1, f1, b1)" "sgr_pass q code codes = (q1, r2)"
    by (metis prod_cases4 surj_pair)
  moreover have "code \<notin> {38, 48}" using Cons.prems(2) by auto
  ultimately have "follows p1 q1" "r1 = codes" "r2 = codes" using follows_code[OF Cons.prems(1)] by blast+
  then show ?case using Cons.IH[of p1 q1 "f \<or> f1" "b \<or> b1"] Cons.prems(2,3) s by auto
qed simp

text \<open>The colours in force where the pasted text stands: what its pipe codes draw is what the state says.
  The default foreground is written as light grey, and a black background is drawn as the default one.\<close>

definition drawn :: "pasted \<Rightarrow> pen \<Rightarrow> bool" where
  "drawn p q \<longleftrightarrow>
     p_fg q \<in> (case effective_foreground p of None \<Rightarrow> {None, Some (Palette 7)}
        | Some c \<Rightarrow> {Some (Palette (int (cga_to_xterm c)))}) \<and>
     p_bg q = (case pc_background p of None \<Rightarrow> None
        | Some c \<Rightarrow> if c = 0 then None else Some (Palette (int (cga_to_xterm c))))"

lemma color_token:
  assumes "n < 24"
  obtains a b where "dec2 n = [a, b]" "is_ascii_number [a, b]" "undec [a, b] = n" "ascii_alnum a" "ascii_alnum b"
proof -
  have "dec n = [48 + n]" if "n < 10" using that by (subst dec.simps) simp
  moreover have "dec n = [48 + n div 10, 48 + n mod 10]" if "\<not> n < 10"
    using that assms by (subst dec.simps, subst dec.simps) simp
  ultimately have d: "dec2 n = [48 + n div 10, 48 + n mod 10]" by (simp add: dec2_def)
  define x y where "x = n div 10" and "y = n mod 10"
  have "x \<le> 9" "y \<le> 9" "n = x * 10 + y" using assms by (simp_all add: x_def y_def)
  then show thesis
    using d unfolding x_def[symmetric] y_def[symmetric]
    by (intro that[of "48 + x" "48 + y"]) (simp_all add: is_ascii_number_def is_digit_def undec_def ascii_alnum_def)
qed

lemma token_draws:
  assumes "n < 24" "e_state e = Ground"
  shows "\<exists>t. (\<forall>s. render_tokens (BAR # dec2 n @ s) = map_option (\<lambda>(r, em). (t @ r, True)) (render_tokens s)) \<and>
    does U e t (e\<lparr>e_pen := (if n < 16 then (e_pen e)\<lparr>p_fg := Some (Palette (int (cga_to_xterm n)))\<rparr>
      else (e_pen e)\<lparr>p_bg := (if n = 16 then None else Some (Palette (int (cga_to_xterm (n - 16)))))\<rparr>)\<rparr>)"
proof -
  obtain a b where d: "dec2 n = [a, b]" "is_ascii_number [a, b]" "undec [a, b] = n" "ascii_alnum a" "ascii_alnum b"
    using color_token[OF assms(1)] .
  have tokens: "render_tokens (BAR # dec2 n @ s) = map_option (\<lambda>(r, em). (t @ r, True)) (render_tokens s)"
    if "replace_token a b = Some (t, True)" for t s
    using that d by (cases "render_tokens s") auto
  consider (fg) "n < 16" | (default) "n = 16" | (bg) "16 < n" "n - 16 < 16" using assms(1) by linarith
  then show ?thesis
  proof cases
    case fg
    let ?c = "Palette (int (cga_to_xterm n))"
    obtain t where t: "fg_prefix (Some ?c) = Some t"
      using cga_to_xterm_bound[OF fg] by (auto simp: fg_def valid_color_def)
    then show ?thesis
      using does_fg[OF assms(2) t] tokens[of t] fg d by (intro exI[of _ t]) (simp add: replace_token_def)
  next
    case default
    have "csi_params [52, 57] = [49]"
      by (simp add: csi_params_def csi_number_def is_ascii_number_def is_digit_def undec_def)
    then have "does U e (csi @ u ''49m'') (e\<lparr>e_pen := (e_pen e)\<lparr>p_bg := None\<rparr>\<rparr>)"
      using does_sgr[OF assms(2), of "[52, 57]" _ U] by (simp add: apply_sgr_pure_def sgr_pass_def)
    then show ?thesis
      using tokens[of "csi @ u ''49m''"] default d by (intro exI[of _ "csi @ u ''49m''"]) (simp add: replace_token_def)
  next
    case bg
    let ?c = "Palette (int (cga_to_xterm (n - 16)))"
    obtain t where t: "bg_prefix (Some ?c) = Some t"
      using cga_to_xterm_bound[OF bg(2)] by (auto simp: bg_def valid_color_def)
    then show ?thesis
      using does_bg[OF assms(2) t] tokens[of t] bg d assms(1) by (intro exI[of _ t]) (simp add: replace_token_def)
  qed
qed

lemma unset_branches:
  "(if c0 then (new_pasted, rest, True, True)
    else if c1 then (p\<lparr>pc_bold := x\<rparr>, rest, True, False)
    else if c2 then (p\<lparr>pc_foreground := y\<rparr>, rest, True, False)
    else if c3 then (p\<lparr>pc_background := z\<rparr>, rest, False, True)
    else if c4 then (p, r, False, False) else (p, rest, False, False)) = (p', rest', f, b) \<Longrightarrow>
    (f \<or> effective_foreground p' = effective_foreground p) \<and> (b \<or> pc_background p' = pc_background p)"
  by (auto simp: effective_foreground_def split: if_split_asm)

lemma pasted_code_unset:
  "pasted_code p code rest n = (p', rest', f, b) \<Longrightarrow>
    (f \<or> effective_foreground p' = effective_foreground p) \<and> (b \<or> pc_background p' = pc_background p)"
  unfolding pasted_code_def by (rule unset_branches)

lemma pasted_loop_unset:
  "pasted_loop p codes n f b = (p', f', b') \<Longrightarrow>
    (f' \<or> effective_foreground p' = effective_foreground p) \<and> (b' \<or> pc_background p' = pc_background p) \<and>
    (f \<longrightarrow> f') \<and> (b \<longrightarrow> b')"
proof (induction p codes n f b rule: pasted_loop.induct)
  case (2 p code rest n f b)
  obtain p1 r1 f1 b1 where s: "pasted_code p code rest n = (p1, r1, f1, b1)" by (metis prod_cases4)
  have "pasted_loop p1 r1 n (f \<or> f1) (b \<or> b1) = (p', f', b')" using "2.prems" s by simp
  note this pasted_code_unset[OF s]
  with "2.IH"[OF s[symmetric] refl refl] show ?case by metis
qed simp

lemma follows_bounds:
  assumes "follows p q"
  shows "(case effective_foreground p of None \<Rightarrow> 7 | Some c \<Rightarrow> c) < 16" "(case pc_background p of None \<Rightarrow> 0 | Some c \<Rightarrow> c) < 8"
proof -
  have "\<forall>c\<in>set [0..<16]. or c 8 < (16 :: nat)" by code_simp
  then have "or c 8 < 16" if "c < 16" for c :: nat using that by simp
  then show "(case effective_foreground p of None \<Rightarrow> 7 | Some c \<Rightarrow> c) < 16"
    using assms by (auto simp: effective_foreground_def follows_def cga_color_def split: option.splits)
  show "(case pc_background p of None \<Rightarrow> 0 | Some c \<Rightarrow> c) < 8"
    using assms by (auto simp: follows_def cga_background_def split: option.splits)
qed

lemma optional_token:
  assumes "n < 24" "e_state e = Ground"
  shows "\<exists>t q. (\<forall>s r em. render_tokens s = Some (r, em) \<longrightarrow>
      (\<exists>em'. render_tokens ((if w then BAR # dec2 n else []) @ s) = Some (t @ r, em'))) \<and>
    does U e t (e\<lparr>e_pen := q\<rparr>) \<and>
    p_fg q = (if w \<and> n < 16 then Some (Palette (int (cga_to_xterm n))) else p_fg (e_pen e)) \<and>
    p_bg q = (if w \<and> 16 \<le> n then if n = 16 then None else Some (Palette (int (cga_to_xterm (n - 16)))) else p_bg (e_pen e))"
proof (cases w)
  case True
  obtain t where t: "\<And>s. render_tokens (BAR # dec2 n @ s) = map_option (\<lambda>(r, em). (t @ r, True)) (render_tokens s)"
      "does U e t (e\<lparr>e_pen := (if n < 16 then (e_pen e)\<lparr>p_fg := Some (Palette (int (cga_to_xterm n)))\<rparr>
        else (e_pen e)\<lparr>p_bg := (if n = 16 then None else Some (Palette (int (cga_to_xterm (n - 16)))))\<rparr>)\<rparr>)"
    using token_draws[OF assms, of U] by blast
  show ?thesis by (rule exI[of _ t], rule exI, intro conjI, use t(1) True in force, rule t(2)) (use True in auto)
next
  case False
  then show ?thesis by (intro exI[of _ "[]"] exI[of _ "e_pen e"]) auto
qed

text \<open>
  C6: colour pasted into a post keeps its meaning. Whatever a terminal would make of a pasted SGR
  sequence of basic colours, bold and resets (\<open>apply_sgr_pure\<close> on its own pen), the editor's
  \<open>PastedColor\<close> follows it, and the pipe codes it types, rendered where they stand, put the drawing
  pen into those colours: bold as the bright half, the default foreground as light grey, a bright or
  black background as its base colour or the default.
\<close>

theorem pasted_colour_tracks_terminal:
  assumes "follows p q" "drawn p (e_pen e)" "e_state e = Ground"
    and "set (split_codes params) \<inter> {38, 48} = {}" "translate p params = (s, p')"
  shows "follows p' (apply_sgr_pure q (split_codes params)) \<and>
    (\<exists>r em e'. render_tokens s = Some (r, em) \<and> feed U e r = Some e' \<and> drawn p' (e_pen e'))"
proof -
  let ?codes = "split_codes params"
  define n m where "n = (case effective_foreground p' of None \<Rightarrow> 7 | Some c \<Rightarrow> c)"
    and "m = (case pc_background p' of None \<Rightarrow> 0 | Some c \<Rightarrow> c)"
  obtain f b where l: "pasted_loop p ?codes (length ?codes) False False = (p', f, b)"
      and s: "s = (if f then BAR # dec2 n else []) @ (if b then BAR # dec2 (16 + m) else []) @ []"
    using assms(5) by (auto simp: translate_def Let_def n_def m_def dec2_def split: prod.splits)
  have "?codes \<noteq> []" by (simp add: split_codes_def)
  then have follows: "follows p' (apply_sgr_pure q ?codes)"
    using follows_loop[OF assms(1,4) l] by (simp add: apply_sgr_pure_def)
  then have small: "n < 16" "m < 8" using follows_bounds unfolding n_def m_def by blast+
  obtain t1 q1 where t1: "\<forall>s r em. render_tokens s = Some (r, em) \<longrightarrow>
        (\<exists>em'. render_tokens ((if f then BAR # dec2 n else []) @ s) = Some (t1 @ r, em'))"
      "does U e t1 (e\<lparr>e_pen := q1\<rparr>)"
      "p_fg q1 = (if f \<and> n < 16 then Some (Palette (int (cga_to_xterm n))) else p_fg (e_pen e))"
      "p_bg q1 = (if f \<and> 16 \<le> n then if n = 16 then None else Some (Palette (int (cga_to_xterm (n - 16)))) else p_bg (e_pen e))"
    using optional_token[of n e f U] small assms(3) by auto
  let ?e = "e\<lparr>e_pen := q1\<rparr>" and ?m = "16 + m"
  obtain t2 q2 where t2: "\<forall>s r em. render_tokens s = Some (r, em) \<longrightarrow>
        (\<exists>em'. render_tokens ((if b then BAR # dec2 ?m else []) @ s) = Some (t2 @ r, em'))"
      "does U ?e t2 (?e\<lparr>e_pen := q2\<rparr>)"
      "p_fg q2 = (if b \<and> ?m < 16 then Some (Palette (int (cga_to_xterm ?m))) else p_fg (e_pen ?e))"
      "p_bg q2 = (if b \<and> 16 \<le> ?m then if ?m = 16 then None else Some (Palette (int (cga_to_xterm (?m - 16)))) else p_bg (e_pen ?e))"
    using optional_token[of ?m ?e b U] small assms(3) by auto
  obtain em where "render_tokens s = Some (t1 @ t2 @ [], em)"
    using t1(1) t2(1)[rule_format, of "[]" "[]" False] unfolding s by fastforce
  moreover have "feed U e (t1 @ t2 @ []) = Some (?e\<lparr>e_pen := q2\<rparr>)"
    using does_append[OF t1(2) t2(2)] sends_feed[OF does_sends] by simp
  moreover have "drawn p' q2"
    using pasted_loop_unset[OF l] assms(2) t1(3,4) t2(3,4) small
    by (cases f; cases b) (auto simp: drawn_def n_def m_def split: option.splits)
  ultimately show ?thesis using follows by fastforce
qed

theorem pasted_colour_tracks_terminal_witness:
  "follows (snd (translate new_pasted (u ''1;31;44''))) (apply_sgr_pure default_pen (split_codes (u ''1;31;44''))) \<and>
    (\<exists>r em e'. render_tokens (fst (translate new_pasted (u ''1;31;44''))) = Some (r, em) \<and>
      feed few_chars (fresh 20 2 False) r = Some e' \<and>
      drawn (snd (translate new_pasted (u ''1;31;44''))) (e_pen e'))"
  by (rule pasted_colour_tracks_terminal[where p = new_pasted])
    (simp_all add: follows_def drawn_def new_pasted_def default_pen_def fresh_def effective_foreground_def
      split_codes_def undec_def)

theorem rendered_line_shows_plain_text_witness:
  "\<exists>r e'. render_pipe_codes (u ''|04hi |UNyou'') = Some r \<and> feed few_chars (fresh 20 2 False) r = Some e' \<and>
    wrote (fresh 20 2 False) (strip_pipe_codes (u ''|04hi |UNyou'')) e' \<and>
    (e_pen e' = e_pen (fresh 20 2 False) \<or> e_pen e' = default_pen)"
  by (rule rendered_line_shows_plain_text)
    (simp_all add: fresh_def ready_def solid_def blank_grid_def blank_cell_def glyph_def ascii_printable_def
      strip_pipe_codes_def BAR_def ascii_alnum_def is_digit_def)

end
