(* ===== verification/Bounded_Queue.thy ===== *)
theory Bounded_Queue
  imports NB_Prelude
begin

text \<open>
  The contract shared by the queues that never block a sender: pushing onto a full queue drops the
  oldest entry. What becomes of the entries already there is proved once, here.
\<close>

definition newest :: "nat \<Rightarrow> 'a list \<Rightarrow> 'a list" where
  "newest n l = drop (length l - n) l"

lemma newest_rev: "newest n l = rev (take n (rev l))"
  by (simp add: newest_def rev_take)

lemma newest_newest: "newest n (newest n a @ b) = newest n (a @ b)"
  by (simp add: newest_rev min_absorb2)

lemma newest_id: "length l \<le> n \<Longrightarrow> newest n l = l"
  by (simp add: newest_def)

lemma length_newest [simp]: "length (newest n l) = min n (length l)"
  by (auto simp: newest_def)

locale drop_oldest =
  fixes push :: "'q list \<Rightarrow> 'x \<Rightarrow> 'q list"
    and entry :: "'x \<Rightarrow> 'q"
    and overflowed :: "'x \<Rightarrow> 'q"
    and cap :: nat
  assumes room: "length q < cap \<Longrightarrow> push q x = q @ [entry x]"
    and full: "length q = cap \<Longrightarrow> push q x = tl q @ [overflowed x]"
    and cap_pos: "0 < cap"
begin

lemma push_length: "length q \<le> cap \<Longrightarrow> length (push q x) = min cap (Suc (length q))"
  using cap_pos by (cases "length q < cap") (auto simp: room full)

lemma push_bounded: "length q \<le> cap \<Longrightarrow> length (push q x) \<le> cap"
  by (simp add: push_length)

lemma push_last:
  "length q \<le> cap \<Longrightarrow> last (push q x) = (if length q < cap then entry x else overflowed x)"
  by (cases "length q < cap") (auto simp: room full)

definition pushes :: "'q list \<Rightarrow> 'x list \<Rightarrow> 'q list" where
  "pushes q xs = foldl push q xs"

lemma pushes_bounded: "length q \<le> cap \<Longrightarrow> length (pushes q xs) \<le> cap"
  unfolding pushes_def by (induction xs arbitrary: q) (simp_all add: push_bounded)

text \<open>The old entries that survive a run of pushes are exactly the newest ones.\<close>

lemma push_drop:
  assumes "length q \<le> cap"
  shows "\<exists>y\<in>{entry x, overflowed x}. push q x = drop (Suc (length q) - cap) q @ [y]"
proof (cases "length q < cap")
  case False
  then have "length q = cap" using assms by simp
  then show ?thesis by (simp add: full tl_drop) (metis drop_Suc drop_0)
qed (simp add: room)

lemma pushes_survivors:
  assumes "length q \<le> cap"
  shows "\<exists>ys. pushes q xs = drop (length q + length xs - cap) q @ ys \<and>
    length ys = min cap (length xs) \<and> set ys \<subseteq> entry ` set xs \<union> overflowed ` set xs"
proof (induction xs rule: rev_induct)
  case Nil
  then show ?case using assms by (simp add: pushes_def)
next
  case (snoc x xs)
  let ?d = "length q + length xs - cap"
  obtain ys where ys: "pushes q xs = drop ?d q @ ys" "length ys = min cap (length xs)"
    "set ys \<subseteq> entry ` set xs \<union> overflowed ` set xs"
    using snoc by blast
  have len: "length (pushes q xs) = (length q - ?d) + length ys" by (simp add: ys)
  obtain y where y_in: "y \<in> {entry x, overflowed x}" and y: "push (pushes q xs) x = drop (Suc (length (pushes q xs)) - cap) (pushes q xs) @ [y]"
    using push_drop pushes_bounded[OF assms] by blast
  let ?k = "Suc (length (pushes q xs)) - cap"
  have "pushes q (xs @ [x]) = drop (?k + ?d) q @ drop (?k - (length q - ?d)) ys @ [y]"
    using y by (simp add: pushes_def[of _ "xs @ [x]"] pushes_def[symmetric]) (simp add: ys(1))
  moreover have "drop (?k + ?d) q = drop (length q + length (xs @ [x]) - cap) q"
  proof (cases "length xs < cap")
    case True
    then have "?k + ?d = length q + length (xs @ [x]) - cap" using assms len ys(2) by simp
    then show ?thesis by simp
  next
    case False
    then show ?thesis using assms by simp
  qed
  moreover have "length (drop (?k - (length q - ?d)) ys @ [y]) = min cap (length (xs @ [x]))"
    using assms len ys(2) cap_pos by (simp add: min_def)
  moreover have "set (drop (?k - (length q - ?d)) ys @ [y]) \<subseteq>
      entry ` set (xs @ [x]) \<union> overflowed ` set (xs @ [x])"
    using ys(3) y_in by (auto dest: in_set_dropD)
  ultimately show ?case by metis
qed

text \<open>
  What has just been pushed as itself stays for exactly \<open>cap - 1\<close> further pushes, if nobody reads.
\<close>

lemma window:
  assumes "length q \<le> cap" "q = q0 @ [z]" "z \<notin> entry ` set xs \<union> overflowed ` set xs"
  shows "z \<in> set (pushes q xs) \<longleftrightarrow> length xs < cap"
proof -
  obtain ys where ys: "pushes q xs = drop (length q + length xs - cap) q @ ys"
    "set ys \<subseteq> entry ` set xs \<union> overflowed ` set xs"
    using pushes_survivors[OF assms(1)] by blast
  have "z \<in> set (drop k q) \<longleftrightarrow> k < length q" for k
    by (cases "k < length q") (auto simp: assms(2))
  then show ?thesis using ys assms cap_pos by auto
qed

end

end
