(* ===== verification/Chat_Hub.thy ===== *)
theory Chat_Hub
  imports Bounded_Queue "HOL-Library.AList"
begin

text \<open>
  \<^verbatim>\<open>src/netbbs/chat/hub.py\<close>: who is present in which channel, and the routing of messages onto
  the participants' queues. Queues are shared, mutable objects, so they live in a heap
  (\<open>h_queues\<close>) and a participant's entry holds the queue's index. The dict of a channel's
  participants is an association list in insertion order. The methods have no suspension point
  inside, so each is one step.
\<close>

section \<open>State\<close>

record participant_id =
  p_username :: ustr
  p_session :: int

datatype 'm event = Message 'm | QueueOverflowNotice nat | ChannelClosed

record 'm hub =
  h_maxsize :: int
  h_channels :: "ustr \<rightharpoonup> (participant_id \<times> nat) list"
  h_queues :: "'m event list list"
  h_activity :: "ustr \<rightharpoonup> ustr"

definition new_hub :: "int \<Rightarrow> 'm hub" where
  "new_hub maxsize =
     \<lparr>h_maxsize = maxsize, h_channels = Map.empty, h_queues = [], h_activity = Map.empty\<rparr>"

definition is_dm :: "ustr \<Rightarrow> bool" where
  "is_dm name \<longleftrightarrow> take 7 name = u ''__dm__:''"

definition participants_of :: "'m hub \<Rightarrow> ustr \<Rightarrow> (participant_id \<times> nat) list" where
  "participants_of h name = (case h_channels h name of None \<Rightarrow> [] | Some ps \<Rightarrow> ps)"

section \<open>Delivery\<close>

text \<open>\<open>asyncio.Queue.full\<close>: a queue whose \<open>maxsize\<close> is not positive is never full.\<close>

definition queue_full :: "int \<Rightarrow> 'a list \<Rightarrow> bool" where
  "queue_full maxsize q \<longleftrightarrow> 0 < maxsize \<and> maxsize \<le> int (length q)"

definition deliver :: "int \<Rightarrow> bool \<Rightarrow> 'm event list \<Rightarrow> 'm event \<Rightarrow> 'm event list" where
  "deliver maxsize priority q message =
     (if \<not> queue_full maxsize q then q @ [message]
      else let q1 = tl q;
               replacement = (if priority then message else QueueOverflowNotice 1)
           in if \<not> queue_full maxsize q1 then q1 @ [replacement] else q1)"

definition deliver_to :: "'m hub \<Rightarrow> bool \<Rightarrow> nat \<Rightarrow> 'm event \<Rightarrow> 'm hub" where
  "deliver_to h priority q message =
     h\<lparr>h_queues := (h_queues h)[q := deliver (h_maxsize h) priority (h_queues h ! q) message]\<rparr>"

section \<open>Operations\<close>

definition join :: "'m hub \<Rightarrow> ustr \<Rightarrow> participant_id \<Rightarrow> nat \<times> 'm hub" where
  "join h name pid =
     (let q = length (h_queues h)
      in (q, h\<lparr>h_queues := h_queues h @ [[]],
               h_channels := (h_channels h)(name \<mapsto> AList.update pid q (participants_of h name))\<rparr>))"

definition leave_channel :: "'m hub \<Rightarrow> ustr \<Rightarrow> participant_id \<Rightarrow> 'm hub" where
  "leave_channel h name pid =
     (case h_channels h name of
        None \<Rightarrow> h
      | Some ps \<Rightarrow>
          let ps = AList.delete pid ps
          in if ps = [] \<and> is_dm name
             then h\<lparr>h_channels := (h_channels h)(name := None), h_activity := (h_activity h)(name := None)\<rparr>
             else h\<lparr>h_channels := (h_channels h)(name \<mapsto> ps)\<rparr>)"

fun deliver_each ::
  "'m hub \<Rightarrow> participant_id set \<Rightarrow> bool \<Rightarrow> 'm event \<Rightarrow> (participant_id \<times> nat) list \<Rightarrow> 'm hub" where
  "deliver_each h exclude priority message [] = h"
| "deliver_each h exclude priority message ((pid, q) # ps) =
     deliver_each (if pid \<in> exclude then h else deliver_to h priority q message) exclude priority message ps"

definition broadcast ::
  "'m hub \<Rightarrow> ustr \<Rightarrow> 'm event \<Rightarrow> participant_id set \<Rightarrow> bool \<Rightarrow> ustr \<Rightarrow> 'm hub" where
  "broadcast h name message exclude priority now =
     (let h = deliver_each h exclude priority message (participants_of h name)
      in if is_dm name then h else h\<lparr>h_activity := (h_activity h)(name \<mapsto> now)\<rparr>)"

definition participant_count :: "'m hub \<Rightarrow> ustr \<Rightarrow> nat" where
  "participant_count h name = length (participants_of h name)"

definition participant_ids :: "'m hub \<Rightarrow> ustr \<Rightarrow> participant_id list" where
  "participant_ids h name = map fst (participants_of h name)"

definition participants_for_username :: "'m hub \<Rightarrow> ustr \<Rightarrow> ustr \<Rightarrow> participant_id list" where
  "participants_for_username h name username =
     filter (\<lambda>pid. p_username pid = username) (map fst (participants_of h name))"

definition send_to :: "'m hub \<Rightarrow> ustr \<Rightarrow> participant_id \<Rightarrow> 'm event \<Rightarrow> bool \<Rightarrow> bool \<times> 'm hub" where
  "send_to h name pid message priority =
     (case map_of (participants_of h name) pid of
        None \<Rightarrow> (False, h)
      | Some q \<Rightarrow> (True, deliver_to h priority q message))"

fun close_each :: "'m hub \<Rightarrow> nat list \<Rightarrow> 'm hub" where
  "close_each h [] = h"
| "close_each h (q # qs) = close_each (h\<lparr>h_queues := (h_queues h)[q := [ChannelClosed]]\<rparr>) qs"

definition close_channel :: "'m hub \<Rightarrow> ustr \<Rightarrow> nat \<times> 'm hub" where
  "close_channel h name =
     (let qs = map snd (participants_of h name) in (length qs, close_each h qs))"

definition last_activity :: "'m hub \<Rightarrow> ustr \<Rightarrow> ustr option" where
  "last_activity h name = h_activity h name"

text \<open>What a reader does: \<open>queue.get_nowait()\<close> on the queue \<open>join\<close> returned.\<close>

definition read_queue :: "'m hub \<Rightarrow> nat \<Rightarrow> 'm hub" where
  "read_queue h q = h\<lparr>h_queues := (h_queues h)[q := tl (h_queues h ! q)]\<rparr>"

section \<open>The queues keep the drop-oldest contract\<close>

interpretation hub: drop_oldest
  "deliver (int (Suc c)) priority" "\<lambda>m. m" "\<lambda>m. if priority then m else QueueOverflowNotice 1" "Suc c"
  for c priority
  by unfold_locales (auto simp: deliver_def queue_full_def Let_def)

lemma deliver_bounded:
  assumes "0 < maxsize" "int (length q) \<le> maxsize"
  shows "int (length (deliver maxsize priority q m)) \<le> maxsize"
proof -
  obtain c where "maxsize = int (Suc c)" using assms(1) by (metis pos_int_cases gr0_implies_Suc)
  then show ?thesis using hub.push_bounded[of q c priority m] assms(2) by simp
qed

section \<open>Reachable hubs\<close>

inductive hub_step :: "'m hub \<Rightarrow> 'm hub \<Rightarrow> bool" where
  join: "hub_step h (snd (join h name pid))"
| leave: "hub_step h (leave_channel h name pid)"
| broadcast: "hub_step h (broadcast h name message exclude priority now)"
| send: "hub_step h (snd (send_to h name pid message priority))"
| close: "hub_step h (snd (close_channel h name))"
| read: "hub_step h (read_queue h q)"

inductive_cases hub_stepE: "hub_step h h'"

definition entries_ok :: "nat \<Rightarrow> (ustr \<rightharpoonup> (participant_id \<times> nat) list) \<Rightarrow> bool" where
  "entries_ok n chans \<longleftrightarrow>
     (\<forall>c ps. chans c = Some ps \<longrightarrow> distinct (map fst ps)) \<and>
     (\<forall>c ps p q. chans c = Some ps \<longrightarrow> (p, q) \<in> set ps \<longrightarrow> q < n) \<and>
     (\<forall>c ps c' ps' p p' q. chans c = Some ps \<longrightarrow> chans c' = Some ps' \<longrightarrow>
        (p, q) \<in> set ps \<longrightarrow> (p', q) \<in> set ps' \<longrightarrow> c = c' \<and> p = p')"

definition hub_ok :: "'m hub \<Rightarrow> bool" where
  "hub_ok h \<longleftrightarrow>
     entries_ok (length (h_queues h)) (h_channels h) \<and>
     (0 < h_maxsize h \<longrightarrow> (\<forall>q\<in>set (h_queues h). int (length q) \<le> h_maxsize h)) \<and>
     (\<forall>c. is_dm c \<longrightarrow> h_activity h c = None \<and> h_channels h c \<noteq> Some [])"

lemma new_hub_ok: "hub_ok (new_hub n)"
  by (simp add: hub_ok_def new_hub_def entries_ok_def)

text \<open>Operations that only rewrite queue contents, within the bound.\<close>

definition requeues :: "'m hub \<Rightarrow> 'm hub \<Rightarrow> bool" where
  "requeues h h' \<longleftrightarrow>
     h_channels h' = h_channels h \<and> h_activity h' = h_activity h \<and> h_maxsize h' = h_maxsize h \<and>
     length (h_queues h') = length (h_queues h) \<and>
     (0 < h_maxsize h \<longrightarrow> (\<forall>q\<in>set (h_queues h). int (length q) \<le> h_maxsize h) \<longrightarrow>
        (\<forall>q\<in>set (h_queues h'). int (length q) \<le> h_maxsize h))"

lemma requeues_refl [simp]: "requeues h h"
  by (simp add: requeues_def)

lemma requeues_trans: "requeues h h1 \<Longrightarrow> requeues h1 h2 \<Longrightarrow> requeues h h2"
  by (simp add: requeues_def)

lemma requeues_ok: "requeues h h' \<Longrightarrow> hub_ok h \<Longrightarrow> hub_ok h'"
  by (simp add: requeues_def hub_ok_def)

lemma requeues_update:
  assumes "q < length (h_queues h) \<Longrightarrow> 0 < h_maxsize h \<Longrightarrow>
      int (length (h_queues h ! q)) \<le> h_maxsize h \<Longrightarrow> int (length c) \<le> h_maxsize h"
  shows "requeues h (h\<lparr>h_queues := (h_queues h)[q := c]\<rparr>)"
proof (cases "q < length (h_queues h)")
  case True
  then show ?thesis
    using assms set_update_subset_insert[of "h_queues h" q c] unfolding requeues_def by auto
qed (simp add: requeues_def list_update_beyond)

lemma requeues_deliver_to: "requeues h (deliver_to h priority q m)"
  unfolding deliver_to_def by (rule requeues_update) (simp add: deliver_bounded)

lemma requeues_deliver_each: "requeues h (deliver_each h exclude priority m ps)"
  by (induction h exclude priority m ps rule: deliver_each.induct)
    (auto intro: requeues_trans requeues_deliver_to)

lemma requeues_close_each: "requeues h (close_each h qs)"
proof (induction h qs rule: close_each.induct)
  case (2 h q qs)
  have "requeues h (h\<lparr>h_queues := (h_queues h)[q := [ChannelClosed]]\<rparr>)"
    by (rule requeues_update) simp
  then show ?case using 2 requeues_trans by simp
qed simp

lemma requeues_read: "requeues h (read_queue h q)"
  unfolding read_queue_def by (rule requeues_update) simp

lemma entries_ok_join:
  assumes "entries_ok n chans"
  shows "entries_ok (Suc n) (chans(name \<mapsto> AList.update pid n (case chans name of None \<Rightarrow> [] | Some ps \<Rightarrow> ps)))"
proof -
  define old where "old = (case chans name of None \<Rightarrow> [] | Some ps \<Rightarrow> ps)"
  have old: "distinct (map fst old)" "(p, q) \<in> set old \<Longrightarrow> q < n" for p q
    using assms unfolding entries_ok_def old_def by (cases "chans name"; simp; blast)+
  have own: "(p, q) \<in> set old \<Longrightarrow> chans c = Some ps \<Longrightarrow> (p', q) \<in> set ps \<Longrightarrow> c = name \<and> p = p'" for p q c ps p'
    using assms unfolding entries_ok_def old_def
    by (cases "chans name") (simp, metis option.simps(5))
  have own_old: "(p, q) \<in> set old \<Longrightarrow> (p', q) \<in> set old \<Longrightarrow> p = p'" for p q p'
    using own[of p q name] by (cases "chans name") (auto simp: old_def)
  have other: "chans c = Some ps \<Longrightarrow> (p, q) \<in> set ps \<Longrightarrow> q < n" for c ps p q
    using assms unfolding entries_ok_def by blast
  have upd: "(p, q) \<in> set (AList.update pid n old) \<Longrightarrow> (p = pid \<and> q = n) \<or> (p \<noteq> pid \<and> (p, q) \<in> set old)" for p q
    using old(1) distinct_update[OF old(1), of pid n] update_conv'[of pid n old]
    by (metis (no_types, lifting) fun_upd_apply map_of_eq_Some_iff map_of_is_SomeI option.inject)
  have new: "distinct (map fst (AList.update pid n old))" by (rule distinct_update[OF old(1)])
  let ?chans = "chans(name \<mapsto> AList.update pid n old)"
  have unique: "c = c' \<and> p = p'"
    if "?chans c = Some ps" "?chans c' = Some ps'" "(p, q) \<in> set ps" "(p', q) \<in> set ps'"
    for c ps c' ps' p p' q
  proof (cases "c = name"; cases "c' = name")
    assume "c \<noteq> name" "c' \<noteq> name"
    then show ?thesis using that assms unfolding entries_ok_def by (metis fun_upd_other)
  next
    assume "c = name" "c' \<noteq> name"
    then show ?thesis using that upd[of p q] own[of p q c' ps' p'] other[of c' ps' p' q] by fastforce
  next
    assume "c \<noteq> name" "c' = name"
    then show ?thesis using that upd[of p' q] own[of p' q c ps p] other[of c ps p q] by fastforce
  next
    assume "c = name" "c' = name"
    then have "(p, q) \<in> set (AList.update pid n old)" "(p', q) \<in> set (AList.update pid n old)"
      using that by simp_all
    then show ?thesis
      using upd[of p q] upd[of p' q] old(2)[of p n] old(2)[of p' n] own_old[of p q p']
        \<open>c = name\<close> \<open>c' = name\<close> by auto
  qed
  show ?thesis
    unfolding old_def[symmetric] entries_ok_def
  proof (intro conjI allI impI)
    fix c ps p q assume "?chans c = Some ps" "(p, q) \<in> set ps"
    then show "q < Suc n"
      using upd[of p q] old(2)[of p q] other[of c ps p q] by (auto split: if_splits)
  next
    fix c ps assume "?chans c = Some ps"
    then show "distinct (map fst ps)" using new assms by (auto simp: entries_ok_def split: if_splits)
  qed (use unique in blast)+
qed

lemma entries_ok_sub:
  assumes "entries_ok n chans"
    and "\<And>c ps. chans' c = Some ps \<Longrightarrow> \<exists>ps0. chans c = Some ps0 \<and> set ps \<subseteq> set ps0 \<and> distinct (map fst ps)"
  shows "entries_ok n chans'"
  unfolding entries_ok_def
proof (intro conjI allI impI)
  fix c ps assume "chans' c = Some ps"
  then show "distinct (map fst ps)" using assms(2) by blast
next
  fix c ps p q assume "chans' c = Some ps" "(p, q) \<in> set ps"
  then show "q < n" using assms unfolding entries_ok_def by blast
next
  fix c ps c' ps' p p' q
  assume a: "chans' c = Some ps" "chans' c' = Some ps'" "(p, q) \<in> set ps" "(p', q) \<in> set ps'"
  obtain ps0 where "chans c = Some ps0" "set ps \<subseteq> set ps0" using assms(2)[OF a(1)] by blast
  moreover obtain ps1 where "chans c' = Some ps1" "set ps' \<subseteq> set ps1" using assms(2)[OF a(2)] by blast
  ultimately show "c = c'" "p = p'" using a assms(1) unfolding entries_ok_def by blast+
qed

lemma join_ok:
  assumes "hub_ok h"
  shows "hub_ok (snd (join h name pid))"
proof -
  have "AList.update pid n ps \<noteq> []" for n ps by (cases ps) auto
  then show ?thesis
    using assms entries_ok_join[of "length (h_queues h)" "h_channels h" name pid]
    by (simp add: hub_ok_def join_def participants_of_def Let_def)
qed

lemma leave_ok:
  assumes "hub_ok h"
  shows "hub_ok (leave_channel h name pid)"
proof (cases "h_channels h name")
  case None
  then show ?thesis using assms by (simp add: leave_channel_def)
next
  case (Some ps)
  have "distinct (map fst ps)" using assms Some by (simp add: hub_ok_def entries_ok_def)
  then have d: "set (AList.delete pid ps) \<subseteq> set ps" "distinct (map fst (AList.delete pid ps))"
    using distinct_delete by (auto simp: AList.delete_eq)
  have "entries_ok (length (h_queues h)) ((h_channels h)(name \<mapsto> AList.delete pid ps))"
    by (rule entries_ok_sub[of _ "h_channels h"]) (use assms Some d in \<open>auto simp: hub_ok_def entries_ok_def split: if_splits\<close>)
  moreover have "entries_ok (length (h_queues h)) ((h_channels h)(name := None))"
    by (rule entries_ok_sub[of _ "h_channels h"]) (use assms in \<open>auto simp: hub_ok_def entries_ok_def split: if_splits\<close>)
  ultimately show ?thesis
    using assms Some by (auto simp: leave_channel_def hub_ok_def Let_def)
qed

lemma hub_step_ok: "hub_step h h' \<Longrightarrow> hub_ok h \<Longrightarrow> hub_ok h'"
proof (erule hub_stepE)
  fix name message exclude priority now
  assume h: "hub_ok h" and h': "h' = broadcast h name message exclude priority now"
  have "hub_ok (deliver_each h exclude priority message (participants_of h name))"
    using requeues_ok[OF requeues_deliver_each h] .
  then show "hub_ok h'" by (simp add: h' broadcast_def Let_def hub_ok_def)
qed (auto simp: join_ok leave_ok send_to_def close_channel_def Let_def
    intro: requeues_ok[OF requeues_deliver_to] requeues_ok[OF requeues_close_each] requeues_ok[OF requeues_read]
    split: option.splits)

lemma hub_steps_ok: "hub_step\<^sup>*\<^sup>* h h' \<Longrightarrow> hub_ok h \<Longrightarrow> hub_ok h'"
  by (induction rule: rtranclp_induct) (auto intro: hub_step_ok)

lemma hub_step_maxsize: "hub_step h h' \<Longrightarrow> h_maxsize h' = h_maxsize h"
proof -
  have m: "requeues h h' \<Longrightarrow> h_maxsize h' = h_maxsize h" for h h' :: "'a hub"
    by (simp add: requeues_def)
  note ms = m[OF requeues_deliver_to] m[OF requeues_deliver_each] m[OF requeues_close_each] m[OF requeues_read]
  show "hub_step h h' \<Longrightarrow> h_maxsize h' = h_maxsize h"
    by (erule hub_stepE) (auto simp: ms join_def leave_channel_def broadcast_def send_to_def
        close_channel_def Let_def split: option.splits)
qed

lemma hub_steps_maxsize: "hub_step\<^sup>*\<^sup>* h h' \<Longrightarrow> h_maxsize h' = h_maxsize h"
  by (induction rule: rtranclp_induct) (auto dest: hub_step_maxsize)

section \<open>Who receives what\<close>

lemma deliver_each_frame [simp]:
  "h_channels (deliver_each h ex pr m ps) = h_channels h"
  "h_activity (deliver_each h ex pr m ps) = h_activity h"
  "h_maxsize (deliver_each h ex pr m ps) = h_maxsize h"
  "length (h_queues (deliver_each h ex pr m ps)) = length (h_queues h)"
  using requeues_deliver_each[of h ex pr m ps] by (simp_all add: requeues_def)

lemma deliver_each_other:
  "q \<notin> snd ` set ps \<Longrightarrow> h_queues (deliver_each h ex pr m ps) ! q = h_queues h ! q"
  by (induction h ex pr m ps rule: deliver_each.induct) (auto simp: deliver_to_def)

lemma deliver_each_member:
  "(p, q) \<in> set ps \<Longrightarrow> distinct (map snd ps) \<Longrightarrow> q < length (h_queues h) \<Longrightarrow>
    h_queues (deliver_each h ex pr m ps) ! q =
      (if p \<in> ex then h_queues h ! q else deliver (h_maxsize h) pr (h_queues h ! q) m)"
proof (induction h ex pr m ps rule: deliver_each.induct)
  case (2 h ex pr m p' q' ps)
  show ?case
  proof (cases "(p, q) = (p', q')")
    case True
    then have "q \<notin> snd ` set ps" using "2.prems"(2) by auto
    then show ?thesis using True "2.prems"(3) by (simp add: deliver_each_other deliver_to_def)
  next
    case False
    then have "(p, q) \<in> set ps" "q \<noteq> q'" using "2.prems"(1,2) by force+
    then show ?thesis using 2 by (simp add: deliver_to_def)
  qed
qed simp

lemma participants_distinct:
  assumes "hub_ok h"
  shows "distinct (map snd (participants_of h name))"
    "(p, q) \<in> set (participants_of h name) \<Longrightarrow> q < length (h_queues h)"
proof -
  have e: "entries_ok (length (h_queues h)) (h_channels h)" using assms by (simp add: hub_ok_def)
  show "(p, q) \<in> set (participants_of h name) \<Longrightarrow> q < length (h_queues h)"
    using e unfolding participants_of_def entries_ok_def by (cases "h_channels h name"; simp; blast)
  have "distinct (map fst (participants_of h name))"
    using e by (simp add: participants_of_def entries_ok_def split: option.splits)
  moreover have "inj_on snd (set (participants_of h name))"
  proof (rule inj_onI)
    fix x y assume x: "x \<in> set (participants_of h name)" and y: "y \<in> set (participants_of h name)"
      and xy: "snd x = snd y"
    obtain ps where ps: "h_channels h name = Some ps" "participants_of h name = ps"
      using x by (cases "h_channels h name") (simp_all add: participants_of_def)
    then have "(fst x, snd y) \<in> set ps" "(fst y, snd y) \<in> set ps" using x y xy by (metis prod.collapse)+
    then have "fst x = fst y" using e ps(1) unfolding entries_ok_def by blast
    then show "x = y" using xy by (simp add: prod_eq_iff)
  qed
  ultimately show "distinct (map snd (participants_of h name))"
    by (simp add: distinct_map)
qed

lemma close_each_other: "q \<notin> set qs \<Longrightarrow> h_queues (close_each h qs) ! q = h_queues h ! q"
  by (induction h qs rule: close_each.induct) auto

lemma close_each_member:
  "q \<in> set qs \<Longrightarrow> q < length (h_queues h) \<Longrightarrow> h_queues (close_each h qs) ! q = [ChannelClosed]"
proof (induction h qs rule: close_each.induct)
  case (2 h q' qs)
  then show ?case by (cases "q \<in> set qs") (auto simp: close_each_other)
qed simp

section \<open>Properties\<close>

text \<open>
  C28: In every reachable hub no participant's queue exceeds the configured capacity, and a direct
  chat's room leaves nothing behind: no room without participants and no activity entry.
\<close>

theorem hub_bounded_and_clean:
  assumes "hub_step\<^sup>*\<^sup>* (new_hub maxsize) h"
  shows "(0 < maxsize \<longrightarrow> (\<forall>q\<in>set (h_queues h). int (length q) \<le> maxsize)) \<and>
    (\<forall>c. is_dm c \<longrightarrow> h_activity h c = None \<and> h_channels h c \<noteq> Some [])"
  using hub_steps_ok[OF assms new_hub_ok] hub_steps_maxsize[OF assms]
  by (simp add: hub_ok_def new_hub_def)

theorem hub_bounded_and_clean_witness:
  "let h = broadcast (snd (join (new_hub 1) (u ''__dm__:1'') \<lparr>p_username = u ''a'', p_session = 1\<rparr>))
             (u ''__dm__:1'') (Message (7::nat)) {} False (u ''now'')
   in (0 < (1::int) \<longrightarrow> (\<forall>q\<in>set (h_queues h). int (length q) \<le> 1)) \<and>
      (\<forall>c. is_dm c \<longrightarrow> h_activity h c = None \<and> h_channels h c \<noteq> Some [])"
  unfolding Let_def
  by (rule hub_bounded_and_clean, rule rtranclp_trans, rule r_into_rtranclp, rule hub_step.join,
      rule r_into_rtranclp, rule hub_step.broadcast)

text \<open>
  A broadcast reaches exactly the participants present in that channel and not excluded, each
  once; every other queue of the node is untouched.
\<close>

theorem broadcast_reaches_exactly:
  assumes "hub_ok h" and "q < length (h_queues h)"
  shows "h_queues (broadcast h name m exclude priority now) ! q =
    (if \<exists>p. (p, q) \<in> set (participants_of h name) \<and> p \<notin> exclude
     then deliver (h_maxsize h) priority (h_queues h ! q) m
     else h_queues h ! q)"
proof -
  let ?ps = "participants_of h name"
  have "h_queues (deliver_each h exclude priority m ?ps) ! q =
    (if \<exists>p. (p, q) \<in> set ?ps \<and> p \<notin> exclude then deliver (h_maxsize h) priority (h_queues h ! q) m
     else h_queues h ! q)"
  proof (cases "q \<in> snd ` set ?ps")
    case True
    then obtain p where p: "(p, q) \<in> set ?ps" by auto
    have "p' = p" if "(p', q) \<in> set ?ps" for p'
      using participants_distinct(1)[OF assms(1), of name] p that inj_onD[of snd "set ?ps" "(p', q)" "(p, q)"]
      by (simp add: distinct_map)
    then have "(\<exists>p. (p, q) \<in> set ?ps \<and> p \<notin> exclude) \<longleftrightarrow> p \<notin> exclude" using p by blast
    then show ?thesis
      using deliver_each_member[OF p participants_distinct(1)[OF assms(1)] assms(2)] by simp
  next
    case False
    then show ?thesis by (force simp: deliver_each_other)
  qed
  then show ?thesis by (auto simp: broadcast_def Let_def)
qed

text \<open>Alice and Bob in \<open>lobby\<close>, Bob's queue full.\<close>

definition alice :: participant_id where "alice = \<lparr>p_username = u ''alice'', p_session = 1\<rparr>"
definition bob :: participant_id where "bob = \<lparr>p_username = u ''bob'', p_session = 2\<rparr>"

definition lobby :: "nat hub" where
  "lobby =
     (let h = snd (join (snd (join (new_hub 1) (u ''lobby'') alice)) (u ''lobby'') bob)
      in snd (send_to h (u ''lobby'') bob (Message 1) False))"

lemma lobby_ok: "hub_ok lobby"
  unfolding lobby_def Let_def by (intro hub_step_ok[OF hub_step.send] join_ok new_hub_ok)

theorem broadcast_reaches_exactly_witness:
  "h_queues (broadcast lobby (u ''lobby'') (Message 2) {alice} False (u ''t'')) ! 1 =
    (if \<exists>p. (p, 1) \<in> set (participants_of lobby (u ''lobby'')) \<and> p \<notin> {alice}
     then deliver (h_maxsize lobby) False (h_queues lobby ! 1) (Message 2)
     else h_queues lobby ! 1)"
  by (rule broadcast_reaches_exactly[OF lobby_ok])
    code_simp

text \<open>
  A priority event is delivered: \<open>send_to\<close> to a participant who is present answers \<open>True\<close>, and
  the event itself, never an overflow notice, is the newest entry of that participant's queue.
\<close>

theorem priority_event_is_queued:
  assumes "hub_ok h" and "map_of (participants_of h name) pid = Some q"
  shows "fst (send_to h name pid m True) \<and> last (h_queues (snd (send_to h name pid m True)) ! q) = m"
proof -
  have "q < length (h_queues h)"
    using participants_distinct(2)[OF assms(1)] map_of_SomeD[OF assms(2)] by blast
  moreover have "int (length (h_queues h ! q)) \<le> h_maxsize h" if "0 < h_maxsize h"
    using assms(1) calculation that by (auto simp: hub_ok_def)
  moreover have "\<not> queue_full n (tl x)" if "int (length x) \<le> n" "queue_full n x" for n and x :: "'a event list"
    using that by (auto simp: queue_full_def)
  ultimately show ?thesis
    using assms(2) by (auto simp: send_to_def deliver_to_def deliver_def Let_def queue_full_def)
qed

theorem priority_event_is_queued_witness:
  "fst (send_to lobby (u ''lobby'') bob (Message 9) True) \<and>
    last (h_queues (snd (send_to lobby (u ''lobby'') bob (Message 9) True)) ! 1) = Message 9"
  by (rule priority_event_is_queued[OF lobby_ok]) code_simp

text \<open>
  How long a queued priority event stays when its target reads nothing: through fewer ordinary
  deliveries than the queue's capacity, and not beyond; the capacity-th one evicts it, although the
  event was never read.
\<close>

theorem priority_event_window:
  assumes "0 < maxsize" "int (length q) \<le> maxsize" "k \<notin> set ms" "k \<noteq> QueueOverflowNotice 1"
  shows "k \<in> set (foldl (deliver maxsize False) (deliver maxsize True q k) ms) \<longleftrightarrow> int (length ms) < maxsize"
proof -
  obtain c where c: "maxsize = int (Suc c)" using assms(1) by (metis pos_int_cases gr0_implies_Suc)
  have len: "length (deliver maxsize True q k) \<le> Suc c"
    using deliver_bounded[OF assms(1,2), of True k] c by simp
  have "\<exists>q0. deliver maxsize True q k = q0 @ [k]"
    using assms(1,2) by (cases q) (auto simp: deliver_def Let_def queue_full_def)
  then obtain q0 where q0: "deliver maxsize True q k = q0 @ [k]" ..
  have "k \<notin> (\<lambda>m. m) ` set ms \<union> (\<lambda>m. if False then m else QueueOverflowNotice 1) ` set ms"
    using assms(3,4) by auto
  then show ?thesis
    using hub.window[of "deliver maxsize True q k" c q0 k ms False, unfolded hub.pushes_def]
      len q0 by (simp add: c) linarith
qed

theorem priority_event_window_witness:
  "(Message 5 \<in> set (foldl (deliver 2 False) (deliver 2 True [Message 1, Message 2] (Message (5::nat)))
      [Message 6, Message 7])) = (int (length [Message (6::nat), Message 7]) < 2)"
  by (rule priority_event_window) simp_all

text \<open>
  Closing a channel tells every session in it and nobody else: each present queue holds
  \<open>ChannelClosed\<close> alone, the answer is how many were told, and all of them stay registered.
\<close>

theorem close_channel_tells_everyone:
  assumes "hub_ok h"
  shows "fst (close_channel h name) = participant_count h name \<and>
    (\<forall>q<length (h_queues h). h_queues (snd (close_channel h name)) ! q =
       (if q \<in> snd ` set (participants_of h name) then [ChannelClosed] else h_queues h ! q)) \<and>
    h_channels (snd (close_channel h name)) = h_channels h"
proof -
  have "h_channels (close_each h qs) = h_channels h" for qs
    using requeues_close_each[of h qs] by (simp add: requeues_def)
  then show ?thesis
    by (simp add: close_channel_def Let_def participant_count_def close_each_member close_each_other)
qed

theorem close_channel_tells_everyone_witness:
  "fst (close_channel lobby (u ''lobby'')) = 2 \<and>
    map (\<lambda>q. h_queues (snd (close_channel lobby (u ''lobby''))) ! q) [0, 1] = [[ChannelClosed], [ChannelClosed]] \<and>
    h_channels (snd (close_channel lobby (u ''lobby''))) = h_channels lobby"
proof -
  have size: "length (h_queues lobby) = 2" and count: "participant_count lobby (u ''lobby'') = 2"
    and members: "snd ` set (participants_of lobby (u ''lobby'')) = {0, 1}"
    by code_simp+
  show ?thesis
    using close_channel_tells_everyone[OF lobby_ok, of "u ''lobby''"] unfolding size count members
    by simp
qed

end
