(* ===== verification/Chat_Mailbox.thy ===== *)
theory Chat_Mailbox
  imports Bounded_Queue "HOL-Library.Multiset"
begin

text \<open>
  \<^verbatim>\<open>src/netbbs/chat/mailbox.py\<close> and \<^verbatim>\<open>src/netbbs/chat/presence.py\<close>: lines waiting for a session
  that is not in chat, and who is online. Sessions are opaque keys, as in the code.
\<close>

section \<open>Mailbox\<close>

type_synonym 's mailbox = "'s \<rightharpoonup> (ustr \<times> ustr) list"

definition MAX_PENDING :: nat where "MAX_PENDING = 200"

definition mailbox_push :: "(ustr \<times> ustr) list \<Rightarrow> ustr \<times> ustr \<Rightarrow> (ustr \<times> ustr) list" where
  "mailbox_push pending entry =
     (let pending = (if MAX_PENDING \<le> length pending then tl pending else pending) in pending @ [entry])"

text \<open>\<open>defaultdict(list)\<close>: reading a missing key makes it an empty list.\<close>

definition pending_of :: "'s mailbox \<Rightarrow> 's \<Rightarrow> (ustr \<times> ustr) list" where
  "pending_of mb s = (case mb s of None \<Rightarrow> [] | Some l \<Rightarrow> l)"

definition mailbox_deliver :: "'s mailbox \<Rightarrow> 's \<Rightarrow> ustr \<Rightarrow> ustr \<Rightarrow> 's mailbox" where
  "mailbox_deliver mb s body created_at = mb(s \<mapsto> mailbox_push (pending_of mb s) (body, created_at))"

definition mailbox_flush :: "'s mailbox \<Rightarrow> 's \<Rightarrow> (ustr \<times> ustr) list \<times> 's mailbox" where
  "mailbox_flush mb s = (pending_of mb s, mb(s := None))"

definition mailbox_discard :: "'s mailbox \<Rightarrow> 's \<Rightarrow> 's mailbox" where
  "mailbox_discard mb s = mb(s := None)"

interpretation mailbox: drop_oldest mailbox_push "\<lambda>e. e" "\<lambda>e. e" MAX_PENDING
  by unfold_locales (simp_all add: mailbox_push_def MAX_PENDING_def)

fun deliver_all :: "'s mailbox \<Rightarrow> ('s \<times> ustr \<times> ustr) list \<Rightarrow> 's mailbox" where
  "deliver_all mb [] = mb"
| "deliver_all mb ((s, body, at) # ms) = deliver_all (mailbox_deliver mb s body at) ms"

lemma pending_of_deliver:
  "pending_of (mailbox_deliver mb s body at) s' =
    (if s' = s then mailbox_push (pending_of mb s) (body, at) else pending_of mb s')"
  by (simp add: pending_of_def mailbox_deliver_def)

lemma mailbox_push_newest: "length q \<le> MAX_PENDING \<Longrightarrow> mailbox_push q e = newest MAX_PENDING (q @ [e])"
  by (cases q) (auto simp: mailbox_push_def newest_def Let_def Suc_diff_le MAX_PENDING_def)

lemma pending_deliver_all:
  "length (pending_of mb s) \<le> MAX_PENDING \<Longrightarrow>
    pending_of (deliver_all mb ms) s =
      newest MAX_PENDING (pending_of mb s @ map snd (filter (\<lambda>m. fst m = s) ms))"
proof (induction mb ms rule: deliver_all.induct)
  case (2 mb s' body at ms)
  show ?case
  proof (cases "s' = s")
    case True
    have l: "length (pending_of (mailbox_deliver mb s' body at) s) \<le> MAX_PENDING"
      using mailbox.push_bounded[OF "2.prems"] True by (simp add: pending_of_deliver)
    show ?thesis
      using "2.IH"[OF l] "2.prems" True
      by (simp add: pending_of_deliver mailbox_push_newest newest_newest)
  next
    case False
    then show ?thesis using 2 by (simp add: pending_of_deliver)
  qed
qed (simp add: newest_id)

section \<open>Presence\<close>

record 's presence =
  pr_counts :: "ustr \<rightharpoonup> int"
  pr_away :: "ustr \<rightharpoonup> ustr"
  pr_doors :: "'s \<rightharpoonup> int \<times> ustr \<times> ustr"

definition new_presence :: "'s presence" where
  "new_presence = \<lparr>pr_counts = Map.empty, pr_away = Map.empty, pr_doors = Map.empty\<rparr>"

definition count_of :: "'s presence \<Rightarrow> ustr \<Rightarrow> int" where
  "count_of p name = (case pr_counts p name of None \<Rightarrow> 0 | Some n \<Rightarrow> n)"

definition presence_enter :: "'s presence \<Rightarrow> ustr \<Rightarrow> 's presence" where
  "presence_enter p name = p\<lparr>pr_counts := (pr_counts p)(name \<mapsto> count_of p name + 1)\<rparr>"

definition presence_leave :: "'s presence \<Rightarrow> ustr \<Rightarrow> 's presence" where
  "presence_leave p name =
     (let remaining = count_of p name - 1
      in if remaining \<le> 0
         then p\<lparr>pr_counts := (pr_counts p)(name := None), pr_away := (pr_away p)(name := None)\<rparr>
         else p\<lparr>pr_counts := (pr_counts p)(name \<mapsto> remaining)\<rparr>)"

definition is_online :: "'s presence \<Rightarrow> ustr \<Rightarrow> bool" where
  "is_online p name \<longleftrightarrow> 0 < count_of p name"

definition online_usernames :: "'s presence \<Rightarrow> ustr set" where
  "online_usernames p = dom (pr_counts p)"

definition enter_door :: "'s presence \<Rightarrow> 's \<Rightarrow> int \<Rightarrow> ustr \<Rightarrow> ustr \<Rightarrow> 's presence" where
  "enter_door p s door_id name created_at = p\<lparr>pr_doors := (pr_doors p)(s \<mapsto> (door_id, name, created_at))\<rparr>"

definition leave_door :: "'s presence \<Rightarrow> 's \<Rightarrow> 's presence" where
  "leave_door p s = p\<lparr>pr_doors := (pr_doors p)(s := None)\<rparr>"

definition door_of :: "'s presence \<Rightarrow> 's \<Rightarrow> (int \<times> ustr \<times> ustr) option" where
  "door_of p s = pr_doors p s"

definition set_away :: "'s presence \<Rightarrow> ustr \<Rightarrow> ustr \<Rightarrow> 's presence" where
  "set_away p name message = p\<lparr>pr_away := (pr_away p)(name \<mapsto> message)\<rparr>"

definition clear_away :: "'s presence \<Rightarrow> ustr \<Rightarrow> 's presence" where
  "clear_away p name = p\<lparr>pr_away := (pr_away p)(name := None)\<rparr>"

definition is_away :: "'s presence \<Rightarrow> ustr \<Rightarrow> bool" where
  "is_away p name \<longleftrightarrow> pr_away p name \<noteq> None"

definition get_away_message :: "'s presence \<Rightarrow> ustr \<Rightarrow> ustr option" where
  "get_away_message p name = pr_away p name"

text \<open>
  The specification: the multiset of account names of the live sessions, and the away messages.
  \<open>leave\<close> for a name that is not online is the truncated subtraction of multisets.
\<close>

definition represents :: "'s presence \<Rightarrow> ustr multiset \<Rightarrow> bool" where
  "represents p M \<longleftrightarrow>
     (\<forall>n. pr_counts p n = (if n \<in># M then Some (int (count M n)) else None))"

datatype presence_event =
  Enter ustr | Leave ustr | SetAway ustr ustr | ClearAway ustr

fun presence_run :: "'s presence \<Rightarrow> presence_event \<Rightarrow> 's presence" where
  "presence_run p (Enter n) = presence_enter p n"
| "presence_run p (Leave n) = presence_leave p n"
| "presence_run p (SetAway n m) = set_away p n m"
| "presence_run p (ClearAway n) = clear_away p n"

fun spec_run :: "ustr multiset \<times> (ustr \<rightharpoonup> ustr) \<Rightarrow> presence_event \<Rightarrow> ustr multiset \<times> (ustr \<rightharpoonup> ustr)" where
  "spec_run (M, A) (Enter n) = (add_mset n M, A)"
| "spec_run (M, A) (Leave n) = (M - {#n#}, if n \<in># M - {#n#} then A else A(n := None))"
| "spec_run (M, A) (SetAway n m) = (M, A(n \<mapsto> m))"
| "spec_run (M, A) (ClearAway n) = (M, A(n := None))"

lemma count_of_represents: "represents p M \<Longrightarrow> count_of p n = int (count M n)"
  by (simp add: count_of_def represents_def not_in_iff)

lemma presence_step:
  assumes "represents p M"
  shows "represents (presence_run p e) (fst (spec_run (M, pr_away p) e)) \<and>
    pr_away (presence_run p e) = snd (spec_run (M, pr_away p) e)"
proof (cases e)
  case (Enter n)
  then show ?thesis
    using assms count_of_represents[OF assms, of n]
    by (auto simp: presence_enter_def represents_def)
next
  case (Leave n)
  show ?thesis
  proof (cases "count M n \<le> 1")
    case True
    then have "n \<notin># M - {#n#}" by (simp add: not_in_iff)
    then show ?thesis
      using True Leave assms count_of_represents[OF assms, of n]
      by (auto simp: presence_leave_def represents_def Let_def in_diff_count)
  next
    case False
    then have "n \<in># M - {#n#}" "n \<in># M"
      by (simp_all add: in_diff_count count_greater_zero_iff[symmetric] del: count_greater_zero_iff)
    then show ?thesis
      using False Leave assms count_of_represents[OF assms, of n]
      by (auto simp: presence_leave_def represents_def Let_def in_diff_count)
  qed
qed (use assms in \<open>simp_all add: set_away_def clear_away_def represents_def\<close>)

lemma presence_runs:
  "represents p M \<Longrightarrow>
    represents (foldl presence_run p es) (fst (foldl spec_run (M, pr_away p) es)) \<and>
    pr_away (foldl presence_run p es) = snd (foldl spec_run (M, pr_away p) es)"
proof (induction es arbitrary: p M)
  case (Cons e es)
  note s = presence_step[OF Cons.prems, of e]
  have eq: "spec_run (M, pr_away p) e = (fst (spec_run (M, pr_away p) e), pr_away (presence_run p e))"
    using s by (simp add: prod_eq_iff)
  show ?case using Cons.IH[of "presence_run p e" "fst (spec_run (M, pr_away p) e)"] s eq by simp
qed simp

section \<open>Properties\<close>

text \<open>
  A session's flush returns the lines delivered to that session, in order, the newest 200 of
  them; lines for other sessions neither appear nor are consumed.
\<close>

theorem mailbox_returns_newest:
  "fst (mailbox_flush (deliver_all Map.empty ms) s) =
    newest 200 (map snd (filter (\<lambda>m. fst m = s) ms)) \<and>
   (\<forall>s'. s' \<noteq> s \<longrightarrow> pending_of (snd (mailbox_flush (deliver_all Map.empty ms) s)) s' =
      pending_of (deliver_all Map.empty ms) s')"
  using pending_deliver_all[of Map.empty s ms]
  by (simp add: mailbox_flush_def pending_of_def MAX_PENDING_def)

text \<open>Both sessions of a concrete mailbox.\<close>

theorem mailbox_returns_newest_witness:
  "let m = deliver_all Map.empty [(1::nat, u ''a'', u ''t''), (2, u ''b'', u ''t'')]
   in fst (mailbox_flush m 1) = newest 200 [(u ''a'', u ''t'')] \<and>
      pending_of (snd (mailbox_flush m 1)) 2 = pending_of m 2"
  using mailbox_returns_newest[of "[(1::nat, u ''a'', u ''t''), (2, u ''b'', u ''t'')]" 1]
  by (simp add: Let_def)

text \<open>
  C31: The presence registry implements the multiset of live sessions: after any sequence of logins,
  disconnects and away changes an account is online exactly while one of its sessions is, and its
  away message survives until its last session ends.
\<close>

theorem presence_refines_sessions:
  "let p = foldl presence_run (new_presence :: 's presence) es; spec = foldl spec_run ({#}, Map.empty) es
   in (\<forall>n. is_online p n \<longleftrightarrow> n \<in># fst spec) \<and> online_usernames p = set_mset (fst spec) \<and>
      (\<forall>n. get_away_message p n = snd spec n)"
proof -
  let ?p = "foldl presence_run (new_presence :: 's presence) es"
  let ?spec = "foldl spec_run ({#}, Map.empty) es"
  have "represents (new_presence :: 's presence) {#}" by (simp add: represents_def new_presence_def)
  from presence_runs[OF this, of es]
  have r: "represents ?p (fst ?spec)" and a: "pr_away ?p = snd ?spec"
    by (simp_all add: new_presence_def)
  show ?thesis
    using count_of_represents[OF r] r a
    by (auto simp: is_online_def online_usernames_def get_away_message_def represents_def Let_def split: if_splits)
qed

end
