(* ===== verification/Direct_Invites.thy ===== *)
theory Direct_Invites
  imports NB_Prelude
begin

text \<open>
  \<^verbatim>\<open>src/netbbs/chat/direct_invites.py\<close>: at most one pending chat invitation per session, each with a
  future that is resolved exactly once: by the target's answer, by the inviter's cancellation, or by
  its timer.

  Invitations are shared objects: they live in a heap and the table holds their index. A future is
  its result, \<open>None\<close> while it has none; \<open>set_result\<close> on a resolved future raises, which is the
  \<open>None\<close> of an operation here. Sessions are keys; whether a session can be weakly referenced is
  the parameter \<open>weak\<close>.
\<close>

record 'i invite =
  inv_inviter :: 'i
  inv_outcome :: "ustr option"
  inv_room :: ustr

record ('s, 'i) invites =
  dc_heap :: "'i invite list"
  dc_pending :: "'s \<rightharpoonup> nat"
  dc_arrival :: "'s \<rightharpoonup> bool"
  dc_arrival_nonweak :: "'s \<rightharpoonup> bool"
  dc_watching :: "'s set"

definition new_invites :: "('s, 'i) invites" where
  "new_invites = \<lparr>dc_heap = [], dc_pending = Map.empty, dc_arrival = Map.empty,
                  dc_arrival_nonweak = Map.empty, dc_watching = {}\<rparr>"

section \<open>Arrival events\<close>

definition arrival_store :: "('s \<Rightarrow> bool) \<Rightarrow> ('s, 'i) invites \<Rightarrow> 's \<Rightarrow> ('s \<rightharpoonup> bool)" where
  "arrival_store weak d s = (if weak s then dc_arrival d else dc_arrival_nonweak d)"

definition store_arrival :: "('s \<Rightarrow> bool) \<Rightarrow> ('s, 'i) invites \<Rightarrow> 's \<Rightarrow> bool \<Rightarrow> ('s, 'i) invites" where
  "store_arrival weak d s b =
     (if weak s then d\<lparr>dc_arrival := (dc_arrival d)(s \<mapsto> b)\<rparr>
      else d\<lparr>dc_arrival_nonweak := (dc_arrival_nonweak d)(s \<mapsto> b)\<rparr>)"

text \<open>Returns whether the event is set, creating it unset.\<close>

definition arrival_event :: "('s \<Rightarrow> bool) \<Rightarrow> ('s, 'i) invites \<Rightarrow> 's \<Rightarrow> bool \<times> ('s, 'i) invites" where
  "arrival_event weak d s =
     (case arrival_store weak d s s of
        Some b \<Rightarrow> (b, d)
      | None \<Rightarrow> (False, store_arrival weak d s False))"

definition clear_arrival :: "('s \<Rightarrow> bool) \<Rightarrow> ('s, 'i) invites \<Rightarrow> 's \<Rightarrow> ('s, 'i) invites" where
  "clear_arrival weak d s =
     (case arrival_store weak d s s of Some b \<Rightarrow> store_arrival weak d s False | None \<Rightarrow> d)"

text \<open>\<open>wait_for_arrival\<close> in its two halves, around the wait.\<close>

definition watch_begin :: "('s \<Rightarrow> bool) \<Rightarrow> ('s, 'i) invites \<Rightarrow> 's \<Rightarrow> ('s, 'i) invites" where
  "watch_begin weak d s = snd (arrival_event weak (d\<lparr>dc_watching := insert s (dc_watching d)\<rparr>) s)"

definition watch_end :: "('s, 'i) invites \<Rightarrow> 's \<Rightarrow> ('s, 'i) invites" where
  "watch_end d s = d\<lparr>dc_watching := dc_watching d - {s}\<rparr>"

definition is_watching :: "('s, 'i) invites \<Rightarrow> 's \<Rightarrow> bool" where
  "is_watching d s \<longleftrightarrow> s \<in> dc_watching d"

section \<open>Invitations\<close>

text \<open>\<open>token\<close> is what \<open>secrets.token_hex(8)\<close> returned.\<close>

definition send_invite ::
  "('s \<Rightarrow> bool) \<Rightarrow> ('s, 'i) invites \<Rightarrow> 'i \<Rightarrow> 's \<Rightarrow> ustr \<Rightarrow> nat option \<times> ('s, 'i) invites" where
  "send_invite weak d inviter target token =
     (case dc_pending d target of
        Some _ \<Rightarrow> (None, d)
      | None \<Rightarrow>
          let i = length (dc_heap d);
              invite = \<lparr>inv_inviter = inviter, inv_outcome = None, inv_room = token\<rparr>;
              d = d\<lparr>dc_heap := dc_heap d @ [invite], dc_pending := (dc_pending d)(target \<mapsto> i)\<rparr>;
              (_, d) = arrival_event weak d target
          in (Some i, store_arrival weak d target True))"

definition set_result :: "('s, 'i) invites \<Rightarrow> nat \<Rightarrow> ustr \<Rightarrow> ('s, 'i) invites option" where
  "set_result d i r = do {
     invite \<leftarrow> py_get (dc_heap d) i;
     if inv_outcome invite = None
     then Some (d\<lparr>dc_heap := (dc_heap d)[i := invite\<lparr>inv_outcome := Some r\<rparr>]\<rparr>) else None
   }"

definition resolve :: "('s, 'i) invites \<Rightarrow> 's \<Rightarrow> nat \<Rightarrow> ustr \<Rightarrow> ('s, 'i) invites option" where
  "resolve d s i r = set_result (d\<lparr>dc_pending := (dc_pending d)(s := None)\<rparr>) i r"

text \<open>The timer \<open>send\<close> starts for invitation \<open>i\<close> to \<open>target\<close>, when it fires.\<close>

definition expire :: "('s, 'i) invites \<Rightarrow> 's \<Rightarrow> nat \<Rightarrow> ('s, 'i) invites option" where
  "expire d target i =
     (if dc_pending d target = Some i then resolve d target i (u ''timed_out'') else Some d)"

definition pending_for :: "('s, 'i) invites \<Rightarrow> 's \<Rightarrow> nat option" where
  "pending_for d s = dc_pending d s"

definition respond :: "('s, 'i) invites \<Rightarrow> 's \<Rightarrow> bool \<Rightarrow> (bool \<times> ('s, 'i) invites) option" where
  "respond d s accepted =
     (case dc_pending d s of
        None \<Rightarrow> Some (False, d)
      | Some i \<Rightarrow> map_option (Pair True) (resolve d s i (if accepted then u ''accepted'' else u ''declined'')))"

definition cancel :: "('s, 'i) invites \<Rightarrow> 's \<Rightarrow> ('s, 'i) invites option" where
  "cancel d s = (case dc_pending d s of None \<Rightarrow> Some d | Some i \<Rightarrow> resolve d s i (u ''cancelled''))"

section \<open>Reachable states\<close>

text \<open>A timer may fire for any invitation ever sent; the ones fired after a resolution are the stale
  ones the ownership check is for.\<close>

inductive dc_step :: "('s \<Rightarrow> bool) \<Rightarrow> ('s, 'i) invites \<Rightarrow> ('s, 'i) invites option \<Rightarrow> bool"
  for weak where
  send: "dc_step weak d (Some (snd (send_invite weak d inviter target token)))"
| respond: "dc_step weak d (map_option snd (respond d s accepted))"
| cancel: "dc_step weak d (cancel d s)"
| timer: "i < length (dc_heap d) \<Longrightarrow> dc_step weak d (expire d target i)"
| clear: "dc_step weak d (Some (clear_arrival weak d s))"
| watch: "dc_step weak d (Some (watch_begin weak d s))"
| unwatch: "dc_step weak d (Some (watch_end d s))"
| arrival: "dc_step weak d (Some (snd (arrival_event weak d s)))"

inductive_cases dc_stepE: "dc_step weak d r"

inductive dc_reach :: "('s \<Rightarrow> bool) \<Rightarrow> ('s, 'i) invites \<Rightarrow> bool" for weak where
  start: "dc_reach weak new_invites"
| step: "dc_reach weak d \<Longrightarrow> dc_step weak d (Some d') \<Longrightarrow> dc_reach weak d'"

text \<open>The table holds exactly the unresolved invitations, each for one session.\<close>

definition dc_ok :: "('s, 'i) invites \<Rightarrow> bool" where
  "dc_ok d \<longleftrightarrow>
     (\<forall>s i. dc_pending d s = Some i \<longrightarrow> i < length (dc_heap d)) \<and>
     (\<forall>s t i. dc_pending d s = Some i \<longrightarrow> dc_pending d t = Some i \<longrightarrow> s = t) \<and>
     (\<forall>i<length (dc_heap d). inv_outcome (dc_heap d ! i) = None \<longleftrightarrow> (\<exists>s. dc_pending d s = Some i))"

lemma store_arrival_frame [simp]:
  "dc_heap (store_arrival weak d s b) = dc_heap d"
  "dc_pending (store_arrival weak d s b) = dc_pending d"
  by (simp_all add: store_arrival_def)

lemma arrival_event_frame [simp]:
  "dc_heap (snd (arrival_event weak d s)) = dc_heap d"
  "dc_pending (snd (arrival_event weak d s)) = dc_pending d"
  by (simp_all add: arrival_event_def split: option.splits)

lemma clear_arrival_frame [simp]:
  "dc_heap (clear_arrival weak d s) = dc_heap d"
  "dc_pending (clear_arrival weak d s) = dc_pending d"
  by (simp_all add: clear_arrival_def split: option.splits)

lemma watch_frame [simp]:
  "dc_heap (watch_begin weak d s) = dc_heap d" "dc_pending (watch_begin weak d s) = dc_pending d"
  "dc_heap (watch_end d s) = dc_heap d" "dc_pending (watch_end d s) = dc_pending d"
  by (simp_all add: watch_begin_def watch_end_def)

lemma dc_ok_frame: "dc_heap d' = dc_heap d \<Longrightarrow> dc_pending d' = dc_pending d \<Longrightarrow> dc_ok d \<Longrightarrow> dc_ok d'"
  by (simp add: dc_ok_def)

lemma send_invite_frame:
  assumes "dc_pending d target = None"
  shows "dc_heap (snd (send_invite weak d inviter target token)) =
      dc_heap d @ [\<lparr>inv_inviter = inviter, inv_outcome = None, inv_room = token\<rparr>]"
    "dc_pending (snd (send_invite weak d inviter target token)) = (dc_pending d)(target \<mapsto> length (dc_heap d))"
  using assms by (simp_all add: send_invite_def Let_def case_prod_beta)

lemma send_invite_ok:
  assumes "dc_ok d"
  shows "dc_ok (snd (send_invite weak d inviter target token))"
proof (cases "dc_pending d target")
  case (Some i)
  then show ?thesis using assms by (simp add: send_invite_def)
next
  case None
  note f = send_invite_frame[OF None, of weak inviter token]
  have lt: "dc_pending d s = Some i \<Longrightarrow> i < length (dc_heap d)" for s i
    using assms by (simp add: dc_ok_def)
  show ?thesis
    unfolding dc_ok_def f
  proof (intro conjI allI impI)
    fix i assume i: "i < length (dc_heap d @ [\<lparr>inv_inviter = inviter, inv_outcome = None, inv_room = token\<rparr>])"
    show "inv_outcome ((dc_heap d @ [\<lparr>inv_inviter = inviter, inv_outcome = None, inv_room = token\<rparr>]) ! i) = None
      \<longleftrightarrow> (\<exists>s. ((dc_pending d)(target \<mapsto> length (dc_heap d))) s = Some i)"
    proof (cases "i = length (dc_heap d)")
      case True
      then show ?thesis by auto
    next
      case False
      then have "i < length (dc_heap d)" using i by simp
      then show ?thesis
        using assms None False unfolding dc_ok_def by (auto simp: nth_append) (metis option.discI)
    qed
  qed (use assms lt in \<open>auto simp: dc_ok_def less_Suc_eq split: if_splits\<close>)
qed

lemma resolve_ok:
  assumes "dc_ok d" "dc_pending d s = Some i"
  shows "yields (resolve d s i r) (\<lambda>d'. dc_ok d' \<and> dc_pending d' s = None \<and>
    inv_outcome (dc_heap d' ! i) = Some r)"
proof -
  have i: "i < length (dc_heap d)" and o: "inv_outcome (dc_heap d ! i) = None"
    and uniq: "dc_pending d t = Some i \<Longrightarrow> t = s" for t
    using assms by (auto simp: dc_ok_def)
  let ?d = "d\<lparr>dc_pending := (dc_pending d)(s := None),
    dc_heap := (dc_heap d)[i := (dc_heap d ! i)\<lparr>inv_outcome := Some r\<rparr>]\<rparr>"
  have "dc_ok ?d"
    unfolding dc_ok_def
  proof (intro conjI allI impI)
    fix j assume j: "j < length (dc_heap ?d)"
    show "inv_outcome (dc_heap ?d ! j) = None \<longleftrightarrow> (\<exists>t. dc_pending ?d t = Some j)"
    proof (cases "j = i")
      case True
      then show ?thesis using i uniq by auto
    next
      case False
      then have "inv_outcome (dc_heap d ! j) = None \<longleftrightarrow> (\<exists>t. dc_pending d t = Some j)"
        using assms(1) j by (simp add: dc_ok_def)
      moreover have "dc_pending d t = Some j \<Longrightarrow> t \<noteq> s" for t using False assms(2) by auto
      ultimately show ?thesis using False by (auto simp: fun_upd_apply)
    qed
  qed (use assms(1) in \<open>auto simp: dc_ok_def split: if_splits\<close>)
  then show ?thesis using i o by (simp add: resolve_def set_result_def)
qed

lemma dc_step_ok:
  assumes "dc_step weak d r" "dc_ok d"
  shows "yields r dc_ok"
  using assms(1)
proof (cases rule: dc_step.cases)
  case (respond s accepted)
  then show ?thesis
    using assms(2) resolve_ok[OF assms(2), of s]
    by (cases "dc_pending d s") (auto simp: respond_def intro: yields_mono)
next
  case (cancel s)
  then show ?thesis
    using assms(2) resolve_ok[OF assms(2), of s]
    by (cases "dc_pending d s") (auto simp: cancel_def intro: yields_mono)
next
  case (timer i target)
  then show ?thesis
    using assms(2) resolve_ok[OF assms(2), of target i] by (auto simp: expire_def intro: yields_mono)
qed (use assms(2) dc_ok_frame[of _ d] in \<open>simp_all add: send_invite_ok\<close>)

lemma dc_reach_ok: "dc_reach weak d \<Longrightarrow> dc_ok d"
proof (induction rule: dc_reach.induct)
  case start
  then show ?case by (simp add: dc_ok_def new_invites_def)
next
  case (step d d')
  then show ?case using dc_step_ok[of weak d "Some d'"] by simp
qed

lemma resolve_keeps:
  "resolve d s i r = Some d' \<Longrightarrow> j < length (dc_heap d) \<Longrightarrow> inv_outcome (dc_heap d ! j) = Some x \<Longrightarrow>
    inv_outcome (dc_heap d' ! j) = Some x"
  by (cases "i = j") (auto simp: resolve_def set_result_def py_get_def split: if_splits)

lemma dc_step_keeps:
  assumes "dc_step weak d (Some d')" "j < length (dc_heap d)" "inv_outcome (dc_heap d ! j) = Some x"
  shows "inv_outcome (dc_heap d' ! j) = Some x"
  using assms(1)
proof (cases rule: dc_step.cases)
  case (send inviter target token)
  then show ?thesis
    using assms(2,3) send_invite_frame(1)[of d target weak inviter token]
    by (cases "dc_pending d target") (auto simp: send_invite_def nth_append)
next
  case (respond s accepted)
  from respond(1)[symmetric] show ?thesis
    using assms(2,3) resolve_keeps[of d s]
    by (cases "dc_pending d s") (auto simp: respond_def map_option_case split: option.splits)
next
  case (cancel s)
  then show ?thesis
    using assms(2,3) resolve_keeps[of d s] by (auto simp: cancel_def split: option.splits)
next
  case (timer i target)
  then show ?thesis
    using assms(2,3) resolve_keeps[of d target i] by (auto simp: expire_def split: if_splits)
qed (use assms(2,3) in simp_all)

section \<open>Properties\<close>

text \<open>
  C29: Every invitation is resolved exactly once. In any reachable state no operation and no timer,
  stale ones included, raises on an already resolved future; an invitation is unresolved exactly
  while some session has it pending, and then only one session has; a result once set never changes.
\<close>

theorem invites_resolved_once:
  assumes "dc_reach weak d" and "dc_step weak d r"
  shows "\<exists>d'. r = Some d' \<and>
    (\<forall>i<length (dc_heap d'). inv_outcome (dc_heap d' ! i) = None \<longleftrightarrow> (\<exists>!s. dc_pending d' s = Some i)) \<and>
    (\<forall>i x. i < length (dc_heap d) \<longrightarrow> inv_outcome (dc_heap d ! i) = Some x \<longrightarrow>
       inv_outcome (dc_heap d' ! i) = Some x)"
proof -
  obtain d' where d': "r = Some d'" "dc_ok d'"
    using dc_step_ok[OF assms(2) dc_reach_ok[OF assms(1)]] by (auto simp: yields_ex)
  have "(\<exists>s. dc_pending d' s = Some i) \<longleftrightarrow> (\<exists>!s. dc_pending d' s = Some i)" for i
    using d'(2) unfolding dc_ok_def by blast
  then have "inv_outcome (dc_heap d' ! i) = None \<longleftrightarrow> (\<exists>!s. dc_pending d' s = Some i)"
    if "i < length (dc_heap d')" for i
    using d'(2) that by (simp add: dc_ok_def)
  then show ?thesis using d'(1) dc_step_keeps[of weak d d'] assms(2) by auto
qed

text \<open>
  An invitation to session 7, answered; its timer still fires afterwards.
\<close>

definition invited :: "(nat, nat) invites" where
  "invited = snd (send_invite (\<lambda>_. True) new_invites 1 7 (u ''ab''))"

theorem invites_resolved_once_witness:
  "\<exists>d'. expire invited 7 0 = Some d' \<and>
    (\<forall>i<length (dc_heap d'). inv_outcome (dc_heap d' ! i) = None \<longleftrightarrow> (\<exists>!s. dc_pending d' s = Some i)) \<and>
    (\<forall>i x. i < length (dc_heap invited) \<longrightarrow> inv_outcome (dc_heap invited ! i) = Some x \<longrightarrow>
       inv_outcome (dc_heap d' ! i) = Some x)"
proof (rule invites_resolved_once)
  show "dc_reach (\<lambda>_. True) invited"
    unfolding invited_def by (rule dc_reach.step[OF dc_reach.start dc_step.send])
  show "dc_step (\<lambda>_. True) invited (expire invited 7 0)"
    by (rule dc_step.timer) (simp add: invited_def send_invite_def new_invites_def case_prod_beta Let_def)
qed

text \<open>
  An answer counts only while the invitation is live: \<open>respond\<close> returns \<open>True\<close> exactly when one
  is pending for that session, and then that invitation's outcome is the answer given and the
  session is free for the next one; otherwise nothing changes.
\<close>

theorem respond_resolves_pending:
  assumes "dc_reach weak d"
  shows "yields (respond d s accepted) (\<lambda>(live, d').
    (live \<longleftrightarrow> dc_pending d s \<noteq> None) \<and> dc_pending d' s = None \<and>
    (case dc_pending d s of
       None \<Rightarrow> d' = d
     | Some i \<Rightarrow> inv_outcome (dc_heap d' ! i) = Some (if accepted then u ''accepted'' else u ''declined'')))"
  using resolve_ok[OF dc_reach_ok[OF assms], of s]
  by (cases "dc_pending d s") (auto simp: respond_def intro: yields_mono)

theorem respond_resolves_pending_witness:
  "yields (respond invited 7 True) (\<lambda>(live, d').
    (live \<longleftrightarrow> dc_pending invited 7 \<noteq> None) \<and> dc_pending d' 7 = None \<and>
    (case dc_pending invited 7 of
       None \<Rightarrow> d' = invited
     | Some i \<Rightarrow> inv_outcome (dc_heap d' ! i) = Some (if True then u ''accepted'' else u ''declined'')))"
  by (rule respond_resolves_pending[where weak = "\<lambda>_. True"])
    (unfold invited_def, rule dc_reach.step[OF dc_reach.start dc_step.send])

end
