(* ===== verification/Throttle.thy ===== *)
theory Throttle
  imports NB_Prelude Complex_Main
begin

text \<open>
  \<^verbatim>\<open>src/netbbs/net/throttle.py\<close>: token buckets, the LRU-bounded table of buckets per key, and the
  two node-wide throttles built from them.

  The clock is a parameter: \<open>clk i\<close> is its i-th reading, and every call that reads it advances the
  count of readings, so two readings inside one call may differ. Amounts and times are rationals
  where Python has binary floats.
\<close>

type_synonym clock = "nat \<Rightarrow> rat"

section \<open>One bucket\<close>

record bucket =
  b_capacity :: rat
  b_rate :: rat
  b_tokens :: rat
  b_last :: rat

definition new_bucket :: "clock \<Rightarrow> nat \<Rightarrow> rat \<Rightarrow> rat \<Rightarrow> bucket \<times> nat" where
  "new_bucket clk n capacity rate =
     (\<lparr>b_capacity = capacity, b_rate = rate, b_tokens = capacity, b_last = clk n\<rparr>, n + 1)"

definition refill :: "clock \<Rightarrow> nat \<Rightarrow> bucket \<Rightarrow> bucket \<times> nat" where
  "refill clk n b =
     (let now = clk n;
          elapsed = max 0 (now - b_last b)
      in (b\<lparr>b_tokens := min (b_capacity b) (b_tokens b + elapsed * b_rate b), b_last := now\<rparr>, n + 1))"

definition has_tokens :: "clock \<Rightarrow> nat \<Rightarrow> bucket \<Rightarrow> rat \<Rightarrow> bool \<times> bucket \<times> nat" where
  "has_tokens clk n b count = (case refill clk n b of (b, n) \<Rightarrow> (count \<le> b_tokens b, b, n))"

definition has_token :: "clock \<Rightarrow> nat \<Rightarrow> bucket \<Rightarrow> bool \<times> bucket \<times> nat" where
  "has_token clk n b = (case refill clk n b of (b, n) \<Rightarrow> (1 \<le> b_tokens b, b, n))"

definition consume :: "bucket \<Rightarrow> bucket" where
  "consume b = b\<lparr>b_tokens := b_tokens b - 1\<rparr>"

section \<open>Buckets by key\<close>

text \<open>The \<open>OrderedDict\<close> is an association list, least recently used first.\<close>

record keyed =
  k_capacity :: rat
  k_rate :: rat
  k_max :: nat
  k_buckets :: "(ustr \<times> bucket) list"

definition new_keyed :: "rat \<Rightarrow> rat \<Rightarrow> nat \<Rightarrow> keyed" where
  "new_keyed capacity rate max_keys =
     \<lparr>k_capacity = capacity, k_rate = rate, k_max = max_keys, k_buckets = []\<rparr>"

definition without :: "'k \<Rightarrow> ('k \<times> 'v) list \<Rightarrow> ('k \<times> 'v) list" where
  "without k xs = filter (\<lambda>x. fst x \<noteq> k) xs"

definition bucket_for :: "clock \<Rightarrow> nat \<Rightarrow> keyed \<Rightarrow> ustr \<Rightarrow> bucket \<times> keyed \<times> nat" where
  "bucket_for clk n kb key =
     (let (b, n) = (case map_of (k_buckets kb) key of
                      None \<Rightarrow> new_bucket clk n (k_capacity kb) (k_rate kb)
                    | Some b \<Rightarrow> (b, n));
          buckets = without key (k_buckets kb) @ [(key, b)]
      in (b, kb\<lparr>k_buckets := drop (length buckets - k_max kb) buckets\<rparr>, n))"

text \<open>Mutating the bucket object shows in the table as long as the table still holds it.\<close>

definition store_bucket :: "keyed \<Rightarrow> ustr \<Rightarrow> bucket \<Rightarrow> keyed" where
  "store_bucket kb key b =
     kb\<lparr>k_buckets := map (\<lambda>(k, v). (k, if k = key then b else v)) (k_buckets kb)\<rparr>"

definition peek :: "clock \<Rightarrow> nat \<Rightarrow> keyed \<Rightarrow> ustr \<Rightarrow> bool \<times> keyed \<times> nat" where
  "peek clk n kb key =
     (case bucket_for clk n kb key of (b, kb, n) \<Rightarrow>
      case has_token clk n b of (ok, b, n) \<Rightarrow> (ok, store_bucket kb key b, n))"

definition consume_key :: "clock \<Rightarrow> nat \<Rightarrow> keyed \<Rightarrow> ustr \<Rightarrow> keyed \<times> nat" where
  "consume_key clk n kb key =
     (case bucket_for clk n kb key of (b, kb, n) \<Rightarrow> (store_bucket kb key (consume b), n))"

section \<open>The two throttles\<close>

record login_throttle =
  t_source :: keyed
  t_username :: keyed
  t_global :: bucket
  t_max_unauth :: int
  t_unauth :: int

definition new_login_throttle ::
  "clock \<Rightarrow> nat \<Rightarrow> rat \<Rightarrow> rat \<Rightarrow> rat \<Rightarrow> rat \<Rightarrow> rat \<Rightarrow> rat \<Rightarrow> nat \<Rightarrow> int \<Rightarrow> login_throttle \<times> nat" where
  "new_login_throttle clk n src_cap src_pm usr_cap usr_pm g_cap g_pm max_keys max_unauth =
     (case new_bucket clk n g_cap (g_pm / 60) of (g, n) \<Rightarrow>
        (\<lparr>t_source = new_keyed src_cap (src_pm / 60) max_keys,
          t_username = new_keyed usr_cap (usr_pm / 60) max_keys,
          t_global = g, t_max_unauth = max_unauth, t_unauth = 0\<rparr>, n))"

text \<open>\<open>source or "unknown"\<close>: \<open>None\<close> and the empty string are both replaced.\<close>

definition source_key :: "ustr option \<Rightarrow> ustr" where
  "source_key src = (case src of None \<Rightarrow> u ''unknown'' | Some s \<Rightarrow> if s = [] then u ''unknown'' else s)"

text \<open>\<open>canon\<close> is \<open>str.strip\<close> followed by \<open>str.lower\<close>, Python's Unicode tables being a parameter.\<close>

definition username_key :: "(ustr \<Rightarrow> ustr) \<Rightarrow> ustr \<Rightarrow> ustr" where
  "username_key canon username = (if canon username = [] then u ''unknown'' else canon username)"

definition allow_attempt ::
  "(ustr \<Rightarrow> ustr) \<Rightarrow> clock \<Rightarrow> nat \<Rightarrow> login_throttle \<Rightarrow> ustr option \<Rightarrow> ustr \<Rightarrow> bool \<times> login_throttle \<times> nat" where
  "allow_attempt canon clk n T src username =
     (let sk = source_key src; uk = username_key canon username in
      case peek clk n (t_source T) sk of (ok1, ks, n) \<Rightarrow>
      let T = T\<lparr>t_source := ks\<rparr> in
      if \<not> ok1 then (False, T, n) else
      case peek clk n (t_username T) uk of (ok2, ku, n) \<Rightarrow>
      let T = T\<lparr>t_username := ku\<rparr> in
      if \<not> ok2 then (False, T, n) else
      case has_token clk n (t_global T) of (ok3, g, n) \<Rightarrow>
      let T = T\<lparr>t_global := g\<rparr> in
      if \<not> ok3 then (False, T, n) else
      case consume_key clk n (t_source T) sk of (ks, n) \<Rightarrow>
      case consume_key clk n (t_username T) uk of (ku, n) \<Rightarrow>
        (True, T\<lparr>t_source := ks, t_username := ku, t_global := consume (t_global T)\<rparr>, n))"

definition try_enter_unauthenticated :: "login_throttle \<Rightarrow> bool \<times> login_throttle" where
  "try_enter_unauthenticated T =
     (if t_max_unauth T \<le> t_unauth T then (False, T)
      else (True, T\<lparr>t_unauth := t_unauth T + 1\<rparr>))"

definition leave_unauthenticated :: "login_throttle \<Rightarrow> login_throttle" where
  "leave_unauthenticated T = T\<lparr>t_unauth := t_unauth T - 1\<rparr>"

text \<open>\<open>LinkRequestThrottle\<close> is one keyed table.\<close>

definition new_link_throttle :: "rat \<Rightarrow> rat \<Rightarrow> nat \<Rightarrow> keyed" where
  "new_link_throttle capacity per_minute max_sources = new_keyed capacity (per_minute / 60) max_sources"

definition link_allow :: "clock \<Rightarrow> nat \<Rightarrow> keyed \<Rightarrow> ustr option \<Rightarrow> bool \<times> keyed \<times> nat" where
  "link_allow clk n kb src =
     (let key = source_key src in
      case peek clk n kb key of (ok, kb, n) \<Rightarrow>
      if \<not> ok then (False, kb, n)
      else case consume_key clk n kb key of (kb, n) \<Rightarrow> (True, kb, n))"

section \<open>The table stays within its bound\<close>

definition keyed_wf :: "keyed \<Rightarrow> bool" where
  "keyed_wf kb \<longleftrightarrow> distinct (map fst (k_buckets kb)) \<and> length (k_buckets kb) \<le> k_max kb"

lemma new_keyed_wf [simp]: "keyed_wf (new_keyed c r m)"
  by (simp add: keyed_wf_def new_keyed_def)

lemma store_bucket_simps [simp]:
  "k_max (store_bucket kb key b) = k_max kb"
  "k_capacity (store_bucket kb key b) = k_capacity kb"
  "k_rate (store_bucket kb key b) = k_rate kb"
  "map fst (k_buckets (store_bucket kb key b)) = map fst (k_buckets kb)"
  "length (k_buckets (store_bucket kb key b)) = length (k_buckets kb)"
  by (auto simp: store_bucket_def)

lemma store_bucket_wf [simp]: "keyed_wf (store_bucket kb key b) \<longleftrightarrow> keyed_wf kb"
  by (simp add: keyed_wf_def del: map_map)

lemma map_of_store_bucket:
  "map_of (k_buckets (store_bucket kb key b)) k =
     (if k = key \<and> map_of (k_buckets kb) k \<noteq> None then Some b else map_of (k_buckets kb) k)"
proof -
  have "map_of (map (\<lambda>(k, v). (k, if k = key then b else v)) xs) k =
     (if k = key \<and> map_of xs k \<noteq> None then Some b else map_of xs k)" for xs
    by (induction xs) auto
  then show ?thesis by (simp add: store_bucket_def)
qed

lemma without_distinct: "distinct (map fst xs) \<Longrightarrow> distinct (map fst (without k xs))"
  unfolding without_def by (induction xs) auto

lemma without_fst: "fst ` set (without k xs) = fst ` set xs - {k}"
  by (auto simp: without_def)

lemma length_without: "length (without k xs) \<le> length xs"
  by (simp add: without_def)

lemma map_of_without: "map_of (without k xs) k' = (if k' = k then None else map_of xs k')"
  unfolding without_def by (induction xs) auto

lemma bucket_for_params:
  "bucket_for clk n kb key = (b, kb', n') \<Longrightarrow>
    k_max kb' = k_max kb \<and> k_capacity kb' = k_capacity kb \<and> k_rate kb' = k_rate kb"
  by (auto simp: bucket_for_def Let_def split: prod.splits)

lemma bucket_for_wf:
  assumes "bucket_for clk n kb key = (b, kb', n')" "keyed_wf kb"
  shows "keyed_wf kb'"
proof -
  obtain c l where l: "l = without key (k_buckets kb) @ [(key, c)]"
    and kb': "kb' = kb\<lparr>k_buckets := drop (length l - k_max kb) l\<rparr>"
    using assms(1) by (auto simp: bucket_for_def Let_def split: prod.splits)
  have "distinct (map fst l)"
    using assms(2) without_distinct without_fst[of key "k_buckets kb"] by (auto simp: keyed_wf_def l)
  then show ?thesis by (simp add: keyed_wf_def kb' drop_map[symmetric])
qed

lemma peek_wf: "peek clk n kb key = (ok, kb', n') \<Longrightarrow> keyed_wf kb \<Longrightarrow> keyed_wf kb'"
  by (auto simp: peek_def bucket_for_wf split: prod.splits)

lemma consume_key_wf: "consume_key clk n kb key = (kb', n') \<Longrightarrow> keyed_wf kb \<Longrightarrow> keyed_wf kb'"
  by (auto simp: consume_key_def bucket_for_wf split: prod.splits)

definition throttle_wf :: "login_throttle \<Rightarrow> bool" where
  "throttle_wf T \<longleftrightarrow> keyed_wf (t_source T) \<and> keyed_wf (t_username T)"

lemma allow_attempt_wf:
  "allow_attempt canon clk n T src usr = (ok, T', n') \<Longrightarrow> throttle_wf T \<Longrightarrow> throttle_wf T'"
  by (auto simp: allow_attempt_def Let_def throttle_wf_def peek_wf consume_key_wf
      split: prod.splits if_splits)

section \<open>What a rate limiter promises\<close>

text \<open>The number of charged requests a run grants, and the state it ends in.\<close>

fun grants :: "('s \<Rightarrow> 'i \<Rightarrow> bool \<times> 's) \<Rightarrow> ('i \<Rightarrow> bool) \<Rightarrow> 's \<Rightarrow> 'i list \<Rightarrow> nat \<times> 's" where
  "grants step charged s [] = (0, s)"
| "grants step charged s (i # is) =
     (case step s i of (ok, s1) \<Rightarrow>
      case grants step charged s1 is of (k, s2) \<Rightarrow> ((if ok \<and> charged i then 1 else 0) + k, s2))"

text \<open>
  The contract: a potential \<open>level\<close> that only the passing of time raises, at \<open>rate\<close>, and that
  every granted charged request lowers by one.
\<close>

locale limiter =
  fixes step :: "'s \<Rightarrow> 'i \<Rightarrow> bool \<times> 's"
    and inv :: "'s \<Rightarrow> bool"
    and admissible :: "'i \<Rightarrow> bool"
    and charged :: "'i \<Rightarrow> bool"
    and level :: "'s \<Rightarrow> rat"
    and now :: "'s \<Rightarrow> rat"
    and rate :: rat
  assumes inv_step: "inv s \<Longrightarrow> admissible i \<Longrightarrow> step s i = (ok, s') \<Longrightarrow> inv s'"
    and spend: "inv s \<Longrightarrow> admissible i \<Longrightarrow> step s i = (ok, s') \<Longrightarrow>
      level s' + (if ok \<and> charged i then 1 else 0) \<le> level s + rate * (now s' - now s)"
    and level_nonneg: "inv s \<Longrightarrow> 0 \<le> level s"
begin

lemma grants_spend:
  "inv s \<Longrightarrow> \<forall>i\<in>set is. admissible i \<Longrightarrow> grants step charged s is = (k, s') \<Longrightarrow>
    inv s' \<and> level s' + of_nat k \<le> level s + rate * (now s' - now s)"
proof (induction "is" arbitrary: s k)
  case (Cons i "is")
  obtain ok s1 where s1: "step s i = (ok, s1)" by (cases "step s i")
  obtain k2 where k2: "grants step charged s1 is = (k2, s')"
    and k: "k = (if ok \<and> charged i then 1 else 0) + k2"
    using Cons.prems(3) s1 by (auto split: prod.splits)
  have "inv s1" using inv_step[OF Cons.prems(1) _ s1] Cons.prems(2) by simp
  then have "inv s' \<and> level s' + of_nat k2 \<le> level s1 + rate * (now s' - now s1)"
    using Cons.IH[OF _ _ k2] Cons.prems(2) by simp
  moreover have "level s1 + (if ok \<and> charged i then 1 else 0) \<le> level s + rate * (now s1 - now s)"
    using spend[OF Cons.prems(1) _ s1] Cons.prems(2) by simp
  ultimately show ?case
    by (auto simp: k algebra_simps split: if_splits)
qed simp

lemma grants_bound:
  assumes "inv s" "\<forall>i\<in>set is. admissible i" "grants step charged s is = (k, s')"
  shows "of_nat k \<le> level s + rate * (now s' - now s)"
  using grants_spend[OF assms] level_nonneg[of s'] by linarith

end

section \<open>One bucket as a potential\<close>

definition bucket_ok :: "clock \<Rightarrow> rat \<Rightarrow> rat \<Rightarrow> nat \<Rightarrow> bucket \<Rightarrow> bool" where
  "bucket_ok clk cap rate n b \<longleftrightarrow>
     mono clk \<and> 0 \<le> cap \<and> 0 \<le> rate \<and> b_capacity b = cap \<and> b_rate b = rate \<and>
     0 \<le> b_tokens b \<and> b_tokens b \<le> cap \<and> b_last b \<le> clk n"

definition linear_level :: "clock \<Rightarrow> nat \<Rightarrow> bucket \<Rightarrow> rat" where
  "linear_level clk n b = b_tokens b + b_rate b * (clk n - b_last b)"

definition bucket_level :: "clock \<Rightarrow> nat \<Rightarrow> bucket \<Rightarrow> rat" where
  "bucket_level clk n b = min (b_capacity b) (linear_level clk n b)"

lemma bucket_ok_later: "bucket_ok clk cap rate n b \<Longrightarrow> n \<le> m \<Longrightarrow> bucket_ok clk cap rate m b"
  unfolding bucket_ok_def by (meson monoD order_trans)

lemma linear_level_later:
  "bucket_ok clk cap rate n b \<Longrightarrow> linear_level clk m b = linear_level clk n b + rate * (clk m - clk n)"
  by (simp add: linear_level_def bucket_ok_def algebra_simps)

lemma bucket_level_later:
  assumes "bucket_ok clk cap rate n b" "n \<le> m"
  shows "bucket_level clk m b \<le> bucket_level clk n b + rate * (clk m - clk n)"
proof -
  have "clk n \<le> clk m" using assms by (auto simp: bucket_ok_def dest: monoD)
  then have "0 \<le> rate * (clk m - clk n)" using assms(1) by (simp add: bucket_ok_def)
  then show ?thesis
    using linear_level_later[OF assms(1), of m] by (auto simp: bucket_level_def)
qed

lemma bucket_level_nonneg:
  assumes "bucket_ok clk cap rate n b"
  shows "0 \<le> bucket_level clk n b"
proof -
  have "0 \<le> b_rate b * (clk n - b_last b)" using assms by (simp add: bucket_ok_def)
  then show ?thesis using assms by (simp add: bucket_ok_def bucket_level_def linear_level_def)
qed

lemma refill_level:
  assumes "bucket_ok clk cap rate n b" "refill clk n b = (b', m)"
  shows "m = Suc n \<and> bucket_ok clk cap rate n b' \<and> b_tokens b' = bucket_level clk n b \<and> b_last b' = clk n"
  using assms bucket_level_nonneg[OF assms(1)]
  by (auto simp: refill_def Let_def bucket_ok_def bucket_level_def linear_level_def mult.commute)

lemma has_token_level:
  assumes "bucket_ok clk cap rate n b" "has_token clk n b = (ok, b', m)"
  shows "m = Suc n" "bucket_ok clk cap rate m b'" "ok \<longleftrightarrow> 1 \<le> b_tokens b'"
    and "b_tokens b' = bucket_level clk n b"
    and "linear_level clk m b' = bucket_level clk n b + rate * (clk m - clk n)"
proof -
  have r: "refill clk n b = (b', m)" "ok \<longleftrightarrow> 1 \<le> b_tokens b'"
    using assms(2) by (auto simp: has_token_def split: prod.splits)
  note l = refill_level[OF assms(1) r(1)]
  show "m = Suc n" "bucket_ok clk cap rate m b'" "ok \<longleftrightarrow> 1 \<le> b_tokens b'"
    "b_tokens b' = bucket_level clk n b"
    using l r bucket_ok_later[of clk cap rate n b' m] by auto
  show "linear_level clk m b' = bucket_level clk n b + rate * (clk m - clk n)"
    using l by (simp add: linear_level_def bucket_ok_def)
qed

lemma consume_level:
  assumes "bucket_ok clk cap rate n b" "1 \<le> b_tokens b"
  shows "bucket_ok clk cap rate n (consume b)" "bucket_level clk n (consume b) \<le> linear_level clk n b - 1"
  using assms by (auto simp: bucket_ok_def consume_def bucket_level_def linear_level_def)

section \<open>A table of buckets as one potential per key\<close>

definition keyed_ok :: "clock \<Rightarrow> rat \<Rightarrow> rat \<Rightarrow> ustr set \<Rightarrow> nat \<Rightarrow> keyed \<Rightarrow> bool" where
  "keyed_ok clk cap rate K n kb \<longleftrightarrow>
     mono clk \<and> 0 \<le> cap \<and> 0 \<le> rate \<and> k_capacity kb = cap \<and> k_rate kb = rate \<and>
     finite K \<and> card K \<le> k_max kb \<and> keyed_wf kb \<and> fst ` set (k_buckets kb) \<subseteq> K \<and>
     (\<forall>k b. map_of (k_buckets kb) k = Some b \<longrightarrow> bucket_ok clk cap rate n b)"

definition key_level :: "clock \<Rightarrow> nat \<Rightarrow> keyed \<Rightarrow> ustr \<Rightarrow> rat" where
  "key_level clk n kb k =
     (case map_of (k_buckets kb) k of None \<Rightarrow> k_capacity kb | Some b \<Rightarrow> bucket_level clk n b)"

lemma keyed_ok_later: "keyed_ok clk cap rate K n kb \<Longrightarrow> n \<le> m \<Longrightarrow> keyed_ok clk cap rate K m kb"
  unfolding keyed_ok_def using bucket_ok_later[of clk cap rate n _ m] by blast

lemma key_level_later:
  assumes "keyed_ok clk cap rate K n kb" "n \<le> m"
  shows "key_level clk m kb k \<le> key_level clk n kb k + rate * (clk m - clk n)"
proof -
  have "clk n \<le> clk m" using assms monoD[of clk n m] by (simp add: keyed_ok_def)
  then have "0 \<le> rate * (clk m - clk n)" using assms(1) by (simp add: keyed_ok_def)
  then show ?thesis
    using assms bucket_level_later[of clk cap rate n _ m]
    by (auto simp: key_level_def keyed_ok_def split: option.splits)
qed

lemma key_level_nonneg: "keyed_ok clk cap rate K n kb \<Longrightarrow> 0 \<le> key_level clk n kb k"
  using bucket_level_nonneg by (fastforce simp: key_level_def keyed_ok_def split: option.splits)

lemma key_level_le: "keyed_ok clk cap rate K n kb \<Longrightarrow> key_level clk n kb k \<le> cap"
  by (auto simp: key_level_def keyed_ok_def bucket_level_def bucket_ok_def split: option.splits)

text \<open>With room for every key of \<open>K\<close>, no bucket is ever evicted.\<close>

lemma bucket_for_keeps:
  assumes ok: "keyed_ok clk cap rate K n kb" and key: "key \<in> K"
    and r: "bucket_for clk n kb key = (b, kb', m)"
  shows "n \<le> m" "keyed_ok clk cap rate K m kb'" "map_of (k_buckets kb') key = Some b"
    and "k \<noteq> key \<Longrightarrow> map_of (k_buckets kb') k = map_of (k_buckets kb) k"
    and "bucket_ok clk cap rate m b" "bucket_level clk m b \<le> key_level clk n kb key + rate * (clk m - clk n)"
proof -
  obtain l where l: "l = without key (k_buckets kb) @ [(key, b)]"
    and kb': "kb' = kb\<lparr>k_buckets := drop (length l - k_max kb) l\<rparr>"
    using r by (auto simp: bucket_for_def Let_def split: prod.splits)
  have "distinct (map fst l)" and sub: "fst ` set l \<subseteq> K"
    using ok key without_distinct without_fst[of key "k_buckets kb"]
    by (auto simp: keyed_ok_def keyed_wf_def l)
  then have "length l = card (fst ` set l)"
    by (metis distinct_card length_map list.set_map)
  also have "\<dots> \<le> k_max kb"
    using card_mono[OF _ sub] ok by (auto simp: keyed_ok_def)
  finally have kb'_l: "kb' = kb\<lparr>k_buckets := l\<rparr>" by (simp add: kb')
  have b: "n \<le> m \<and> bucket_ok clk cap rate m b \<and>
      bucket_level clk m b \<le> key_level clk n kb key + rate * (clk m - clk n)"
  proof (cases "map_of (k_buckets kb) key")
    case None
    have c: "clk n \<le> clk (Suc n)" "0 \<le> rate" "0 \<le> cap" 
      using ok monoD[of clk n "Suc n"] by (simp_all add: keyed_ok_def)
    then have "0 \<le> rate * (clk (Suc n) - clk n)" by simp
    then show ?thesis
      using None r ok c
      by (auto simp: bucket_for_def new_bucket_def keyed_ok_def bucket_ok_def key_level_def
          bucket_level_def linear_level_def split: prod.splits)
  next
    case (Some b0)
    then show ?thesis
      using r ok by (auto simp: bucket_for_def keyed_ok_def key_level_def)
  qed
  then show "n \<le> m" "bucket_ok clk cap rate m b"
    "bucket_level clk m b \<le> key_level clk n kb key + rate * (clk m - clk n)" by auto
  show m: "map_of (k_buckets kb') key = Some b"
    "k \<noteq> key \<Longrightarrow> map_of (k_buckets kb') k = map_of (k_buckets kb) k" for k
    by (auto simp: kb'_l l map_add_def map_of_without split: option.splits)
  show "keyed_ok clk cap rate K m kb'"
    unfolding keyed_ok_def
  proof (intro conjI allI impI)
    fix k b' assume "map_of (k_buckets kb') k = Some b'"
    then show "bucket_ok clk cap rate m b'"
      using m(1) m(2)[of k] b ok bucket_ok_later[of clk cap rate n _ m]
      by (cases "k = key") (auto simp: keyed_ok_def)
  qed (use ok sub bucket_for_wf[OF r] in \<open>auto simp: keyed_ok_def kb'_l\<close>)
qed

lemma store_bucket_ok:
  assumes "keyed_ok clk cap rate K m kb" "bucket_ok clk cap rate m b"
  shows "keyed_ok clk cap rate K m (store_bucket kb key b)"
proof -
  have "fst ` set (k_buckets (store_bucket kb key b)) = fst ` set (k_buckets kb)"
    by (metis list.set_map store_bucket_simps(4))
  then show ?thesis
    using assms by (auto simp: keyed_ok_def map_of_store_bucket split: if_splits)
qed

lemma peek_level:
  assumes ok: "keyed_ok clk cap rate K n kb" and key: "key \<in> K" and r: "peek clk n kb key = (g, kb', m)"
  shows "n \<le> m" "keyed_ok clk cap rate K m kb'"
    and "key_level clk m kb' k \<le> key_level clk n kb k + rate * (clk m - clk n)"
    and "g \<Longrightarrow> \<exists>b. map_of (k_buckets kb') key = Some b \<and> 1 \<le> b_tokens b \<and>
           linear_level clk m b \<le> key_level clk n kb key + rate * (clk m - clk n)"
proof -
  obtain b0 kb0 n0 b where r0: "bucket_for clk n kb key = (b0, kb0, n0)"
    and h: "has_token clk n0 b0 = (g, b, m)" and kb': "kb' = store_bucket kb0 key b"
    using r by (auto simp: peek_def split: prod.splits)
  note f = bucket_for_keeps[OF ok key r0]
  note hl = has_token_level[OF f(5) h]
  show nm: "n \<le> m" using f(1) hl(1) by simp
  show "keyed_ok clk cap rate K m kb'"
    unfolding kb' using store_bucket_ok keyed_ok_later[OF f(2)] hl by simp
  have at: "map_of (k_buckets kb') key = Some b"
    "k \<noteq> key \<Longrightarrow> map_of (k_buckets kb') k = map_of (k_buckets kb) k" for k
    using f(3,4) by (auto simp: kb' map_of_store_bucket)
  have lin: "linear_level clk m b \<le> key_level clk n kb key + rate * (clk m - clk n)"
    using f(6) hl(5) by (simp add: algebra_simps)
  show "g \<Longrightarrow> \<exists>b. map_of (k_buckets kb') key = Some b \<and> 1 \<le> b_tokens b \<and>
           linear_level clk m b \<le> key_level clk n kb key + rate * (clk m - clk n)"
    using at lin hl(3) by auto
  show "key_level clk m kb' k \<le> key_level clk n kb k + rate * (clk m - clk n)"
  proof (cases "k = key")
    case True
    then show ?thesis using at(1) lin by (simp add: key_level_def bucket_level_def)
  next
    case False
    have "k_capacity kb' = k_capacity kb" using bucket_for_params[OF r0] by (simp add: kb')
    then have "key_level clk m kb' k = key_level clk m kb k"
      using at(2)[OF False] by (simp add: key_level_def split: option.split)
    then show ?thesis using key_level_later[OF ok nm] by simp
  qed
qed

lemma consume_key_level:
  assumes ok: "keyed_ok clk cap rate K n kb" and key: "key \<in> K"
    and b: "map_of (k_buckets kb) key = Some b" "1 \<le> b_tokens b"
    and r: "consume_key clk n kb key = (kb', m)"
  shows "m = n" "keyed_ok clk cap rate K n kb'"
    and "k \<noteq> key \<Longrightarrow> key_level clk n kb' k = key_level clk n kb k"
    and "key_level clk n kb' key \<le> linear_level clk n b - 1"
proof -
  obtain kb0 where r0: "bucket_for clk n kb key = (b, kb0, n)" and m: "m = n"
    and kb': "kb' = store_bucket kb0 key (consume b)"
    using r b(1) by (auto simp: consume_key_def bucket_for_def Let_def)
  note f = bucket_for_keeps[OF ok key r0]
  note c = consume_level[OF f(5) b(2)]
  show "m = n" by (rule m)
  show "keyed_ok clk cap rate K n kb'" unfolding kb' by (rule store_bucket_ok[OF f(2) c(1)])
  show "key_level clk n kb' key \<le> linear_level clk n b - 1"
    using f(3) c(2) by (simp add: key_level_def kb' map_of_store_bucket)
  show "key_level clk n kb' k = key_level clk n kb k" if "k \<noteq> key"
    using f(4)[OF that] that bucket_for_params[OF r0]
    by (simp add: key_level_def kb' map_of_store_bucket split: option.split)
qed

section \<open>The Link throttle, one key at a time\<close>

lemma link_allow_spends:
  assumes ok: "keyed_ok clk cap rate K n kb" and key: "source_key src \<in> K"
    and r: "link_allow clk n kb src = (g, kb', m)"
  shows "keyed_ok clk cap rate K m kb'" "n \<le> m"
    and "key_level clk m kb' k + (if g \<and> source_key src = k then 1 else 0)
           \<le> key_level clk n kb k + rate * (clk m - clk n)"
proof -
  obtain ok1 kb1 n1 where p: "peek clk n kb (source_key src) = (ok1, kb1, n1)"
    by (cases "peek clk n kb (source_key src)")
  note pl = peek_level[OF ok key p]
  show "keyed_ok clk cap rate K m kb'" "n \<le> m"
    "key_level clk m kb' k + (if g \<and> source_key src = k then 1 else 0)
           \<le> key_level clk n kb k + rate * (clk m - clk n)"
  proof (atomize (full), cases ok1)
    case False
    then show "keyed_ok clk cap rate K m kb' \<and> n \<le> m \<and>
      key_level clk m kb' k + (if g \<and> source_key src = k then 1 else 0)
           \<le> key_level clk n kb k + rate * (clk m - clk n)"
      using r p pl by (auto simp: link_allow_def)
  next
    case True
    then obtain b where b: "map_of (k_buckets kb1) (source_key src) = Some b" "1 \<le> b_tokens b"
      "linear_level clk n1 b \<le> key_level clk n kb (source_key src) + rate * (clk n1 - clk n)"
      using pl(4) by blast
    have c: "consume_key clk n1 kb1 (source_key src) = (kb', m)" and g: "g"
      using r p True by (auto simp: link_allow_def split: prod.splits)
    note cl = consume_key_level[OF pl(2) key b(1,2) c]
    show "keyed_ok clk cap rate K m kb' \<and> n \<le> m \<and>
      key_level clk m kb' k + (if g \<and> source_key src = k then 1 else 0)
           \<le> key_level clk n kb k + rate * (clk m - clk n)"
      using cl pl(1) pl(3)[of k] b(3) g by (cases "k = source_key src") auto
  qed
qed

interpretation link: limiter "\<lambda>(n, kb) src. case link_allow clk n kb src of (ok, kb, n) \<Rightarrow> (ok, n, kb)"
  "\<lambda>(n, kb). keyed_ok clk cap rate K n kb" "\<lambda>src. source_key src \<in> K" "\<lambda>src. source_key src = key"
  "\<lambda>(n, kb). key_level clk n kb key" "\<lambda>(n, kb). clk n" rate
  for clk cap rate K key
proof unfold_locales
  fix s s' :: "nat \<times> keyed" and src ok
  assume inv: "case s of (n, kb) \<Rightarrow> keyed_ok clk cap rate K n kb" and adm: "source_key src \<in> K"
    and st: "(case s of (n, kb) \<Rightarrow> \<lambda>src. case link_allow clk n kb src of (ok, kb, n) \<Rightarrow> (ok, n, kb)) src = (ok, s')"
  obtain n kb n' kb' where s: "s = (n, kb)" "s' = (n', kb')" by (cases s; cases s')
  have r: "link_allow clk n kb src = (ok, kb', n')"
    using st by (simp add: s split: prod.splits)
  have k: "keyed_ok clk cap rate K n kb" using inv by (simp add: s)
  show "case s' of (n, kb) \<Rightarrow> keyed_ok clk cap rate K n kb"
    using link_allow_spends(1)[OF k adm r] by (simp add: s)
  show "(case s' of (n, kb) \<Rightarrow> key_level clk n kb key) + (if ok \<and> source_key src = key then 1 else 0)
    \<le> (case s of (n, kb) \<Rightarrow> key_level clk n kb key)
      + rate * ((case s' of (n, kb) \<Rightarrow> clk n) - (case s of (n, kb) \<Rightarrow> clk n))"
    using link_allow_spends(3)[OF k adm r, of key] by (simp add: s)
qed (auto simp: key_level_nonneg)

section \<open>Peeking is invisible\<close>

lemma refill_invisible:
  assumes ok: "bucket_ok clk cap rate n b" and r: "refill clk n b = (b', m)" and le: "n \<le> i"
  shows "bucket_level clk i b' = bucket_level clk i b"
proof -
  have "clk n \<le> clk i" using ok le monoD[of clk n i] by (simp add: bucket_ok_def)
  then have pos: "0 \<le> rate * (clk i - clk n)" using ok by (simp add: bucket_ok_def)
  have l: "linear_level clk i b = linear_level clk n b + rate * (clk i - clk n)"
    by (rule linear_level_later[OF ok])
  have b': "linear_level clk i b' = bucket_level clk n b + rate * (clk i - clk n)"
    "b_capacity b' = b_capacity b"
    using refill_level[OF ok r] r ok by (auto simp: linear_level_def bucket_ok_def refill_def Let_def)
  show ?thesis using pos by (auto simp: bucket_level_def b' l)
qed

lemma peek_invisible:
  assumes ok: "keyed_ok clk cap rate K n kb" and key: "key \<in> K"
    and r: "peek clk n kb key = (g, kb', m)" and le: "m \<le> i"
  shows "key_level clk i kb' k = key_level clk i kb k"
proof -
  obtain b0 kb0 n0 b where r0: "bucket_for clk n kb key = (b0, kb0, n0)"
    and h: "has_token clk n0 b0 = (g, b, m)" and kb': "kb' = store_bucket kb0 key b"
    using r by (auto simp: peek_def split: prod.splits)
  note f = bucket_for_keeps[OF ok key r0]
  have rf: "refill clk n0 b0 = (b, m)" using h by (auto simp: has_token_def split: prod.splits)
  have "n0 \<le> i" using has_token_level(1)[OF f(5) h] le by simp
  then have b: "bucket_level clk i b = bucket_level clk i b0"
    by (rule refill_invisible[OF f(5) rf])
  have cap: "k_capacity kb' = k_capacity kb" using bucket_for_params[OF r0] by (simp add: kb')
  show ?thesis
  proof (cases "k = key")
    case False
    then show ?thesis
      using f(4)[OF False] cap by (simp add: key_level_def kb' map_of_store_bucket split: option.split)
  next
    case True
    have "bucket_level clk i b0 = key_level clk i kb key"
    proof (cases "map_of (k_buckets kb) key")
      case (Some c)
      then have "b0 = c" using r0 by (auto simp: bucket_for_def)
      then show ?thesis using Some by (simp add: key_level_def)
    next
      case None
      have "b_tokens b0 = k_capacity kb \<and> b_capacity b0 = k_capacity kb \<and> b_last b0 = clk n \<and> n0 = Suc n"
        using r0 None by (auto simp: bucket_for_def new_bucket_def Let_def)
      moreover have "0 \<le> b_rate b0 * (clk i - clk n)"
        using f(5) \<open>n0 \<le> i\<close> calculation monoD[of clk n i] by (simp add: bucket_ok_def)
      ultimately show ?thesis
        using None by (simp add: key_level_def bucket_level_def linear_level_def)
    qed
    then show ?thesis
      using True b f(3) by (simp add: key_level_def kb' map_of_store_bucket)
  qed
qed

section \<open>The login throttle\<close>

lemma bucket_for_mono: "bucket_for clk n kb key = (b, kb', m) \<Longrightarrow> n \<le> m"
  by (auto simp: bucket_for_def new_bucket_def Let_def split: option.splits)

lemma peek_mono: "peek clk n kb key = (g, kb', m) \<Longrightarrow> n \<le> m"
  by (auto simp: peek_def has_token_def refill_def Let_def dest: bucket_for_mono split: prod.splits)

lemma consume_key_mono: "consume_key clk n kb key = (kb', m) \<Longrightarrow> n \<le> m"
  by (auto simp: consume_key_def dest: bucket_for_mono split: prod.splits)

text \<open>The ways through \<open>allow_attempt\<close>: refused by the source's bucket, by the name's, by the
  node-wide one, or granted.\<close>

lemma allow_attempt_cases [consumes 1, case_names source username global granted]:
  assumes "allow_attempt canon clk n T src usr = (g, T', m)"
  obtains
    ks where "\<not> g" "peek clk n (t_source T) (source_key src) = (False, ks, m)" "T' = T\<lparr>t_source := ks\<rparr>"
  | ks n1 ku where "\<not> g" "peek clk n (t_source T) (source_key src) = (True, ks, n1)"
      "peek clk n1 (t_username T) (username_key canon usr) = (False, ku, m)"
      "T' = T\<lparr>t_source := ks, t_username := ku\<rparr>"
  | ks n1 ku n2 b where "\<not> g" "peek clk n (t_source T) (source_key src) = (True, ks, n1)"
      "peek clk n1 (t_username T) (username_key canon usr) = (True, ku, n2)"
      "has_token clk n2 (t_global T) = (False, b, m)"
      "T' = T\<lparr>t_source := ks, t_username := ku, t_global := b\<rparr>"
  | ks n1 ku n2 b n3 ks' n4 ku' where "g"
      "peek clk n (t_source T) (source_key src) = (True, ks, n1)"
      "peek clk n1 (t_username T) (username_key canon usr) = (True, ku, n2)"
      "has_token clk n2 (t_global T) = (True, b, n3)"
      "consume_key clk n3 ks (source_key src) = (ks', n4)"
      "consume_key clk n4 ku (username_key canon usr) = (ku', m)"
      "T' = T\<lparr>t_source := ks', t_username := ku', t_global := consume b\<rparr>"
  using assms by (auto simp: allow_attempt_def Let_def split: prod.splits if_splits)

lemma allow_attempt_global:
  assumes ok: "bucket_ok clk cap rate n (t_global T)"
    and r: "allow_attempt canon clk n T src usr = (g, T', m)"
  shows "n \<le> m \<and> bucket_ok clk cap rate m (t_global T') \<and>
    bucket_level clk m (t_global T') + (if g then 1 else 0)
      \<le> bucket_level clk n (t_global T) + rate * (clk m - clk n)"
proof -
  have idle: "?thesis" if "n \<le> m" "t_global T' = t_global T" "\<not> g"
    using that bucket_ok_later[OF ok that(1)] bucket_level_later[OF ok that(1)] by simp
  show ?thesis
    using r
  proof (cases rule: allow_attempt_cases)
    case (source ks)
    then show ?thesis using idle peek_mono[OF source(2)] by simp
  next
    case (username ks n1 ku)
    then show ?thesis using idle peek_mono[OF username(2)] peek_mono[OF username(3)] by simp
  next
    case (global ks n1 ku n2 b)
    have n2: "n \<le> n2" using peek_mono[OF global(2)] peek_mono[OF global(3)] by simp
    note h = has_token_level[OF bucket_ok_later[OF ok n2] global(4)]
    have "bucket_level clk m b \<le> linear_level clk m b" by (simp add: bucket_level_def)
    then show ?thesis
      using global h n2 bucket_level_later[OF ok n2] by (simp add: algebra_simps)
  next
    case (granted ks n1 ku n2 b n3 ks' n4 ku')
    have n2: "n \<le> n2" using peek_mono[OF granted(2)] peek_mono[OF granted(3)] by simp
    have m: "n3 \<le> m" using consume_key_mono[OF granted(5)] consume_key_mono[OF granted(6)] by simp
    note h = has_token_level[OF bucket_ok_later[OF ok n2] granted(4)]
    have b: "bucket_ok clk cap rate m b" "1 \<le> b_tokens b"
      using h m bucket_ok_later by auto
    note c = consume_level[OF b]
    have "linear_level clk m b = linear_level clk n3 b + rate * (clk m - clk n3)"
      by (rule linear_level_later[OF h(2)])
    then show ?thesis
      using granted h c n2 m bucket_level_later[OF ok n2] by (simp add: algebra_simps)
  qed
qed

definition login_step ::
  "(ustr \<Rightarrow> ustr) \<Rightarrow> clock \<Rightarrow> nat \<times> login_throttle \<Rightarrow> ustr option \<times> ustr \<Rightarrow> bool \<times> nat \<times> login_throttle" where
  "login_step canon clk s i =
     (case allow_attempt canon clk (fst s) (snd s) (fst i) (snd i) of (ok, T, n) \<Rightarrow> (ok, n, T))"

lemma login_step_eq [simp]:
  "login_step canon clk (n, T) (src, usr) = (g, m, T') \<longleftrightarrow>
    allow_attempt canon clk n T src usr = (g, T', m)"
  by (auto simp: login_step_def split: prod.splits)

interpretation login: limiter "login_step canon clk" "\<lambda>(n, T). bucket_ok clk cap rate n (t_global T)"
  "\<lambda>_. True" "\<lambda>_. True" "\<lambda>(n, T). bucket_level clk n (t_global T)" "\<lambda>(n, T). clk n" rate
  for canon clk cap rate
proof unfold_locales
  fix s s' :: "nat \<times> login_throttle" and i ok
  assume inv: "case s of (n, T) \<Rightarrow> bucket_ok clk cap rate n (t_global T)"
    and st: "login_step canon clk s i = (ok, s')"
  obtain n T m T' src usr where s: "s = (n, T)" "s' = (m, T')" "i = (src, usr)" by (cases s; cases s'; cases i)
  note a = allow_attempt_global[of clk cap rate n T canon src usr ok T' m]
  show "case s' of (n, T) \<Rightarrow> bucket_ok clk cap rate n (t_global T)"
    using a inv st by (simp add: s)
  show "(case s' of (n, T) \<Rightarrow> bucket_level clk n (t_global T)) + (if ok \<and> True then 1 else 0)
    \<le> (case s of (n, T) \<Rightarrow> bucket_level clk n (t_global T))
      + rate * ((case s' of (n, T) \<Rightarrow> clk n) - (case s of (n, T) \<Rightarrow> clk n))"
    using a inv st by (simp add: s)
qed (auto simp: bucket_level_nonneg)

lemma allow_attempt_refused:
  assumes src: "keyed_ok clk cs rs Ks n (t_source T)" "source_key src \<in> Ks"
    and usr: "keyed_ok clk cu ru Ku n (t_username T)" "username_key canon usr \<in> Ku"
    and glob: "bucket_ok clk cap rate n (t_global T)"
    and r: "allow_attempt canon clk n T src usr = (False, T', m)"
  shows "key_level clk m (t_source T') k = key_level clk m (t_source T) k \<and>
    key_level clk m (t_username T') k = key_level clk m (t_username T) k \<and>
    bucket_level clk m (t_global T') = bucket_level clk m (t_global T)"
  using r
proof (cases rule: allow_attempt_cases)
  case (source ks)
  then show ?thesis using peek_invisible[OF src source(2)] by simp
next
  case (username ks n1 ku)
  have "n \<le> n1" "n1 \<le> m" using peek_mono[OF username(2)] peek_mono[OF username(3)] by auto
  then show ?thesis
    using username peek_invisible[OF src username(2)]
      peek_invisible[OF keyed_ok_later[OF usr(1)] usr(2) username(3)] by simp
next
  case (global ks n1 ku n2 b)
  have le: "n \<le> n1" "n1 \<le> n2" using peek_mono[OF global(2)] peek_mono[OF global(3)] by auto
  have n2: "bucket_ok clk cap rate n2 (t_global T)" using bucket_ok_later[OF glob] le by simp
  have rf: "refill clk n2 (t_global T) = (b, m)" "n2 \<le> m"
    using global(4) by (auto simp: has_token_def refill_def Let_def split: prod.splits)
  then show ?thesis
    using global le peek_invisible[OF src global(2)] refill_invisible[OF n2 rf(1)]
      peek_invisible[OF keyed_ok_later[OF usr(1)] usr(2) global(3)] by simp
qed simp

section \<open>Connection slots\<close>

text \<open>
  The unauthenticated connections holding a slot, one step per connection event. \<open>leave\<close> is called
  once per successful reservation, as the code's contract has it.
\<close>

inductive slot_step :: "login_throttle \<times> nat \<Rightarrow> login_throttle \<times> nat \<Rightarrow> bool" where
  enter: "try_enter_unauthenticated T = (True, T') \<Longrightarrow> slot_step (T, held) (T', Suc held)"
| turned_away: "try_enter_unauthenticated T = (False, T') \<Longrightarrow> slot_step (T, held) (T', held)"
| leave: "slot_step (T, Suc held) (leave_unauthenticated T, held)"

inductive_cases slot_stepE: "slot_step (T, held) (T', held')"

lemma slot_step_inv:
  "slot_step (T, held) (T', held') \<Longrightarrow> t_unauth T = int held \<and> int held \<le> max 0 (t_max_unauth T) \<Longrightarrow>
    t_unauth T' = int held' \<and> int held' \<le> max 0 (t_max_unauth T') \<and> t_max_unauth T' = t_max_unauth T"
  by (erule slot_stepE) (auto simp: try_enter_unauthenticated_def leave_unauthenticated_def split: if_splits)

lemma slot_steps_inv:
  "slot_step\<^sup>*\<^sup>* s s' \<Longrightarrow> t_unauth (fst s) = int (snd s) \<and> int (snd s) \<le> max 0 (t_max_unauth (fst s)) \<Longrightarrow>
    t_unauth (fst s') = int (snd s') \<and> int (snd s') \<le> max 0 (t_max_unauth (fst s')) \<and>
    t_max_unauth (fst s') = t_max_unauth (fst s)"
proof (induction rule: rtranclp_induct)
  case (step y z)
  from step.IH[OF step.prems] slot_step_inv[of "fst y" "snd y" "fst z" "snd z"] step.hyps(2)
  show ?case by auto
qed simp

section \<open>Runs of the login throttle\<close>

lemma login_step_wf: "login_step canon clk s i = (g, s') \<Longrightarrow> throttle_wf (snd s) \<Longrightarrow> throttle_wf (snd s')"
  by (auto simp: login_step_def dest: allow_attempt_wf split: prod.splits)

lemma grants_wf:
  "throttle_wf (snd s) \<Longrightarrow> throttle_wf (snd (snd (grants (login_step canon clk) c s reqs)))"
proof (induction reqs arbitrary: s)
  case (Cons i reqs)
  obtain g s1 where s1: "login_step canon clk s i = (g, s1)" by (cases "login_step canon clk s i")
  then show ?case
    using Cons.IH[of s1] login_step_wf[OF s1 Cons.prems] by (auto split: prod.splits)
qed simp

lemma new_login_throttle_wf: "throttle_wf (fst (new_login_throttle clk n a b c d e f k m))"
  by (simp add: new_login_throttle_def new_bucket_def throttle_wf_def)

lemma login_step_max_keys:
  "login_step canon clk s i = (g, s') \<Longrightarrow>
    k_max (t_source (snd s')) = k_max (t_source (snd s)) \<and>
    k_max (t_username (snd s')) = k_max (t_username (snd s))"
proof -
  have p: "peek clk n kb key = (x, kb', m) \<Longrightarrow> k_max kb' = k_max kb" for n kb key x kb' m
    by (auto simp: peek_def dest: bucket_for_params split: prod.splits)
  have c: "consume_key clk n kb key = (kb', m) \<Longrightarrow> k_max kb' = k_max kb" for n kb key kb' m
    by (auto simp: consume_key_def dest: bucket_for_params split: prod.splits)
  assume "login_step canon clk s i = (g, s')"
  then have "allow_attempt canon clk (fst s) (snd s) (fst i) (snd i) = (g, snd s', fst s')"
    by (auto simp: login_step_def split: prod.splits)
  then show ?thesis
    by (cases rule: allow_attempt_cases) (auto dest!: p c)
qed

lemma grants_max_keys:
  "k_max (t_source (snd (snd (grants (login_step canon clk) c s reqs)))) = k_max (t_source (snd s)) \<and>
   k_max (t_username (snd (snd (grants (login_step canon clk) c s reqs)))) = k_max (t_username (snd s))"
proof (induction reqs arbitrary: s)
  case (Cons i reqs)
  obtain g s1 where s1: "login_step canon clk s i = (g, s1)" by (cases "login_step canon clk s i")
  then show ?case
    using Cons.IH[of s1] login_step_max_keys[OF s1] by (auto split: prod.splits)
qed simp

section \<open>Properties\<close>

definition login_run ::
  "(ustr \<Rightarrow> ustr) \<Rightarrow> clock \<Rightarrow> nat \<times> login_throttle \<Rightarrow> (ustr option \<times> ustr) list \<Rightarrow> nat \<times> nat \<times> login_throttle" where
  "login_run canon clk s reqs = grants (login_step canon clk) (\<lambda>_. True) s reqs"

text \<open>
  C8: However many sources and user names an attacker rotates through, the number of login attempts
  a fresh throttle lets through is at most the node-wide capacity plus what the node-wide bucket
  refills over the time the run takes.
\<close>

theorem login_attempts_bounded:
  assumes "mono clk" "0 \<le> g_cap" "0 \<le> g_pm"
    and "new_login_throttle clk n src_cap src_pm usr_cap usr_pm g_cap g_pm max_keys slots = (T, n1)"
    and "login_run canon clk (n1, T) reqs = (k, m, T')"
  shows "of_nat k \<le> g_cap + g_pm / 60 * (clk m - clk n1)"
proof -
  have g: "t_global T = \<lparr>b_capacity = g_cap, b_rate = g_pm / 60, b_tokens = g_cap, b_last = clk n\<rparr>"
    and n1: "n1 = Suc n"
    using assms(4) by (auto simp: new_login_throttle_def new_bucket_def)
  have "clk n \<le> clk n1" using monoD[OF assms(1), of n n1] n1 by simp
  then have ok: "bucket_ok clk g_cap (g_pm / 60) n1 (t_global T)"
    using assms(1-3) by (simp add: g bucket_ok_def)
  have "of_nat k \<le> bucket_level clk n1 (t_global T) + g_pm / 60 * (clk m - clk n1)"
    using login.grants_bound[of clk g_cap "g_pm / 60" "(n1, T)" reqs canon k "(m, T')"] ok assms(5)
    by (simp add: login_run_def)
  moreover have "bucket_level clk n1 (t_global T) \<le> g_cap"
    by (simp add: bucket_level_def g)
  ultimately show ?thesis by simp
qed

theorem login_attempts_bounded_witness:
  "of_nat 2 \<le> (2::rat) + 30 / 60 * (rat_of_nat 15 / 100 - of_nat 1 / 100)"
  by (rule login_attempts_bounded[where clk = "\<lambda>i. of_nat i / 100" and canon = "\<lambda>s. s" and n = 0
        and src_cap = 5 and src_pm = 0 and usr_cap = 5 and usr_pm = 0 and max_keys = 3 and slots = 3
        and reqs = "[(None, u ''a''), (None, u ''b''), (Some (u ''c''), u ''d'')]"
        and T = "fst (new_login_throttle (\<lambda>i. of_nat i / 100) 0 5 0 5 0 2 30 3 3)"
        and T' = "snd (snd (login_run (\<lambda>s. s) (\<lambda>i. of_nat i / 100)
          (1, fst (new_login_throttle (\<lambda>i. of_nat i / 100) 0 5 0 5 0 2 30 3 3))
          [(None, u ''a''), (None, u ''b''), (Some (u ''c''), u ''d'')]))"])
    (simp add: mono_def divide_right_mono, simp, simp, simp add: new_login_throttle_def new_bucket_def, code_simp)

text \<open>
  One source address gets at most its own capacity plus its refill through the Link throttle,
  whatever the other sources do, as long as the table has room for the addresses seen.
\<close>

theorem link_requests_bounded:
  assumes "mono clk" "0 \<le> cap" "0 \<le> per_minute"
    and "finite K" "card K \<le> max_sources" "\<forall>src\<in>set reqs. source_key src \<in> K"
    and "grants (\<lambda>(n, kb) src. case link_allow clk n kb src of (ok, kb, n) \<Rightarrow> (ok, n, kb))
           (\<lambda>src. source_key src = key) (n, new_link_throttle cap per_minute max_sources) reqs = (k, m, kb')"
  shows "of_nat k \<le> cap + per_minute / 60 * (clk m - clk n)"
proof -
  let ?kb = "new_link_throttle cap per_minute max_sources"
  have ok: "keyed_ok clk cap (per_minute / 60) K n ?kb"
    using assms(1-5) by (simp add: keyed_ok_def new_link_throttle_def new_keyed_def keyed_wf_def)
  have "of_nat k \<le> key_level clk n ?kb key + per_minute / 60 * (clk m - clk n)"
    using link.grants_bound[of clk cap "per_minute / 60" K "(n, ?kb)" reqs key k "(m, kb')"] ok assms(6,7)
    by simp
  then show ?thesis using key_level_le[OF ok, of key] by simp
qed

theorem link_requests_bounded_witness:
  "of_nat 1 \<le> (1::rat) + 6 / 60 * (rat_of_nat 5 / 100 - of_nat 0 / 100)"
  by (rule link_requests_bounded[where clk = "\<lambda>i. of_nat i / 100" and K = "{u ''a'', u ''b''}" and n = 0
        and max_sources = 2 and reqs = "[Some (u ''a''), Some (u ''a''), Some (u ''b'')]" and key = "u ''a''"
        and kb' = "snd (snd (grants (\<lambda>(n, kb) src. case link_allow (\<lambda>i. of_nat i / 100) n kb src of
              (ok, kb, n) \<Rightarrow> (ok, n, kb))
            (\<lambda>src. source_key src = u ''a'') (0, new_link_throttle 1 6 2)
            [Some (u ''a''), Some (u ''a''), Some (u ''b'')]))"])
    (simp add: mono_def divide_right_mono, simp, simp, simp, simp, simp add: source_key_def, code_simp)

text \<open>
  A refused login attempt charges nothing: every per-source, per-name and node-wide budget is
  afterwards what the passing of time alone would have made it.
\<close>

theorem refused_attempt_charges_nothing:
  assumes "keyed_ok clk cs rs Ks n (t_source T)" "source_key src \<in> Ks"
    and "keyed_ok clk cu ru Ku n (t_username T)" "username_key canon usr \<in> Ku"
    and "bucket_ok clk cap rate n (t_global T)"
    and "allow_attempt canon clk n T src usr = (False, T', m)"
  shows "key_level clk m (t_source T') k = key_level clk m (t_source T) k \<and>
    key_level clk m (t_username T') k = key_level clk m (t_username T) k \<and>
    bucket_level clk m (t_global T') = bucket_level clk m (t_global T)"
  by (rule allow_attempt_refused[OF assms])

text \<open>A throttle whose per-name capacity is half a token refuses the first attempt.\<close>

definition stingy :: login_throttle where
  "stingy = fst (new_login_throttle (\<lambda>i. of_nat i / 100) 0 5 60 (1 / 2) 60 2 60 3 3)"

theorem refused_attempt_charges_nothing_witness:
  "key_level (\<lambda>i. of_nat i / 100) 5 (t_source (fst (snd
      (allow_attempt (\<lambda>s. s) (\<lambda>i. of_nat i / 100) 1 stingy None (u ''bob''))))) (u ''unknown'')
     = key_level (\<lambda>i. of_nat i / 100) 5 (t_source stingy) (u ''unknown'') \<and>
   key_level (\<lambda>i. of_nat i / 100) 5 (t_username (fst (snd
      (allow_attempt (\<lambda>s. s) (\<lambda>i. of_nat i / 100) 1 stingy None (u ''bob''))))) (u ''unknown'')
     = key_level (\<lambda>i. of_nat i / 100) 5 (t_username stingy) (u ''unknown'') \<and>
   bucket_level (\<lambda>i. of_nat i / 100) 5 (t_global (fst (snd
      (allow_attempt (\<lambda>s. s) (\<lambda>i. of_nat i / 100) 1 stingy None (u ''bob'')))))
     = bucket_level (\<lambda>i. of_nat i / 100) 5 (t_global stingy)"
proof (rule refused_attempt_charges_nothing)
  have m: "mono (\<lambda>i. rat_of_nat i / 100)" by (simp add: mono_def divide_right_mono)
  show "keyed_ok (\<lambda>i. of_nat i / 100) 5 1 {u ''unknown''} 1 (t_source stingy)"
    "keyed_ok (\<lambda>i. of_nat i / 100) (1 / 2) 1 {u ''bob''} 1 (t_username stingy)"
    "bucket_ok (\<lambda>i. of_nat i / 100) 2 1 1 (t_global stingy)"
    using m by (auto simp: keyed_ok_def bucket_ok_def stingy_def new_login_throttle_def new_keyed_def
        new_bucket_def keyed_wf_def)
  show "allow_attempt (\<lambda>s. s) (\<lambda>i. of_nat i / 100) 1 stingy None (u ''bob'') =
    (False, fst (snd (allow_attempt (\<lambda>s. s) (\<lambda>i. of_nat i / 100) 1 stingy None (u ''bob''))), 5)"
    by code_simp
qed (simp_all add: source_key_def username_key_def)

text \<open>
  The memory a throttle uses is bounded whatever keys are presented: after any run of attempts
  neither table holds more than the configured number of keys, and no key twice.
\<close>

theorem throttle_tables_bounded:
  assumes "new_login_throttle clk n src_cap src_pm usr_cap usr_pm g_cap g_pm max_keys slots = (T, n1)"
    and "login_run canon clk (n1, T) reqs = (k, m, T')"
  shows "length (k_buckets (t_source T')) \<le> max_keys \<and> distinct (map fst (k_buckets (t_source T'))) \<and>
    length (k_buckets (t_username T')) \<le> max_keys \<and> distinct (map fst (k_buckets (t_username T')))"
proof -
  have "throttle_wf T" "k_max (t_source T) = max_keys" "k_max (t_username T) = max_keys"
    using assms(1) by (auto simp: new_login_throttle_def new_bucket_def throttle_wf_def new_keyed_def keyed_wf_def)
  then show ?thesis
    using grants_wf[of "(n1, T)" canon clk "\<lambda>_. True" reqs] assms(2)
      grants_max_keys[of canon clk "\<lambda>_. True" "(n1, T)" reqs]
    by (auto simp: login_run_def throttle_wf_def keyed_wf_def)
qed

theorem throttle_tables_bounded_witness:
  "let reqs = [(None, u ''a''), (None, u ''b''), (None, u ''c'')];
       T' = snd (snd (login_run (\<lambda>s. s) (\<lambda>i. of_nat i / 100) (1, stingy) reqs))
   in length (k_buckets (t_source T')) \<le> 3 \<and> distinct (map fst (k_buckets (t_source T'))) \<and>
      length (k_buckets (t_username T')) \<le> 3 \<and> distinct (map fst (k_buckets (t_username T')))"
  unfolding Let_def
  by (rule throttle_tables_bounded[where clk = "\<lambda>i. of_nat i / 100" and n = 0 and src_cap = 5 and src_pm = 60
        and usr_cap = "1 / 2" and usr_pm = 60 and g_cap = 2 and g_pm = 60 and slots = 3 and ?n1.0 = 1
        and T = stingy and canon = "\<lambda>s. s" and reqs = "[(None, u ''a''), (None, u ''b''), (None, u ''c'')]"
        and k = "fst (login_run (\<lambda>s. s) (\<lambda>i. of_nat i / 100) (1, stingy)
          [(None, u ''a''), (None, u ''b''), (None, u ''c'')])"
        and m = "fst (snd (login_run (\<lambda>s. s) (\<lambda>i. of_nat i / 100) (1, stingy)
          [(None, u ''a''), (None, u ''b''), (None, u ''c'')]))"])
    (simp add: stingy_def new_login_throttle_def new_bucket_def, simp only: prod.collapse)

text \<open>
  The unauthenticated-session counter is exact and never exceeds its limit: after any sequence
  of connections entering, being turned away and leaving, it equals the number of slots held.
\<close>

theorem unauthenticated_slots_exact:
  assumes "slot_step\<^sup>*\<^sup>* (fst (new_login_throttle clk n a b c d e f keys limit), 0) (T, held)"
  shows "t_unauth T = int held \<and> int held \<le> max 0 limit"
  using slot_steps_inv[OF assms]
  by (auto simp: new_login_throttle_def new_bucket_def)

theorem unauthenticated_slots_exact_witness:
  "t_unauth (stingy\<lparr>t_unauth := 1\<rparr>) = int 1 \<and> int 1 \<le> max 0 (3::int)"
  by (rule unauthenticated_slots_exact[where clk = "\<lambda>i. of_nat i / 100" and n = 0 and a = 5 and b = 60
        and c = "1 / 2" and d = 60 and e = 2 and f = 60 and keys = 3])
    (rule r_into_rtranclp,
      simp add: stingy_def new_login_throttle_def new_bucket_def slot_step.simps try_enter_unauthenticated_def)

end
