(* ===== verification/Maintenance.thy ===== *)
theory Maintenance
  imports NB_Prelude
begin

text \<open>
  \<^verbatim>\<open>src/netbbs/net/maintenance.py\<close>: the shutdown gate, owned by the task that activated it last, and
  the independent lockdown. Tasks are opaque; \<open>current\<close> is what \<open>asyncio.current_task()\<close> returns
  (\<open>None\<close> outside a loop) and \<open>cancelling\<close> what the owner's \<open>Task.cancelling()\<close> returns.
\<close>

record 't maintenance =
  m_active :: bool
  m_owner :: "'t option"
  m_lockdown :: bool
  m_lockdown_source :: "ustr option"

definition new_maintenance :: "'t maintenance" where
  "new_maintenance = \<lparr>m_active = False, m_owner = None, m_lockdown = False, m_lockdown_source = None\<rparr>"

definition activate :: "'t option \<Rightarrow> 't maintenance \<Rightarrow> 't maintenance" where
  "activate current m = m\<lparr>m_active := True, m_owner := current\<rparr>"

definition deactivate :: "('t \<Rightarrow> nat) \<Rightarrow> 't option \<Rightarrow> 't maintenance \<Rightarrow> 't maintenance" where
  "deactivate cancelling current m =
     (if \<not> m_active m then m
      else case m_owner m of
        Some owner \<Rightarrow>
          if current \<noteq> Some owner \<and> cancelling owner = 0 then m
          else m\<lparr>m_active := False, m_owner := None\<rparr>
      | None \<Rightarrow> m\<lparr>m_active := False, m_owner := None\<rparr>)"

definition is_active :: "'t maintenance \<Rightarrow> bool" where
  "is_active m = m_active m"

definition enable_lockdown :: "ustr \<Rightarrow> 't maintenance \<Rightarrow> 't maintenance" where
  "enable_lockdown source m = m\<lparr>m_lockdown := True, m_lockdown_source := Some source\<rparr>"

definition disable_lockdown :: "'t maintenance \<Rightarrow> 't maintenance" where
  "disable_lockdown m = m\<lparr>m_lockdown := False, m_lockdown_source := None\<rparr>"

definition is_lockdown_active :: "'t maintenance \<Rightarrow> bool" where
  "is_lockdown_active m = m_lockdown m"

definition lockdown_source :: "'t maintenance \<Rightarrow> ustr option" where
  "lockdown_source m = (if m_lockdown m then m_lockdown_source m else None)"

section \<open>Traces\<close>

text \<open>One call on the object, with the caller's task and the tasks' cancellation counts then.\<close>

datatype 't call =
  Activate "'t option"
| Deactivate "'t option" "'t \<Rightarrow> nat"
| EnableLockdown ustr
| DisableLockdown

fun call_step :: "'t maintenance \<Rightarrow> 't call \<Rightarrow> 't maintenance" where
  "call_step m (Activate t) = activate t m"
| "call_step m (Deactivate t c) = deactivate c t m"
| "call_step m (EnableLockdown src) = enable_lockdown src m"
| "call_step m DisableLockdown = disable_lockdown m"

text \<open>The calls that give up the gate task \<open>t\<close> holds: its own, and anyone's once it is cancelling.\<close>

fun releases :: "'t \<Rightarrow> 't call \<Rightarrow> bool" where
  "releases t (Deactivate current c) \<longleftrightarrow> current = Some t \<or> 0 < c t"
| "releases t _ \<longleftrightarrow> False"

fun claims :: "'t call \<Rightarrow> bool" where
  "claims (Activate _) \<longleftrightarrow> True"
| "claims _ \<longleftrightarrow> False"

fun gate_call :: "'t call \<Rightarrow> bool" where
  "gate_call (Activate _) \<longleftrightarrow> True"
| "gate_call (Deactivate _ _) \<longleftrightarrow> True"
| "gate_call _ \<longleftrightarrow> False"

definition run_calls :: "'t maintenance \<Rightarrow> 't call list \<Rightarrow> 't maintenance" where
  "run_calls m cs = foldl call_step m cs"

lemma held_gate_stays:
  "m_active m \<and> m_owner m = Some t \<Longrightarrow> \<forall>c\<in>set cs. \<not> releases t c \<and> \<not> claims c \<Longrightarrow>
    m_active (run_calls m cs) \<and> m_owner (run_calls m cs) = Some t"
proof (induction cs arbitrary: m)
  case (Cons c cs)
  have "m_active (call_step m c) \<and> m_owner (call_step m c) = Some t"
    using Cons.prems by (cases c) (auto simp: deactivate_def enable_lockdown_def disable_lockdown_def)
  then show ?case using Cons.IH[of "call_step m c"] Cons.prems(2) by (simp add: run_calls_def)
qed (simp add: run_calls_def)

lemma lockdown_unaffected:
  "\<forall>c\<in>set cs. gate_call c \<Longrightarrow> lockdown_source (run_calls m cs) = lockdown_source m \<and>
    is_lockdown_active (run_calls m cs) = is_lockdown_active m"
proof (induction cs arbitrary: m)
  case (Cons c cs)
  have "lockdown_source (call_step m c) = lockdown_source m \<and>
    is_lockdown_active (call_step m c) = is_lockdown_active m"
    using Cons.prems by (cases c)
      (auto simp: lockdown_source_def is_lockdown_active_def activate_def deactivate_def split: option.split)
  then show ?case using Cons.IH[of "call_step m c"] Cons.prems by (simp add: run_calls_def)
qed (simp add: run_calls_def)

section \<open>Properties\<close>

text \<open>
  A shutdown that has claimed the gate keeps new logins out until it gives the gate up itself or
  is being cancelled: no sequence of other calls, cleanups of replaced shutdowns and lockdown
  changes included, reopens it.
\<close>

theorem stale_task_cannot_reopen:
  assumes "\<forall>c\<in>set cs. \<not> releases t c \<and> \<not> claims c"
  shows "is_active (run_calls (activate (Some t) m) cs)"
  using held_gate_stays[of "activate (Some t) m" t cs] assms
  by (simp add: is_active_def activate_def)

theorem stale_task_cannot_reopen_witness:
  "is_active (run_calls (activate (Some 2) (activate (Some 1) (new_maintenance :: nat maintenance)))
     [Deactivate (Some 1) (\<lambda>t. if t = 1 then 1 else 0), DisableLockdown])"
  by (rule stale_task_cannot_reopen) simp

text \<open>
  The gate can always be given up and the two gates are independent: the owner's own call, or
  anyone's once the owner is cancelling, reopens admission, and no call on the shutdown gate changes
  the lockdown or its recorded source.
\<close>

theorem gate_released_and_independent:
  assumes "m_owner m = Some t" "releases t (Deactivate current c)" "\<forall>x\<in>set cs. gate_call x"
  shows "\<not> is_active (deactivate c current m) \<and>
    lockdown_source (run_calls m cs) = lockdown_source m \<and>
    is_lockdown_active (run_calls m cs) = is_lockdown_active m"
  using assms(1,2) lockdown_unaffected[OF assms(3)] by (auto simp: is_active_def deactivate_def)

theorem gate_released_and_independent_witness:
  "\<not> is_active (deactivate (\<lambda>_. 0) (Some 1) (activate (Some (1::nat)) (enable_lockdown (u ''x'') new_maintenance))) \<and>
    lockdown_source (run_calls (activate (Some (1::nat)) (enable_lockdown (u ''x'') new_maintenance)) [Activate (Some 2)])
      = lockdown_source (activate (Some (1::nat)) (enable_lockdown (u ''x'') new_maintenance)) \<and>
    is_lockdown_active (run_calls (activate (Some (1::nat)) (enable_lockdown (u ''x'') new_maintenance)) [Activate (Some 2)])
      = is_lockdown_active (activate (Some (1::nat)) (enable_lockdown (u ''x'') new_maintenance))"
  by (rule gate_released_and_independent[where t = 1]) (simp_all add: activate_def)

end
