(* ===== verification/Telnet.thy ===== *)
theory Telnet
  imports Py_Text "HOL-Library.Word"
begin

unbundle bit_operations_syntax

text \<open>
  The input side of a Telnet session, \<^verbatim>\<open>src/netbbs/net/telnet.py\<close>, with the terminal detection of
  \<^verbatim>\<open>net/terminal_detect.py\<close>: the bytes of an untrusted, not yet authenticated caller, in which data
  and protocol commands are interleaved. What arrives is a list: a byte, or the end of the time limit
  that is running; the end of the list is the end of the connection. Every failure is
  \<open>SessionClosedError\<close>, the result \<open>None\<close>.
\<close>

type_synonym byte = "8 word"

datatype client_byte = Got byte | Late

abbreviation (input) IAC :: byte where "IAC \<equiv> 0xFF"
abbreviation (input) WILL :: byte where "WILL \<equiv> 0xFB"
abbreviation (input) WONT :: byte where "WONT \<equiv> 0xFC"
abbreviation (input) DO :: byte where "DO \<equiv> 0xFD"
abbreviation (input) DONT :: byte where "DONT \<equiv> 0xFE"
abbreviation (input) SB :: byte where "SB \<equiv> 0xFA"
abbreviation (input) SE :: byte where "SE \<equiv> 0xF0"
abbreviation (input) ECHO :: byte where "ECHO \<equiv> 1"
abbreviation (input) SUPPRESS_GO_AHEAD :: byte where "SUPPRESS_GO_AHEAD \<equiv> 3"
abbreviation (input) BINARY :: byte where "BINARY \<equiv> 0"
abbreviation (input) NAWS :: byte where "NAWS \<equiv> 0x1F"
abbreviation (input) NEW_ENVIRON :: byte where "NEW_ENVIRON \<equiv> 0x27"
abbreviation (input) NEW_ENVIRON_IS :: byte where "NEW_ENVIRON_IS \<equiv> 0"
abbreviation (input) NEW_ENVIRON_SEND :: byte where "NEW_ENVIRON_SEND \<equiv> 1"
abbreviation (input) NEW_ENVIRON_VAR :: byte where "NEW_ENVIRON_VAR \<equiv> 0"
abbreviation (input) NEW_ENVIRON_VALUE :: byte where "NEW_ENVIRON_VALUE \<equiv> 1"
abbreviation (input) NEW_ENVIRON_USERVAR :: byte where "NEW_ENVIRON_USERVAR \<equiv> 3"
abbreviation (input) TTYPE :: byte where "TTYPE \<equiv> 0x18"
abbreviation (input) TTYPE_IS :: byte where "TTYPE_IS \<equiv> 0"
abbreviation (input) TTYPE_SEND :: byte where "TTYPE_SEND \<equiv> 1"

definition MAX_SUBNEGOTIATION_BODY :: nat where "MAX_SUBNEGOTIATION_BODY = 1024"
definition MAX_TERMINAL_TYPES :: nat where "MAX_TERMINAL_TYPES = 3"
definition MAX_EARLY_INPUT :: nat where "MAX_EARLY_INPUT = 1024"
definition MAX_TERMINAL_WIDTH :: int where "MAX_TERMINAL_WIDTH = 500"
definition MAX_TERMINAL_HEIGHT :: int where "MAX_TERMINAL_HEIGHT = 200"
definition MAX_TERMINAL_TYPE_LENGTH :: nat where "MAX_TERMINAL_TYPE_LENGTH = 40"

definition byte_text :: "ustr \<Rightarrow> byte list" where
  "byte_text s = map of_nat s"

text \<open>\<open>bytes.decode("ascii", errors="replace")\<close>.\<close>

definition ascii_replaced :: "byte list \<Rightarrow> ustr" where
  "ascii_replaced b = map (\<lambda>c. if unat c < 128 then unat c else 0xFFFD) b"

section \<open>What a terminal type means\<close>

datatype charset = Utf8 | Cp437 | Ascii

definition CP437_TERMINALS :: "ustr list" where
  "CP437_TERMINALS = [u ''syncterm'', u ''ansi-bbs'', u ''pcansi'', u ''cterm'']"

definition LIKELY_CP437_TERMINALS :: "ustr list" where
  "LIKELY_CP437_TERMINALS = [u ''ansi'']"

definition UTF8_TERMINAL_PREFIXES :: "ustr list" where
  "UTF8_TERMINAL_PREFIXES = [u ''xterm'', u ''vt1'', u ''vt2'', u ''vt3'', u ''vt4'', u ''vt5'', u ''linux'',
     u ''screen'', u ''tmux'', u ''rxvt'', u ''putty'', u ''alacritty'', u ''kitty'', u ''foot'', u ''konsole'',
     u ''gnome'', u ''wezterm'', u ''iterm'', u ''contour'', u ''ghostty'', u ''st-'', u ''eterm'', u ''mintty'',
     u ''cygwin'', u ''ms-terminal'', u ''windows-terminal'']"

definition TRUECOLOR_TERMINALS :: "ustr list" where
  "TRUECOLOR_TERMINALS = [u ''syncterm'']"

definition SIXTEEN_COLOR_TERMINALS :: "ustr list" where
  "SIXTEEN_COLOR_TERMINALS = [u ''ansi-bbs'', u ''ansi'', u ''pcansi'', u ''cterm'', u ''cp437'']"

text \<open>A name kept by a session is printable ASCII (\<open>clean_terminal_type\<close>); \<open>strip\<close> and \<open>lower\<close> are those of
  such names.\<close>

definition lower :: "ustr \<Rightarrow> ustr" where
  "lower s = map (\<lambda>c. if 65 \<le> c \<and> c \<le> 90 then c + 32 else c) s"

definition strip_lower :: "ustr \<Rightarrow> ustr" where
  "strip_lower raw = lower (py_strip ascii_space raw)"

definition starts_with_any :: "ustr \<Rightarrow> ustr list \<Rightarrow> bool" where
  "starts_with_any name prefixes \<longleftrightarrow> list_ex (\<lambda>p. take (length p) name = p) prefixes"

definition clean_terminal_type :: "ustr \<Rightarrow> ustr" where
  "clean_terminal_type raw =
     take MAX_TERMINAL_TYPE_LENGTH (py_strip ascii_space (filter (\<lambda>c. 32 \<le> c \<and> c \<le> 126) raw))"

fun classify_terminal_types :: "ustr list \<Rightarrow> charset option \<times> bool" where
  "classify_terminal_types [] = (None, False)"
| "classify_terminal_types (raw # names) =
     (let name = strip_lower raw in
      if name \<in> set CP437_TERMINALS then (Some Cp437, True)
      else if name \<in> set LIKELY_CP437_TERMINALS then (Some Cp437, False)
      else if starts_with_any name UTF8_TERMINAL_PREFIXES then (Some Utf8, True)
      else classify_terminal_types names)"

definition terminal_wraps_immediately :: "ustr list \<Rightarrow> bool" where
  "terminal_wraps_immediately names \<longleftrightarrow> fst (classify_terminal_types names) \<noteq> Some Utf8"

fun terminal_supports_truecolor :: "ustr list \<Rightarrow> bool" where
  "terminal_supports_truecolor [] = False"
| "terminal_supports_truecolor (raw # names) =
     (let name = strip_lower raw in
      if name \<in> set TRUECOLOR_TERMINALS then True
      else if name \<in> set CP437_TERMINALS \<or> name \<in> set LIKELY_CP437_TERMINALS
          \<or> starts_with_any name UTF8_TERMINAL_PREFIXES then False
      else terminal_supports_truecolor names)"

fun terminal_shows_sixteen_colors :: "bool \<Rightarrow> ustr list \<Rightarrow> bool" where
  "terminal_shows_sixteen_colors unrecognised [] = unrecognised"
| "terminal_shows_sixteen_colors unrecognised (raw # names) =
     (let name = strip_lower raw in
      if name \<in> set SIXTEEN_COLOR_TERMINALS then True
      else if name \<in> set TRUECOLOR_TERMINALS \<or> starts_with_any name UTF8_TERMINAL_PREFIXES then False
      else terminal_shows_sixteen_colors unrecognised names)"

definition SYNCTERM_KEY_TERMINALS :: "ustr list" where
  "SYNCTERM_KEY_TERMINALS = [u ''syncterm'', u ''ansi-bbs'']"

fun sends_syncterm_keys :: "ustr list \<Rightarrow> bool" where
  "sends_syncterm_keys [] = False"
| "sends_syncterm_keys (raw # names) =
     (let name = strip_lower raw in
      if name \<in> set SYNCTERM_KEY_TERMINALS then True
      else if name \<in> set CP437_TERMINALS \<or> name \<in> set LIKELY_CP437_TERMINALS
          \<or> starts_with_any name UTF8_TERMINAL_PREFIXES then False
      else sends_syncterm_keys names)"

definition QUADRANTLESS_ANSWERBACKS :: "byte list list" where
  "QUADRANTLESS_ANSWERBACKS = [byte_text (u ''PuTTY'')]"

text \<open>\<open>data.find(known)\<close>.\<close>

fun find_at :: "'a list \<Rightarrow> 'a list \<Rightarrow> nat option" where
  "find_at known [] = (if known = [] then Some 0 else None)"
| "find_at known (x # xs) =
     (if take (length known) (x # xs) = known then Some 0 else map_option Suc (find_at known xs))"

fun take_answerback :: "byte list list \<Rightarrow> byte list \<Rightarrow> ustr option \<times> byte list" where
  "take_answerback [] data = (None, data)"
| "take_answerback (known # ks) data =
     (case find_at known data of
        Some k \<Rightarrow> (Some (ascii_replaced known), take k data @ drop (k + length known) data)
      | None \<Rightarrow> take_answerback ks data)"

definition ends_inside_answerback :: "byte list \<Rightarrow> bool" where
  "ends_inside_answerback data \<longleftrightarrow>
     list_ex (\<lambda>known. list_ex (\<lambda>n. n \<le> length data \<and> drop (length data - n) data = take n known)
       [1..<length known]) QUADRANTLESS_ANSWERBACKS"

section \<open>The session\<close>

datatype ttype_state = Idle | Requested | Asking | Done

record telnet =
  tn_width :: int
  tn_height :: int
  tn_truecolor :: bool
  tn_colorterm :: "ustr option"
  tn_types :: "ustr list"
  tn_ttype :: ttype_state
  tn_refused :: bool
  tn_early :: "byte list"
  tn_sixteen :: bool
  tn_detected_sixteen :: bool
  tn_depth :: "ustr option"
  tn_charset :: charset
  tn_detected_charset :: charset
  tn_certain :: bool
  tn_wraps :: bool
  tn_answerback :: "ustr option"
  tn_quadrants :: bool
  tn_detected_quadrants :: bool
  tn_noted :: nat
  tn_sent :: "byte list"
  tn_broken :: bool

definition new_telnet :: telnet where
  "new_telnet =
     \<lparr>tn_width = 80, tn_height = 24, tn_truecolor = False, tn_colorterm = None, tn_types = [],
      tn_ttype = Idle, tn_refused = False, tn_early = [], tn_sixteen = False, tn_detected_sixteen = False,
      tn_depth = None, tn_charset = Utf8, tn_detected_charset = Utf8, tn_certain = True, tn_wraps = False,
      tn_answerback = None, tn_quadrants = True, tn_detected_quadrants = True, tn_noted = 0, tn_sent = [],
      tn_broken = False\<rparr>"

text \<open>\<open>write\<close> then \<open>drain\<close>; \<open>tn_broken\<close> says that the caller is gone, which only \<open>drain\<close> notices.\<close>

definition send_bytes :: "byte list \<Rightarrow> telnet \<Rightarrow> telnet option" where
  "send_bytes data t = (if tn_broken t then None else Some (t\<lparr>tn_sent := tn_sent t @ data\<rparr>))"

definition escape_iac :: "byte list \<Rightarrow> byte list" where
  "escape_iac data = concat (map (\<lambda>b. if b = IAC then [IAC, IAC] else [b]) data)"

definition send_raw :: "byte list \<Rightarrow> telnet \<Rightarrow> telnet option" where
  "send_raw data t = send_bytes (escape_iac data) t"

text \<open>\<open>text.replace("\r\n", "\n").replace("\n", "\r\n")\<close>.\<close>

fun join_crlf :: "ustr \<Rightarrow> ustr" where
  "join_crlf (c # d # s) = (if c = 13 \<and> d = 10 then 10 # join_crlf s else c # join_crlf (d # s))"
| "join_crlf s = s"

definition normalize_newlines :: "ustr \<Rightarrow> ustr" where
  "normalize_newlines s = concat (map (\<lambda>c. if c = 10 then [13, 10] else [c]) (join_crlf s))"

text \<open>The codecs belong to Python: \<open>encode cs text\<close> is \<open>text.encode(cs, errors="replace")\<close>.\<close>

definition send_text :: "(charset \<Rightarrow> ustr \<Rightarrow> byte list) \<Rightarrow> ustr \<Rightarrow> telnet \<Rightarrow> telnet option" where
  "send_text encode text_out t =
     (let data = encode (tn_charset t) (normalize_newlines text_out)
      in send_bytes (if tn_charset t = Cp437 then escape_iac data else data) t)"

definition clamp_terminal_size :: "int \<Rightarrow> int \<Rightarrow> int \<times> int" where
  "clamp_terminal_size width height =
     (max 1 (min width MAX_TERMINAL_WIDTH), max 1 (min height MAX_TERMINAL_HEIGHT))"

definition apply_terminal_colors :: "telnet \<Rightarrow> telnet" where
  "apply_terminal_colors t =
     (let sixteen = (tn_colorterm t = None \<or> tn_colorterm t = Some []) \<and> terminal_shows_sixteen_colors True (tn_types t)
      in t\<lparr>tn_detected_sixteen := sixteen,
           tn_sixteen := (case tn_depth t of None \<Rightarrow> sixteen | Some choice \<Rightarrow> choice = u ''16'')\<rparr>)"

definition apply_terminal_truecolor :: "telnet \<Rightarrow> telnet" where
  "apply_terminal_truecolor t =
     (if \<not> (tn_colorterm t = None \<or> tn_colorterm t = Some []) \<or> \<not> terminal_supports_truecolor (tn_types t)
      then t else t\<lparr>tn_truecolor := True\<rparr>)"

section \<open>TTYPE\<close>

definition send_terminal_type_request :: "telnet \<Rightarrow> telnet option" where
  "send_terminal_type_request t = send_bytes [IAC, SB, TTYPE, TTYPE_SEND, IAC, SE] t"

definition on_terminal_type_option :: "byte \<Rightarrow> telnet \<Rightarrow> telnet option" where
  "on_terminal_type_option command t =
     (if tn_ttype t \<noteq> Requested then Some t
      else if command = WILL then send_terminal_type_request (t\<lparr>tn_ttype := Asking\<rparr>)
      else if command = WONT then Some (t\<lparr>tn_ttype := Done, tn_refused := True\<rparr>)
      else Some t)"

definition on_terminal_type :: "ustr \<Rightarrow> telnet \<Rightarrow> telnet option" where
  "on_terminal_type name t =
     (if tn_ttype t \<noteq> Asking then Some t
      else if name = [] \<or> lower name \<in> set (map lower (tn_types t)) then Some (t\<lparr>tn_ttype := Done\<rparr>)
      else
        let t = t\<lparr>tn_types := tn_types t @ [name]\<rparr> in
        if fst (classify_terminal_types [name]) \<noteq> None \<or> MAX_TERMINAL_TYPES \<le> length (tn_types t)
        then Some (t\<lparr>tn_ttype := Done\<rparr>)
        else send_terminal_type_request t)"

section \<open>NEW-ENVIRON\<close>

datatype env_target = To_Name | To_Value | Nowhere

text \<open>\<open>variables\<close>, \<open>name\<close>, \<open>value\<close>, and which of the two \<open>current\<close> is.\<close>

type_synonym env_state = "(ustr \<rightharpoonup> ustr) \<times> byte list option \<times> byte list option \<times> env_target"

definition env_flush :: "env_state \<Rightarrow> (ustr \<rightharpoonup> ustr)" where
  "env_flush st = (case st of
     (variables, Some name, Some value, _) \<Rightarrow> variables(ascii_replaced name \<mapsto> ascii_replaced value)
   | (variables, _) \<Rightarrow> variables)"

definition env_step :: "env_state \<Rightarrow> byte \<Rightarrow> env_state" where
  "env_step st marker = (case st of (variables, name, value, current) \<Rightarrow>
     if marker = NEW_ENVIRON_VAR then (env_flush st, Some [], None, To_Name)
     else if marker = NEW_ENVIRON_USERVAR then (env_flush st, None, None, Nowhere)
     else if marker = NEW_ENVIRON_VALUE then (variables, name, Some [], To_Value)
     else (case current of
        To_Name \<Rightarrow> (variables, map_option (\<lambda>n. n @ [marker]) name, value, current)
      | To_Value \<Rightarrow> (variables, name, map_option (\<lambda>v. v @ [marker]) value, current)
      | Nowhere \<Rightarrow> st))"

definition parse_new_environ_is :: "byte list \<Rightarrow> (ustr \<rightharpoonup> ustr)" where
  "parse_new_environ_is body = env_flush (foldl env_step (Map.empty, None, None, Nowhere) body)"

definition on_new_environ :: "byte list \<Rightarrow> telnet \<Rightarrow> telnet" where
  "on_new_environ payload t =
     (let colorterm = parse_new_environ_is payload (u ''COLORTERM'');
          given = (colorterm \<noteq> None \<and> colorterm \<noteq> Some []);
          t1 = (if given then
                  let t = t\<lparr>tn_colorterm := colorterm\<rparr>
                  in if tn_ttype t = Done then apply_terminal_colors t else t
                else t)
      in if colorterm = Some (u ''truecolor'') \<or> colorterm = Some (u ''24bit'') then t1\<lparr>tn_truecolor := True\<rparr>
         else if given then t1\<lparr>tn_truecolor := False\<rparr>
         else if tn_colorterm t1 = None then apply_terminal_truecolor t1
         else t1)"

definition on_naws :: "byte list \<Rightarrow> telnet \<Rightarrow> telnet" where
  "on_naws body t =
     (let width = push_bit 8 (uint (body ! 0)) OR uint (body ! 1);
          height = push_bit 8 (uint (body ! 2)) OR uint (body ! 3);
          t1 = (if 0 < width then t\<lparr>tn_width := fst (clamp_terminal_size width (tn_height t))\<rparr> else t)
      in if 0 < height then t1\<lparr>tn_height := snd (clamp_terminal_size (tn_width t1) height)\<rparr> else t1)"

section \<open>Commands\<close>

text \<open>\<open>_read_subnegotiation_body\<close>: always under its time limit.\<close>

fun read_body :: "byte list \<Rightarrow> client_byte list \<Rightarrow> (byte list \<times> client_byte list) option" where
  "read_body body (Got b # s) =
     (if b = IAC then
        (case s of
           Got nxt # s' \<Rightarrow>
             if nxt = SE then Some (body, s')
             else if nxt = IAC then
               (if MAX_SUBNEGOTIATION_BODY < length (body @ [0xFF]) then None else read_body (body @ [0xFF]) s')
             else read_body body s'
         | _ \<Rightarrow> None)
      else if MAX_SUBNEGOTIATION_BODY < length (body @ [b]) then None
      else read_body (body @ [b]) s)"
| "read_body body _ = None"

definition act_on_subnegotiation :: "byte \<Rightarrow> byte list \<Rightarrow> telnet \<Rightarrow> telnet option" where
  "act_on_subnegotiation opt body t =
     (if opt = NAWS \<and> 4 \<le> length body then Some (on_naws body t)
      else if opt = TTYPE \<and> take 1 body = [TTYPE_IS]
      then on_terminal_type (clean_terminal_type (ascii_replaced (drop 1 body))) t
      else if opt = NEW_ENVIRON \<and> take 1 body = [NEW_ENVIRON_IS] then Some (on_new_environ (drop 1 body) t)
      else Some t)"

definition handle_subnegotiation :: "telnet \<Rightarrow> client_byte list \<Rightarrow> (telnet \<times> client_byte list) option" where
  "handle_subnegotiation t s =
     (case s of
        Got opt # s1 \<Rightarrow> do {
          (body, rest) \<leftarrow> read_body [] s1;
          t' \<leftarrow> act_on_subnegotiation opt body t;
          Some (t', rest)
        }
      | _ \<Rightarrow> None)"

text \<open>\<open>readexactly(1)\<close>: under a time limit, its end closes the session; without one nothing ends.\<close>

fun next_byte :: "bool \<Rightarrow> client_byte list \<Rightarrow> (byte \<times> client_byte list) option" where
  "next_byte limited [] = None"
| "next_byte limited (Got b # s) = Some (b, s)"
| "next_byte limited (Late # s) = (if limited then None else next_byte limited s)"

definition note_input :: "telnet \<Rightarrow> telnet" where
  "note_input t = t\<lparr>tn_noted := tn_noted t + 1\<rparr>"

definition interpret_byte :: "bool \<Rightarrow> byte \<Rightarrow> telnet \<Rightarrow> client_byte list \<Rightarrow> (byte option \<times> telnet \<times> client_byte list) option" where
  "interpret_byte limited b t s =
     (if b = IAC then do {
        (nxt, s1) \<leftarrow> next_byte limited s;
        if nxt = IAC then Some (Some 0xFF, note_input t, s1)
        else if nxt \<in> {WILL, WONT, DO, DONT} then do {
          (opt, s2) \<leftarrow> next_byte limited s1;
          t' \<leftarrow> (if opt = TTYPE then on_terminal_type_option nxt t else Some t);
          Some (None, t', s2)
        }
        else if nxt = SB then do {
          (t', s2) \<leftarrow> handle_subnegotiation t s1;
          Some (None, t', s2)
        }
        else Some (None, t, s1)
      }
      else Some (Some b, note_input t, s))"

section \<open>Reads\<close>

definition receive_byte :: "telnet \<Rightarrow> client_byte list \<Rightarrow> (byte option \<times> telnet \<times> client_byte list) option" where
  "receive_byte t s =
     (case tn_early t of
        b # early \<Rightarrow> Some (Some b, t\<lparr>tn_early := early\<rparr>, s)
      | [] \<Rightarrow> do { (b, s1) \<leftarrow> next_byte False s; interpret_byte False b t s1 })"

lemma next_byte_shorter: "next_byte l s = Some (b, s') \<Longrightarrow> length s' < length s"
  by (induction l s rule: next_byte.induct) (auto split: if_splits)

lemma read_body_shorter: "read_body body s = Some (b, s') \<Longrightarrow> length s' < length s"
proof (induction body s rule: read_body.induct)
  case (1 body b s)
  then show ?case by (auto split: if_splits list.splits client_byte.splits) fastforce+
qed simp_all

lemma handle_shorter: "handle_subnegotiation t s = Some (t', s') \<Longrightarrow> length s' < length s"
  by (auto simp: handle_subnegotiation_def bind_eq_Some_conv split: list.splits client_byte.splits prod.splits
      dest!: read_body_shorter)

lemma interpret_shorter: "interpret_byte l b t s = Some (v, t', s') \<Longrightarrow> length s' \<le> length s"
  unfolding interpret_byte_def
  by (auto simp: bind_eq_Some_conv split: if_splits prod.splits
      dest!: next_byte_shorter handle_shorter)

text \<open>The loop of \<open>_receive_byte_with_timeout\<close> once the early input is used up; \<open>None\<close> inside is "nothing in time".\<close>

function peek_loop :: "telnet \<Rightarrow> client_byte list \<Rightarrow> (byte option \<times> telnet \<times> client_byte list) option" where
  "peek_loop t [] = Some (None, t, [])"
| "peek_loop t (Late # s) = Some (None, t, s)"
| "peek_loop t (Got b # s) =
     (case interpret_byte True b t s of
        None \<Rightarrow> None
      | Some (Some v, t', s') \<Rightarrow> Some (Some v, t', s')
      | Some (None, t', s') \<Rightarrow> peek_loop t' s')"
  by pat_completeness auto
termination
  by (relation "measure (\<lambda>(t, s). length s)") (auto dest!: interpret_shorter)

definition receive_byte_with_timeout :: "telnet \<Rightarrow> client_byte list \<Rightarrow> (byte option \<times> telnet \<times> client_byte list) option" where
  "receive_byte_with_timeout t s =
     (case tn_early t of
        b # early \<Rightarrow> Some (Some b, t\<lparr>tn_early := early\<rparr>, s)
      | [] \<Rightarrow> peek_loop t s)"

section \<open>The negotiation at the start\<close>

function await_loop :: "telnet \<Rightarrow> client_byte list \<Rightarrow> (telnet \<times> client_byte list) option" where
  "await_loop t s =
     (if tn_ttype t = Done then Some (t, s)
      else case s of
        [] \<Rightarrow> None
      | Late # s1 \<Rightarrow> Some (t, s1)
      | Got b # s1 \<Rightarrow>
          (case interpret_byte True b t s1 of
             None \<Rightarrow> None
           | Some (Some v, t1, s2) \<Rightarrow>
               let t2 = t1\<lparr>tn_early := tn_early t1 @ [v]\<rparr>
               in if MAX_EARLY_INPUT \<le> length (tn_early t2) then Some (t2, s2) else await_loop t2 s2
           | Some (None, t1, s2) \<Rightarrow> await_loop t1 s2))"
  by pat_completeness auto
termination
  by (relation "measure (\<lambda>(t, s). length s)") (auto dest!: interpret_shorter)

declare await_loop.simps [simp del]

function answerback_loop :: "telnet \<Rightarrow> client_byte list \<Rightarrow> (telnet \<times> client_byte list) option" where
  "answerback_loop t s =
     (if \<not> (length (tn_early t) < MAX_EARLY_INPUT \<and> ends_inside_answerback (tn_early t)) then Some (t, s)
      else case s of
        [] \<Rightarrow> None
      | Late # s1 \<Rightarrow> Some (t, s1)
      | Got b # s1 \<Rightarrow>
          (case interpret_byte True b t s1 of
             None \<Rightarrow> None
           | Some (Some v, t1, s2) \<Rightarrow> answerback_loop (t1\<lparr>tn_early := tn_early t1 @ [v]\<rparr>) s2
           | Some (None, t1, s2) \<Rightarrow> answerback_loop t1 s2))"
  by pat_completeness auto
termination
  by (relation "measure (\<lambda>(t, s). length s)") (auto dest!: interpret_shorter)

declare answerback_loop.simps [simp del]

definition finish_answerback :: "telnet \<Rightarrow> client_byte list \<Rightarrow> (telnet \<times> client_byte list) option" where
  "finish_answerback t s = do {
     (t1, s1) \<leftarrow> answerback_loop t s;
     case take_answerback QUADRANTLESS_ANSWERBACKS (tn_early t1) of
       (None, _) \<Rightarrow> Some (t1, s1)
     | (Some answer, rest) \<Rightarrow>
         Some (t1\<lparr>tn_early := rest, tn_answerback := Some answer, tn_detected_quadrants := False,
                  tn_quadrants := False\<rparr>, s1)
   }"

definition await_terminal_type :: "telnet \<Rightarrow> client_byte list \<Rightarrow> (telnet \<times> client_byte list) option" where
  "await_terminal_type t s = do {
     (t1, s1) \<leftarrow> await_loop t s;
     (t2, s2) \<leftarrow> finish_answerback (t1\<lparr>tn_ttype := Done\<rparr>) s1;
     let (cs, certain) = classify_terminal_types (tn_types t2);
         c = (case cs of Some c \<Rightarrow> c | None \<Rightarrow> Ascii);
         t3 = t2\<lparr>tn_charset := c, tn_detected_charset := c, tn_certain := certain,
                 tn_wraps := terminal_wraps_immediately (tn_types t2)\<rparr>
     in Some (apply_terminal_colors (apply_terminal_truecolor t3), s2)
   }"

definition INITIAL_NEGOTIATION :: "byte list" where
  "INITIAL_NEGOTIATION =
     [IAC, WILL, SUPPRESS_GO_AHEAD, IAC, WILL, ECHO, IAC, DO, NAWS, IAC, DO, NEW_ENVIRON]
     @ [IAC, SB, NEW_ENVIRON, NEW_ENVIRON_SEND, NEW_ENVIRON_VAR] @ byte_text (u ''COLORTERM'') @ [IAC, SE]
     @ [IAC, WILL, BINARY, IAC, DO, BINARY, IAC, DO, TTYPE]"

definition negotiate_initial_options :: "telnet \<Rightarrow> client_byte list \<Rightarrow> (telnet \<times> client_byte list) option" where
  "negotiate_initial_options t s = do {
     t1 \<leftarrow> send_bytes (INITIAL_NEGOTIATION @ [5]) (t\<lparr>tn_ttype := Requested\<rparr>);
     await_terminal_type t1 s
   }"

end
