(* ===== verification/Telnet_Session.thy ===== *)
theory Telnet_Session
  imports Telnet
begin

text \<open>
  What a Telnet session makes of what a caller sends: the bytes a caller types arrive in order whatever
  commands lie between them; a window size is taken as it was reported; and no caller, however it
  behaves, makes the session hold more than a bounded state or send more than three requests.
\<close>

section \<open>What a caller can send\<close>

datatype item = Typed byte | Option byte byte | Plain byte | Sub byte "byte list" | Pause

fun sensible :: "item \<Rightarrow> bool" where
  "sensible (Option verb opt) \<longleftrightarrow> verb \<in> {WILL, WONT, DO, DONT}"
| "sensible (Plain c) \<longleftrightarrow> c \<notin> {IAC, WILL, WONT, DO, DONT, SB}"
| "sensible (Sub opt body) \<longleftrightarrow> length body \<le> MAX_SUBNEGOTIATION_BODY"
| "sensible _ \<longleftrightarrow> True"

fun wire :: "item \<Rightarrow> client_byte list" where
  "wire (Typed b) = map Got (escape_iac [b])"
| "wire (Option verb opt) = [Got IAC, Got verb, Got opt]"
| "wire (Plain c) = [Got IAC, Got c]"
| "wire (Sub opt body) = [Got IAC, Got SB, Got opt] @ map Got (escape_iac body @ [IAC, SE])"
| "wire Pause = [Late]"

definition wires :: "item list \<Rightarrow> client_byte list" where
  "wires items = concat (map wire items)"

fun typed :: "item \<Rightarrow> byte list" where
  "typed (Typed b) = [b]"
| "typed _ = []"

definition typed_by :: "item list \<Rightarrow> byte list" where
  "typed_by items = concat (map typed items)"

lemma wires_simps [simp]:
  "wires [] = []" "wires (i # is) = wire i @ wires is" "wires (xs @ ys) = wires xs @ wires ys"
  by (simp_all add: wires_def)

lemma typed_by_simps [simp]:
  "typed_by [] = []" "typed_by (i # is) = typed i @ typed_by is" "typed_by (xs @ ys) = typed_by xs @ typed_by ys"
  by (simp_all add: typed_by_def)

lemma escape_iac_simps [simp]:
  "escape_iac [] = []" "escape_iac (b # s) = (if b = IAC then [IAC, IAC] else [b]) @ escape_iac s"
  by (simp_all add: escape_iac_def)

lemma read_body_escaped:
  "length acc + length body \<le> MAX_SUBNEGOTIATION_BODY \<Longrightarrow>
    read_body acc (map Got (escape_iac body) @ Got IAC # Got SE # s) = Some (acc @ body, s)"
  by (induction body arbitrary: acc) auto

section \<open>One item\<close>

text \<open>Everything a command may change leaves the early input and the connection alone.\<close>

definition steady :: "telnet \<Rightarrow> telnet \<Rightarrow> bool" where
  "steady t t' \<longleftrightarrow> tn_early t' = tn_early t \<and> tn_broken t' = tn_broken t"

lemma steady_refl [simp]: "steady t t"
  by (simp add: steady_def)

lemma steady_trans: "steady t t1 \<Longrightarrow> steady t1 t2 \<Longrightarrow> steady t t2"
  by (simp add: steady_def)

lemma option_steady: "\<not> tn_broken t \<Longrightarrow> yields (on_terminal_type_option c t) (steady t)"
  by (simp add: on_terminal_type_option_def send_terminal_type_request_def send_bytes_def steady_def)

lemma terminal_type_steady: "\<not> tn_broken t \<Longrightarrow> yields (on_terminal_type name t) (steady t)"
  by (simp add: on_terminal_type_def send_terminal_type_request_def send_bytes_def steady_def Let_def)

lemma colors_steady [simp]: "steady t (apply_terminal_colors t)" "steady t (apply_terminal_truecolor t)"
  by (simp_all add: steady_def apply_terminal_colors_def apply_terminal_truecolor_def Let_def)

lemma naws_steady: "steady t (on_naws body t)"
  by (simp add: steady_def on_naws_def Let_def)

lemma new_environ_steady: "steady t (on_new_environ body t)"
  by (simp add: steady_def on_new_environ_def Let_def apply_terminal_colors_def apply_terminal_truecolor_def)

lemma subnegotiation_steady: "\<not> tn_broken t \<Longrightarrow> yields (act_on_subnegotiation opt body t) (steady t)"
  by (simp add: act_on_subnegotiation_def naws_steady new_environ_steady terminal_type_steady)

definition first_typed :: "item \<Rightarrow> byte option" where
  "first_typed i = (case i of Typed b \<Rightarrow> Some b | _ \<Rightarrow> None)"

lemma interpret_item:
  assumes "sensible i" "i \<noteq> Pause" "\<not> tn_broken t"
  obtains b w t' where "wire i = Got b # w" "interpret_byte l b t (w @ s) = Some (first_typed i, t', s)"
    "steady t t'"
proof (cases i)
  case (Typed b)
  then show thesis
    using that[of b "[]" "note_input t"] that[of b "[Got IAC]" "note_input t"]
    by (cases "b = IAC") (auto simp: interpret_byte_def first_typed_def note_input_def steady_def)
next
  case (Option verb opt)
  obtain t' where "on_terminal_type_option verb t = Some t'" "steady t t'"
    using option_steady[OF assms(3), of verb] by (auto simp: yields_ex)
  then show thesis
    using that[of IAC "[Got verb, Got opt]" "if opt = TTYPE then t' else t"] assms(1) Option
    by (auto simp: interpret_byte_def first_typed_def)
next
  case (Plain c)
  then show thesis
    using that[of IAC "[Got c]" t] assms(1) by (auto simp: interpret_byte_def first_typed_def)
next
  case (Sub opt body)
  obtain t' where "act_on_subnegotiation opt body t = Some t'" "steady t t'"
    using subnegotiation_steady[OF assms(3), of opt body] by (auto simp: yields_ex)
  then show thesis
    using that[of IAC "Got SB # Got opt # map Got (escape_iac body @ [IAC, SE])" t'] assms(1) Sub
      read_body_escaped[of "[]" body s]
    by (auto simp: interpret_byte_def handle_subnegotiation_def first_typed_def)
qed (use assms in simp)

section \<open>Reading all that comes\<close>

lemma receive_early:
  "receive_byte t s = Some (v, t', s') \<Longrightarrow>
    tn_early t = [] \<and> length s' < length s \<or> tn_early t \<noteq> [] \<and> length (tn_early t') < length (tn_early t) \<and> s' = s"
  by (auto simp: receive_byte_def bind_eq_Some_conv split: list.splits
      dest!: next_byte_shorter interpret_shorter)

text \<open>A caller of \<open>read_byte\<close> asks again after a command; \<open>drain\<close> is what it gets until the connection ends.\<close>

function drain :: "telnet \<Rightarrow> client_byte list \<Rightarrow> byte list" where
  "drain t s =
     (case receive_byte t s of
        None \<Rightarrow> []
      | Some (Some b, t', s') \<Rightarrow> b # drain t' s'
      | Some (None, t', s') \<Rightarrow> drain t' s')"
  by pat_completeness auto
termination
  by (relation "(\<lambda>(t, s). length s) <*mlex*> measure (\<lambda>(t, s). length (tn_early t))")
    (auto intro: wf_mlex mlex_less mlex_leq dest!: receive_early)

declare drain.simps [simp del]

lemma drain_early: "drain t s = tn_early t @ drain (t\<lparr>tn_early := []\<rparr>) s"
proof (induction "tn_early t" arbitrary: t)
  case (Cons b early)
  have "drain t s = b # drain (t\<lparr>tn_early := early\<rparr>) s"
    using Cons(2) by (subst drain.simps) (simp add: receive_byte_def flip: Cons(2))
  then show ?case using Cons(1)[of "t\<lparr>tn_early := early\<rparr>"] Cons(2) by (simp flip: Cons(2))
qed (metis append_Nil telnet.surjective telnet.update_convs(8))

lemma drain_items:
  "list_all sensible items \<Longrightarrow> \<not> tn_broken t \<Longrightarrow> tn_early t = [] \<Longrightarrow> drain t (wires items) = typed_by items"
proof (induction items arbitrary: t)
  case Nil
  then show ?case by (subst drain.simps) (simp add: receive_byte_def)
next
  case (Cons i items)
  show ?case
  proof (cases "i = Pause")
    case True
    have "receive_byte t (Late # s) = receive_byte t s" for s
      using Cons.prems(3) by (simp add: receive_byte_def)
    then have "drain t (Late # wires items) = drain t (wires items)"
      by (subst (1 2) drain.simps) simp
    then show ?thesis using Cons True by simp
  next
    case False
    obtain b w t' where i: "wire i = Got b # w"
        "interpret_byte False b t (w @ wires items) = Some (first_typed i, t', wires items)" "steady t t'"
      using interpret_item[of i t False "wires items"] Cons.prems False by auto
    then have "receive_byte t (wire i @ wires items) = Some (first_typed i, t', wires items)"
      using Cons.prems(3) by (simp add: receive_byte_def)
    moreover have "drain t' (wires items) = typed_by items"
      using Cons i(3) by (intro Cons.IH) (auto simp: steady_def)
    ultimately show ?thesis
      by (subst drain.simps) (cases i; simp add: first_typed_def)
  qed
qed

section \<open>The negotiation keeps what is typed\<close>

text \<open>A loop of the negotiation stops between two items, and the early input holds what it passed.\<close>

definition stopped_at :: "telnet \<Rightarrow> item list \<Rightarrow> telnet \<times> client_byte list \<Rightarrow> bool" where
  "stopped_at t items r \<longleftrightarrow> (\<exists>xs ys. items = xs @ ys \<and> snd r = wires ys \<and> count_list xs Pause \<le> 1 \<and>
     tn_early (fst r) = tn_early t @ typed_by xs \<and> tn_broken (fst r) = tn_broken t)"

lemma stopped_here: "stopped_at t items (t, wires items)"
  unfolding stopped_at_def by (rule exI[of _ "[]"], rule exI[of _ items]) simp

lemma stopped_pause: "stopped_at t (Pause # items) (t, wires items)"
  unfolding stopped_at_def by (rule exI[of _ "[Pause]"], rule exI[of _ items]) simp

lemma stopped_after:
  assumes "stopped_at t1 items r" "tn_early t1 = tn_early t @ typed i" "tn_broken t1 = tn_broken t" "i \<noteq> Pause"
  shows "stopped_at t (i # items) r"
proof -
  obtain xs ys where "items = xs @ ys" "snd r = wires ys" "tn_early (fst r) = tn_early t1 @ typed_by xs"
      "tn_broken (fst r) = tn_broken t1" "count_list xs Pause \<le> 1"
    using assms(1) by (auto simp: stopped_at_def)
  then show ?thesis
    using assms(2-4) unfolding stopped_at_def by (intro exI[of _ "i # xs"] exI[of _ ys]) simp
qed

lemma await_loop_stops:
  "list_all sensible items \<Longrightarrow> \<not> tn_broken t \<Longrightarrow> Pause \<in> set items \<Longrightarrow>
    yields (await_loop t (wires items)) (stopped_at t items)"
proof (induction items arbitrary: t)
  case (Cons i items)
  show ?case
  proof (cases "tn_ttype t = Done \<or> i = Pause")
    case True
    then show ?thesis
      using stopped_here[of t "i # items"] stopped_pause[of t items] by (subst await_loop.simps) auto
  next
    case False
    then obtain b w t' where i: "wire i = Got b # w"
        "interpret_byte True b t (w @ wires items) = Some (first_typed i, t', wires items)" "steady t t'"
      using interpret_item[of i t True "wires items"] Cons.prems by auto
    define t1 where "t1 = (case first_typed i of Some v \<Rightarrow> t'\<lparr>tn_early := tn_early t' @ [v]\<rparr> | None \<Rightarrow> t')"
    have t1: "tn_early t1 = tn_early t @ typed i" "tn_broken t1 = tn_broken t"
      using i(3) by (cases i; simp add: t1_def first_typed_def steady_def)+
    have "yields (await_loop t1 (wires items)) (stopped_at t1 items)"
      using Cons.prems t1(2) False by (intro Cons.IH) auto
    then have "yields (await_loop t1 (wires items)) (stopped_at t (i # items))"
      by (rule yields_mono) (use stopped_after[OF _ t1] False in blast)
    moreover have "stopped_at t (i # items) (t1, wires items)"
      using stopped_after[OF stopped_here t1] False by blast
    ultimately show ?thesis
      using False i(1,2) by (subst await_loop.simps) (cases "first_typed i"; simp add: t1_def Let_def)
  qed
qed simp

lemma answerback_loop_stops:
  "list_all sensible items \<Longrightarrow> \<not> tn_broken t \<Longrightarrow> Pause \<in> set items \<Longrightarrow>
    yields (answerback_loop t (wires items)) (stopped_at t items)"
proof (induction items arbitrary: t)
  case (Cons i items)
  show ?case
  proof (cases "\<not> (length (tn_early t) < MAX_EARLY_INPUT \<and> ends_inside_answerback (tn_early t)) \<or> i = Pause")
    case True
    then show ?thesis
      using stopped_here[of t "i # items"] stopped_pause[of t items] by (subst answerback_loop.simps) auto
  next
    case False
    then obtain b w t' where i: "wire i = Got b # w"
        "interpret_byte True b t (w @ wires items) = Some (first_typed i, t', wires items)" "steady t t'"
      using interpret_item[of i t True "wires items"] Cons.prems by auto
    define t1 where "t1 = (case first_typed i of Some v \<Rightarrow> t'\<lparr>tn_early := tn_early t' @ [v]\<rparr> | None \<Rightarrow> t')"
    have t1: "tn_early t1 = tn_early t @ typed i" "tn_broken t1 = tn_broken t"
      using i(3) by (cases i; simp add: t1_def first_typed_def steady_def)+
    have "yields (answerback_loop t1 (wires items)) (stopped_at t1 items)"
      using Cons.prems t1(2) False by (intro Cons.IH) auto
    then have "yields (answerback_loop t1 (wires items)) (stopped_at t (i # items))"
      by (rule yields_mono) (use stopped_after[OF _ t1] False in blast)
    then show ?thesis
      using False i(1,2,3) by (subst answerback_loop.simps) (cases "first_typed i"; simp add: t1_def steady_def)
  qed
qed simp

lemma finish_answerback_early:
  assumes "answerback_loop t s = Some (t1, s1)"
  shows "\<exists>t2. finish_answerback t s = Some (t2, s1) \<and> tn_broken t2 = tn_broken t1 \<and>
    tn_early t2 = snd (take_answerback QUADRANTLESS_ANSWERBACKS (tn_early t1))"
proof (cases "take_answerback QUADRANTLESS_ANSWERBACKS (tn_early t1)")
  case (Pair answer rest)
  then show ?thesis
    using assms by (cases answer) (auto simp: finish_answerback_def QUADRANTLESS_ANSWERBACKS_def split: option.splits)
qed

lemma negotiation_stops:
  assumes "list_all sensible items" "2 \<le> count_list items Pause" "\<not> tn_broken t" "tn_early t = []"
  obtains t' xs ys where "negotiate_initial_options t (wires items) = Some (t', wires ys)" "items = xs @ ys"
    "tn_early t' = snd (take_answerback QUADRANTLESS_ANSWERBACKS (typed_by xs))" "\<not> tn_broken t'"
proof -
  define t0 where "t0 = t\<lparr>tn_ttype := Requested, tn_sent := tn_sent t @ INITIAL_NEGOTIATION @ [5]\<rparr>"
  have t0: "send_bytes (INITIAL_NEGOTIATION @ [5]) (t\<lparr>tn_ttype := Requested\<rparr>) = Some t0"
    "\<not> tn_broken t0" "tn_early t0 = []"
    using assms(3,4) by (simp_all add: send_bytes_def t0_def)
  have "Pause \<in> set items" using assms(2) by (metis count_list_0_iff not_numeral_le_zero)
  then obtain t1 xs1 ys1 where 1: "await_loop t0 (wires items) = Some (t1, wires ys1)" "items = xs1 @ ys1"
      "count_list xs1 Pause \<le> 1" "tn_early t1 = typed_by xs1" "\<not> tn_broken t1"
    using await_loop_stops[OF assms(1) t0(2)] t0(2,3) by (auto simp: yields_ex stopped_at_def)
  have "count_list ys1 Pause \<noteq> 0" using 1(2,3) assms(2) by simp
  then have "Pause \<in> set ys1" "list_all sensible ys1"
    using 1(2) assms(1) by (auto simp: count_list_0_iff)
  then obtain t2 xs2 ys2 where 2: "answerback_loop (t1\<lparr>tn_ttype := Done\<rparr>) (wires ys1) = Some (t2, wires ys2)"
      "ys1 = xs2 @ ys2" "tn_early t2 = typed_by xs1 @ typed_by xs2" "\<not> tn_broken t2"
    using answerback_loop_stops[of ys1 "t1\<lparr>tn_ttype := Done\<rparr>"] 1(4,5) by (auto simp: yields_ex stopped_at_def)
  obtain t3 where 3: "finish_answerback (t1\<lparr>tn_ttype := Done\<rparr>) (wires ys1) = Some (t3, wires ys2)"
      "\<not> tn_broken t3" "tn_early t3 = snd (take_answerback QUADRANTLESS_ANSWERBACKS (typed_by (xs1 @ xs2)))"
    using finish_answerback_early[OF 2(1)] 2(3,4) by auto
  obtain cs certain where c: "classify_terminal_types (tn_types t3) = (cs, certain)"
    by (cases "classify_terminal_types (tn_types t3)")
  have "\<exists>t'. negotiate_initial_options t (wires items) = Some (t', wires ys2) \<and> steady t3 t'"
    by (simp add: negotiate_initial_options_def t0(1) await_terminal_type_def 1(1) 3(1) c Let_def
        steady_def apply_terminal_colors_def apply_terminal_truecolor_def)
  then show thesis
    using that[of _ ys2 "xs1 @ xs2"] 1(2) 2(2) 3(2,3) by (auto simp: steady_def)
qed

section \<open>A bounded session\<close>

definition shown_name :: "ustr \<Rightarrow> bool" where
  "shown_name n \<longleftrightarrow> n \<noteq> [] \<and> length n \<le> 40 \<and> list_all (\<lambda>c. 32 \<le> c \<and> c \<le> 126) n"

definition terminal_names_ok :: "ustr list \<Rightarrow> bool" where
  "terminal_names_ok ns \<longleftrightarrow> length ns \<le> 3 \<and> distinct (map lower ns) \<and> list_all shown_name ns"

definition size_ok :: "telnet \<Rightarrow> bool" where
  "size_ok t \<longleftrightarrow> 1 \<le> tn_width t \<and> tn_width t \<le> 500 \<and> 1 \<le> tn_height t \<and> tn_height t \<le> 200"

text \<open>At most three requests of six bytes follow the \<open>n\<close> bytes of the opening.\<close>

definition requests_ok :: "nat \<Rightarrow> telnet \<Rightarrow> bool" where
  "requests_ok n t \<longleftrightarrow> length (tn_sent t) \<le> n + 18 \<and>
     (tn_ttype t = Requested \<longrightarrow> tn_types t = [] \<and> length (tn_sent t) \<le> n) \<and>
     (tn_ttype t = Asking \<longrightarrow> length (tn_types t) < 3 \<and> length (tn_sent t) \<le> n + 6 * (length (tn_types t) + 1))"

definition telnet_ok :: "nat \<Rightarrow> telnet \<Rightarrow> bool" where
  "telnet_ok n t \<longleftrightarrow> terminal_names_ok (tn_types t) \<and> size_ok t \<and> requests_ok n t"

lemma strip_bounds: "length (py_strip sp s) \<le> length s" "set (py_strip sp s) \<subseteq> set s"
  using length_dropWhile_le[of sp s] length_dropWhile_le[of sp "rev (dropWhile sp s)"]
  by (auto simp: py_strip_def py_rstrip_def py_lstrip_def dest!: set_dropWhileD)

lemma clean_shown: "clean_terminal_type raw \<noteq> [] \<Longrightarrow> shown_name (clean_terminal_type raw)"
  using strip_bounds(2)[of ascii_space "filter (\<lambda>c. 32 \<le> c \<and> c \<le> 126) raw"]
  by (auto simp: shown_name_def clean_terminal_type_def MAX_TERMINAL_TYPE_LENGTH_def list_all_iff
      dest!: in_set_takeD)

lemma option_ok: "on_terminal_type_option c t = Some t' \<Longrightarrow> telnet_ok n t \<Longrightarrow> telnet_ok n t'"
  by (auto simp: on_terminal_type_option_def send_terminal_type_request_def send_bytes_def telnet_ok_def
      terminal_names_ok_def size_ok_def requests_ok_def split: if_splits)

lemma terminal_type_ok:
  assumes "on_terminal_type (clean_terminal_type raw) t = Some t'" "telnet_ok n t"
  shows "telnet_ok n t'"
  using assms clean_shown[of raw]
  by (auto simp: on_terminal_type_def send_terminal_type_request_def send_bytes_def telnet_ok_def Let_def
      terminal_names_ok_def size_ok_def requests_ok_def MAX_TERMINAL_TYPES_def split: if_splits)

lemma new_environ_ok: "telnet_ok n t \<Longrightarrow> telnet_ok n (on_new_environ body t)"
  by (simp add: on_new_environ_def Let_def apply_terminal_colors_def apply_terminal_truecolor_def
      telnet_ok_def size_ok_def requests_ok_def)

lemma naws_ok: "telnet_ok n t \<Longrightarrow> telnet_ok n (on_naws body t)"
  by (simp add: on_naws_def Let_def telnet_ok_def size_ok_def requests_ok_def clamp_terminal_size_def
      MAX_TERMINAL_WIDTH_def MAX_TERMINAL_HEIGHT_def)

lemma act_ok: "act_on_subnegotiation opt body t = Some t' \<Longrightarrow> telnet_ok n t \<Longrightarrow> telnet_ok n t'"
  by (auto simp: act_on_subnegotiation_def naws_ok new_environ_ok terminal_type_ok split: if_splits)

lemma act_early: "act_on_subnegotiation opt body t = Some t' \<Longrightarrow> tn_early t' = tn_early t"
  by (auto simp: act_on_subnegotiation_def on_naws_def on_new_environ_def on_terminal_type_def
      send_terminal_type_request_def send_bytes_def Let_def apply_terminal_colors_def
      apply_terminal_truecolor_def split: if_splits)

lemma option_early: "on_terminal_type_option c t = Some t' \<Longrightarrow> tn_early t' = tn_early t"
  by (auto simp: on_terminal_type_option_def send_terminal_type_request_def send_bytes_def split: if_splits)

lemma interpret_ok:
  "interpret_byte l b t s = Some (v, t', s') \<Longrightarrow> telnet_ok n t \<Longrightarrow> telnet_ok n t' \<and> tn_early t' = tn_early t"
  by (auto simp: interpret_byte_def bind_eq_Some_conv handle_subnegotiation_def note_input_def
      telnet_ok_def[of n "t\<lparr>tn_noted := Suc (tn_noted t)\<rparr>"] size_ok_def requests_ok_def
      split: if_splits list.splits client_byte.splits
      dest: option_ok option_early act_ok act_early)
    (auto simp: telnet_ok_def size_ok_def requests_ok_def)

lemma ok_early: "telnet_ok n (t\<lparr>tn_early := e\<rparr>) \<longleftrightarrow> telnet_ok n t"
  by (simp add: telnet_ok_def size_ok_def requests_ok_def)

lemma await_loop_ok:
  "await_loop t s = Some (t', s') \<Longrightarrow> telnet_ok n t \<Longrightarrow> length (tn_early t) < MAX_EARLY_INPUT \<Longrightarrow>
    telnet_ok n t' \<and> length (tn_early t') \<le> MAX_EARLY_INPUT"
proof (induction "length s" arbitrary: t s rule: less_induct)
  case less
  show ?case
  proof (cases "tn_ttype t = Done \<or> (\<exists>s1. s = [] \<or> s = Late # s1)")
    case True
    then show ?thesis using less.prems by (subst (asm) await_loop.simps) (auto split: if_splits)
  next
    case False
    then obtain b s1 where s: "s = Got b # s1"
      by (metis client_byte.exhaust neq_Nil_conv)
    then obtain v t1 s2 where i: "interpret_byte True b t s1 = Some (v, t1, s2)"
      using less.prems(1) False by (subst (asm) await_loop.simps) (auto split: option.splits)
    note k = interpret_ok[OF i less.prems(2)]
    have IH: "await_loop x s2 = Some (t', s') \<Longrightarrow> telnet_ok n x \<Longrightarrow> length (tn_early x) < MAX_EARLY_INPUT \<Longrightarrow>
        telnet_ok n t' \<and> length (tn_early t') \<le> MAX_EARLY_INPUT" for x
      using less.hyps[of s2 x] interpret_shorter[OF i] s by simp
    show ?thesis
    proof (cases v)
      case None
      then have "await_loop t1 s2 = Some (t', s')"
        using less.prems(1) False i s by (subst (asm) await_loop.simps) simp
      then show ?thesis using IH[of t1] k less.prems(3) by simp
    next
      case (Some c)
      then have "(if MAX_EARLY_INPUT \<le> length (tn_early t1 @ [c]) then Some (t1\<lparr>tn_early := tn_early t1 @ [c]\<rparr>, s2)
          else await_loop (t1\<lparr>tn_early := tn_early t1 @ [c]\<rparr>) s2) = Some (t', s')"
        using less.prems(1) False i s by (subst (asm) await_loop.simps) (simp add: Let_def)
      then show ?thesis
        using IH[of "t1\<lparr>tn_early := tn_early t1 @ [c]\<rparr>"] k less.prems(3)
        by (auto simp: ok_early split: if_splits)
    qed
  qed
qed

lemma answerback_loop_ok:
  "answerback_loop t s = Some (t', s') \<Longrightarrow> telnet_ok n t \<Longrightarrow> length (tn_early t) \<le> MAX_EARLY_INPUT \<Longrightarrow>
    telnet_ok n t' \<and> length (tn_early t') \<le> MAX_EARLY_INPUT"
proof (induction "length s" arbitrary: t s rule: less_induct)
  case less
  show ?case
  proof (cases "\<not> (length (tn_early t) < MAX_EARLY_INPUT \<and> ends_inside_answerback (tn_early t))
      \<or> (\<exists>s1. s = [] \<or> s = Late # s1)")
    case True
    then show ?thesis using less.prems by (subst (asm) answerback_loop.simps) (auto split: if_splits)
  next
    case False
    then obtain b s1 where s: "s = Got b # s1"
      by (metis client_byte.exhaust neq_Nil_conv)
    then obtain v t1 s2 where i: "interpret_byte True b t s1 = Some (v, t1, s2)"
      using less.prems(1) False by (subst (asm) answerback_loop.simps) (auto split: option.splits)
    note k = interpret_ok[OF i less.prems(2)]
    have IH: "answerback_loop x s2 = Some (t', s') \<Longrightarrow> telnet_ok n x \<Longrightarrow> length (tn_early x) \<le> MAX_EARLY_INPUT \<Longrightarrow>
        telnet_ok n t' \<and> length (tn_early t') \<le> MAX_EARLY_INPUT" for x
      using less.hyps[of s2 x] interpret_shorter[OF i] s by simp
    have "(case v of None \<Rightarrow> answerback_loop t1 s2
        | Some c \<Rightarrow> answerback_loop (t1\<lparr>tn_early := tn_early t1 @ [c]\<rparr>) s2) = Some (t', s')"
      using less.prems(1) False i s by (subst (asm) answerback_loop.simps) (simp split: option.splits)
    then show ?thesis
      using IH[of t1] IH[of "t1\<lparr>tn_early := tn_early t1 @ [the v]\<rparr>"] k False
      by (cases v) (auto simp: ok_early)
  qed
qed

lemma peek_loop_ok:
  "peek_loop t s = Some (v, t', s') \<Longrightarrow> telnet_ok n t \<Longrightarrow> telnet_ok n t' \<and> tn_early t' = tn_early t"
proof (induction t s rule: peek_loop.induct)
  case (3 t b s)
  then obtain v1 t1 s1 where i: "interpret_byte True b t s = Some (v1, t1, s1)"
    by (auto split: option.splits)
  note k = interpret_ok[OF i "3.prems"(2)]
  show ?case
  proof (cases v1)
    case None
    then show ?thesis using "3.IH"[OF i] "3.prems"(1) i k by simp
  next
    case (Some c)
    then show ?thesis using "3.prems"(1) i k by simp
  qed
qed auto

lemma take_answerback_length: "length (snd (take_answerback ks data)) \<le> length data"
  by (induction ks) (auto split: option.splits)

lemma finish_answerback_ok:
  assumes "finish_answerback t s = Some (t2, s2)" "telnet_ok n t" "length (tn_early t) \<le> MAX_EARLY_INPUT"
  shows "telnet_ok n t2 \<and> length (tn_early t2) \<le> MAX_EARLY_INPUT"
proof -
  obtain t1 s1 where 1: "answerback_loop t s = Some (t1, s1)"
    using assms(1) by (auto simp: finish_answerback_def bind_eq_Some_conv)
  note ok = answerback_loop_ok[OF 1 assms(2,3)]
  obtain answer rest where p: "take_answerback QUADRANTLESS_ANSWERBACKS (tn_early t1) = (answer, rest)"
    by (cases "take_answerback QUADRANTLESS_ANSWERBACKS (tn_early t1)")
  have "length rest \<le> MAX_EARLY_INPUT"
    using take_answerback_length[of QUADRANTLESS_ANSWERBACKS "tn_early t1"] p ok by simp
  then show ?thesis
    using assms(1) 1 ok p
    by (cases answer) (auto simp: finish_answerback_def telnet_ok_def size_ok_def requests_ok_def)
qed

lemma colors_ok:
  "telnet_ok n (apply_terminal_colors t) = telnet_ok n t" "telnet_ok n (apply_terminal_truecolor t) = telnet_ok n t"
  "tn_early (apply_terminal_colors t) = tn_early t" "tn_early (apply_terminal_truecolor t) = tn_early t"
  by (simp_all add: apply_terminal_colors_def apply_terminal_truecolor_def Let_def telnet_ok_def
      size_ok_def requests_ok_def)

lemma negotiation_ok:
  assumes "negotiate_initial_options new_telnet s = Some (t, s')"
  shows "telnet_ok (length (INITIAL_NEGOTIATION @ [5])) t \<and> length (tn_early t) \<le> MAX_EARLY_INPUT"
proof -
  let ?n = "length (INITIAL_NEGOTIATION @ [5])"
  let ?t0 = "new_telnet\<lparr>tn_ttype := Requested, tn_sent := INITIAL_NEGOTIATION @ [5]\<rparr>"
  have t0: "telnet_ok ?n ?t0" "length (tn_early ?t0) < MAX_EARLY_INPUT"
    by (simp_all add: telnet_ok_def terminal_names_ok_def size_ok_def requests_ok_def new_telnet_def MAX_EARLY_INPUT_def)
  have "send_bytes (INITIAL_NEGOTIATION @ [5]) (new_telnet\<lparr>tn_ttype := Requested\<rparr>) = Some ?t0"
    by (simp add: send_bytes_def new_telnet_def)
  then have n: "await_terminal_type ?t0 s = Some (t, s')"
    using assms by (simp add: negotiate_initial_options_def)
  then obtain t1 s1 where 1: "await_loop ?t0 s = Some (t1, s1)"
    by (auto simp: await_terminal_type_def bind_eq_Some_conv)
  then obtain t2 s2 where 2: "finish_answerback (t1\<lparr>tn_ttype := Done\<rparr>) s1 = Some (t2, s2)"
    using n by (auto simp: await_terminal_type_def bind_eq_Some_conv)
  note a = await_loop_ok[OF 1 t0]
  have "telnet_ok ?n (t1\<lparr>tn_ttype := Done\<rparr>)"
    using a by (auto simp: telnet_ok_def size_ok_def requests_ok_def)
  then have b: "telnet_ok ?n t2 \<and> length (tn_early t2) \<le> MAX_EARLY_INPUT"
    using finish_answerback_ok[OF 2] a by simp
  obtain cs certain where c: "classify_terminal_types (tn_types t2) = (cs, certain)"
    by (cases "classify_terminal_types (tn_types t2)")
  have "telnet_ok ?n (t2\<lparr>tn_charset := x, tn_detected_charset := x, tn_certain := y, tn_wraps := z\<rparr>)" for x y z
    using b by (simp add: telnet_ok_def size_ok_def requests_ok_def)
  then show ?thesis
    using n b c by (auto simp: await_terminal_type_def 1 2 Let_def colors_ok)
qed

text \<open>The reads of a session: \<open>read_byte\<close> or a bounded peek, as often and in what order it likes.\<close>

datatype read = Read | Peek

fun run_reads :: "read list \<Rightarrow> telnet \<Rightarrow> client_byte list \<Rightarrow> (telnet \<times> client_byte list) option" where
  "run_reads [] t s = Some (t, s)"
| "run_reads (r # rs) t s =
     (case (case r of Read \<Rightarrow> receive_byte t s | Peek \<Rightarrow> receive_byte_with_timeout t s) of
        None \<Rightarrow> None
      | Some (_, t', s') \<Rightarrow> run_reads rs t' s')"

lemma read_ok:
  assumes "(case r of Read \<Rightarrow> receive_byte t s | Peek \<Rightarrow> receive_byte_with_timeout t s) = Some (v, t', s')"
    and "telnet_ok n t"
  shows "telnet_ok n t' \<and> length (tn_early t') \<le> length (tn_early t)"
  using assms
  by (auto simp: receive_byte_def receive_byte_with_timeout_def bind_eq_Some_conv ok_early
      split: read.splits list.splits dest!: interpret_ok peek_loop_ok)

lemma run_reads_ok:
  "run_reads rs t s = Some (t', s') \<Longrightarrow> telnet_ok n t \<Longrightarrow> length (tn_early t) \<le> m \<Longrightarrow>
    telnet_ok n t' \<and> length (tn_early t') \<le> m"
proof (induction rs arbitrary: t s)
  case (Cons r rs)
  then obtain v t1 s1 where r: "(case r of Read \<Rightarrow> receive_byte t s | Peek \<Rightarrow> receive_byte_with_timeout t s) = Some (v, t1, s1)"
    by (auto split: option.splits)
  then show ?case using read_ok[OF r Cons.prems(2)] Cons by fastforce
qed simp

section \<open>Properties\<close>

text \<open>
  C16: What a caller types reaches the session: through any mixture of typed bytes, option commands,
  other commands and subnegotiations, before and after the first screen, every typed byte is
  delivered once and in order, a doubled 255 as one 255; only a terminal's known answerback is taken
  out of what came before the first screen.
\<close>

theorem telnet_delivers_what_is_typed:
  assumes "list_all sensible items" and "2 \<le> count_list items Pause"
  shows "\<exists>t s before later. negotiate_initial_options new_telnet (wires items) = Some (t, s) \<and>
    typed_by items = before @ later \<and>
    drain t s = snd (take_answerback QUADRANTLESS_ANSWERBACKS before) @ later"
proof -
  obtain t xs ys where n: "negotiate_initial_options new_telnet (wires items) = Some (t, wires ys)"
      "items = xs @ ys" "tn_early t = snd (take_answerback QUADRANTLESS_ANSWERBACKS (typed_by xs))" "\<not> tn_broken t"
    by (rule negotiation_stops[OF assms, of new_telnet]) (simp_all add: new_telnet_def)
  have "drain (t\<lparr>tn_early := []\<rparr>) (wires ys) = typed_by ys"
    using assms(1) n(2,4) by (intro drain_items) simp_all
  then show ?thesis
    using n drain_early[of t "wires ys"] by (intro exI[of _ t] exI[of _ "wires ys"] exI[of _ "typed_by xs"]
        exI[of _ "typed_by ys"]) simp
qed

theorem telnet_delivers_what_is_typed_witness:
  "\<exists>t s before later. negotiate_initial_options new_telnet
      (wires [Typed 255, Sub NAWS [0, 80, 0, 24], Pause, Typed 65, Option DO ECHO, Pause, Plain 241, Typed 66]) = Some (t, s) \<and>
    typed_by [Typed 255, Sub NAWS [0, 80, 0, 24], Pause, Typed 65, Option DO ECHO, Pause, Plain 241, Typed 66] = before @ later \<and>
    drain t s = snd (take_answerback QUADRANTLESS_ANSWERBACKS before) @ later"
  by (rule telnet_delivers_what_is_typed) (simp_all add: MAX_SUBNEGOTIATION_BODY_def)

text \<open>
  C17: No caller can make a session hold more than a bounded state: whatever bytes arrive, cut by
  timeouts anywhere, after the negotiation and any reads the window is 1 to 500 columns by 1 to 200
  rows, the terminal names are at most three, different, printable and at most 40 characters long, at
  most 1024 early keystrokes wait, and at most three requests have followed the opening.
\<close>

theorem telnet_session_bounded:
  assumes "negotiate_initial_options new_telnet s = Some (t, s1)" and "run_reads reads t s1 = Some (t', s2)"
  shows "1 \<le> tn_width t' \<and> tn_width t' \<le> 500 \<and> 1 \<le> tn_height t' \<and> tn_height t' \<le> 200 \<and>
    length (tn_types t') \<le> 3 \<and> distinct (map lower (tn_types t')) \<and>
    list_all (\<lambda>n. n \<noteq> [] \<and> length n \<le> 40 \<and> list_all (\<lambda>c. 32 \<le> c \<and> c \<le> 126) n) (tn_types t') \<and>
    length (tn_early t') \<le> 1024 \<and> length (tn_sent t') \<le> length (INITIAL_NEGOTIATION @ [5]) + 3 * 6"
proof -
  have "telnet_ok (length (INITIAL_NEGOTIATION @ [5])) t' \<and> length (tn_early t') \<le> 1024"
    using negotiation_ok[OF assms(1)] by (intro run_reads_ok[OF assms(2)]) (simp_all add: MAX_EARLY_INPUT_def)
  then show ?thesis
    by (auto simp: telnet_ok_def terminal_names_ok_def size_ok_def requests_ok_def shown_name_def list_all_iff)
qed

theorem telnet_session_bounded_witness:
  "let (t, s1) = the (negotiate_initial_options new_telnet [Late]); (t', s2) = the (run_reads [] t s1) in
     1 \<le> tn_width t' \<and> tn_width t' \<le> 500 \<and> 1 \<le> tn_height t' \<and> tn_height t' \<le> 200 \<and>
     length (tn_types t') \<le> 3 \<and> distinct (map lower (tn_types t')) \<and>
     list_all (\<lambda>n. n \<noteq> [] \<and> length n \<le> 40 \<and> list_all (\<lambda>c. 32 \<le> c \<and> c \<le> 126) n) (tn_types t') \<and>
     length (tn_early t') \<le> 1024 \<and> length (tn_sent t') \<le> length (INITIAL_NEGOTIATION @ [5]) + 3 * 6"
proof -
  have "\<exists>t s1. negotiate_initial_options new_telnet [Late] = Some (t, s1)"
    by (simp add: negotiate_initial_options_def send_bytes_def new_telnet_def await_terminal_type_def
        await_loop.simps answerback_loop.simps finish_answerback_def ends_inside_answerback_def
        QUADRANTLESS_ANSWERBACKS_def byte_text_def upt_rec Let_def)
  then show ?thesis
    using telnet_session_bounded[of "[Late]" _ _ "[]"] by auto
qed

section \<open>Window sizes\<close>

definition naws_report :: "int \<Rightarrow> int \<Rightarrow> byte list" where
  "naws_report w h = [IAC, SB, NAWS]
     @ escape_iac [of_int (w div 256), of_int (w mod 256), of_int (h div 256), of_int (h mod 256)] @ [IAC, SE]"

lemma uint_small: "0 \<le> x \<Longrightarrow> x < 256 \<Longrightarrow> uint (of_int x :: byte) = x"
  by (simp add: unsigned_of_int take_bit_eq_mod)

lemma two_bytes:
  assumes "0 \<le> w" "w < 65536"
  shows "push_bit 8 (uint (of_int (w div 256) :: byte)) OR uint (of_int (w mod 256) :: byte) = w"
proof -
  have "uint (of_int (w div 256) :: byte) = w div 256" "uint (of_int (w mod 256) :: byte) = w mod 256"
    using assms by (intro uint_small; linarith)+
  then have "push_bit 8 (uint (of_int (w div 256) :: byte)) OR uint (of_int (w mod 256) :: byte)
      = concat_bit 8 w (w div 256)"
    by (simp add: concat_bit_def take_bit_eq_mod or.commute)
  also have "\<dots> = w mod 256 + w div 256 * 256"
    by (simp add: concat_bit_eq take_bit_eq_mod push_bit_eq_mult)
  finally show ?thesis by simp
qed

lemma on_naws_size:
  assumes "push_bit 8 (uint a) OR uint b = w" "push_bit 8 (uint c) OR uint d = h" "0 \<le> w" "0 \<le> h"
  shows "on_naws [a, b, c, d] t = t\<lparr>tn_width := (if w = 0 then tn_width t else max 1 (min w 500)),
    tn_height := (if h = 0 then tn_height t else max 1 (min h 200))\<rparr>"
proof -
  have "[a, b, c, d] ! 0 = a" "[a, b, c, d] ! 1 = b" "[a, b, c, d] ! 2 = c" "[a, b, c, d] ! 3 = d"
    by simp_all
  moreover have "0 < w \<longleftrightarrow> w \<noteq> 0" "0 < h \<longleftrightarrow> h \<noteq> 0" using assms(3,4) by linarith+
  ultimately show ?thesis
    unfolding on_naws_def Let_def clamp_terminal_size_def MAX_TERMINAL_WIDTH_def MAX_TERMINAL_HEIGHT_def
    by (simp only: assms(1,2) fst_conv snd_conv) simp
qed

lemma interpret_naws:
  "interpret_byte l IAC t (map Got (SB # NAWS # escape_iac [a, b, c, d] @ [IAC, SE]) @ s)
    = Some (None, on_naws [a, b, c, d] t, s)"
proof -
  have "read_body [] (map Got (escape_iac [a, b, c, d]) @ Got IAC # Got SE # s) = Some ([a, b, c, d], s)"
    using read_body_escaped[of "[]" "[a, b, c, d]" s] by (simp add: MAX_SUBNEGOTIATION_BODY_def)
  then show ?thesis
    by (simp add: interpret_byte_def handle_subnegotiation_def act_on_subnegotiation_def del: escape_iac_simps)
qed

text \<open>
  A window size is taken as the terminal reports it: for any 16-bit width and height, sent as the
  protocol demands with every byte 255 doubled, the command is consumed whole and sets the size
  clamped to 500 by 200, a zero leaving that dimension as it was, and changes nothing else.
\<close>

theorem naws_report_sets_size:
  assumes "0 \<le> w" and "w < 65536" and "0 \<le> h" and "h < 65536"
  shows "interpret_byte limited (hd (naws_report w h)) t (map Got (tl (naws_report w h)) @ s)
    = Some (None, t\<lparr>tn_width := (if w = 0 then tn_width t else max 1 (min w 500)),
                     tn_height := (if h = 0 then tn_height t else max 1 (min h 200))\<rparr>, s)"
proof -
  have "naws_report w h = IAC # SB # NAWS # escape_iac
      [of_int (w div 256), of_int (w mod 256), of_int (h div 256), of_int (h mod 256)] @ [IAC, SE]"
    by (simp only: naws_report_def append.simps)
  then show ?thesis
    using on_naws_size[OF two_bytes[OF assms(1,2)] two_bytes[OF assms(3,4)] assms(1,3), of t]
    by (simp only: list.sel interpret_naws)
qed

theorem naws_report_sets_size_witness:
  "interpret_byte True (hd (naws_report 255 600)) new_telnet (map Got (tl (naws_report 255 600)) @ [Late])
    = Some (None, new_telnet\<lparr>tn_width := (if (255::int) = 0 then tn_width new_telnet else max 1 (min 255 500)),
                     tn_height := (if (600::int) = 0 then tn_height new_telnet else max 1 (min 600 200))\<rparr>, [Late])"
  by (rule naws_report_sets_size) simp_all

end
