(* ===== verification/Usernames.thy ===== *)
theory Usernames
  imports Pipe_Codes
begin

text \<open>
  The grammar of account names, \<^verbatim>\<open>_validate_username\<close> of \<^verbatim>\<open>src/netbbs/auth/users.py\<close>, and
  \<open>username_skeleton\<close>, the form under which two names that read the same compare equal. Only ASCII can
  occur in an accepted name, so \<open>lower\<close> and \<open>casefold\<close> are those of ASCII; \<open>username_skeleton\<close> of other
  text takes the casefolded text from its caller.
\<close>

definition MAX_USERNAME_LENGTH :: nat where "MAX_USERNAME_LENGTH = 32"
definition RESERVED_USERNAMES :: "ustr list" where "RESERVED_USERNAMES = [u ''new'']"
definition DOOR_LABEL_SUFFIX :: ustr where "DOOR_LABEL_SUFFIX = u ''.door''"
definition BOT_LABEL_SUFFIX :: ustr where "BOT_LABEL_SUFFIX = u ''.bot''"

definition username_char :: "nat \<Rightarrow> bool" where
  "username_char c \<longleftrightarrow> ascii_alnum c \<or> c = 95 \<or> c = 46 \<or> c = 45"

text \<open>\<open>_USERNAME_PATTERN.match\<close>: the \<open>$\<close> of the pattern also stands before a newline that ends the text.\<close>

definition matches_username :: "ustr \<Rightarrow> bool" where
  "matches_username s \<longleftrightarrow>
     (let t = (if s \<noteq> [] \<and> last s = 10 then butlast s else s) in t \<noteq> [] \<and> list_all username_char t)"

definition ascii_fold :: "ustr \<Rightarrow> ustr" where
  "ascii_fold s = map (\<lambda>c. if 65 \<le> c \<and> c \<le> 90 then c + 32 else c) s"

definition ends_with :: "ustr \<Rightarrow> ustr \<Rightarrow> bool" where
  "ends_with s t \<longleftrightarrow> length t \<le> length s \<and> drop (length s - length t) s = t"

datatype auth_error = Too_Long | Bad_Characters | Reserved_Name | Door_Suffix | Bot_Suffix

definition validate_username :: "ustr \<Rightarrow> auth_error option" where
  "validate_username username =
     (if MAX_USERNAME_LENGTH < length username then Some Too_Long
      else if username = [] \<or> \<not> matches_username username then Some Bad_Characters
      else if ascii_fold username \<in> set RESERVED_USERNAMES then Some Reserved_Name
      else if ends_with (ascii_fold username) DOOR_LABEL_SUFFIX then Some Door_Suffix
      else if ends_with (ascii_fold username) BOT_LABEL_SUFFIX then Some Bot_Suffix
      else None)"

section \<open>Skeletons\<close>

text \<open>\<open>s.replace(x + y, z)\<close>, one pass from the left.\<close>

fun replace_pair :: "nat \<Rightarrow> nat \<Rightarrow> nat \<Rightarrow> ustr \<Rightarrow> ustr" where
  "replace_pair x y z (c # d # s) =
     (if c = x \<and> d = y then z # replace_pair x y z s else c # replace_pair x y z (d # s))"
| "replace_pair x y z s = s"

definition SKELETON_FOLD :: "(nat \<times> nat) list" where
  "SKELETON_FOLD = [(48, 111), (49, 108), (105, 108), (124, 108), (51, 101), (52, 97), (53, 115), (55, 116),
     (56, 98), (57, 103), (50, 122)]"

definition look_alike :: "nat \<Rightarrow> nat" where
  "look_alike c = (case map_of SKELETON_FOLD c of None \<Rightarrow> c | Some d \<Rightarrow> d)"

definition username_skeleton :: "ustr \<Rightarrow> ustr" where
  "username_skeleton casefolded =
     (let folded = filter (\<lambda>c. c \<notin> {95, 45, 46}) casefolded;
          folded = replace_pair 118 118 119 (replace_pair 114 110 109 folded)
      in map look_alike folded)"

definition SELF_SERVICE_RESERVED_USERNAMES :: "ustr list" where
  "SELF_SERVICE_RESERVED_USERNAMES = [u ''sysop'', u ''cosysop'', u ''admin'', u ''administrator'', u ''root'',
     u ''moderator'', u ''mod'', u ''staff'', u ''support'', u ''system'', u ''operator'', u ''postmaster'',
     u ''guest'', u ''netbbs'']"

definition RESERVED_SKELETONS :: "ustr list" where
  "RESERVED_SKELETONS = map (\<lambda>w. username_skeleton (ascii_fold w)) SELF_SERVICE_RESERVED_USERNAMES"

definition contains_text :: "ustr \<Rightarrow> ustr \<Rightarrow> bool" where
  "contains_text t s \<longleftrightarrow> list_ex (\<lambda>i. take (length t) (drop i s) = t) [0..<length s]"

definition reads_as_staff_title :: "ustr \<Rightarrow> bool" where
  "reads_as_staff_title skeleton \<longleftrightarrow> skeleton \<in> set RESERVED_SKELETONS \<or> contains_text (u ''sysop'') skeleton"

section \<open>What the grammar guarantees\<close>

lemma username_char_range: "username_char c \<Longrightarrow> 45 \<le> c \<and> c \<le> 122"
  by (auto simp: username_char_def ascii_alnum_def is_digit_def)

lemma accepted_name:
  assumes "validate_username s = None"
  obtains t where "t \<noteq> []" "\<forall>c\<in>set t. username_char c" "s = t \<or> s = t @ [10]" "length s \<le> 32"
proof -
  define t where "t = (if s \<noteq> [] \<and> last s = 10 then butlast s else s)"
  have "matches_username s" "length s \<le> 32"
    using assms by (auto simp: validate_username_def MAX_USERNAME_LENGTH_def split: if_splits)
  then have "t \<noteq> []" "\<forall>c\<in>set t. username_char c" by (simp_all add: matches_username_def t_def list_all_iff Let_def)
  moreover have "s = t \<or> s = t @ [10]" unfolding t_def by (cases s rule: rev_cases) auto
  ultimately show thesis using that \<open>length s \<le> 32\<close> by blast
qed

section \<open>A skeleton is a canonical form\<close>

fun pair_free :: "nat \<Rightarrow> nat \<Rightarrow> ustr \<Rightarrow> bool" where
  "pair_free x y (c # d # s) \<longleftrightarrow> \<not> (c = x \<and> d = y) \<and> pair_free x y (d # s)"
| "pair_free x y s \<longleftrightarrow> True"

lemma pair_free_Cons: "pair_free x y (c # s) \<longleftrightarrow> pair_free x y s \<and> \<not> (c = x \<and> s \<noteq> [] \<and> hd s = y)"
  by (cases s) auto

lemma replace_pair_free: "pair_free x y s \<Longrightarrow> replace_pair x y z s = s"
  by (induction x y z s rule: replace_pair.induct) auto

lemma hd_replace_pair: "replace_pair x y z s \<noteq> [] \<Longrightarrow> hd (replace_pair x y z s) \<in> {z, hd s} \<and> s \<noteq> []"
  by (induction x y z s rule: replace_pair.induct) auto

lemma pair_free_keeps:
  "pair_free x' y' s \<Longrightarrow> z \<noteq> x' \<Longrightarrow> z \<noteq> y' \<Longrightarrow> pair_free x' y' (replace_pair x y z s)"
proof (induction x y z s rule: replace_pair.induct)
  case (1 x y z c d s)
  then show ?case
    using hd_replace_pair[of x y z "d # s"] by (auto simp: pair_free_Cons)
qed simp_all

lemma pair_free_replaced: "z \<noteq> x \<Longrightarrow> z \<noteq> y \<Longrightarrow> pair_free x y (replace_pair x y z s)"
proof (induction x y z s rule: replace_pair.induct)
  case (1 x y z c d s)
  then show ?case
    using hd_replace_pair[of x y z "d # s"] by (auto simp: pair_free_Cons)
qed simp_all

lemma set_replace_pair: "set (replace_pair x y z s) \<subseteq> insert z (set s)"
  by (induction x y z s rule: replace_pair.induct) auto

lemma look_alike_cases: "look_alike c = c \<and> c \<notin> fst ` set SKELETON_FOLD \<or> look_alike c \<in> snd ` set SKELETON_FOLD"
proof (cases "map_of SKELETON_FOLD c")
  case (Some d)
  then have "look_alike c = d" "(c, d) \<in> set SKELETON_FOLD" by (simp_all add: look_alike_def map_of_SomeD)
  then show ?thesis by force
next
  case None
  then have "c \<notin> fst ` set SKELETON_FOLD" by (simp add: map_of_eq_None_iff)
  with None show ?thesis by (simp only: look_alike_def option.case) simp
qed

lemma look_alike_twice: "look_alike (look_alike c) = look_alike c"
proof -
  have "\<forall>d\<in>set (map snd SKELETON_FOLD). look_alike d = d" by code_simp
  then show ?thesis using look_alike_cases[of c] by auto
qed

lemma look_alike_fresh:
  assumes "k \<in> {114, 110, 118, 95, 45, 46}"
  shows "look_alike c = k \<longleftrightarrow> c = k"
proof -
  have "\<forall>k\<in>set [114, 110, 118, 95, 45, 46 :: nat]. look_alike k = k \<and> k \<notin> set (map snd SKELETON_FOLD)" by code_simp
  then have "look_alike k = k" "k \<notin> snd ` set SKELETON_FOLD" using assms by auto
  then show ?thesis using look_alike_cases[of c] by metis
qed

lemma look_alike_lower: "\<not> (65 \<le> c \<and> c \<le> 90) \<Longrightarrow> \<not> (65 \<le> look_alike c \<and> look_alike c \<le> 90)"
proof -
  have "\<forall>d\<in>set (map snd SKELETON_FOLD). \<not> (65 \<le> d \<and> d \<le> (90 :: nat))" by code_simp
  then have "\<not> (65 \<le> d \<and> d \<le> 90)" if "d \<in> snd ` set SKELETON_FOLD" for d using that unfolding set_map by blast
  then show "\<not> (65 \<le> c \<and> c \<le> 90) \<Longrightarrow> ?thesis" using look_alike_cases[of c] by metis
qed

lemma pair_free_map:
  "(\<And>c. f c = x \<longleftrightarrow> c = x) \<Longrightarrow> (\<And>c. f c = y \<longleftrightarrow> c = y) \<Longrightarrow> pair_free x y (map f s) = pair_free x y s"
  by (induction x y s rule: pair_free.induct) auto

lemma fold_filter:
  "filter (\<lambda>c. c \<notin> {95, 45, 46}) (ascii_fold (filter (\<lambda>c. c \<notin> {95, 45, 46}) s)) =
    filter (\<lambda>c. c \<notin> {95, 45, 46}) (ascii_fold s)"
  by (induction s) (auto simp: ascii_fold_def)

text \<open>The form two account names are compared by.\<close>

definition skeleton_of :: "ustr \<Rightarrow> ustr" where
  "skeleton_of name = username_skeleton (ascii_fold name)"

text \<open>
  The skeleton of a name is a canonical form for how it reads: taking it again changes nothing, and
  the separators of a name and the case of its letters make no difference to it.
\<close>

theorem skeleton_is_canonical:
  "skeleton_of (skeleton_of name) = skeleton_of name \<and> skeleton_of (filter (\<lambda>c. c \<notin> {95, 45, 46}) name) = skeleton_of name \<and> skeleton_of (ascii_fold name) = skeleton_of name"
proof -
  define f1 where "f1 = filter (\<lambda>c. c \<notin> {95, 45, 46}) (ascii_fold name)"
  define f3 where "f3 = replace_pair 118 118 119 (replace_pair 114 110 109 f1)"
  have sk_eq: "skeleton_of s = map look_alike (replace_pair 118 118 119 (replace_pair 114 110 109
      (filter (\<lambda>c. c \<notin> {95, 45, 46}) (ascii_fold s))))" for s
    by (simp add: skeleton_of_def username_skeleton_def Let_def)
  have sk: "skeleton_of name = map look_alike f3" unfolding sk_eq f3_def f1_def by (rule refl)
  have chars: "set f3 \<subseteq> {109, 119} \<union> set f1"
    using set_replace_pair[of 118 118 119 "replace_pair 114 110 109 f1"] set_replace_pair[of 114 110 109 f1] unfolding f3_def by blast
  have low: "\<forall>c\<in>set f3. \<not> (65 \<le> c \<and> c \<le> 90) \<and> c \<notin> {95, 45, 46}"
  proof
    fix c assume "c \<in> set f3"
    then have "c = 109 \<or> c = 119 \<or> c \<in> set f1" using chars by blast
    moreover have "c \<in> set f1 \<Longrightarrow> \<not> (65 \<le> c \<and> c \<le> 90) \<and> c \<notin> {95, 45, 46}" by (auto simp: f1_def ascii_fold_def)
    ultimately show "\<not> (65 \<le> c \<and> c \<le> 90) \<and> c \<notin> {95, 45, 46}" by (elim disjE) simp_all
  qed
  have "\<forall>c\<in>set f3. \<not> (65 \<le> look_alike c \<and> look_alike c \<le> 90)"
    using low look_alike_lower by blast
  then have fold: "ascii_fold (skeleton_of name) = skeleton_of name"
    unfolding sk ascii_fold_def by (auto intro!: map_idI)
  have seps: "filter (\<lambda>c. c \<notin> {95, 45, 46}) (skeleton_of name) = skeleton_of name"
    unfolding sk using low look_alike_fresh[of 95] look_alike_fresh[of 45] look_alike_fresh[of 46]
    by (intro filter_True) auto
  have "pair_free 114 110 (skeleton_of name)" "pair_free 118 118 (skeleton_of name)"
    unfolding sk using look_alike_fresh
    by (simp_all add: pair_free_map f3_def pair_free_keeps pair_free_replaced)
  then have "skeleton_of (skeleton_of name) = map look_alike (skeleton_of name)"
    unfolding sk_eq[of "skeleton_of name"] by (simp only: fold seps replace_pair_free)
  moreover have "map look_alike (skeleton_of name) = skeleton_of name" unfolding sk by (simp add: look_alike_twice)
  ultimately have "skeleton_of (skeleton_of name) = skeleton_of name" by simp
  moreover have "skeleton_of (filter (\<lambda>c. c \<notin> {95, 45, 46}) name) = skeleton_of name"
    by (simp only: sk_eq fold_filter)
  moreover have "ascii_fold (ascii_fold name) = ascii_fold name" by (auto simp: ascii_fold_def)
  ultimately show ?thesis by (simp add: skeleton_of_def)
qed

section \<open>A gap in the grammar\<close>

text \<open>The pattern lets one newline through at the end of a name, and the checks after it compare the name
  with it: a reserved name, or one with a reserved suffix, is accepted with a newline appended.\<close>

theorem newline_hides_reserved_name:
  "validate_username (u ''new'') = Some Reserved_Name \<and> validate_username (u ''new'' @ [10]) = None \<and>
   validate_username (u ''tw.door'') = Some Door_Suffix \<and> validate_username (u ''tw.door'' @ [10]) = None"
  by (simp add: validate_username_def MAX_USERNAME_LENGTH_def RESERVED_USERNAMES_def matches_username_def
      username_char_def ascii_alnum_def is_digit_def ascii_fold_def ends_with_def DOOR_LABEL_SUFFIX_def
      BOT_LABEL_SUFFIX_def)

end
