(* ===== verification/Py_Number.thy ===== *)
theory Py_Number
  imports Py_Text
begin

text \<open>
  More of Python's text handling: \<open>int\<close> of a word, \<open>split\<close> with a limit, \<open>splitlines\<close>, and what
  stripping keeps.
\<close>

text \<open>\<open>int(s)\<close> of a word: a sign, then decimal digits with single underscores between them.\<close>

fun underscored :: "unitext \<Rightarrow> ustr \<Rightarrow> ustr option" where
  "underscored T [] = None"
| "underscored T [c] = (if ut_decimal T c = None then None else Some [c])"
| "underscored T (c # d # s) =
     (if ut_decimal T c = None then None
      else if d = 95 then map_option ((#) c) (underscored T s)
      else map_option ((#) c) (underscored T (d # s)))"

definition py_int_word :: "unitext \<Rightarrow> ustr \<Rightarrow> int option" where
  "py_int_word T s =
     (let negative = s \<noteq> [] \<and> hd s = 45; digits = (if s \<noteq> [] \<and> hd s \<in> {43, 45} then tl s else s)
      in case underscored T digits of None \<Rightarrow> None
         | Some ds \<Rightarrow> map_option (\<lambda>n. if negative then - int n else int n) (py_int T ds))"

text \<open>\<open>s.split(None, n)\<close>.\<close>

fun py_words_max :: "(nat \<Rightarrow> bool) \<Rightarrow> nat \<Rightarrow> ustr \<Rightarrow> ustr list" where
  "py_words_max sp 0 s = (let t = dropWhile sp s in if t = [] then [] else [t])"
| "py_words_max sp (Suc n) s =
     (let t = dropWhile sp s
      in if t = [] then [] else takeWhile (\<lambda>c. \<not> sp c) t # py_words_max sp n (dropWhile (\<lambda>c. \<not> sp c) t))"

text \<open>\<open>s.splitlines()\<close>: a CR LF pair is one break, and no empty line follows the last break.\<close>

definition line_break :: "nat \<Rightarrow> bool" where
  "line_break c \<longleftrightarrow> c \<in> {10, 11, 12, 13, 28, 29, 30, 133, 8232, 8233}"

fun splitlines :: "ustr \<Rightarrow> ustr list" where
  "splitlines [] = []"
| "splitlines (c # s) =
     (if c = 13 \<and> s \<noteq> [] \<and> hd s = 10 then splitlines s
      else if line_break c then [] # splitlines s
      else case s of
          [] \<Rightarrow> [[c]]
        | d # _ \<Rightarrow> if line_break d then [c] # tl (splitlines s)
                   else (case splitlines s of [] \<Rightarrow> [[c]] | l # ls \<Rightarrow> (c # l) # ls))"

section \<open>What stripping keeps\<close>

lemma set_py_rstrip: "set (py_rstrip sp s) \<subseteq> set s"
  unfolding py_rstrip_def by (metis set_rev set_dropWhileD subsetI)

lemma set_py_strip: "set (py_strip sp s) \<subseteq> set s"
  unfolding py_strip_def py_lstrip_def using set_py_rstrip set_dropWhileD by fast

end
