(* ===== verification/Mrc_Protocol.thy ===== *)
theory Mrc_Protocol
  imports Pipe_Codes Py_Number
begin

text \<open>
  The MRC chat wire protocol, \<^verbatim>\<open>src/netbbs/mrc/protocol.py\<close>: one packet per line, seven fields between
  tildes, sanitised on the way out and again, as untrusted text, on the way in. The Unicode tables are
  a parameter; \<open>upper\<close> and \<open>lower\<close> join the record of \<open>Py_Text\<close>.
\<close>

record mrctext = unitext +
  ut_upper :: "ustr \<Rightarrow> ustr"
  ut_lower :: "ustr \<Rightarrow> ustr"

definition ascii_upper :: "nat \<Rightarrow> nat" where
  "ascii_upper c = (if 97 \<le> c \<and> c \<le> 122 then c - 32 else c)"

definition ascii_lower :: "nat \<Rightarrow> nat" where
  "ascii_lower c = (if 65 \<le> c \<and> c \<le> 90 then c + 32 else c)"

definition mrctext_laws :: "mrctext \<Rightarrow> bool" where
  "mrctext_laws T \<longleftrightarrow> unicode_laws (unitext.truncate T) \<and>
     (\<forall>s. (\<forall>c\<in>set s. c < 128) \<longrightarrow> ut_upper T s = map ascii_upper s \<and> ut_lower T s = map ascii_lower s)"

definition small_mrctext :: mrctext where
  "small_mrctext = unitext.extend small_tables \<lparr>ut_upper = map ascii_upper, ut_lower = map ascii_lower\<rparr>"

definition SEPARATOR :: nat where "SEPARATOR = 126"
definition MAX_LINE :: nat where "MAX_LINE = 512"
definition MAX_BODY :: nat where "MAX_BODY = 140"
definition MAX_NAME :: nat where "MAX_NAME = 30"
definition MAX_ROOM :: nat where "MAX_ROOM = 20"
definition MAX_TOPIC :: nat where "MAX_TOPIC = 55"
definition MAX_CHUNKS :: nat where "MAX_CHUNKS = 3"
definition SERVER :: ustr where "SERVER = u ''SERVER''"
definition CLIENT :: ustr where "CLIENT = u ''CLIENT''"
definition NOTME :: ustr where "NOTME = u ''NOTME''"
definition ALL_USERS :: ustr where "ALL_USERS = u ''ALL''"
definition RESERVED_NAMES :: "ustr list" where "RESERVED_NAMES = [SERVER, CLIENT, NOTME, ALL_USERS]"
definition BROADCAST_TARGETS :: "ustr list" where "BROADCAST_TARGETS = [[], NOTME, ALL_USERS, CLIENT]"
definition CTCP_ROOM :: ustr where "CTCP_ROOM = u ''ctcp_echo_channel''"
definition CTCP_REQUEST :: ustr where "CTCP_REQUEST = u ''[CTCP]''"
definition CTCP_REPLY :: ustr where "CTCP_REPLY = u ''[CTCP-REPLY]''"
definition BBS_TYPE :: ustr where "BBS_TYPE = u ''NETBBS''"
definition DEFAULT_NICK_COLOR :: int where "DEFAULT_NICK_COLOR = 14"
definition MRC_LABEL_SUFFIX :: ustr where "MRC_LABEL_SUFFIX = u '' (MRC)''"

section \<open>Packets\<close>

record mrc_packet =
  from_user :: ustr
  from_site :: ustr
  from_room :: ustr
  to_user :: ustr
  msg_ext :: ustr
  to_room :: ustr
  body :: ustr

definition packet_room :: "mrc_packet \<Rightarrow> ustr" where
  "packet_room p = (if to_room p \<noteq> [] then to_room p else from_room p)"

definition is_server :: "mrctext \<Rightarrow> mrc_packet \<Rightarrow> bool" where
  "is_server T p \<longleftrightarrow> ut_upper T (from_user p) = SERVER"

definition is_broadcast :: "mrctext \<Rightarrow> mrc_packet \<Rightarrow> bool" where
  "is_broadcast T p \<longleftrightarrow> ut_upper T (to_user p) \<in> set BROADCAST_TARGETS"

section \<open>Sanitising\<close>

definition printable :: "nat \<Rightarrow> ustr \<Rightarrow> ustr" where
  "printable low s = map (\<lambda>c. if low \<le> c \<and> c \<le> 125 then c else 63) s"

definition clean :: "ustr \<Rightarrow> ustr" where
  "clean s = map (\<lambda>c. if c = SEPARATOR then 32 else c) (sanitize_text False (strip_ansi s))"

text \<open>\<open>_WHITESPACE_RE.sub("_", s)\<close>.\<close>

function collapse :: "(nat \<Rightarrow> bool) \<Rightarrow> ustr \<Rightarrow> ustr" where
  "collapse sp [] = []"
| "collapse sp (c # s) = (if sp c then 95 # collapse sp (dropWhile sp s) else c # collapse sp s)"
  by pat_completeness auto
termination
  by (relation "measure (\<lambda>(sp, s). length s)") (auto simp: le_imp_less_Suc length_dropWhile_le)

definition name_chars :: "mrctext \<Rightarrow> ustr \<Rightarrow> ustr" where
  "name_chars T name =
     (let cleaned = py_strip (ut_space T) (strip_pipe_codes (clean name))
      in filter (\<lambda>c. 33 \<le> c \<and> c \<le> 125) (collapse (ut_space T) cleaned))"

definition sanitize_name :: "mrctext \<Rightarrow> ustr \<Rightarrow> ustr" where
  "sanitize_name T name = take MAX_NAME (name_chars T name)"

definition room_chars :: "mrctext \<Rightarrow> ustr \<Rightarrow> ustr" where
  "room_chars T room = (let cleaned = name_chars T room in if cleaned \<noteq> [] \<and> hd cleaned = 35 then tl cleaned else cleaned)"

definition sanitize_room :: "mrctext \<Rightarrow> ustr \<Rightarrow> ustr" where
  "sanitize_room T room = take MAX_ROOM (room_chars T room)"

datatype room_error = Room_Empty | Room_Too_Long ustr nat

definition room_name_error :: "mrctext \<Rightarrow> ustr \<Rightarrow> room_error option" where
  "room_name_error T room =
     (let chars = room_chars T room in
      if chars = [] then Some Room_Empty
      else if MAX_ROOM < length chars then Some (Room_Too_Long chars (length chars))
      else None)"

definition sanitize_body :: "mrctext \<Rightarrow> ustr \<Rightarrow> ustr" where
  "sanitize_body T s = py_strip (ut_space T) (printable 32 (strip_pipe_codes (clean s)))"

definition nick_for_username :: "mrctext \<Rightarrow> ustr \<Rightarrow> ustr" where
  "nick_for_username T username =
     (let nick = sanitize_name T username;
          nick = (if nick = [] then u ''user'' else nick)
      in if ut_upper T nick \<in> set RESERVED_NAMES then take MAX_NAME (nick @ u ''_'') else nick)"

section \<open>Splitting a body\<close>

text \<open>The inner loop of \<open>split_body\<close>: a word longer than the limit is cut into chunks of its own.\<close>

function cut_word :: "nat \<Rightarrow> ustr \<Rightarrow> ustr \<Rightarrow> ustr list \<Rightarrow> ustr \<times> ustr \<times> ustr list" where
  "cut_word limit word current chunks =
     (if length word \<le> max 1 limit then (word, current, chunks)
      else cut_word limit (drop (max 1 limit) word) []
        ((if current \<noteq> [] then chunks @ [current] else chunks) @ [take (max 1 limit) word]))"
  by pat_completeness auto
termination
  by (relation "measure (\<lambda>(limit, word, r). length word)") auto

declare cut_word.simps [simp del]

definition add_word :: "nat \<Rightarrow> ustr list \<times> ustr \<Rightarrow> ustr \<Rightarrow> ustr list \<times> ustr" where
  "add_word limit st w =
     (case st of (chunks, current) \<Rightarrow>
        let (word, current, chunks) = cut_word limit w current chunks;
            candidate = (if current = [] then word else current @ 32 # word)
        in if length candidate \<le> limit then (chunks, candidate) else (chunks @ [current], word))"

definition split_body :: "nat \<Rightarrow> nat \<Rightarrow> ustr \<Rightarrow> ustr list \<times> bool" where
  "split_body max_chunks reserve s =
     (let limit = max 1 (MAX_BODY - reserve);
          (chunks, current) = foldl (add_word limit) ([], []) (filter (\<lambda>w. w \<noteq> []) (split_on 32 s));
          chunks = (if current \<noteq> [] then chunks @ [current] else chunks);
          chunks = filter (\<lambda>c. c \<noteq> []) chunks
      in if max_chunks < length chunks then (take max_chunks chunks, True) else (chunks, False))"

section \<open>Lines\<close>

definition wire_fields :: "mrctext \<Rightarrow> mrc_packet \<Rightarrow> ustr list" where
  "wire_fields T p =
     [sanitize_name T (from_user p), sanitize_name T (from_site p),
      if ut_upper T (from_user p) = CLIENT then take 128 (name_chars T (from_room p)) else sanitize_room T (from_room p),
      sanitize_name T (to_user p), sanitize_name T (msg_ext p), sanitize_room T (to_room p),
      printable 32 (clean (body p))]"

definition build_line :: "mrctext \<Rightarrow> mrc_packet \<Rightarrow> ustr option" where
  "build_line T p =
     (let line = join_with [SEPARATOR] (wire_fields T p) @ [SEPARATOR] @ [10]
      in if MAX_LINE < length line then None else Some line)"

text \<open>The fields of a line, from which \<open>parse_line\<close> makes the packet.\<close>

definition read_fields :: "mrctext \<Rightarrow> ustr list \<Rightarrow> mrc_packet" where
  "read_fields T fs =
     (let cleaned = map (\<lambda>f. py_strip (ut_space T) (sanitize_text False (strip_ansi f))) fs;
          is_control = ut_upper T (py_strip (ut_space T) (strip_pipe_codes (cleaned ! 0))) \<in> {SERVER, CLIENT};
          limits = [MAX_NAME, MAX_NAME, if is_control then 128 else MAX_ROOM, MAX_NAME, MAX_NAME, MAX_ROOM];
          names = map (\<lambda>(value, limit). take limit (strip_pipe_codes value)) (zip (take 6 cleaned) limits)
      in \<lparr>from_user = names ! 0, from_site = names ! 1, from_room = names ! 2, to_user = names ! 3,
           msg_ext = names ! 4, to_room = names ! 5,
           body = take MAX_LINE (strip_non_color_pipe_codes (cleaned ! 6))\<rparr>)"

definition parse_line :: "mrctext \<Rightarrow> ustr \<Rightarrow> mrc_packet option" where
  "parse_line T line =
     (let stripped = py_rstrip (\<lambda>c. c = 13 \<or> c = 10) line in
      if stripped = [] then None
      else
        let stripped = (if last stripped = SEPARATOR then butlast stripped else stripped);
            fs = split_on SEPARATOR stripped
        in if length fs < 7 then None
           else Some (read_fields T (if 7 < length fs then take 6 fs @ [join_with [32] (drop 6 fs)] else fs)))"

definition partition_on :: "nat \<Rightarrow> ustr \<Rightarrow> ustr \<times> bool \<times> ustr" where
  "partition_on c s = (takeWhile (\<lambda>x. x \<noteq> c) s, c \<in> set s, tl (dropWhile (\<lambda>x. x \<noteq> c) s))"

definition parse_server_command :: "mrctext \<Rightarrow> ustr \<Rightarrow> ustr \<times> ustr" where
  "parse_server_command T s =
     (case partition_on 58 s of (command, _, params) \<Rightarrow>
        (ut_upper T (py_strip (ut_space T) (strip_pipe_codes command)), py_strip (ut_space T) params))"

definition parse_userlist :: "mrctext \<Rightarrow> ustr \<Rightarrow> ustr list" where
  "parse_userlist T params =
     filter (\<lambda>e. e \<noteq> []) (map (\<lambda>e. py_strip (ut_space T) (strip_pipe_codes e)) (split_on 44 params))"

text \<open>The row pattern: \<open>*.:\<close>, blanks, a hash and 1 to 20 characters, blanks, 1 to 6 digits, and a
  topic after blanks or nothing. Adjacent parts are disjoint, so it matches in one way at most.\<close>

definition match_room_row :: "mrctext \<Rightarrow> ustr \<Rightarrow> (ustr \<times> ustr \<times> ustr option) option" where
  "match_room_row T s =
     (if take 3 s \<noteq> u ''*.:'' then None
      else let s = drop 3 s; s1 = dropWhile (ut_space T) s in
        if s1 = s \<or> s1 = [] \<or> hd s1 \<noteq> 35 then None
        else let room = takeWhile (\<lambda>c. \<not> ut_space T c) (tl s1); s2 = dropWhile (\<lambda>c. \<not> ut_space T c) (tl s1);
                 s3 = dropWhile (ut_space T) s2; digits = takeWhile is_digit s3; s4 = dropWhile is_digit s3;
                 topic = dropWhile (ut_space T) s4
             in if room = [] \<or> 20 < length room \<or> s2 = [] \<or> digits = [] \<or> 6 < length digits then None
                else if s4 = [] then Some (room, digits, None)
                else if \<not> ut_space T (hd s4) \<or> 10 \<in> set topic then None
                else Some (room, digits, Some topic))"

definition parse_room_list_row :: "mrctext \<Rightarrow> ustr \<Rightarrow> (ustr \<times> nat \<times> ustr) option" where
  "parse_room_list_row T s =
     (case match_room_row T (py_strip (ut_space T) (strip_pipe_codes s)) of
        None \<Rightarrow> None
      | Some (room, users, topic) \<Rightarrow>
          if sanitize_room T room \<noteq> room then None
          else Some (room, undec users, take MAX_TOPIC (sanitize_body T (case topic of None \<Rightarrow> [] | Some t \<Rightarrow> t))))"

section \<open>Packet builders\<close>

definition build_handshake :: "mrctext \<Rightarrow> ustr \<Rightarrow> ustr \<Rightarrow> ustr \<Rightarrow> ustr \<Rightarrow> ustr" where
  "build_handshake T site_name platform client_version bbs_type =
     (let site = take MAX_NAME (py_strip (ut_space T) (printable 32 (clean site_name)));
          site = (if site = [] then u ''NetBBS'' else site);
          part = (\<lambda>p. let n = sanitize_name T p in if n = [] then u ''unknown'' else n)
      in site @ [SEPARATOR] @ join_with [47] (map part [ut_upper T bbs_type, platform, client_version]) @ [10])"

definition mk_packet :: "ustr \<Rightarrow> ustr \<Rightarrow> ustr \<Rightarrow> ustr \<Rightarrow> ustr \<Rightarrow> ustr \<Rightarrow> ustr \<Rightarrow> mrc_packet" where
  "mk_packet fu fs fr tu ext tr b =
     \<lparr>from_user = fu, from_site = fs, from_room = fr, to_user = tu, msg_ext = ext, to_room = tr, body = b\<rparr>"

definition chat_message :: "ustr \<Rightarrow> ustr \<Rightarrow> ustr \<Rightarrow> ustr \<Rightarrow> mrc_packet" where
  "chat_message nick site room b = mk_packet nick site room [] [] room b"

definition user_command :: "ustr \<Rightarrow> ustr \<Rightarrow> ustr \<Rightarrow> ustr \<Rightarrow> ustr option \<Rightarrow> mrc_packet" where
  "user_command nick site room cmd other =
     mk_packet nick site room SERVER [] (case other of None \<Rightarrow> room | Some r \<Rightarrow> r) cmd"

definition site_command :: "ustr \<Rightarrow> ustr \<Rightarrow> ustr \<Rightarrow> mrc_packet" where
  "site_command site cmd ext = mk_packet CLIENT site [] SERVER ext [] cmd"

definition newroom :: "ustr \<Rightarrow> ustr \<Rightarrow> ustr \<Rightarrow> ustr \<Rightarrow> mrc_packet" where
  "newroom nick site old_room new_room =
     mk_packet nick site old_room SERVER [] old_room (u ''NEWROOM:'' @ old_room @ u '':'' @ new_room)"

definition logoff :: "ustr \<Rightarrow> ustr \<Rightarrow> ustr \<Rightarrow> mrc_packet" where
  "logoff nick site room = user_command nick site room (u ''LOGOFF'') None"

definition iamhere :: "ustr \<Rightarrow> ustr \<Rightarrow> ustr \<Rightarrow> ustr \<Rightarrow> mrc_packet" where
  "iamhere nick site room activity =
     user_command nick site room (if activity \<noteq> [] then u ''IAMHERE:'' @ activity else u ''IAMHERE'') None"

definition userlist :: "ustr \<Rightarrow> ustr \<Rightarrow> ustr \<Rightarrow> mrc_packet" where
  "userlist nick site room = user_command nick site room (u ''USERLIST'') None"

definition imalive :: "ustr \<Rightarrow> ustr \<Rightarrow> ustr \<Rightarrow> ustr \<Rightarrow> mrc_packet" where
  "imalive site site_display pid sent_at = mk_packet CLIENT site pid SERVER sent_at [] (u ''IMALIVE:'' @ site_display)"

definition userip :: "ustr \<Rightarrow> ustr \<Rightarrow> ustr \<Rightarrow> mrc_packet" where
  "userip nick site address = mk_packet nick site [] SERVER [] [] (u ''USERIP:'' @ address)"

definition termsize :: "ustr \<Rightarrow> ustr \<Rightarrow> int \<Rightarrow> int \<Rightarrow> mrc_packet" where
  "termsize nick site width height =
     mk_packet nick site [] SERVER [] []
       (u ''TERMSIZE:'' @ show_int (clamp_int 1 999 width) @ u ''x'' @ show_int (clamp_int 1 999 height))"

definition bbsmeta :: "ustr \<Rightarrow> ustr \<Rightarrow> int \<Rightarrow> ustr \<Rightarrow> mrc_packet" where
  "bbsmeta nick site level sysop =
     (let name = take 32 (filter ascii_alnum sysop);
          b = u ''BBSMETA: SecLevel('' @ show_int (clamp_int 0 999 level) @ u '')'';
          b = (if name \<noteq> [] then b @ u '' Sysop('' @ name @ u '')'' else b)
      in mk_packet nick site [] SERVER [] [] b)"

definition is_wire_address :: "ustr \<Rightarrow> bool" where
  "is_wire_address address \<longleftrightarrow> address \<noteq> [] \<and> length address \<le> 50 \<and>
     list_all (\<lambda>c. c \<in> set (u ''0123456789abcdefABCDEF:.'')) address"

definition info :: "mrctext \<Rightarrow> ustr \<Rightarrow> ustr \<Rightarrow> ustr \<Rightarrow> mrc_packet" where
  "info T site key val = site_command site (u ''INFO'' @ ut_upper T key @ u '':'' @ val) []"

definition capabilities :: "ustr \<Rightarrow> ustr list \<Rightarrow> ustr \<Rightarrow> mrc_packet" where
  "capabilities site caps script_hash =
     mk_packet CLIENT site script_hash SERVER [] [] (u ''CAPABILITIES:'' @ join_with [32] caps)"

definition shutdown :: "ustr \<Rightarrow> mrc_packet" where
  "shutdown site = site_command site (u ''SHUTDOWN'') []"

definition status_lastseen :: "ustr \<Rightarrow> ustr \<Rightarrow> ustr \<Rightarrow> bool \<Rightarrow> mrc_packet" where
  "status_lastseen nick site room recorded =
     user_command nick site room (u ''STATUS LASTSEEN '' @ (if recorded then u ''ON'' else u ''OFF'')) None"

definition status_afk :: "ustr \<Rightarrow> ustr \<Rightarrow> ustr \<Rightarrow> ustr \<Rightarrow> mrc_packet" where
  "status_afk nick site room message =
     user_command nick site room (if message \<noteq> [] then u ''STATUS AFK '' @ message else u ''STATUS AFK'') None"

definition newtopic :: "ustr \<Rightarrow> ustr \<Rightarrow> ustr \<Rightarrow> ustr \<Rightarrow> mrc_packet" where
  "newtopic nick site room t = user_command nick site room (u ''NEWTOPIC:'' @ room @ u '':'' @ t) None"

definition stats :: "ustr \<Rightarrow> ustr \<Rightarrow> ustr \<Rightarrow> mrc_packet" where
  "stats nick site room = user_command nick site room (u ''STATS'') None"

section \<open>Bodies\<close>

definition format_room_body :: "ustr \<Rightarrow> ustr \<Rightarrow> int \<Rightarrow> ustr" where
  "format_room_body nick t nick_color =
     (let color = (if 0 \<le> nick_color \<and> nick_color \<le> 15 then nick_color else DEFAULT_NICK_COLOR)
      in u ''|08<|'' @ dec2 (nat color) @ nick @ u ''|08>|16|07 '' @ t)"

definition format_action_body :: "ustr \<Rightarrow> ustr \<Rightarrow> ustr" where
  "format_action_body nick t = u ''|15* |13'' @ nick @ u '' '' @ t"

definition room_body_reserve :: "ustr \<Rightarrow> int \<Rightarrow> nat" where
  "room_body_reserve nick nick_color = length (format_room_body nick [] nick_color)"

definition mrc_author_label :: "ustr \<Rightarrow> ustr \<Rightarrow> ustr" where
  "mrc_author_label handle site = handle @ u ''@'' @ site @ MRC_LABEL_SUFFIX"

definition mrc_sender :: "ustr \<Rightarrow> ustr" where
  "mrc_sender label =
     (let n = length label - length MRC_LABEL_SUFFIX
      in if length MRC_LABEL_SUFFIX \<le> length label \<and> drop n label = MRC_LABEL_SUFFIX then take n label else label)"

definition display_handle :: "ustr \<Rightarrow> ustr" where
  "display_handle name = map (\<lambda>c. if c = 95 then 32 else c) name"

definition display_roster_entry :: "ustr \<Rightarrow> ustr" where
  "display_roster_entry entry =
     (case partition_on 64 entry of (nick, sep, site) \<Rightarrow> display_handle nick @ (if sep then [64] else []) @ site)"

section \<open>Counts and CTCP\<close>

definition parse_stats :: "mrctext \<Rightarrow> ustr \<Rightarrow> (int \<times> int \<times> int) option" where
  "parse_stats T params =
     (let parts = py_words (ut_space T) (strip_pipe_codes params); U = unitext.truncate T in
      if length parts < 3 then None
      else case (py_int_word U (parts ! 0), py_int_word U (parts ! 1), py_int_word U (parts ! 2)) of
          (Some bbses, Some rooms, Some users) \<Rightarrow>
            if min (min bbses rooms) users < 0 then None else Some (bbses, rooms, users)
        | _ \<Rightarrow> None)"

definition parse_stats_activity :: "mrctext \<Rightarrow> ustr \<Rightarrow> int option" where
  "parse_stats_activity T params =
     (let parts = py_words (ut_space T) (strip_pipe_codes params) in
      if length parts < 4 then None
      else case py_int_word (unitext.truncate T) (parts ! 3) of
          None \<Rightarrow> None
        | Some level \<Rightarrow> if 0 \<le> level \<and> level \<le> 3 then Some level else None)"

record ctcp =
  requester :: ustr
  target :: ustr
  command :: ustr
  params :: ustr

definition is_ctcp_packet :: "mrctext \<Rightarrow> mrc_packet \<Rightarrow> bool" where
  "is_ctcp_packet T p \<longleftrightarrow> ut_lower T (to_room p) = CTCP_ROOM \<or> ut_lower T (from_room p) = CTCP_ROOM"

definition parse_ctcp_request :: "mrctext \<Rightarrow> ustr \<Rightarrow> ctcp option" where
  "parse_ctcp_request T s =
     (let parts = py_words_max (ut_space T) 4 (py_strip (ut_space T) (strip_pipe_codes s)) in
      if length parts < 4 \<or> ut_upper T (parts ! 0) \<noteq> CTCP_REQUEST then None
      else Some \<lparr>requester = parts ! 1, target = parts ! 2, command = ut_upper T (parts ! 3),
             params = (if 4 < length parts then parts ! 4 else [])\<rparr>)"

definition parse_ctcp_reply :: "mrctext \<Rightarrow> ustr \<Rightarrow> (ustr \<times> ustr) option" where
  "parse_ctcp_reply T s =
     (let parts = py_words_max (ut_space T) 2 (py_strip (ut_space T) (strip_pipe_codes s)) in
      if length parts < 2 \<or> ut_upper T (parts ! 0) \<noteq> CTCP_REPLY then None
      else Some (ut_upper T (parts ! 1), if 2 < length parts then parts ! 2 else []))"

definition ctcp_request :: "mrctext \<Rightarrow> ustr \<Rightarrow> ustr \<Rightarrow> ustr \<Rightarrow> ustr \<Rightarrow> ustr \<Rightarrow> mrc_packet" where
  "ctcp_request T nick site tgt cmd prms =
     mk_packet nick site CTCP_ROOM tgt [] CTCP_ROOM
       (CTCP_REQUEST @ u '' '' @ nick @ u '' '' @ tgt @ u '' '' @ ut_upper T cmd @
        (if prms \<noteq> [] then u '' '' @ prms else []))"

definition ctcp_reply :: "mrctext \<Rightarrow> ustr \<Rightarrow> ustr \<Rightarrow> ustr \<Rightarrow> ustr \<Rightarrow> ustr \<Rightarrow> mrc_packet" where
  "ctcp_reply T nick site rqr cmd t =
     mk_packet nick site CTCP_ROOM rqr [] CTCP_ROOM
       (py_rstrip (ut_space T) (CTCP_REPLY @ u '' '' @ ut_upper T cmd @ u '' '' @ t))"

end
