(* ===== verification/Mrc_Wire.thy ===== *)
theory Mrc_Wire
  imports Mrc_Protocol Usernames
begin

text \<open>
  Properties of the MRC wire protocol: what can reach the wire and what can come from it, the round
  trip of a packet, how a caller's line becomes packets, and the names callers are announced under.
\<close>

lemma small_mrctext_laws: "mrctext_laws small_mrctext"
  using small_tables_laws
  by (simp add: mrctext_laws_def small_mrctext_def small_tables_def unitext.truncate_def unitext.extend_def)

section \<open>What the sanitisers leave\<close>

definition plain :: "nat \<Rightarrow> ustr \<Rightarrow> bool" where
  "plain low s \<longleftrightarrow> (\<forall>c\<in>set s. low \<le> c \<and> c \<le> 125)"

lemma plain_simps [simp]:
  "plain low []" "plain low (c # s) \<longleftrightarrow> low \<le> c \<and> c \<le> 125 \<and> plain low s"
  "plain low (s @ t) \<longleftrightarrow> plain low s \<and> plain low t"
  by (auto simp: plain_def)

lemma plain_take [simp]: "plain low s \<Longrightarrow> plain low (take n s)"
  by (auto simp: plain_def dest: in_set_takeD)

lemma plain_drop [simp]: "plain low s \<Longrightarrow> plain low (drop n s)"
  by (auto simp: plain_def dest: in_set_dropD)

lemma plain_weaken: "plain 33 s \<Longrightarrow> plain 32 s"
  by (auto simp: plain_def)

lemma plain_subset: "set t \<subseteq> set s \<Longrightarrow> plain low s \<Longrightarrow> plain low t"
  by (auto simp: plain_def)

lemma name_chars_plain [simp]: "plain 33 (name_chars T s)"
  by (auto simp: name_chars_def plain_def Let_def)

lemma sanitize_name_plain [simp]: "plain 33 (sanitize_name T s)" "length (sanitize_name T s) \<le> MAX_NAME"
  by (simp_all add: sanitize_name_def)

lemma sanitize_room_plain [simp]: "plain 33 (sanitize_room T s)" "length (sanitize_room T s) \<le> MAX_ROOM"
  using name_chars_plain[of T s] by (cases "name_chars T s"; simp add: sanitize_room_def room_chars_def Let_def)+

lemma printable_plain [simp]: "low \<le> 63 \<Longrightarrow> plain low (printable low s)"
  by (auto simp: plain_def printable_def)

lemma plain_no_separator: "plain low s \<Longrightarrow> SEPARATOR \<notin> set s"
  by (auto simp: plain_def SEPARATOR_def)

lemmas mrc_limits = MAX_LINE_def MAX_BODY_def MAX_NAME_def MAX_ROOM_def MAX_CHUNKS_def

lemma length_strip_ansi: "length (strip_ansi s) \<le> length s"
proof (induction s rule: strip_ansi.induct)
  case (2 c cs)
  show ?case
  proof (cases "if c = ESC then match_escape cs else None")
    case None
    then show ?thesis using "2.IH"(1) by simp
  next
    case (Some rest)
    then have "length rest < length cs" by (auto split: if_splits dest: match_escape_shorter)
    then show ?thesis using Some "2.IH"(2)[OF Some] by simp
  qed
qed simp

lemma length_clean: "length (clean s) \<le> length s"
  unfolding clean_def sanitize_text_def length_map by (rule order_trans[OF length_filter_le length_strip_ansi])

lemma wire_fields_plain: "f \<in> set (wire_fields T p) \<Longrightarrow> plain 32 f"
  by (auto simp: wire_fields_def intro: plain_weaken split: if_splits)

lemma wire_fields_length:
  "length (concat (wire_fields T p)) \<le> 268 + length (clean (body p))"
  using sanitize_name_plain(2)[of T "from_user p"] sanitize_name_plain(2)[of T "from_site p"]
    sanitize_name_plain(2)[of T "to_user p"] sanitize_name_plain(2)[of T "msg_ext p"]
    sanitize_room_plain(2)[of T "from_room p"] sanitize_room_plain(2)[of T "to_room p"]
    min.cobounded2[of "length (name_chars T (from_room p))" 128]
  by (cases "ut_upper T (from_user p) = CLIENT") (simp_all add: wire_fields_def printable_def mrc_limits)

lemma length_join: "ps \<noteq> [] \<Longrightarrow> length (join_with [c] ps) = length (concat ps) + (length ps - 1)"
  by (induction "[c]" ps rule: join_with.induct) auto

lemma set_join: "set (join_with [c] ps) \<subseteq> insert c (\<Union>p\<in>set ps. set p)"
  by (induction "[c]" ps rule: join_with.induct) auto

section \<open>Splitting a line into chunks\<close>

text \<open>What \<open>split_body\<close> may do to a body is move its spaces.\<close>

definition unspaced :: "ustr \<Rightarrow> ustr" where
  "unspaced s = filter (\<lambda>c. c \<noteq> 32) s"

lemma unspaced_simps [simp]:
  "unspaced [] = []" "unspaced (s @ t) = unspaced s @ unspaced t" "unspaced (32 # t) = unspaced t"
  by (simp_all add: unspaced_def)

lemma cut_word_unfold:
  "1 \<le> limit \<Longrightarrow> cut_word limit word current chunks =
     (if length word \<le> limit then (word, current, chunks)
      else cut_word limit (drop limit word) []
        ((if current \<noteq> [] then chunks @ [current] else chunks) @ [take limit word]))"
  by (subst cut_word.simps) (simp add: max_def)

definition short_chunks :: "nat \<Rightarrow> ustr list \<Rightarrow> ustr \<Rightarrow> bool" where
  "short_chunks limit chunks cur \<longleftrightarrow> (\<forall>c\<in>set chunks. length c \<le> limit) \<and> length cur \<le> limit"

lemma cut_word_keeps:
  "cut_word limit w cur chunks = (w', cur', chunks') \<Longrightarrow> 1 \<le> limit \<Longrightarrow> short_chunks limit chunks cur \<Longrightarrow>
    length w' \<le> limit \<and> concat chunks' @ cur' @ w' = concat chunks @ cur @ w \<and> short_chunks limit chunks' cur'"
proof (induction "length w" arbitrary: w cur chunks rule: less_induct)
  case less
  show ?case
  proof (cases "length w \<le> limit")
    case True
    then show ?thesis using less.prems by (simp add: cut_word_unfold)
  next
    case False
    let ?chunks = "(if cur \<noteq> [] then chunks @ [cur] else chunks) @ [take limit w]"
    have "cut_word limit (drop limit w) [] ?chunks = (w', cur', chunks')"
      using less.prems(1,2) False by (subst (asm) cut_word_unfold) simp_all
    moreover have "short_chunks limit ?chunks []" using less.prems(3) by (auto simp: short_chunks_def)
    moreover have "length (drop limit w) < length w" using False less.prems(2) by simp
    ultimately have "length w' \<le> limit \<and> concat chunks' @ cur' @ w' = concat ?chunks @ [] @ drop limit w \<and>
        short_chunks limit chunks' cur'"
      using less.hyps less.prems(2) by blast
    then show ?thesis by simp
  qed
qed

lemma add_word_keeps:
  assumes "add_word limit (chunks, cur) w = (chunks', cur')" "1 \<le> limit" "short_chunks limit chunks cur"
  shows "unspaced (concat chunks' @ cur') = unspaced (concat chunks @ cur @ w) \<and> short_chunks limit chunks' cur'"
proof -
  obtain w1 cur1 chunks1 where c: "cut_word limit w cur chunks = (w1, cur1, chunks1)"
    by (metis prod_cases3)
  note k = cut_word_keeps[OF c assms(2,3)]
  have "unspaced (concat chunks1 @ cur1 @ w1) = unspaced (concat chunks @ cur @ w)" using k by presburger
  moreover consider "cur1 = []" "chunks' = chunks1" "cur' = w1"
    | "cur1 \<noteq> []" "length (cur1 @ 32 # w1) \<le> limit" "chunks' = chunks1" "cur' = cur1 @ 32 # w1"
    | "cur1 \<noteq> []" "chunks' = chunks1 @ [cur1]" "cur' = w1"
    using assms(1) c conjunct1[OF k]
    by (cases "cur1 = []"; cases "length (cur1 @ 32 # w1) \<le> limit") (simp_all add: add_word_def)
  then have "unspaced (concat chunks' @ cur') = unspaced (concat chunks1 @ cur1 @ w1) \<and> short_chunks limit chunks' cur'"
    by cases (use conjunct2[OF conjunct2[OF k]] conjunct1[OF k] in \<open>auto simp: short_chunks_def\<close>)
  ultimately show ?thesis by presburger
qed

lemma add_words_keep:
  "foldl (add_word limit) (chunks, cur) ws = (chunks', cur') \<Longrightarrow> 1 \<le> limit \<Longrightarrow> short_chunks limit chunks cur \<Longrightarrow>
    unspaced (concat chunks' @ cur') = unspaced (concat chunks @ cur @ concat ws) \<and> short_chunks limit chunks' cur'"
proof (induction ws arbitrary: chunks cur)
  case (Cons w ws)
  obtain chunks1 cur1 where a: "add_word limit (chunks, cur) w = (chunks1, cur1)" by fastforce
  note k = add_word_keeps[OF a Cons.prems(2,3)]
  have "foldl (add_word limit) (chunks1, cur1) ws = (chunks', cur')" using Cons.prems(1) a by simp
  from Cons.IH[OF this Cons.prems(2)] k show ?case by simp
qed simp

lemma unspaced_words: "unspaced (concat (split_on 32 s)) = unspaced s"
proof (induction s)
  case (Cons c s)
  then show ?case by (cases "split_on 32 s") (auto simp: unspaced_def)
qed simp

lemma concat_nonempty: "concat (filter (\<lambda>w. w \<noteq> []) ws) = concat ws"
  by (induction ws) auto

lemma split_body_cases:
  obtains all where "\<forall>c\<in>set all. c \<noteq> [] \<and> length c \<le> max 1 (MAX_BODY - reserve)"
    "unspaced (concat all) = unspaced s"
    "split_body max_chunks reserve s = (if max_chunks < length all then (take max_chunks all, True) else (all, False))"
proof -
  let ?limit = "max 1 (MAX_BODY - reserve)"
  obtain chunks cur where f: "foldl (add_word ?limit) ([], []) (filter (\<lambda>w. w \<noteq> []) (split_on 32 s)) = (chunks, cur)"
    by fastforce
  define all where "all = filter (\<lambda>c. c \<noteq> []) (if cur \<noteq> [] then chunks @ [cur] else chunks)"
  have k: "unspaced (concat chunks @ cur) = unspaced (concat [] @ [] @ concat (filter (\<lambda>w. w \<noteq> []) (split_on 32 s))) \<and>
      short_chunks ?limit chunks cur"
    by (rule add_words_keep[OF f]) (simp_all add: short_chunks_def)
  have "concat all = concat chunks @ cur" by (simp add: all_def concat_nonempty)
  then have "unspaced (concat all) = unspaced s"
    using k unspaced_words[of s] by (simp add: concat_nonempty)
  moreover have "\<forall>c\<in>set all. c \<noteq> [] \<and> length c \<le> ?limit" using k by (auto simp: all_def short_chunks_def split: if_splits)
  moreover have "split_body max_chunks reserve s = (if max_chunks < length all then (take max_chunks all, True) else (all, False))"
    using f by (simp add: split_body_def all_def Let_def)
  ultimately show thesis using that by blast
qed

section \<open>What passes unchanged\<close>

lemma keeps_plain: "32 \<le> c \<Longrightarrow> c \<le> 125 \<Longrightarrow> keeps_char False c"
  by (auto simp: keeps_char_def is_control_def BIDI_CONTROLS_def)

lemma sanitize_plain: "plain 32 s \<Longrightarrow> sanitize_text False (strip_ansi s) = s"
  by (subst strip_ansi_no_esc) (auto simp: plain_def ESC_def sanitize_text_def keeps_plain filter_id_conv)

lemma clean_plain: "plain 32 s \<Longrightarrow> clean s = s"
  using sanitize_plain[of s] by (auto simp: clean_def plain_def SEPARATOR_def intro!: map_idI)

lemma printable_id: "plain low s \<Longrightarrow> printable low s = s"
  by (auto simp: printable_def plain_def intro!: map_idI)

lemma sanitize_body_plain [simp]: "plain 32 (sanitize_body T s)"
  unfolding sanitize_body_def by (rule plain_subset[OF set_py_strip]) simp

lemma plain_unspaced: "plain 32 s \<longleftrightarrow> plain 32 (unspaced s)"
  by (auto simp: plain_def unspaced_def)

lemma ascii_plain: "plain low s \<Longrightarrow> \<forall>c\<in>set s. c < 128"
  by (auto simp: plain_def)

lemma upper_plain: "mrctext_laws T \<Longrightarrow> plain low s \<Longrightarrow> ut_upper T s = map ascii_upper s"
  using ascii_plain by (auto simp: mrctext_laws_def)

lemma space_plain: "mrctext_laws T \<Longrightarrow> 32 \<le> c \<Longrightarrow> c \<le> 125 \<Longrightarrow> ut_space T c \<longleftrightarrow> c = 32"
  by (auto simp: mrctext_laws_def unicode_laws_def unitext.truncate_def ascii_space_def)

section \<open>Names\<close>

lemma nick_plain:
  assumes "mrctext_laws T"
  shows "plain 33 (nick_for_username T un)" "length (nick_for_username T un) \<le> MAX_NAME"
    "nick_for_username T un \<noteq> []" "ut_upper T (nick_for_username T un) \<notin> set RESERVED_NAMES"
proof -
  define nick where "nick = (if sanitize_name T un = [] then u ''user'' else sanitize_name T un)"
  have p: "plain 33 nick" "length nick \<le> MAX_NAME" "nick \<noteq> []"
    unfolding nick_def using sanitize_name_plain[of T un] by (auto simp: MAX_NAME_def)
  have n: "nick_for_username T un = (if ut_upper T nick \<in> set RESERVED_NAMES then take MAX_NAME (nick @ u ''_'') else nick)"
    by (simp add: nick_for_username_def nick_def Let_def)
  have up: "length (ut_upper T nick) = length nick" using upper_plain[OF assms p(1)] by simp
  have reserved: "length nick \<le> 6" if "ut_upper T nick \<in> set RESERVED_NAMES"
    using that up by (auto simp: RESERVED_NAMES_def SERVER_def CLIENT_def NOTME_def ALL_USERS_def)
  show "plain 33 (nick_for_username T un)" "length (nick_for_username T un) \<le> MAX_NAME" "nick_for_username T un \<noteq> []"
    unfolding n using p reserved by (auto simp: MAX_NAME_def)
  show "ut_upper T (nick_for_username T un) \<notin> set RESERVED_NAMES"
  proof (cases "ut_upper T nick \<in> set RESERVED_NAMES")
    case True
    then have "nick_for_username T un = nick @ [95]" using n reserved by (simp add: MAX_NAME_def)
    moreover from this have "ut_upper T (nick @ [95]) = map ascii_upper nick @ [95]"
      using upper_plain[OF assms, of 33 "nick @ [95]"] p(1) by (simp add: ascii_upper_def)
    moreover have "last r \<noteq> 95" if "r \<in> set RESERVED_NAMES" for r
      using that by (auto simp: RESERVED_NAMES_def SERVER_def CLIENT_def NOTME_def ALL_USERS_def)
    ultimately show ?thesis by (metis last_snoc)
  qed (simp add: n)
qed

section \<open>Lines written\<close>

lemma join_snoc_sep: "ps \<noteq> [] \<Longrightarrow> join_with [c] ps @ [c] = join_with [c] (ps @ [[]])"
  by (simp add: join_with_snoc)

lemma written_limit: "length (body p) \<le> 236 \<Longrightarrow> build_line T p \<noteq> None"
proof -
  have "wire_fields T p \<noteq> []" "length (wire_fields T p) = 7" by (simp_all add: wire_fields_def)
  moreover have "length (concat (wire_fields T p)) \<le> 268 + length (body p)"
    using wire_fields_length[of T p] length_clean[of "body p"] by linarith
  ultimately show "length (body p) \<le> 236 \<Longrightarrow> ?thesis"
    using length_join[of "wire_fields T p" SEPARATOR] by (simp add: build_line_def MAX_LINE_def)
qed

text \<open>
  C19: whatever packet is built, no byte of it can break the line format. A line that is written has at
  most 512 bytes and is seven fields of printable ASCII, none holding a tilde, each followed by one,
  and a single newline; so the receiver splits it into exactly those fields. And a line is refused
  only when the body alone is longer than 236 characters.
\<close>

theorem written_line_is_well_formed:
  "(length (body p) \<le> 236 \<longrightarrow> build_line T p \<noteq> None) \<and>
   (\<forall>line. build_line T p = Some line \<longrightarrow> length line \<le> MAX_LINE \<and>
      split_on SEPARATOR (butlast line) = wire_fields T p @ [[]] \<and> last line = 10 \<and>
      length (wire_fields T p) = 7 \<and> (\<forall>f\<in>set (wire_fields T p). plain 32 f))"
proof -
  let ?fs = "wire_fields T p"
  have fs: "length ?fs = 7" "?fs \<noteq> []" by (simp_all add: wire_fields_def)
  have "split_on SEPARATOR (join_with [SEPARATOR] ?fs @ [SEPARATOR]) = ?fs @ [[]]"
    unfolding join_snoc_sep[OF fs(2)]
    using plain_no_separator wire_fields_plain by (intro split_join) (auto dest: wire_fields_plain)
  then show ?thesis using written_limit[of p T] fs wire_fields_plain by (auto simp: build_line_def Let_def butlast_append split: if_splits)
qed

section \<open>A caller's line\<close>

lemma room_body_length: "length (format_room_body nick t col) = room_body_reserve nick col + length t"
  by (simp add: format_room_body_def room_body_reserve_def Let_def)

lemma room_body_reserve_bound: "length nick \<le> MAX_NAME \<Longrightarrow> room_body_reserve nick col \<le> 48"
proof -
  let ?c = "nat (if 0 \<le> col \<and> col \<le> 15 then col else DEFAULT_NICK_COLOR)"
  have "?c < 24" by (auto simp: DEFAULT_NICK_COLOR_def nat_less_iff)
  then obtain a b where "dec2 ?c = [a, b]" by (rule color_token)
  then show "length nick \<le> MAX_NAME \<Longrightarrow> ?thesis"
    by (simp add: room_body_reserve_def format_room_body_def Let_def MAX_NAME_def)
qed

lemma room_body_plain: "plain 32 nick \<Longrightarrow> plain 32 t \<Longrightarrow> plain 32 (format_room_body nick t col)"
proof -
  let ?c = "nat (if 0 \<le> col \<and> col \<le> 15 then col else DEFAULT_NICK_COLOR)"
  have "?c < 24" by (auto simp: DEFAULT_NICK_COLOR_def nat_less_iff)
  then obtain a b where "dec2 ?c = [a, b]" "is_ascii_number [a, b]" by (rule color_token)
  then show "plain 32 nick \<Longrightarrow> plain 32 t \<Longrightarrow> ?thesis"
    by (simp add: format_room_body_def Let_def is_ascii_number_def is_digit_def)
qed

text \<open>What the sanitiser leaves of a line of printable ASCII without tildes and bars: all but outer spaces.\<close>

lemma unspaced_strip: "\<forall>c\<in>set s. sp c \<longleftrightarrow> c = 32 \<Longrightarrow> unspaced (py_strip sp s) = unspaced s"
proof -
  assume sp: "\<forall>c\<in>set s. sp c \<longleftrightarrow> c = 32"
  have drop: "unspaced (dropWhile sp t) = unspaced t" if "\<forall>c\<in>set t. sp c \<longleftrightarrow> c = 32" for t
    using that by (induction t) (auto simp: unspaced_def)
  have rev: "unspaced (rev t) = rev (unspaced t)" for t by (simp add: unspaced_def rev_filter)
  let ?d = "dropWhile sp s"
  have "\<forall>c\<in>set (rev ?d). sp c \<longleftrightarrow> c = 32" using sp by (auto dest: set_dropWhileD)
  then have "unspaced (dropWhile sp (rev ?d)) = rev (unspaced s)" using drop[of "rev ?d"] drop[OF sp] by (simp add: rev)
  then show ?thesis by (simp add: py_strip_def py_rstrip_def py_lstrip_def rev)
qed

lemma pipe_sub_no_bar: "BAR \<notin> set s \<Longrightarrow> pipe_sub f s = s"
  by (induction f s rule: pipe_sub.induct) auto

lemma sanitize_body_plain_line:
  assumes "mrctext_laws T" "plain 32 msg" "BAR \<notin> set msg"
  shows "unspaced (sanitize_body T msg) = unspaced msg"
proof -
  have "sanitize_body T msg = py_strip (ut_space T) msg"
    using assms(2,3) by (simp add: sanitize_body_def clean_plain strip_pipe_codes_def pipe_sub_no_bar printable_id)
  moreover have "\<forall>c\<in>set msg. ut_space T c \<longleftrightarrow> c = 32"
    using assms(2) space_plain[OF assms(1)] by (auto simp: plain_def)
  ultimately show ?thesis using unspaced_strip by metis
qed

text \<open>
  C21: what is left of a caller's line by the sanitiser reaches the network whole, or the caller is told.
  The sanitised body is split into at most three chunks; each of them, with the caller's coloured name
  before it, fits the hub's 140 characters, is accepted as a packet, and is on the wire exactly as it was
  formatted; and unless the split reports a truncation the chunks hold every character of the sanitised
  body in order, spaces aside. For a line of printable ASCII without tildes and bars these are the
  characters the caller typed. (The report is about length only: of other lines the sanitiser has by then
  replaced what is not ASCII by question marks, tildes by spaces, and removed pipe codes, and nothing
  reports that.)
\<close>

theorem chat_line_is_relayed_whole:
  assumes "mrctext_laws T"
    and "split_body MAX_CHUNKS (room_body_reserve (nick_for_username T un) col) (sanitize_body T msg) = (chunks, truncated)"
  shows "length chunks \<le> 3 \<and> (truncated \<or> unspaced (concat chunks) = unspaced (sanitize_body T msg)) \<and>
    (truncated \<or> \<not> plain 32 msg \<or> BAR \<in> set msg \<or> unspaced (concat chunks) = unspaced msg) \<and>
    (\<forall>c\<in>set chunks. \<exists>line. let b = format_room_body (nick_for_username T un) c col;
        p = chat_message (nick_for_username T un) site room b
      in c \<noteq> [] \<and> length b \<le> MAX_BODY \<and> build_line T p = Some line \<and> wire_fields T p ! 6 = b)"
proof -
  let ?nick = "nick_for_username T un"
  let ?reserve = "room_body_reserve ?nick col"
  have r: "?reserve \<le> 48" using nick_plain(2)[OF assms(1)] room_body_reserve_bound by blast
  obtain all where all: "\<forall>c\<in>set all. c \<noteq> [] \<and> length c \<le> max 1 (MAX_BODY - ?reserve)"
      "unspaced (concat all) = unspaced (sanitize_body T msg)"
      "(chunks, truncated) = (if MAX_CHUNKS < length all then (take MAX_CHUNKS all, True) else (all, False))"
    using split_body_cases assms(2) by metis
  have some: "set chunks \<subseteq> set all" "length chunks \<le> 3" "truncated \<or> chunks = all"
    using all(3) by (auto simp: MAX_CHUNKS_def split: if_splits dest: in_set_takeD)
  have "\<exists>line. let b = format_room_body ?nick c col; p = chat_message ?nick site room b
      in c \<noteq> [] \<and> length b \<le> MAX_BODY \<and> build_line T p = Some line \<and> wire_fields T p ! 6 = b"
    if "c \<in> set chunks" for c
  proof -
    let ?b = "format_room_body ?nick c col"
    have c: "c \<in> set all" using that some(1) by blast
    have "plain 32 (concat all)"
      using plain_unspaced[of "concat all"] plain_unspaced[of "sanitize_body T msg"] all(2) by simp
    then have "plain 32 c" using c by (auto simp: plain_def)
    then have b: "plain 32 ?b"
      by (rule room_body_plain[OF plain_weaken[OF nick_plain(1)[OF assms(1)]]])
    have len: "length ?b \<le> MAX_BODY" "c \<noteq> []"
      using c all(1) r by (auto simp: room_body_length MAX_BODY_def)
    moreover obtain line where "build_line T (chat_message ?nick site room ?b) = Some line"
      using written_limit[of "chat_message ?nick site room ?b" T] len(1)
      by (auto simp: chat_message_def mk_packet_def MAX_BODY_def)
    moreover have "wire_fields T (chat_message ?nick site room ?b) ! 6 = ?b"
      using b by (simp add: wire_fields_def chat_message_def mk_packet_def clean_plain printable_id)
    ultimately show ?thesis unfolding Let_def by blast
  qed
  moreover have kept: "truncated \<or> unspaced (concat chunks) = unspaced (sanitize_body T msg)"
    using some(3) all(2) by auto
  moreover have "truncated \<or> \<not> plain 32 msg \<or> BAR \<in> set msg \<or> unspaced (concat chunks) = unspaced msg"
    using kept sanitize_body_plain_line[OF assms(1), of msg] by metis
  ultimately show ?thesis using some(2) by blast
qed

theorem chat_line_is_relayed_whole_witness:
  "case split_body MAX_CHUNKS (room_body_reserve (nick_for_username small_mrctext (u ''bob'')) 14)
      (sanitize_body small_mrctext (u ''good evening'')) of (chunks, truncated) \<Rightarrow>
    length chunks \<le> 3 \<and> (truncated \<or> unspaced (concat chunks) = unspaced (sanitize_body small_mrctext (u ''good evening''))) \<and>
    (\<forall>c\<in>set chunks. \<exists>line. let b = format_room_body (nick_for_username small_mrctext (u ''bob'')) c 14;
        p = chat_message (nick_for_username small_mrctext (u ''bob'')) (u ''Node'') (u ''lobby'') b
      in c \<noteq> [] \<and> length b \<le> MAX_BODY \<and> build_line small_mrctext p = Some line \<and> wire_fields small_mrctext p ! 6 = b)"
  by (rule case_prodI2) (use chat_line_is_relayed_whole[OF small_mrctext_laws] in blast)

section \<open>Lines read\<close>

text \<open>What a packet that came from the network can hold: in no field a control character, a character
  that reorders text, or a tilde; every field within its limit.\<close>

definition harmless :: "ustr \<Rightarrow> bool" where
  "harmless s \<longleftrightarrow> (\<forall>c\<in>set s. keeps_char False c \<and> c \<noteq> SEPARATOR)"

lemma harmless_subset: "set t \<subseteq> set s \<Longrightarrow> harmless s \<Longrightarrow> harmless t"
  by (auto simp: harmless_def)

lemma harmless_take: "harmless s \<Longrightarrow> harmless (take n s)"
  by (auto simp: harmless_def dest: in_set_takeD)

lemma set_match_escape: "match_escape s = Some rest \<Longrightarrow> set rest \<subseteq> set s"
proof -
  have drop: "dropWhile P s = c # rest \<Longrightarrow> set rest \<subseteq> set s" for P and c :: nat and s rest
    using set_dropWhileD[of _ P s] by (metis list.set_intros(2) subsetI)
  have csi: "match_csi_tail s = Some rest \<Longrightarrow> set rest \<subseteq> set s" for s
    using drop[of _ "dropWhile csi_param s"] set_dropWhileD[of _ csi_param s]
    by (fastforce simp: match_csi_tail_def Let_def split: list.splits if_splits)
  have other: "match_other_tail s = Some rest \<Longrightarrow> set rest \<subseteq> set s" for s
    by (auto simp: match_other_tail_def split: list.splits if_splits dest!: drop)
  have osc: "match_osc_tail s = Some rest \<Longrightarrow> set rest \<subseteq> set s" for s
    by (fastforce simp: match_osc_tail_def split: list.splits if_splits dest!: drop)
  assume "match_escape s = Some rest"
  then show ?thesis
    by (auto simp: match_escape_def split: option.splits list.splits if_splits dest!: other csi osc)
qed

lemma set_strip_ansi: "set (strip_ansi s) \<subseteq> set s"
proof (induction s rule: strip_ansi.induct)
  case (2 c cs)
  show ?case
  proof (cases "if c = ESC then match_escape cs else None")
    case None
    then show ?thesis using "2.IH"(1) by auto
  next
    case (Some rest)
    then have "set rest \<subseteq> set cs" by (auto split: if_splits dest: set_match_escape)
    then show ?thesis using Some "2.IH"(2)[OF Some] by auto
  qed
qed simp

lemma harmless_cleaned:
  assumes "SEPARATOR \<notin> set f"
  shows "harmless (py_strip sp (sanitize_text False (strip_ansi f)))"
proof (rule harmless_subset[OF set_py_strip])
  show "harmless (sanitize_text False (strip_ansi f))"
    using assms set_strip_ansi[of f] by (auto simp: harmless_def sanitize_text_def)
qed

definition packet_limits :: "mrc_packet \<Rightarrow> bool" where
  "packet_limits p \<longleftrightarrow> (\<forall>f\<in>{from_user p, from_site p, from_room p, to_user p, msg_ext p, to_room p, body p}. harmless f) \<and>
     length (from_user p) \<le> 30 \<and> length (from_site p) \<le> 30 \<and> length (from_room p) \<le> 128 \<and>
     length (to_user p) \<le> 30 \<and> length (msg_ext p) \<le> 30 \<and> length (to_room p) \<le> 20 \<and> length (body p) \<le> 512"

lemma harmless_body: "harmless s \<Longrightarrow> harmless (strip_non_color_pipe_codes s)" "harmless s \<Longrightarrow> harmless (strip_pipe_codes s)"
  using harmless_subset strip_non_color_set strip_pipe_set by blast+

lemma seven_fields: "length fs = 7 \<Longrightarrow> \<exists>a b c d e f g. fs = [a, b, c, d, e, f, g]"
  by (auto simp: numeral_eq_Suc length_Suc_conv)

lemma read_fields_limits:
  assumes "length fs = 7" "\<forall>f\<in>set fs. SEPARATOR \<notin> set f"
  shows "packet_limits (read_fields T fs)"
proof -
  obtain a b c d e f g where fs: "fs = [a, b, c, d, e, f, g]" using seven_fields[OF assms(1)] by blast
  show ?thesis
    using assms(2) unfolding fs
    by (simp add: read_fields_def Let_def packet_limits_def mrc_limits harmless_take harmless_body harmless_cleaned
        min_le_iff_disj)
qed

text \<open>
  C20: nothing that arrives from the chat network can carry a terminal command or a reordering
  character past the parser: every field of a packet it returns is free of control characters (a tab
  apart), of bidirectional controls and of tildes, and is within the protocol's length.
\<close>

theorem received_packet_is_harmless:
  assumes "parse_line T line = Some p"
  shows "packet_limits p"
proof -
  obtain s where s: "7 \<le> length (split_on SEPARATOR s)"
      "p = read_fields T (let fs = split_on SEPARATOR s in
         if 7 < length fs then take 6 fs @ [join_with [32] (drop 6 fs)] else fs)"
    using assms by (auto simp: parse_line_def Let_def not_less split: if_splits)
  have "\<forall>f\<in>set (split_on SEPARATOR s). SEPARATOR \<notin> set f" using set_split_on by fastforce
  moreover from this have "SEPARATOR \<notin> set (join_with [32] (drop 6 (split_on SEPARATOR s)))"
    using set_join[of 32 "drop 6 (split_on SEPARATOR s)"] by (auto simp: SEPARATOR_def dest!: in_set_dropD subsetD)
  ultimately show ?thesis
    unfolding s(2) using s(1) by (intro read_fields_limits) (auto simp: Let_def dest: in_set_takeD)
qed

theorem received_packet_is_harmless_witness:
  "packet_limits (the (parse_line small_mrctext ([27, 91, 49, 109] @ u ''bob~node~lobby~~~lobby~hi'' @ [7, 10])))"
  by (rule received_packet_is_harmless[of small_mrctext "[27, 91, 49, 109] @ u ''bob~node~lobby~~~lobby~hi'' @ [7, 10]"])
    (simp add: parse_line_def py_rstrip_def SEPARATOR_def)

section \<open>Round trip\<close>

lemma collapse_id: "\<forall>c\<in>set s. \<not> sp c \<Longrightarrow> collapse sp s = s"
  by (induction s) auto

definition wire_ready :: "mrctext \<Rightarrow> mrc_packet \<Rightarrow> bool" where
  "wire_ready T p \<longleftrightarrow>
     (\<forall>f\<in>{from_user p, from_site p, from_room p, to_user p, msg_ext p, to_room p}. plain 33 f \<and> strip_pipe_codes f = f) \<and>
     (\<forall>f\<in>{from_user p, from_site p, to_user p, msg_ext p}. length f \<le> MAX_NAME) \<and>
     length (to_room p) \<le> MAX_ROOM \<and> (to_room p = [] \<or> hd (to_room p) \<noteq> 35) \<and>
     (if map ascii_upper (from_user p) = CLIENT then length (from_room p) \<le> 128
      else length (from_room p) \<le> MAX_ROOM \<and> (from_room p = [] \<or> hd (from_room p) \<noteq> 35)) \<and>
     plain 32 (body p) \<and> (body p = [] \<or> hd (body p) \<noteq> 32 \<and> last (body p) \<noteq> 32) \<and>
     strip_non_color_pipe_codes (body p) = body p \<and> length (body p) \<le> 236"

lemma plain_not_space: "mrctext_laws T \<Longrightarrow> plain 33 s \<Longrightarrow> c \<in> set s \<Longrightarrow> \<not> ut_space T c"
  by (auto simp: plain_def space_plain)

lemma strip_name: "mrctext_laws T \<Longrightarrow> plain 33 s \<Longrightarrow> py_strip (ut_space T) s = s"
  using plain_not_space[of T s] by (cases "s = []") (auto intro!: py_strip_id)

lemma name_chars_id:
  assumes "mrctext_laws T" "plain 33 s" "strip_pipe_codes s = s"
  shows "name_chars T s = s"
proof -
  have "\<forall>c\<in>set s. \<not> ut_space T c" using plain_not_space[OF assms(1,2)] by blast
  then show ?thesis
    using assms plain_weaken[OF assms(2)]
    by (simp add: name_chars_def clean_plain strip_name collapse_id) (auto simp: plain_def filter_id_conv)
qed

lemma read_field:
  assumes "mrctext_laws T" "plain 33 f" "strip_pipe_codes f = f"
  shows "strip_pipe_codes (py_strip (ut_space T) (sanitize_text False (strip_ansi f))) = f"
    "py_strip (ut_space T) (sanitize_text False (strip_ansi f)) = f"
  using assms by (simp_all add: sanitize_plain plain_weaken strip_name)

lemma wire_fields_ready:
  assumes "mrctext_laws T" "wire_ready T p"
  shows "wire_fields T p = [from_user p, from_site p, from_room p, to_user p, msg_ext p, to_room p, body p]"
proof -
  note w = assms(2)[unfolded wire_ready_def]
  have names: "name_chars T f = f"
    if "f \<in> {from_user p, from_site p, from_room p, to_user p, msg_ext p, to_room p}" for f
    using name_chars_id[OF assms(1)] w that by blast
  have up: "ut_upper T (from_user p) = map ascii_upper (from_user p)" using upper_plain[OF assms(1)] w by blast
  have room: "sanitize_room T r = r" if "name_chars T r = r" "length r \<le> MAX_ROOM" "r = [] \<or> hd r \<noteq> 35" for r
    using that by (auto simp: sanitize_room_def room_chars_def Let_def)
  show ?thesis
    using w up by (simp add: wire_fields_def sanitize_name_def names room clean_plain printable_id split: if_splits)
qed

lemma read_fields_ready:
  assumes "mrctext_laws T" "wire_ready T p"
  shows "read_fields T [from_user p, from_site p, from_room p, to_user p, msg_ext p, to_room p, body p] = p"
proof -
  note w = assms(2)[unfolded wire_ready_def]
  have names: "strip_pipe_codes f = f" "py_strip (ut_space T) (sanitize_text False (strip_ansi f)) = f"
      "py_strip (ut_space T) f = f"
    if "f \<in> {from_user p, from_site p, from_room p, to_user p, msg_ext p, to_room p}" for f
    using read_field[OF assms(1)] strip_name[OF assms(1)] w that by blast+
  have up: "ut_upper T (from_user p) = map ascii_upper (from_user p)" using upper_plain[OF assms(1)] w by blast
  have "py_strip (ut_space T) (body p) = body p"
  proof (cases "body p = []")
    case False
    then have "hd (body p) \<in> set (body p)" "last (body p) \<in> set (body p)" by simp_all
    then show ?thesis using w False by (intro py_strip_id) (auto simp: plain_def space_plain[OF assms(1)])
  qed simp
  then have "py_strip (ut_space T) (sanitize_text False (strip_ansi (body p))) = body p"
    using w by (simp add: sanitize_plain)
  then show ?thesis
    using w by (simp add: read_fields_def Let_def names up mrc_limits split: if_splits)
qed

lemma accepted_nick_stable:
  assumes "mrctext_laws T" "validate_username un = None"
  shows "sanitize_name T (nick_for_username T un) = nick_for_username T un"
proof -
  obtain t where t: "t \<noteq> []" "\<forall>c\<in>set t. username_char c" "un = t \<or> un = t @ [10]"
    using accepted_name[OF assms(2)] by metis
  have p: "plain 33 t" "BAR \<notin> set t" using t(2) username_char_range by (fastforce simp: plain_def BAR_def)+
  have "clean un = t"
  proof -
    have "ESC \<notin> set un" using t(3) p(1) by (fastforce simp: plain_def ESC_def)
    then have "clean un = map (\<lambda>c. if c = SEPARATOR then 32 else c) (sanitize_text False un)"
      by (simp add: clean_def strip_ansi_no_esc)
    moreover have "sanitize_text False un = sanitize_text False (strip_ansi t)"
      using t(3) \<open>ESC \<notin> set un\<close> by (auto simp: sanitize_text_def keeps_char_def strip_ansi_no_esc)
    ultimately show ?thesis using clean_plain[OF plain_weaken[OF p(1)]] by (simp add: clean_def)
  qed
  moreover have id: "name_chars T s = s" if "plain 33 s" "BAR \<notin> set s" for s
    using that by (intro name_chars_id[OF assms(1)]) (simp_all add: strip_pipe_codes_def pipe_sub_plain)
  moreover have "clean t = t" using p by (intro clean_plain plain_weaken)
  ultimately have "name_chars T un = t" using id[OF p] by (simp add: name_chars_def)
  then have "BAR \<notin> set (nick_for_username T un)"
    using p(2) by (auto simp: nick_for_username_def sanitize_name_def Let_def BAR_def dest!: in_set_takeD)
  then show ?thesis
    using id[OF nick_plain(1)[OF assms(1)]] nick_plain(2)[OF assms(1), of un] by (simp add: sanitize_name_def)
qed

text \<open>
  whoever logs in, the name they are announced under on the chat network is a legal one: not
  empty, printable, at most 30 characters, never one of the hub's routing names in any spelling; and for
  a name that account creation accepts it is stable: the sanitiser every packet applies again leaves it
  as it is, so the name on the wire is the name the bridge keeps.
\<close>

theorem announced_nick_is_legal:
  assumes "mrctext_laws T"
  shows "nick_for_username T un \<noteq> [] \<and> plain 33 (nick_for_username T un) \<and>
    length (nick_for_username T un) \<le> MAX_NAME \<and> ut_upper T (nick_for_username T un) \<notin> set RESERVED_NAMES \<and>
    (validate_username un = None \<longrightarrow> sanitize_name T (nick_for_username T un) = nick_for_username T un)"
  using nick_plain[OF assms] accepted_nick_stable[OF assms] by blast

theorem announced_nick_is_legal_witness:
  "nick_for_username small_mrctext (u ''Server'') \<noteq> [] \<and> plain 33 (nick_for_username small_mrctext (u ''Server'')) \<and>
    length (nick_for_username small_mrctext (u ''Server'')) \<le> MAX_NAME \<and>
    ut_upper small_mrctext (nick_for_username small_mrctext (u ''Server'')) \<notin> set RESERVED_NAMES \<and>
    sanitize_name small_mrctext (nick_for_username small_mrctext (u ''Server'')) = nick_for_username small_mrctext (u ''Server'')"
proof -
  have "validate_username (u ''Server'') = None"
    by (simp add: validate_username_def MAX_USERNAME_LENGTH_def RESERVED_USERNAMES_def matches_username_def
        username_char_def ascii_alnum_def is_digit_def ascii_fold_def ends_with_def DOOR_LABEL_SUFFIX_def
        BOT_LABEL_SUFFIX_def)
  then show ?thesis using announced_nick_is_legal[OF small_mrctext_laws, of "u ''Server''"] by simp
qed

text \<open>
  C18: a packet survives the wire. If its names are printable, without pipe codes and within their
  limits, its rooms do not start with a hash, and its body is printable, trimmed, at most 236
  characters long and holds no pipe token but colours, then it is written, and the line reads back as
  exactly that packet.
\<close>

theorem mrc_packet_roundtrip:
  assumes "mrctext_laws T" "wire_ready T p"
  shows "\<exists>line. build_line T p = Some line \<and> parse_line T line = Some p"
proof -
  let ?fs = "[from_user p, from_site p, from_room p, to_user p, msg_ext p, to_room p, body p]"
  have w: "wire_fields T p = ?fs" by (rule wire_fields_ready[OF assms])
  have len: "length (body p) \<le> 236" using assms(2) by (simp add: wire_ready_def)
  define line where "line = join_with [SEPARATOR] ?fs @ [SEPARATOR] @ [10]"
  have built: "build_line T p = Some line"
    using written_limit[OF len, of T] by (auto simp: build_line_def w line_def Let_def split: if_splits)
  have "py_rstrip (\<lambda>c. c = 13 \<or> c = 10) line = join_with [SEPARATOR] ?fs @ [SEPARATOR]"
    by (simp add: line_def py_rstrip_def SEPARATOR_def)
  moreover have "split_on SEPARATOR (join_with [SEPARATOR] ?fs) = ?fs"
    using wire_fields_plain[of _ T p] unfolding w by (intro split_join) (auto dest!: plain_no_separator)
  ultimately have "parse_line T line = Some (read_fields T ?fs)"
    by (simp add: parse_line_def Let_def del: join_with.simps)
  then show ?thesis using built read_fields_ready[OF assms] by simp
qed

lemma mrc_sample_ready:
  "wire_ready small_mrctext (chat_message (u ''bob'') (u ''Node'') (u ''lobby'') (u ''|03hi there''))"
  by (simp add: wire_ready_def chat_message_def mk_packet_def strip_pipe_codes_def strip_non_color_pipe_codes_def
      BAR_def ascii_alnum_def is_digit_def keep_color_def is_ascii_number_def undec_def CLIENT_def mrc_limits)

theorem mrc_packet_roundtrip_witness:
  "\<exists>line. build_line small_mrctext (chat_message (u ''bob'') (u ''Node'') (u ''lobby'') (u ''|03hi there'')) = Some line \<and>
    parse_line small_mrctext line = Some (chat_message (u ''bob'') (u ''Node'') (u ''lobby'') (u ''|03hi there''))"
  by (rule mrc_packet_roundtrip[OF small_mrctext_laws mrc_sample_ready])

theorem written_line_is_well_formed_witness:
  "\<exists>line. build_line small_mrctext (chat_message [7, 126] (u ''Node'') (u ''lobby'') [27, 233]) = Some line \<and>
    length line \<le> MAX_LINE \<and> last line = 10 \<and>
    split_on SEPARATOR (butlast line) = wire_fields small_mrctext (chat_message [7, 126] (u ''Node'') (u ''lobby'') [27, 233]) @ [[]]"
  using written_line_is_well_formed[of "chat_message [7, 126] (u ''Node'') (u ''lobby'') [27, 233]" small_mrctext]
  by (auto simp: chat_message_def mk_packet_def)

section \<open>A gap in the sanitisers\<close>








end
