(* ===== verification/Ftn_Address.thy ===== *)
theory Ftn_Address
  imports Py_Text
begin

text \<open>
  \<^verbatim>\<open>src/netbbs/ftn/address.py\<close>: FTN addresses, their validation, printing and parsing. The regular
  expression matches in at most one way at a position (each repetition is followed by a character
  it cannot itself match), so it is written as a left-to-right scan. \<open>None\<close> is \<open>FtnFormatError\<close>.
\<close>

record ftn_address =
  a_zone :: int
  a_net :: int
  a_node :: int
  a_point :: int
  a_domain :: "ustr option"

definition MAX_NUMBER :: int where "MAX_NUMBER = 0xFFFF"

definition domain_char :: "nat \<Rightarrow> bool" where
  "domain_char c \<longleftrightarrow> (65 \<le> c \<and> c \<le> 90) \<or> (97 \<le> c \<and> c \<le> 122) \<or> is_digit c \<or> c = 95 \<or> c = 45"

definition lower_char :: "nat \<Rightarrow> nat" where
  "lower_char c = (if 65 \<le> c \<and> c \<le> 90 then c + 32 else c)"

definition make_address :: "int \<Rightarrow> int \<Rightarrow> int \<Rightarrow> int \<Rightarrow> ustr option \<Rightarrow> ftn_address option" where
  "make_address zone net node point domain =
     (if list_all (\<lambda>v. 0 \<le> v \<and> v \<le> MAX_NUMBER) [zone, net, node, point]
      then (case domain of
              None \<Rightarrow> Some \<lparr>a_zone = zone, a_net = net, a_node = node, a_point = point, a_domain = None\<rparr>
            | Some d \<Rightarrow>
                if 1 \<le> length d \<and> length d \<le> 8 \<and> list_all domain_char d
                then Some \<lparr>a_zone = zone, a_net = net, a_node = node, a_point = point,
                           a_domain = Some (map lower_char d)\<rparr>
                else None)
      else None)"

definition num :: "int \<Rightarrow> ustr" where
  "num n = (if n < 0 then 45 # dec (nat (- n)) else dec (nat n))"

definition four_d :: "ftn_address \<Rightarrow> ustr" where
  "four_d a =
     num (a_zone a) @ [58] @ num (a_net a) @ [47] @ num (a_node a)
     @ (if a_point a \<noteq> 0 then 46 # num (a_point a) else [])"

definition show_address :: "ftn_address \<Rightarrow> ustr" where
  "show_address a =
     num (a_zone a) @ [58] @ num (a_net a) @ [47] @ num (a_node a)
     @ (if a_point a \<noteq> 0 then 46 # num (a_point a) else [])
     @ (case a_domain a of None \<Rightarrow> [] | Some d \<Rightarrow> if d = [] then [] else 64 # d)"

definition net_node :: "ftn_address \<Rightarrow> int \<times> int" where
  "net_node a = (a_net a, a_node a)"

definition same_node :: "ftn_address \<Rightarrow> ftn_address \<Rightarrow> bool" where
  "same_node a b \<longleftrightarrow> (a_zone a, a_net a, a_node a, a_point a) = (a_zone b, a_net b, a_node b, a_point b)"

definition with_domain :: "ftn_address \<Rightarrow> ustr option \<Rightarrow> ftn_address option" where
  "with_domain a d = make_address (a_zone a) (a_net a) (a_node a) (a_point a) d"

section \<open>Matching\<close>

text \<open>\<open>\d{1,5}\<close>, greedy.\<close>

definition match_number :: "unitext \<Rightarrow> ustr \<Rightarrow> (ustr \<times> ustr) option" where
  "match_number T s =
     (let d = take 5 (takeWhile (\<lambda>c. ut_decimal T c \<noteq> None) s)
      in if d = [] then None else Some (d, drop (length d) s))"

definition expect :: "nat \<Rightarrow> ustr \<Rightarrow> ustr option" where
  "expect c s = (case s of [] \<Rightarrow> None | x # r \<Rightarrow> if x = c then Some r else None)"

definition match_point :: "unitext \<Rightarrow> ustr \<Rightarrow> ustr option \<times> ustr" where
  "match_point T s =
     (case do { r \<leftarrow> expect 46 s; match_number T r } of
        None \<Rightarrow> (None, s) | Some (d, r) \<Rightarrow> (Some d, r))"

definition match_domain :: "ustr \<Rightarrow> ustr option \<times> ustr" where
  "match_domain s =
     (case expect 64 s of
        None \<Rightarrow> (None, s)
      | Some r \<Rightarrow>
          let d = take 8 (takeWhile domain_char r)
          in if d = [] then (None, s) else (Some d, drop (length d) r))"

type_synonym address_match = "ustr \<times> ustr \<times> ustr \<times> ustr option \<times> ustr option"

definition match_address :: "unitext \<Rightarrow> ustr \<Rightarrow> (address_match \<times> ustr) option" where
  "match_address T s = do {
     (z, s1) \<leftarrow> match_number T s;
     s2 \<leftarrow> expect 58 s1;
     (n, s3) \<leftarrow> match_number T s2;
     s4 \<leftarrow> expect 47 s3;
     (f, s5) \<leftarrow> match_number T s4;
     let (p, s6) = match_point T s5;
     let (d, s7) = match_domain s6;
     Some ((z, n, f, p, d), s7)
   }"

text \<open>\<open>_from_match\<close>; a group has at most five digits, so \<open>int\<close> takes it.\<close>

definition from_match :: "unitext \<Rightarrow> address_match \<Rightarrow> ftn_address option" where
  "from_match T m =
     (case m of (z, n, f, p, d) \<Rightarrow>
        make_address (int (undec_in T z)) (int (undec_in T n)) (int (undec_in T f))
          (case p of None \<Rightarrow> 0 | Some p \<Rightarrow> int (undec_in T p)) d)"

definition parse_address :: "unitext \<Rightarrow> ustr \<Rightarrow> ftn_address option" where
  "parse_address T s =
     (case match_address T (py_strip (ut_space T) s) of
        Some (m, []) \<Rightarrow> from_match T m
      | _ \<Rightarrow> None)"

lemma match_number_shorter: "match_number T s = Some (d, r) \<Longrightarrow> length r < length s"
proof -
  assume "match_number T s = Some (d, r)"
  then have "d \<noteq> []" "r = drop (length d) s" "d = take 5 (takeWhile (\<lambda>c. ut_decimal T c \<noteq> None) s)"
    by (auto simp: match_number_def Let_def split: if_splits)
  then show ?thesis by (cases s) auto
qed

lemma expect_shorter: "expect c s = Some r \<Longrightarrow> length r < length s"
  by (auto simp: expect_def split: list.splits if_splits)

lemma match_point_le: "match_point T s = (p, r) \<Longrightarrow> length r \<le> length s"
  using match_number_shorter expect_shorter
  by (fastforce simp: match_point_def split: option.splits Option.bind_splits)

lemma match_domain_le: "match_domain s = (d, r) \<Longrightarrow> length r \<le> length s"
  using expect_shorter by (fastforce simp: match_domain_def Let_def split: option.splits if_splits)

lemma match_address_shorter: "match_address T s = Some (m, r) \<Longrightarrow> length r < length s"
  unfolding match_address_def
  by (auto split: Option.bind_splits prod.splits simp: Let_def
      dest!: match_number_shorter expect_shorter match_point_le match_domain_le)

text \<open>\<open>find_address\<close>: scan left to right, going on behind each match.\<close>

function find_from :: "unitext \<Rightarrow> ftn_address option \<Rightarrow> ustr \<Rightarrow> ftn_address option" where
  "find_from T found [] = found"
| "find_from T found (c # s) =
     (case match_address T (c # s) of
        None \<Rightarrow> find_from T found s
      | Some (m, r) \<Rightarrow> find_from T (case from_match T m of None \<Rightarrow> found | Some a \<Rightarrow> Some a) r)"
  by pat_completeness auto
termination
  by (relation "measure (\<lambda>(T, f, s). length s)") (auto dest: match_address_shorter)

definition find_address :: "unitext \<Rightarrow> ustr \<Rightarrow> ftn_address option" where
  "find_address T s = find_from T None s"

section \<open>Printing and parsing\<close>

definition address_ok :: "ftn_address \<Rightarrow> bool" where
  "address_ok a \<longleftrightarrow>
     (\<forall>v\<in>{a_zone a, a_net a, a_node a, a_point a}. 0 \<le> v \<and> v \<le> 0xFFFF) \<and>
     (\<forall>d. a_domain a = Some d \<longrightarrow>
        1 \<le> length d \<and> length d \<le> 8 \<and> list_all domain_char d \<and> map lower_char d = d)"

lemma lower_char_idem: "lower_char (lower_char c) = lower_char c"
  by (auto simp: lower_char_def)

lemma lower_domain_char: "domain_char c \<Longrightarrow> domain_char (lower_char c)"
  by (auto simp: domain_char_def lower_char_def is_digit_def)

lemma make_address_ok: "make_address z n f p d = Some a \<Longrightarrow> address_ok a"
  by (auto simp: make_address_def address_ok_def MAX_NUMBER_def list_all_iff lower_char_idem lower_domain_char
      split: if_splits option.splits)

lemma make_address_self:
  "address_ok a \<Longrightarrow> make_address (a_zone a) (a_net a) (a_node a) (a_point a) (a_domain a) = Some a"
  by (cases a) (auto simp: make_address_def address_ok_def MAX_NUMBER_def split: option.split)

text \<open>Strings that \<open>match_number\<close> takes whole when no digit follows.\<close>

lemma match_number_dec:
  assumes T: "unicode_laws T" and n: "n < 65536" and s: "s = [] \<or> ut_decimal T (hd s) = None"
  shows "match_number T (dec n @ s) = Some (dec n, s)"
proof -
  have "length (dec n) \<le> 5" by (rule length_dec) (use n in simp_all)
  moreover have "\<forall>c\<in>set (dec n). ut_decimal T c \<noteq> None" using digit_laws(2)[OF T] dec_digits by fastforce
  then have "takeWhile (\<lambda>c. ut_decimal T c \<noteq> None) (dec n @ s) = dec n"
    using s by (cases s) (auto simp: takeWhile_append)
  ultimately show ?thesis by (simp add: match_number_def Let_def)
qed

lemma ascii_not_decimal: "unicode_laws T \<Longrightarrow> c < 128 \<Longrightarrow> \<not> is_digit c \<Longrightarrow> ut_decimal T c = None"
  by (auto simp: unicode_laws_def)

lemma num_nat: "0 \<le> n \<Longrightarrow> num n = dec (nat n)"
  by (simp add: num_def)

text \<open>What an address text is followed by must not extend it.\<close>

definition stops :: "unitext \<Rightarrow> ustr \<Rightarrow> bool" where
  "stops T s \<longleftrightarrow> s = [] \<or> (hd s \<notin> {46, 64} \<and> \<not> domain_char (hd s) \<and> ut_decimal T (hd s) = None)"

lemma match_address_show:
  assumes T: "unicode_laws T" and a: "address_ok a" and s: "stops T s"
  shows "match_address T (show_address a @ s) =
    Some ((dec (nat (a_zone a)), dec (nat (a_net a)), dec (nat (a_node a)),
      if a_point a \<noteq> 0 then Some (dec (nat (a_point a))) else None, a_domain a), s)"
proof -
  have nd: "ut_decimal T c = None" if "c \<in> {46, 47, 58, 64}" for c
    using that ascii_not_decimal[OF T] by (auto simp: is_digit_def)
  define dom where "dom = (case a_domain a of None \<Rightarrow> [] | Some d \<Rightarrow> if d = [] then [] else 64 # d) @ s"
  define pt where "pt = (if a_point a \<noteq> 0 then 46 # num (a_point a) else []) @ dom"
  have dom_stop: "dom = [] \<or> ut_decimal T (hd dom) = None \<and> hd dom \<noteq> 46"
    using s nd by (auto simp: stops_def dom_def split: option.split)
  have pt_stop: "pt = [] \<or> ut_decimal T (hd pt) = None"
  proof (cases "a_point a = 0")
    case True
    then have "pt = dom" by (simp add: pt_def)
    then show ?thesis using dom_stop by metis
  qed (use nd in \<open>simp add: pt_def\<close>)
  have domain: "match_domain dom = (a_domain a, s)"
  proof (cases "a_domain a")
    case None
    then show ?thesis using s by (cases s) (simp_all add: dom_def match_domain_def expect_def stops_def)
  next
    case (Some d)
    then have d: "d \<noteq> []" "length d \<le> 8" "list_all domain_char d" using a by (auto simp: address_ok_def)
    then have "takeWhile domain_char (d @ s) = d"
      using s by (cases s) (auto simp: takeWhile_append list_all_iff stops_def)
    then show ?thesis using Some d by (simp add: dom_def match_domain_def expect_def Let_def)
  qed
  have point: "match_point T pt = (if a_point a \<noteq> 0 then Some (dec (nat (a_point a))) else None, dom)"
  proof (cases "a_point a = 0")
    case True
    then show ?thesis using dom_stop by (cases dom) (simp_all add: pt_def match_point_def expect_def)
  next
    case False
    then have "match_number T (dec (nat (a_point a)) @ dom) = Some (dec (nat (a_point a)), dom)"
      using a dom_stop by (intro match_number_dec[OF T]) (auto simp: address_ok_def)
    then show ?thesis using False a by (simp add: pt_def match_point_def expect_def num_nat address_ok_def)
  qed
  have nums: "match_number T (dec (nat (a_zone a)) @ 58 # x) = Some (dec (nat (a_zone a)), 58 # x)"
    "match_number T (dec (nat (a_net a)) @ 47 # x) = Some (dec (nat (a_net a)), 47 # x)"
    "match_number T (dec (nat (a_node a)) @ pt) = Some (dec (nat (a_node a)), pt)" for x
    using a nd pt_stop by (auto intro!: match_number_dec[OF T] simp: address_ok_def)
  have "show_address a @ s = dec (nat (a_zone a)) @ 58 # dec (nat (a_net a)) @ 47 # dec (nat (a_node a)) @ pt"
    using a by (simp add: show_address_def num_nat address_ok_def pt_def dom_def)
  then show ?thesis
    unfolding match_address_def by (simp add: nums expect_def point domain)
qed

lemma from_match_show:
  assumes T: "unicode_laws T" and a: "address_ok a"
  shows "from_match T (dec (nat (a_zone a)), dec (nat (a_net a)), dec (nat (a_node a)),
      if a_point a \<noteq> 0 then Some (dec (nat (a_point a))) else None, a_domain a) = Some a"
proof -
  have "int (undec_in T (dec (nat v))) = v" if "0 \<le> v" for v
    using that undec_in_digits[OF T, of "dec (nat v)"] dec_digits by simp
  moreover have "(case if a_point a \<noteq> 0 then Some (dec (nat (a_point a))) else None of
      None \<Rightarrow> 0 | Some p \<Rightarrow> int (undec_in T p)) = a_point a"
    using a calculation by (simp add: address_ok_def)
  ultimately show ?thesis using a make_address_self[OF a] by (simp add: from_match_def address_ok_def)
qed

section \<open>Finding an address behind other text\<close>

lemma takeWhile_stop: "\<not> P c \<Longrightarrow> takeWhile P (t @ c # r) = takeWhile P t"
  by (induction t) auto

lemma match_number_append:
  assumes "ut_decimal T c = None"
  shows "match_number T (t @ c # r) = map_option (apsnd (\<lambda>x. x @ c # r)) (match_number T t)"
proof -
  have "length (take 5 (takeWhile (\<lambda>c. ut_decimal T c \<noteq> None) t)) \<le> length t"
    by (simp add: length_takeWhile_le min.coboundedI1)
  then show ?thesis using assms by (simp add: match_number_def takeWhile_stop Let_def)
qed

lemma expect_append: "c \<noteq> x \<Longrightarrow> expect x (t @ c # r) = map_option (\<lambda>y. y @ c # r) (expect x t)"
  by (cases t) (simp_all add: expect_def)

lemma match_point_append:
  assumes "ut_decimal T c = None" "c \<noteq> 46"
  shows "match_point T (t @ c # r) = apsnd (\<lambda>x. x @ c # r) (match_point T t)"
  by (cases "expect 46 t")
    (auto simp: match_point_def expect_append[OF assms(2)] match_number_append[OF assms(1)] split: option.split)

lemma match_domain_append:
  assumes "\<not> domain_char c" "c \<noteq> 64"
  shows "match_domain (t @ c # r) = apsnd (\<lambda>x. x @ c # r) (match_domain t)"
proof (cases "expect 64 t")
  case (Some t1)
  have "length (take 8 (takeWhile domain_char t1)) \<le> length t1"
    by (simp add: length_takeWhile_le min.coboundedI1)
  then show ?thesis
    using Some assms by (simp add: match_domain_def expect_append Let_def takeWhile_stop)
qed (use assms in \<open>simp add: match_domain_def expect_append\<close>)

lemma match_address_append:
  assumes "ut_decimal T c = None" "\<not> domain_char c" "c \<notin> {46, 47, 58, 64}"
  shows "match_address T (t @ c # r) = map_option (apsnd (\<lambda>x. x @ c # r)) (match_address T t)"
proof -
  have c: "c \<noteq> 46" "c \<noteq> 47" "c \<noteq> 58" "c \<noteq> 64" using assms(3) by auto
  show ?thesis
    unfolding match_address_def
    by (auto simp: match_number_append[OF assms(1)] expect_append[OF c(2)] expect_append[OF c(3)]
        match_point_append[OF assms(1) c(1)] match_domain_append[OF assms(2) c(4)]
        split: Option.bind_split prod.split)
qed

lemma find_from_append:
  assumes "ut_decimal T c = None" "\<not> domain_char c" "c \<notin> {46, 47, 58, 64}"
  shows "find_from T f (t @ c # r) = find_from T (find_from T f t) (c # r)"
  using assms
proof (induction T f t rule: find_from.induct)
  case (2 T f x t)
  note IH = 2(1)[OF _ "2.prems"] 2(2)[OF _ _ "2.prems"]
  show ?case
  proof (cases "match_address T (x # t)")
    case None
    then have e: "match_address T (x # t @ c # r) = None"
      using match_address_append[OF "2.prems", of "x # t" r] by simp
    have "find_from T f ((x # t) @ c # r) = find_from T f (t @ c # r)" using e by simp
    moreover have "find_from T f (x # t) = find_from T f t" using None by simp
    ultimately show ?thesis using IH(1)[OF None] by (simp only:)
  next
    case (Some mr)
    obtain m r' where mr: "mr = (m, r')" by (cases mr)
    let ?f = "case from_match T m of None \<Rightarrow> f | Some a \<Rightarrow> Some a"
    have "match_address T (x # t @ c # r) = Some (m, r' @ c # r)"
      using match_address_append[OF "2.prems", of "x # t" r] Some mr by simp
    then have "find_from T f ((x # t) @ c # r) = find_from T ?f (r' @ c # r)" by simp
    moreover have "find_from T f (x # t) = find_from T ?f r'" using Some mr by simp
    ultimately show ?thesis using IH(2)[OF Some mr[symmetric]] by (simp only:)
  qed
qed simp

text \<open>\<open>origin_room\<close> and \<open>build_origin\<close> of \<^verbatim>\<open>src/netbbs/ftn/message.py\<close>, which \<open>find_address\<close> reads back.\<close>

definition MAX_ORIGIN_LINE :: int where "MAX_ORIGIN_LINE = 79"

definition origin_room :: "ftn_address \<Rightarrow> nat" where
  "origin_room a =
     nat (max (MAX_ORIGIN_LINE - int (length (u '' * Origin: '')) - int (length (u '' ('' @ show_address a @ u '')''))) 0)"

definition build_origin :: "unitext \<Rightarrow> ustr \<Rightarrow> ftn_address \<Rightarrow> ustr" where
  "build_origin T body a =
     py_rstrip (ut_space T) (take (origin_room a) body) @ u '' ('' @ show_address a @ u '')''"

lemma match_address_None: "ut_decimal T c = None \<Longrightarrow> match_address T (c # s) = None"
  by (simp add: match_address_def match_number_def)

lemma find_address_origin:
  assumes T: "unicode_laws T" and a: "address_ok a"
  shows "find_address T (t @ u '' ('' @ show_address a @ u '')'') = Some a"
proof -
  have nd: "ut_decimal T 32 = None" "ut_decimal T 40 = None" "ut_decimal T 41 = None"
    using ascii_not_decimal[OF T] by (simp_all add: is_digit_def)
  have st: "stops T [41]" using nd by (simp add: stops_def domain_char_def is_digit_def)
  have ne: "show_address a = dec (nat (a_zone a)) @ x \<Longrightarrow> show_address a \<noteq> []" for x by simp
  obtain c s where cs: "show_address a = c # s"
    using dec_ne[of "nat (a_zone a)"] a by (cases "show_address a") (auto simp: show_address_def num_nat address_ok_def)
  have "find_from T f (show_address a @ [41]) = Some a" for f
    using match_address_show[OF T a st] from_match_show[OF T a] match_address_None[OF nd(3), of "[]"]
    by (simp add: cs)
  then show ?thesis
    using find_from_append[of T 32 None t "40 # show_address a @ [41]"] nd
    by (simp add: find_address_def match_address_None domain_char_def is_digit_def)
qed

lemma length_show_address: "address_ok a \<Longrightarrow> length (show_address a) \<le> 32"
proof -
  assume a: "address_ok a"
  have "length (dec (nat v)) \<le> 5" if "0 \<le> v" "v \<le> 0xFFFF" for v
    by (rule length_dec) (use that in simp_all)
  then have "length (dec (nat (a_zone a))) \<le> 5" "length (dec (nat (a_net a))) \<le> 5"
    "length (dec (nat (a_node a))) \<le> 5" "length (dec (nat (a_point a))) \<le> 5"
    using a by (simp_all add: address_ok_def)
  moreover have "length (case a_domain a of None \<Rightarrow> [] | Some d \<Rightarrow> if d = [] then [] else 64 # d) \<le> 9"
    using a by (cases "a_domain a") (simp_all add: address_ok_def)
  moreover have "length (if a_point a \<noteq> 0 then 46 # num (a_point a) else []) \<le> 6"
    using calculation(4) a by (simp add: num_nat address_ok_def)
  moreover have "length (show_address a) = length (dec (nat (a_zone a))) + 1 + length (dec (nat (a_net a))) + 1
      + length (dec (nat (a_node a))) + length (if a_point a \<noteq> 0 then 46 # num (a_point a) else [])
      + length (case a_domain a of None \<Rightarrow> [] | Some d \<Rightarrow> if d = [] then [] else 64 # d)"
    using a by (simp add: show_address_def num_nat[of "a_zone a"] num_nat[of "a_net a"] num_nat[of "a_node a"]
        address_ok_def del: length_0_conv split del: if_split)
  ultimately show ?thesis by linarith
qed

section \<open>Properties\<close>

lemma show_address_plain:
  assumes "unicode_laws T" "address_ok a" "c \<in> set (show_address a)"
  shows "0 < c \<and> c < 128 \<and> \<not> ut_space T c"
proof -
  have digits: "\<forall>c\<in>set (num v). is_digit c" if "0 \<le> v" for v
    using that dec_digits by (auto simp: num_nat)
  have "\<forall>c\<in>set (case a_domain a of None \<Rightarrow> [] | Some d \<Rightarrow> if d = [] then [] else 64 # d). c = 64 \<or> domain_char c"
    using assms(2) by (cases "a_domain a") (auto simp: address_ok_def list_all_iff)
  then have "is_digit c \<or> domain_char c \<or> c \<in> {46, 47, 58, 64}"
    using assms(2,3) digits[of "a_zone a"] digits[of "a_net a"] digits[of "a_node a"] digits[of "a_point a"]
    by (auto simp: show_address_def address_ok_def split: if_splits)
  then have "0 < c \<and> c < 128 \<and> \<not> ascii_space c"
    by (auto simp: domain_char_def is_digit_def ascii_space_def)
  then show ?thesis using assms(1) by (simp add: unicode_laws_def)
qed

lemma parse_show_address:
  assumes "unicode_laws T" "address_ok a"
  shows "parse_address T (show_address a) = Some a"
proof -
  have "stops T []" by (simp add: stops_def)
  from match_address_show[OF assms this]
  have m: "match_address T (show_address a) = Some ((dec (nat (a_zone a)), dec (nat (a_net a)), dec (nat (a_node a)),
      if a_point a \<noteq> 0 then Some (dec (nat (a_point a))) else None, a_domain a), [])" by simp
  have "show_address a \<noteq> []" by (simp add: show_address_def)
  then have "py_strip (ut_space T) (show_address a) = show_address a"
    using show_address_plain[OF assms] by (intro py_strip_id) auto
  then show ?thesis using m from_match_show[OF assms] by (simp add: parse_address_def)
qed

text \<open>
  Printing an FTN address and parsing it back is the identity on every address the parser can
  produce, whatever whitespace surrounded the original text; domains come back lower-cased.
\<close>

theorem address_roundtrip:
  assumes "unicode_laws T" and "parse_address T s = Some a"
  shows "parse_address T (show_address a) = Some a"
proof -
  have "address_ok a"
    using assms(2) make_address_ok by (auto simp: parse_address_def from_match_def split: option.splits list.splits prod.splits)
  then show ?thesis by (rule parse_show_address[OF assms(1)])
qed

theorem address_roundtrip_witness:
  "parse_address small_tables (show_address \<lparr>a_zone = 2, a_net = 240, a_node = 1, a_point = 7,
      a_domain = Some (u ''fidonet'')\<rparr>) =
    Some \<lparr>a_zone = 2, a_net = 240, a_node = 1, a_point = 7, a_domain = Some (u ''fidonet'')\<rparr>"
  by (rule address_roundtrip[OF small_tables_laws, where s = "u '' 2:240/1.7@FidoNet ''"]) code_simp

text \<open>
  The Origin line a node writes names that node, whatever free text precedes the address: the
  reader's search for the last address in the line finds exactly it, and the line fits 79 characters.
\<close>

theorem origin_line_names_node:
  assumes "unicode_laws T" and "address_ok a"
  shows "find_address T (build_origin T body a) = Some a \<and>
    length (u '' * Origin: '' @ build_origin T body a) \<le> 79"
proof -
  have r: "length (py_rstrip sp x) \<le> length x" for sp :: "nat \<Rightarrow> bool" and x
    using length_dropWhile_le[of sp "rev x"] by (simp add: py_rstrip_def)
  define k where "k = length (show_address a)"
  have k: "k \<le> 32" using length_show_address[OF assms(2)] by (simp add: k_def)
  have "origin_room a = 65 - k" by (simp add: origin_room_def MAX_ORIGIN_LINE_def k_def)
  then have "length (py_rstrip (ut_space T) (take (origin_room a) body)) \<le> 65 - k"
    using r[of "ut_space T" "take (origin_room a) body"] by simp
  then have "length (u '' * Origin: '' @ build_origin T body a) \<le> 79"
    using k by (simp add: build_origin_def k_def[symmetric])
  then show ?thesis using find_address_origin[OF assms] by (simp add: build_origin_def)
qed

theorem origin_line_names_node_witness:
  "find_address small_tables (build_origin small_tables (u ''call 1:2/3 (2:5/6'')
      \<lparr>a_zone = 21, a_net = 1, a_node = 100, a_point = 0, a_domain = None\<rparr>) =
    Some \<lparr>a_zone = 21, a_net = 1, a_node = 100, a_point = 0, a_domain = None\<rparr> \<and>
    length (u '' * Origin: '' @ build_origin small_tables (u ''call 1:2/3 (2:5/6'')
      \<lparr>a_zone = 21, a_net = 1, a_node = 100, a_point = 0, a_domain = None\<rparr>) \<le> 79"
  by (rule origin_line_names_node[OF small_tables_laws]) (simp add: address_ok_def)

end
