(* ===== verification/Ftn_Packet.thy ===== *)
theory Ftn_Packet
  imports Ftn_Address "HOL-Library.Word"
begin

text \<open>
  \<^verbatim>\<open>src/netbbs/ftn/packet.py\<close>: the packet header and packed messages, byte for byte. The ways a call
  can raise are values of \<open>packet_error\<close>; \<open>StructError\<close> and \<open>Truncated\<close> (the code's \<open>_Truncated\<close>) are
  the ones a caller of \<open>parse_packet\<close> must never see.
\<close>

type_synonym bytes = "8 word list"

datatype packet_error = FtnFormatError | Truncated | StructError

definition bindE :: "'e + 'a \<Rightarrow> ('a \<Rightarrow> 'e + 'b) \<Rightarrow> 'e + 'b" where
  "bindE r f = (case r of Inl e \<Rightarrow> Inl e | Inr x \<Rightarrow> f x)"

lemma bindE_simps [simp]: "bindE (Inl e) f = Inl e" "bindE (Inr x) f = f x"
  by (simp_all add: bindE_def)

lemma bindE_Inr: "bindE r f = Inr y \<longleftrightarrow> (\<exists>x. r = Inr x \<and> f x = Inr y)"
  by (cases r) simp_all

section \<open>Numbers in little-endian order\<close>

definition u16 :: "bytes \<Rightarrow> nat \<Rightarrow> int" where
  "u16 d i = uint (d ! i) + 256 * uint (d ! (i + 1))"

text \<open>\<open>struct.pack\<close> refuses a value that does not fit its field.\<close>

definition pack16 :: "int \<Rightarrow> packet_error + bytes" where
  "pack16 v = (if 0 \<le> v \<and> v < 65536 then Inr [word_of_int (v mod 256), word_of_int (v div 256)] else Inl StructError)"

definition pack8 :: "int \<Rightarrow> packet_error + bytes" where
  "pack8 v = (if 0 \<le> v \<and> v < 256 then Inr [word_of_int v] else Inl StructError)"

fun pack_all :: "(packet_error + bytes) list \<Rightarrow> packet_error + bytes" where
  "pack_all [] = Inr []"
| "pack_all (p # ps) = bindE p (\<lambda>x. bindE (pack_all ps) (\<lambda>y. Inr (x @ y)))"

section \<open>Data\<close>

record datetime =
  dt_year :: int
  dt_month :: int
  dt_day :: int
  dt_hour :: int
  dt_minute :: int
  dt_second :: int

record packet_header =
  ph_orig :: ftn_address
  ph_dest :: ftn_address
  ph_created :: "datetime option"
  ph_password :: ustr
  ph_product_code :: int
  ph_product_version :: "int \<times> int"
  ph_kind :: ustr

record packed_message =
  pm_orig_net :: int
  pm_orig_node :: int
  pm_dest_net :: int
  pm_dest_node :: int
  pm_attributes :: int
  pm_cost :: int
  pm_date :: bytes
  pm_to_name :: bytes
  pm_from_name :: bytes
  pm_subject :: bytes
  pm_text :: bytes

record packet =
  pk_header :: packet_header
  pk_messages :: "packed_message list"
  pk_truncated :: bool

definition HEADER_BYTES :: nat where "HEADER_BYTES = 58"
definition PACKET_VERSION :: int where "PACKET_VERSION = 2"
definition MAX_PACKET_BYTES :: nat where "MAX_PACKET_BYTES = 16 * 1024 * 1024"
definition MAX_MESSAGES :: nat where "MAX_MESSAGES = 10000"
definition MAX_TEXT_BYTES :: nat where "MAX_TEXT_BYTES = 1024 * 1024"
definition TO_FROM_FIELD :: nat where "TO_FROM_FIELD = 36"
definition SUBJECT_FIELD :: nat where "SUBJECT_FIELD = 72"
definition DATE_FIELD :: nat where "DATE_FIELD = 20"
definition PASSWORD_FIELD :: nat where "PASSWORD_FIELD = 8"

section \<open>The header\<close>

definition leap_year :: "int \<Rightarrow> bool" where
  "leap_year y \<longleftrightarrow> y mod 4 = 0 \<and> (y mod 100 \<noteq> 0 \<or> y mod 400 = 0)"

definition days_in_month :: "int \<Rightarrow> int \<Rightarrow> int" where
  "days_in_month y m =
     (if m = 2 then (if leap_year y then 29 else 28) else if m \<in> {4, 6, 9, 11} then 30 else 31)"

text \<open>\<open>datetime.datetime(...)\<close>; \<open>None\<close> is its \<open>ValueError\<close>.\<close>

definition make_datetime :: "int \<Rightarrow> int \<Rightarrow> int \<Rightarrow> int \<Rightarrow> int \<Rightarrow> int \<Rightarrow> datetime option" where
  "make_datetime y mo d h mi s =
     (if 1 \<le> y \<and> y \<le> 9999 \<and> 1 \<le> mo \<and> mo \<le> 12 \<and> 1 \<le> d \<and> d \<le> days_in_month y mo \<and>
         0 \<le> h \<and> h < 24 \<and> 0 \<le> mi \<and> mi < 60 \<and> 0 \<le> s \<and> s < 60
      then Some \<lparr>dt_year = y, dt_month = mo, dt_day = d, dt_hour = h, dt_minute = mi, dt_second = s\<rparr>
      else None)"

definition header_time :: "int \<Rightarrow> int \<Rightarrow> int \<Rightarrow> int \<Rightarrow> int \<Rightarrow> int \<Rightarrow> datetime option" where
  "header_time y mo d h mi s = make_datetime y (mo + 1) d h mi s"

definition ascii_decode :: "bytes \<Rightarrow> ustr" where
  "ascii_decode b = map (\<lambda>x. if x < 128 then unat x else 0xFFFD) b"

definition ascii_encode :: "ustr \<Rightarrow> bytes" where
  "ascii_encode s = map (\<lambda>c. if c < 128 then of_nat c else 63) s"

definition before_nul :: "bytes \<Rightarrow> bytes" where
  "before_nul b = takeWhile (\<lambda>x. x \<noteq> 0) b"

definition lift_address :: "ftn_address option \<Rightarrow> packet_error + ftn_address" where
  "lift_address a = (case a of None \<Rightarrow> Inl FtnFormatError | Some a \<Rightarrow> Inr a)"

definition or_else :: "int \<Rightarrow> int \<Rightarrow> int" where
  "or_else a b = (if a \<noteq> 0 then a else b)"

definition swap16 :: "int \<Rightarrow> int" where
  "swap16 v = (v mod 256) * 256 + v div 256"

definition parse_header :: "bytes \<Rightarrow> packet_error + packet_header" where
  "parse_header raw =
     (if length raw \<noteq> HEADER_BYTES then Inl StructError
      else
        let orig_node = u16 raw 0; dest_node = u16 raw 2;
            created = header_time (u16 raw 4) (u16 raw 6) (u16 raw 8) (u16 raw 10) (u16 raw 12) (u16 raw 14);
            baud = u16 raw 16; version = u16 raw 18; orig_net = u16 raw 20; dest_net = u16 raw 22;
            product_low = uint (raw ! 24); revision_major = uint (raw ! 25);
            password = ascii_decode (before_nul (take 8 (drop 26 raw)));
            q_orig_zone = u16 raw 34; q_dest_zone = u16 raw 36; aux_net = u16 raw 38;
            capability_copy = u16 raw 40; product_high = uint (raw ! 42); revision_minor = uint (raw ! 43);
            capability = u16 raw 44; orig_zone = u16 raw 46; dest_zone = u16 raw 48;
            orig_point = u16 raw 50; dest_point = u16 raw 52
        in if version \<noteq> PACKET_VERSION then Inl FtnFormatError
           else if baud = 2 then Inl FtnFormatError
           else if capability mod 2 = 1 \<and> swap16 capability_copy = capability
           then let orig_net = (if orig_net = 0xFFFF \<and> orig_point \<noteq> 0 then aux_net else orig_net)
                in bindE (lift_address (make_address (or_else orig_zone q_orig_zone) orig_net orig_node orig_point None))
                     (\<lambda>orig. bindE (lift_address (make_address (or_else dest_zone q_dest_zone) dest_net dest_node dest_point None))
                     (\<lambda>dest. Inr \<lparr>ph_orig = orig, ph_dest = dest, ph_created = created, ph_password = password,
                               ph_product_code = product_high * 256 + product_low,
                               ph_product_version = (revision_major, revision_minor), ph_kind = u ''2+''\<rparr>))
           else if orig_net = 0xFFFF then Inl FtnFormatError
           else bindE (lift_address (make_address q_orig_zone orig_net orig_node 0 None))
                  (\<lambda>orig. bindE (lift_address (make_address q_dest_zone dest_net dest_node 0 None))
                  (\<lambda>dest. Inr \<lparr>ph_orig = orig, ph_dest = dest, ph_created = created, ph_password = password,
                            ph_product_code = product_low,
                            ph_product_version = (revision_major, revision_minor), ph_kind = u ''2''\<rparr>)))"

text \<open>\<open>now\<close> is \<open>datetime.now()\<close>, used when the header carries no date.\<close>

definition build_header :: "datetime \<Rightarrow> packet_header \<Rightarrow> packet_error + bytes" where
  "build_header now h =
     (let orig = ph_orig h; dest = ph_dest h;
          created = (case ph_created h of None \<Rightarrow> now | Some c \<Rightarrow> c);
          password = ascii_encode (ph_password h);
          product = ph_product_code h
      in if PASSWORD_FIELD < length password then Inl FtnFormatError
         else pack_all
           [pack16 (a_node orig), pack16 (a_node dest),
            pack16 (dt_year created), pack16 (dt_month created - 1), pack16 (dt_day created),
            pack16 (dt_hour created), pack16 (dt_minute created), pack16 (dt_second created),
            pack16 0, pack16 PACKET_VERSION,
            pack16 (if a_point orig \<noteq> 0 then 0xFFFF else a_net orig), pack16 (a_net dest),
            pack8 (product mod 256), pack8 (fst (ph_product_version h)),
            Inr (password @ replicate (PASSWORD_FIELD - length password) 0),
            pack16 (a_zone orig), pack16 (a_zone dest),
            pack16 (if a_point orig \<noteq> 0 then a_net orig else 0),
            pack16 (swap16 1),
            pack8 (product div 256 mod 256), pack8 (snd (ph_product_version h)),
            pack16 1,
            pack16 (a_zone orig), pack16 (a_zone dest),
            pack16 (a_point orig), pack16 (a_point dest),
            Inr [0, 0, 0, 0]])"

section \<open>Packed messages\<close>

text \<open>\<open>data.find(b"\x00", offset, offset + limit)\<close> looks at no byte past the limit.\<close>

definition read_string :: "bytes \<Rightarrow> nat \<Rightarrow> nat \<Rightarrow> packet_error + (bytes \<times> nat)" where
  "read_string data offset limit =
     (let window = take limit (drop offset data)
      in if 0 \<in> set window
         then let s = before_nul window in Inr (s, offset + length s + 1)
         else if length data < offset + limit then Inl Truncated
         else Inl FtnFormatError)"

definition parse_message :: "bytes \<Rightarrow> nat \<Rightarrow> packet_error + (packed_message \<times> nat)" where
  "parse_message data offset =
     (if length data < offset + 14 + DATE_FIELD then Inl Truncated
      else
        let orig_node = u16 data (offset + 2); dest_node = u16 data (offset + 4);
            orig_net = u16 data (offset + 6); dest_net = u16 data (offset + 8);
            attributes = u16 data (offset + 10); cost = u16 data (offset + 12);
            offset = offset + 14;
            date = take (DATE_FIELD - 1) (before_nul (take DATE_FIELD (drop offset data)));
            offset = offset + DATE_FIELD
        in bindE (read_string data offset TO_FROM_FIELD) (\<lambda>(to_name, offset).
           bindE (read_string data offset TO_FROM_FIELD) (\<lambda>(from_name, offset).
           bindE (read_string data offset SUBJECT_FIELD) (\<lambda>(subject, offset).
           bindE (read_string data offset (MAX_TEXT_BYTES + 1)) (\<lambda>(body, offset).
             Inr (\<lparr>pm_orig_net = orig_net, pm_orig_node = orig_node, pm_dest_net = dest_net,
                   pm_dest_node = dest_node, pm_attributes = attributes, pm_cost = cost, pm_date = date,
                   pm_to_name = to_name, pm_from_name = from_name, pm_subject = subject, pm_text = body\<rparr>,
                  offset))))))"

definition field_ok :: "bytes \<Rightarrow> nat \<Rightarrow> bool" where
  "field_ok v limit \<longleftrightarrow> length v < limit \<and> 0 \<notin> set v"

definition pack_message :: "packed_message \<Rightarrow> packet_error + bytes" where
  "pack_message m =
     (if \<not> field_ok (pm_to_name m) TO_FROM_FIELD \<or> \<not> field_ok (pm_from_name m) TO_FROM_FIELD
         \<or> \<not> field_ok (pm_subject m) SUBJECT_FIELD \<or> \<not> field_ok (pm_date m) DATE_FIELD
         \<or> MAX_TEXT_BYTES < length (pm_text m) \<or> 0 \<in> set (pm_text m)
      then Inl FtnFormatError
      else pack_all
        [pack16 PACKET_VERSION, pack16 (pm_orig_node m), pack16 (pm_dest_node m), pack16 (pm_orig_net m),
         pack16 (pm_dest_net m), pack16 (pm_attributes m), pack16 (pm_cost m),
         Inr (pm_date m @ replicate (DATE_FIELD - length (pm_date m)) 0),
         Inr (pm_to_name m @ [0]), Inr (pm_from_name m @ [0]), Inr (pm_subject m @ [0]), Inr (pm_text m @ [0])])"

definition unpack_message :: "bytes \<Rightarrow> packet_error + packed_message" where
  "unpack_message data =
     (if length data < 2 \<or> u16 data 0 \<noteq> PACKET_VERSION then Inl FtnFormatError
      else case parse_message data 0 of
        Inr (m, _) \<Rightarrow> Inr m
      | Inl Truncated \<Rightarrow> Inl FtnFormatError
      | Inl e \<Rightarrow> Inl e)"

section \<open>Packets\<close>

text \<open>The loop of \<open>parse_packet\<close>: the messages read so far grow by one on every pass.\<close>

function parse_loop :: "bytes \<Rightarrow> nat \<Rightarrow> packed_message list \<Rightarrow> packet_error + (packed_message list \<times> bool)" where
  "parse_loop data offset ms =
     (if length data < offset + 2 then Inr (ms, True)
      else
        let marker = u16 data offset
        in if marker = 0 then Inr (ms, False)
           else if marker \<noteq> PACKET_VERSION then Inl FtnFormatError
           else if MAX_MESSAGES \<le> length ms then Inl FtnFormatError
           else (case parse_message data offset of
                   Inl Truncated \<Rightarrow> Inr (ms, True)
                 | Inl e \<Rightarrow> Inl e
                 | Inr (m, offset') \<Rightarrow> parse_loop data offset' (ms @ [m])))"
  by pat_completeness auto
termination
  by (relation "measure (\<lambda>(data, offset, ms). MAX_MESSAGES - length ms)") auto

declare parse_loop.simps [simp del]

definition parse_packet :: "bytes \<Rightarrow> packet_error + packet" where
  "parse_packet data =
     (if MAX_PACKET_BYTES < length data then Inl FtnFormatError
      else if length data < HEADER_BYTES then Inl FtnFormatError
      else bindE (parse_header (take HEADER_BYTES data)) (\<lambda>h.
           bindE (parse_loop data HEADER_BYTES []) (\<lambda>(ms, truncated).
             Inr \<lparr>pk_header = h, pk_messages = ms, pk_truncated = truncated\<rparr>)))"

definition build_packet_from_packed :: "datetime \<Rightarrow> packet_header \<Rightarrow> bytes list \<Rightarrow> packet_error + bytes" where
  "build_packet_from_packed now h packed = bindE (build_header now h) (\<lambda>hd. Inr (hd @ concat packed @ [0, 0]))"

fun pack_messages :: "packed_message list \<Rightarrow> packet_error + bytes list" where
  "pack_messages [] = Inr []"
| "pack_messages (m # ms) = bindE (pack_message m) (\<lambda>p. bindE (pack_messages ms) (\<lambda>ps. Inr (p # ps)))"

definition build_packet :: "datetime \<Rightarrow> packet_header \<Rightarrow> packed_message list \<Rightarrow> packet_error + bytes" where
  "build_packet now h ms = bindE (pack_messages ms) (build_packet_from_packed now h)"

section \<open>Reading what was written\<close>

lemma u16_append: "length a = k \<Longrightarrow> u16 (a @ b) (k + i) = u16 b i"
  by (auto simp: u16_def nth_append)

lemma u16_prefix: "Suc i < length a \<Longrightarrow> u16 (a @ b) i = u16 a i"
  by (simp add: u16_def nth_append)

lemma pack16_length: "pack16 v = Inr b \<Longrightarrow> length b = 2"
  by (auto simp: pack16_def split: if_splits)

lemma pack8_length: "pack8 v = Inr b \<Longrightarrow> length b = 1"
  by (auto simp: pack8_def split: if_splits)

lemma u16_pack16: "pack16 v = Inr b \<Longrightarrow> u16 (b @ r) 0 = v"
  by (auto simp: pack16_def u16_def uint_word_of_int_eq take_bit_eq_mod split: if_splits)

lemma pack16_Inr: "pack16 v = Inr b \<longleftrightarrow> 0 \<le> v \<and> v < 65536 \<and> b = [word_of_int (v mod 256), word_of_int (v div 256)]"
  by (auto simp: pack16_def)

lemma pack_all_Cons: "pack_all (p # ps) = Inr b \<longleftrightarrow> (\<exists>x y. p = Inr x \<and> pack_all ps = Inr y \<and> b = x @ y)"
  by (auto simp: bindE_Inr)

lemma pack_all_no_format_error: "(\<forall>p\<in>set ps. p \<noteq> Inl Truncated) \<Longrightarrow> pack_all ps \<noteq> Inl Truncated"
proof (induction ps)
  case (Cons p ps)
  then show ?case by (cases p; cases "pack_all ps") auto
qed simp

lemma before_nul_append: "0 \<notin> set v \<Longrightarrow> before_nul (v @ 0 # r) = v"
  by (induction v) (auto simp: before_nul_def)

lemma read_string_ok:
  assumes "drop offset data = v @ 0 # r" "0 \<notin> set v" "length v < limit"
  shows "read_string data offset limit = Inr (v, offset + length v + 1)"
proof -
  have "take limit (v @ 0 # r) = v @ 0 # take (limit - length v - 1) r"
    using assms(3) by (cases "limit - length v") (simp_all add: take_Cons')
  then show ?thesis
    using assms by (simp add: read_string_def before_nul_append Let_def)
qed

lemma read_string_cut:
  assumes "drop offset data = v" "offset \<le> length data" "0 \<notin> set v" "length v < limit"
  shows "read_string data offset limit = Inl Truncated"
proof -
  have "length data = offset + length v" using assms(1,2) by auto
  then show ?thesis using assms by (auto simp: read_string_def)
qed

text \<open>The four strings of a message, as one list.\<close>

fun read_strings :: "bytes \<Rightarrow> nat \<Rightarrow> nat list \<Rightarrow> packet_error + (bytes list \<times> nat)" where
  "read_strings data offset [] = Inr ([], offset)"
| "read_strings data offset (l # ls) =
     bindE (read_string data offset l) (\<lambda>(s, offset).
     bindE (read_strings data offset ls) (\<lambda>(ss, offset). Inr (s # ss, offset)))"

definition nul_terminated :: "bytes list \<Rightarrow> bytes" where
  "nul_terminated vs = concat (map (\<lambda>v. v @ [0]) vs)"

lemma nul_terminated_simps [simp]:
  "nul_terminated [] = []" "nul_terminated (v # vs) = v @ 0 # nul_terminated vs"
  by (simp_all add: nul_terminated_def)

lemma read_strings_ok:
  "drop offset data = nul_terminated vs @ r \<Longrightarrow> list_all2 (\<lambda>v l. length v < l \<and> 0 \<notin> set v) vs ls \<Longrightarrow>
    read_strings data offset ls = Inr (vs, offset + length (nul_terminated vs))"
proof (induction vs arbitrary: offset ls)
  case (Cons v vs)
  obtain l ls' where ls: "ls = l # ls'" "length v < l" "0 \<notin> set v"
    "list_all2 (\<lambda>v l. length v < l \<and> 0 \<notin> set v) vs ls'"
    using Cons.prems(2) by (auto simp: list_all2_Cons1)
  have d: "drop offset data = v @ 0 # (nul_terminated vs @ r)" using Cons.prems(1) by simp
  then have "drop (offset + length v + 1) data = nul_terminated vs @ r"
    by (metis (no_types, lifting) add.commute append_Cons append_assoc append_eq_conv_conj append_self_conv2
        drop_drop length_append_singleton Suc_eq_plus1 append.left_neutral)
  from Cons.IH[OF this ls(4)] read_string_ok[OF d ls(3,2)] ls(1) show ?case by simp
qed simp

lemma read_strings_cut:
  "drop offset data = take k (nul_terminated vs) \<Longrightarrow> k < length (nul_terminated vs) \<Longrightarrow> offset \<le> length data \<Longrightarrow>
    list_all2 (\<lambda>v l. length v < l \<and> 0 \<notin> set v) vs ls \<Longrightarrow> read_strings data offset ls = Inl Truncated"
proof (induction vs arbitrary: offset ls k)
  case (Cons v vs)
  obtain l ls' where ls: "ls = l # ls'" "length v < l" "0 \<notin> set v"
    "list_all2 (\<lambda>v l. length v < l \<and> 0 \<notin> set v) vs ls'"
    using Cons.prems(4) by (auto simp: list_all2_Cons1)
  show ?case
  proof (cases "k \<le> length v")
    case True
    then have "drop offset data = take k v" using Cons.prems(1) by simp
    moreover have "0 \<notin> set (take k v)" using ls(3) by (auto dest: in_set_takeD)
    ultimately have "read_string data offset l = Inl Truncated"
      using read_string_cut Cons.prems(3) ls(2) by simp
    then show ?thesis by (simp add: ls(1))
  next
    case False
    then have d: "drop offset data = v @ 0 # take (k - length v - 1) (nul_terminated vs)"
      using Cons.prems(1) by (cases "k - length v") (simp_all add: take_Cons')
    then have d': "drop (offset + length v + 1) data = take (k - length v - 1) (nul_terminated vs)"
      by (metis (no_types, lifting) add.commute append_Cons append_assoc append_eq_conv_conj append_self_conv2
        drop_drop length_append_singleton Suc_eq_plus1 append.left_neutral)
    have "offset + length v + 1 \<le> length data"
      using arg_cong[OF d, of length] by simp
    from Cons.IH[OF d' _ this ls(4)] False Cons.prems(2) read_string_ok[OF d ls(3,2)]
    show ?thesis by (simp add: ls(1))
  qed
qed simp

lemma parse_message_strings:
  "parse_message data offset =
     (if length data < offset + 34 then Inl Truncated
      else bindE (read_strings data (offset + 34) [36, 36, 72, MAX_TEXT_BYTES + 1]) (\<lambda>(ss, offset').
        Inr (\<lparr>pm_orig_net = u16 data (offset + 6), pm_orig_node = u16 data (offset + 2),
              pm_dest_net = u16 data (offset + 8), pm_dest_node = u16 data (offset + 4),
              pm_attributes = u16 data (offset + 10), pm_cost = u16 data (offset + 12),
              pm_date = take 19 (before_nul (take 20 (drop (offset + 14) data))),
              pm_to_name = ss ! 0, pm_from_name = ss ! 1, pm_subject = ss ! 2, pm_text = ss ! 3\<rparr>, offset')))"
  by (simp add: parse_message_def DATE_FIELD_def TO_FROM_FIELD_def SUBJECT_FIELD_def Let_def bindE_def
      add.commute[of offset 34] split: sum.split prod.split)

definition message_strings :: "packed_message \<Rightarrow> bytes list" where
  "message_strings m = [pm_to_name m, pm_from_name m, pm_subject m, pm_text m]"

lemma u16_pair:
  "0 \<le> v \<Longrightarrow> v < 65536 \<Longrightarrow>
    uint (word_of_int (v mod 256) :: 8 word) + 256 * uint (word_of_int (v div 256) :: 8 word) = v"
  by (simp add: uint_word_of_int_eq take_bit_eq_mod)

lemma pack_message_shape:
  assumes "pack_message m = Inr p"
  obtains head where "length head = 14" "u16 head 0 = 2" "u16 head 2 = pm_orig_node m"
    "u16 head 4 = pm_dest_node m" "u16 head 6 = pm_orig_net m" "u16 head 8 = pm_dest_net m"
    "u16 head 10 = pm_attributes m" "u16 head 12 = pm_cost m"
    "p = head @ (pm_date m @ replicate (20 - length (pm_date m)) 0) @ nul_terminated (message_strings m)"
    "length (pm_date m) < 20" "0 \<notin> set (pm_date m)"
    "list_all2 (\<lambda>v l. length v < l \<and> 0 \<notin> set v) (message_strings m) [36, 36, 72, MAX_TEXT_BYTES + 1]"
proof -
  let ?w = "\<lambda>v. [word_of_int (v mod 256), word_of_int (v div 256)] :: bytes"
  let ?head = "?w 2 @ ?w (pm_orig_node m) @ ?w (pm_dest_node m) @ ?w (pm_orig_net m) @ ?w (pm_dest_net m)
    @ ?w (pm_attributes m) @ ?w (pm_cost m)"
  have ok: "field_ok (pm_to_name m) 36" "field_ok (pm_from_name m) 36" "field_ok (pm_subject m) 72"
    "field_ok (pm_date m) 20" "length (pm_text m) \<le> MAX_TEXT_BYTES" "0 \<notin> set (pm_text m)"
    and a: "pack_all
        [pack16 PACKET_VERSION, pack16 (pm_orig_node m), pack16 (pm_dest_node m), pack16 (pm_orig_net m),
         pack16 (pm_dest_net m), pack16 (pm_attributes m), pack16 (pm_cost m),
         Inr (pm_date m @ replicate (DATE_FIELD - length (pm_date m)) 0),
         Inr (pm_to_name m @ [0]), Inr (pm_from_name m @ [0]), Inr (pm_subject m @ [0]), Inr (pm_text m @ [0])] = Inr p"
    using assms by (simp_all add: pack_message_def TO_FROM_FIELD_def SUBJECT_FIELD_def DATE_FIELD_def split: if_splits)
  from a have p: "p = ?head @ (pm_date m @ replicate (20 - length (pm_date m)) 0) @ nul_terminated (message_strings m)"
    and r: "0 \<le> pm_orig_node m" "pm_orig_node m < 65536" "0 \<le> pm_dest_node m" "pm_dest_node m < 65536"
      "0 \<le> pm_orig_net m" "pm_orig_net m < 65536" "0 \<le> pm_dest_net m" "pm_dest_net m < 65536"
      "0 \<le> pm_attributes m" "pm_attributes m < 65536" "0 \<le> pm_cost m" "pm_cost m < 65536"
    unfolding pack_all_Cons
    by (auto simp: pack16_Inr PACKET_VERSION_def DATE_FIELD_def message_strings_def)
  show ?thesis
  proof (rule that[of ?head])
    show "list_all2 (\<lambda>v l. length v < l \<and> 0 \<notin> set v) (message_strings m) [36, 36, 72, MAX_TEXT_BYTES + 1]"
      using ok by (simp add: message_strings_def field_ok_def)
    show "p = ?head @ (pm_date m @ replicate (20 - length (pm_date m)) 0) @ nul_terminated (message_strings m)"
      by (rule p)
    show "length (pm_date m) < 20" "0 \<notin> set (pm_date m)" using ok(4) by (simp_all add: field_ok_def)
  qed (simp_all add: u16_def u16_pair r)
qed

lemma drop_prefix: "k = length a \<Longrightarrow> drop (k + i) (a @ b) = drop i b"
  by simp

lemma parse_message_roundtrip:
  assumes "pack_message m = Inr p"
  shows "parse_message (pre @ p @ r) (length pre) = Inr (m, length pre + length p)"
proof -
  obtain head where h: "length head = 14" "u16 head 0 = 2" "u16 head 2 = pm_orig_node m"
    "u16 head 4 = pm_dest_node m" "u16 head 6 = pm_orig_net m" "u16 head 8 = pm_dest_net m"
    "u16 head 10 = pm_attributes m" "u16 head 12 = pm_cost m"
    and p: "p = head @ (pm_date m @ replicate (20 - length (pm_date m)) 0) @ nul_terminated (message_strings m)"
    and d: "length (pm_date m) < 20" "0 \<notin> set (pm_date m)"
    and l: "list_all2 (\<lambda>v l. length v < l \<and> 0 \<notin> set v) (message_strings m) [36, 36, 72, MAX_TEXT_BYTES + 1]"
    by (rule pack_message_shape[OF assms]) (rule that)
  let ?data = "pre @ p @ r"
  have u: "u16 ?data (length pre + i) = u16 head i" if "Suc i < 14" for i
    using that h(1) by (simp add: u16_append p u16_prefix)
  have "drop (length pre + 34) ?data = nul_terminated (message_strings m) @ r"
    using h(1) d(1) by (simp add: p)
  from read_strings_ok[OF this l]
  have s: "read_strings ?data (length pre + 34) [36, 36, 72, MAX_TEXT_BYTES + 1] =
    Inr (message_strings m, length pre + 34 + length (nul_terminated (message_strings m)))" .
  have "take 20 (drop (length pre + 14) ?data) = pm_date m @ 0 # replicate (19 - length (pm_date m)) 0"
    using h(1) d(1) by (simp add: p) (cases "20 - length (pm_date m)"; simp)
  then have date: "take 19 (before_nul (take 20 (drop (length pre + 14) ?data))) = pm_date m"
    using d by (simp add: before_nul_append)
  have len: "length p = 34 + length (nul_terminated (message_strings m))" using h(1) d(1) by (simp add: p)
  show ?thesis
    unfolding parse_message_strings s
    using len date u[of 2] u[of 4] u[of 6] u[of 8] u[of 10] u[of 12] h by (simp add: message_strings_def)
qed

lemma parse_message_cut:
  assumes "pack_message m = Inr p" "k < length p"
  shows "parse_message (pre @ take k p) (length pre) = Inl Truncated"
proof -
  obtain head where h: "length head = 14"
    and p: "p = head @ (pm_date m @ replicate (20 - length (pm_date m)) 0) @ nul_terminated (message_strings m)"
    and d: "length (pm_date m) < 20"
    and l: "list_all2 (\<lambda>v l. length v < l \<and> 0 \<notin> set v) (message_strings m) [36, 36, 72, MAX_TEXT_BYTES + 1]"
    by (rule pack_message_shape[OF assms(1)]) (rule that)
  show ?thesis
  proof (cases "k < 34")
    case True
    then show ?thesis using assms(2) by (simp add: parse_message_strings)
  next
    case False
    have p2: "p = (head @ pm_date m @ replicate (20 - length (pm_date m)) 0) @ nul_terminated (message_strings m)"
      by (simp add: p)
    have l34: "length (head @ pm_date m @ replicate (20 - length (pm_date m)) 0) = 34" using h d by simp
    have "drop (length pre + 34) (pre @ take k p) = take (k - 34) (nul_terminated (message_strings m))"
      using False l34 by (subst p2) (simp add: drop_take add.assoc)
    moreover have "k - 34 < length (nul_terminated (message_strings m))"
      using False assms(2) l34 by (subst (asm) p2) simp
    ultimately have "read_strings (pre @ take k p) (length pre + 34) [36, 36, 72, MAX_TEXT_BYTES + 1] = Inl Truncated"
      using read_strings_cut[OF _ _ _ l] False assms(2) by simp
    then show ?thesis by (simp add: parse_message_strings)
  qed
qed

lemma pack_message_marker:
  assumes "pack_message m = Inr p"
  shows "u16 (p @ r) 0 = 2" "34 \<le> length p" "2 \<le> k \<Longrightarrow> u16 (take k p) 0 = 2"
proof -
  obtain head where h: "length head = 14" "u16 head 0 = 2"
    and p: "p = head @ (pm_date m @ replicate (20 - length (pm_date m)) 0) @ nul_terminated (message_strings m)"
    and d: "length (pm_date m) < 20"
    by (rule pack_message_shape[OF assms]) (rule that)
  show "u16 (p @ r) 0 = 2" "34 \<le> length p"
    using h d by (simp_all add: p u16_prefix)
  show "u16 (take k p) 0 = 2" if "2 \<le> k"
  proof -
    have "u16 p 0 = 2" using h by (simp add: p u16_prefix)
    then show ?thesis using that by (simp add: u16_def)
  qed
qed

lemma pack_messages_Cons:
  "pack_messages (m # ms) = Inr ps \<longleftrightarrow>
    (\<exists>p ps'. pack_message m = Inr p \<and> pack_messages ms = Inr ps' \<and> ps = p # ps')"
  by (auto simp: bindE_Inr)


lemma parse_loop_cut:
  "pack_messages ms = Inr ps \<Longrightarrow> length acc + length ms \<le> MAX_MESSAGES \<Longrightarrow> k < length (concat ps @ [0, 0]) \<Longrightarrow>
    \<exists>j. parse_loop (pre @ take k (concat ps @ [0, 0])) (length pre) acc = Inr (acc @ take j ms, True)"
proof (induction ms arbitrary: ps pre acc k)
  case Nil
  then show ?case by (subst parse_loop.simps) auto
next
  case (Cons m ms)
  obtain p ps' where p: "pack_message m = Inr p" "pack_messages ms = Inr ps'" "ps = p # ps'"
    using Cons.prems(1) unfolding pack_messages_Cons by blast
  note mk = pack_message_marker[OF p(1)]
  show ?case
  proof (cases "k < length p")
    case True
    then have d: "pre @ take k (concat ps @ [0, 0]) = pre @ take k p" by (simp add: p(3))
    show ?thesis
    proof (cases "k < 2")
      case True
      then have "length (pre @ take k p) < length pre + 2" by simp
      then show ?thesis unfolding d by (intro exI[of _ 0], subst parse_loop.simps) (simp del: length_append)
    next
      case False
      then have "u16 (pre @ take k p) (length pre) = 2"
        using u16_append[of pre "length pre" "take k p" 0] mk(3) by simp
      then show ?thesis
        unfolding d using False \<open>k < length p\<close> Cons.prems(2) parse_message_cut[OF p(1) \<open>k < length p\<close>, of pre]
        by (intro exI[of _ 0], subst parse_loop.simps) (simp add: PACKET_VERSION_def Let_def)
    qed
  next
    case False
    let ?rest = "take (k - length p) (concat ps' @ [0, 0])"
    have d: "pre @ take k (concat ps @ [0, 0]) = pre @ p @ ?rest" using False by (simp add: p(3))
    have "k - length p < length (concat ps' @ [0, 0])" using Cons.prems(3) False by (simp add: p(3))
    then obtain j where j: "parse_loop ((pre @ p) @ ?rest) (length (pre @ p)) (acc @ [m]) = Inr ((acc @ [m]) @ take j ms, True)"
      using Cons.IH[OF p(2), of "acc @ [m]" "k - length p" "pre @ p"] Cons.prems(2) by auto
    have "u16 (pre @ p @ ?rest) (length pre) = 2"
      using u16_append[of pre "length pre" "p @ ?rest" 0] mk(1) by simp
    then show ?thesis
      unfolding d using j mk(2) Cons.prems(2) parse_message_roundtrip[OF p(1), of pre ?rest]
      by (intro exI[of _ "Suc j"], subst parse_loop.simps) (simp add: PACKET_VERSION_def Let_def)
  qed
qed

section \<open>No other exception\<close>








section \<open>Reading a built header\<close>

lemma nth_behind: "k \<le> i \<Longrightarrow> length a = k \<Longrightarrow> (a @ b) ! i = b ! (i - k)"
  by (simp add: nth_append)

lemma u16_behind: "k \<le> i \<Longrightarrow> length a = k \<Longrightarrow> u16 (a @ b) i = u16 b (i - k)"
  using u16_append[of a k b "i - k"] by simp

definition header_ok :: "packet_header \<Rightarrow> bool" where
  "header_ok h \<longleftrightarrow> address_ok (ph_orig h) \<and> address_ok (ph_dest h) \<and>
     (\<forall>c\<in>set (ph_password h). c < 128 \<and> c \<noteq> 0) \<and> 0 \<le> ph_product_code h \<and> ph_product_code h < 65536"

definition datetime_ok :: "datetime \<Rightarrow> bool" where
  "datetime_ok c \<longleftrightarrow>
     make_datetime (dt_year c) (dt_month c) (dt_day c) (dt_hour c) (dt_minute c) (dt_second c) = Some c"

lemma ascii_roundtrip:
  assumes "\<forall>c\<in>set s. c < 128 \<and> c \<noteq> 0"
  shows "ascii_decode (ascii_encode s) = s" "0 \<notin> set (ascii_encode s)"
proof -
  have w: "unat (of_nat c :: 8 word) = c" if "c < 128" for c
    using that by (simp add: unat_of_nat take_bit_nat_eq_self)
  have "(of_nat c :: 8 word) < 128 \<and> (of_nat c :: 8 word) \<noteq> 0" if "c < 128" "c \<noteq> 0" for c
    using w[OF that(1)] that by (auto simp: word_less_nat_alt)
  then show "ascii_decode (ascii_encode s) = s" "0 \<notin> set (ascii_encode s)"
    using assms w by (auto simp: ascii_decode_def ascii_encode_def intro!: map_idI)
qed

lemma before_nul_pad: "0 \<notin> set v \<Longrightarrow> before_nul (v @ replicate n 0) = v"
  using before_nul_append[of v] by (cases n) (auto simp: before_nul_def takeWhile_eq_all_conv)

lemma pack_all_Inr:
  "pack_all ps = Inr b \<longleftrightarrow> list_all (\<lambda>p. \<exists>x. p = Inr x) ps \<and> b = concat (map projr ps)"
proof (induction ps arbitrary: b)
  case (Cons p ps)
  then show ?case by (cases p; cases "pack_all ps") auto
qed auto

lemma pack_ok:
  "(\<exists>x. pack16 v = Inr x) \<longleftrightarrow> 0 \<le> v \<and> v < 65536" "(\<exists>x. pack8 v = Inr x) \<longleftrightarrow> 0 \<le> v \<and> v < 256"
  "0 \<le> v \<Longrightarrow> v < 65536 \<Longrightarrow> projr (pack16 v) = [word_of_int (v mod 256), word_of_int (v div 256)]"
  "0 \<le> v \<Longrightarrow> v < 256 \<Longrightarrow> projr (pack8 v) = [word_of_int v]"
  by (auto simp: pack16_def pack8_def)

text \<open>The three stretches of a header: before, at and behind the password.\<close>

definition header_layout :: "packet_header \<Rightarrow> datetime \<Rightarrow> bytes \<Rightarrow> bytes \<Rightarrow> bytes \<Rightarrow> bool" where
  "header_layout h c A P B \<longleftrightarrow>
     length A = 26 \<and> length P = 8 \<and> length B = 24 \<and> length (ph_password h) \<le> 8 \<and>
     P = ascii_encode (ph_password h) @ replicate (8 - length (ph_password h)) 0 \<and>
     u16 A 0 = a_node (ph_orig h) \<and> u16 A 2 = a_node (ph_dest h) \<and>
     u16 A 4 = dt_year c \<and> u16 A 6 = dt_month c - 1 \<and> u16 A 8 = dt_day c \<and>
     u16 A 10 = dt_hour c \<and> u16 A 12 = dt_minute c \<and> u16 A 14 = dt_second c \<and>
     u16 A 16 = 0 \<and> u16 A 18 = 2 \<and>
     u16 A 20 = (if a_point (ph_orig h) \<noteq> 0 then 0xFFFF else a_net (ph_orig h)) \<and>
     u16 A 22 = a_net (ph_dest h) \<and>
     uint (A ! 24) = ph_product_code h mod 256 \<and> uint (A ! 25) = fst (ph_product_version h) \<and>
     u16 B 0 = a_zone (ph_orig h) \<and> u16 B 2 = a_zone (ph_dest h) \<and>
     u16 B 4 = (if a_point (ph_orig h) \<noteq> 0 then a_net (ph_orig h) else 0) \<and> u16 B 6 = 256 \<and>
     uint (B ! 8) = ph_product_code h div 256 mod 256 \<and> uint (B ! 9) = snd (ph_product_version h) \<and>
     u16 B 10 = 1 \<and> u16 B 12 = a_zone (ph_orig h) \<and> u16 B 14 = a_zone (ph_dest h) \<and>
     u16 B 16 = a_point (ph_orig h) \<and> u16 B 18 = a_point (ph_dest h)"

lemma build_header_shape:
  assumes "build_header now h = Inr b"
  shows "\<exists>A P B. b = A @ P @ B \<and>
    header_layout h (case ph_created h of None \<Rightarrow> now | Some c \<Rightarrow> c) A P B"
proof -
  define c where "c = (case ph_created h of None \<Rightarrow> now | Some c \<Rightarrow> c)"
  let ?w = "\<lambda>v. [word_of_int (v mod 256), word_of_int (v div 256)] :: bytes"
  let ?one = "\<lambda>v. [word_of_int v] :: bytes"
  let ?o = "ph_orig h" and ?d = "ph_dest h" and ?pc = "ph_product_code h"
  let ?net = "if a_point ?o \<noteq> 0 then 0xFFFF else a_net ?o" and ?aux = "if a_point ?o \<noteq> 0 then a_net ?o else 0"
  let ?A = "?w (a_node ?o) @ ?w (a_node ?d) @ ?w (dt_year c) @ ?w (dt_month c - 1) @ ?w (dt_day c) @ ?w (dt_hour c)
    @ ?w (dt_minute c) @ ?w (dt_second c) @ ?w 0 @ ?w 2 @ ?w ?net @ ?w (a_net ?d) @ ?one (?pc mod 256)
    @ ?one (fst (ph_product_version h))"
  let ?P = "ascii_encode (ph_password h) @ replicate (8 - length (ph_password h)) 0"
  let ?B = "?w (a_zone ?o) @ ?w (a_zone ?d) @ ?w ?aux @ ?w 256 @ ?one (?pc div 256 mod 256)
    @ ?one (snd (ph_product_version h)) @ ?w 1 @ ?w (a_zone ?o) @ ?w (a_zone ?d) @ ?w (a_point ?o) @ ?w (a_point ?d)
    @ [0, 0, 0, 0]"
  have pw: "length (ph_password h) \<le> 8"
    using assms by (auto simp: build_header_def Let_def PASSWORD_FIELD_def ascii_encode_def split: if_splits)
  have len: "length (ascii_encode (ph_password h)) = length (ph_password h)" by (simp add: ascii_encode_def)
  have a: "pack_all
           [pack16 (a_node ?o), pack16 (a_node ?d),
            pack16 (dt_year c), pack16 (dt_month c - 1), pack16 (dt_day c),
            pack16 (dt_hour c), pack16 (dt_minute c), pack16 (dt_second c),
            pack16 0, pack16 2, pack16 ?net, pack16 (a_net ?d),
            pack8 (?pc mod 256), pack8 (fst (ph_product_version h)), Inr ?P,
            pack16 (a_zone ?o), pack16 (a_zone ?d), pack16 ?aux, pack16 256,
            pack8 (?pc div 256 mod 256), pack8 (snd (ph_product_version h)), pack16 1,
            pack16 (a_zone ?o), pack16 (a_zone ?d), pack16 (a_point ?o), pack16 (a_point ?d),
            Inr [0, 0, 0, 0]] = Inr b"
    using assms pw unfolding build_header_def Let_def c_def[symmetric]
    by (simp add: PASSWORD_FIELD_def PACKET_VERSION_def swap16_def len split: if_splits)
  note a' = a[unfolded pack_all_Inr]
  have r: "0 \<le> a_node ?o" "a_node ?o < 65536" "0 \<le> a_node ?d" "a_node ?d < 65536"
      "0 \<le> dt_year c" "dt_year c < 65536" "0 \<le> dt_month c - 1" "dt_month c - 1 < 65536" "0 \<le> dt_day c" "dt_day c < 65536"
      "0 \<le> dt_hour c" "dt_hour c < 65536" "0 \<le> dt_minute c" "dt_minute c < 65536" "0 \<le> dt_second c" "dt_second c < 65536"
      "0 \<le> ?net" "?net < 65536" "0 \<le> a_net ?d" "a_net ?d < 65536"
      "0 \<le> fst (ph_product_version h)" "fst (ph_product_version h) < 256"
      "0 \<le> a_zone ?o" "a_zone ?o < 65536" "0 \<le> a_zone ?d" "a_zone ?d < 65536" "0 \<le> ?aux" "?aux < 65536"
      "0 \<le> snd (ph_product_version h)" "snd (ph_product_version h) < 256"
      "0 \<le> a_point ?o" "a_point ?o < 65536" "0 \<le> a_point ?d" "a_point ?d < 65536"
    using conjunct1[OF a'] by (simp_all only: list.pred_inject pack_ok simp_thms)
  have b: "b = ?A @ ?P @ ?B"
    using conjunct2[OF a'] by (simp add: pack_ok r r(7,8)[simplified] del: One_nat_def split del: if_split)
  have u8: "uint (word_of_int v :: 8 word) = v" if "0 \<le> v" "v < 256" for v
    using that by (simp add: uint_word_of_int_eq take_bit_eq_mod)
  have "length ?A = 26 \<and> length ?P = 8 \<and> length ?B = 24" using len pw by simp
  moreover have "u16 ?A 0 = a_node ?o" "u16 ?A 2 = a_node ?d" "u16 ?A 4 = dt_year c" "u16 ?A 6 = dt_month c - 1"
    "u16 ?A 8 = dt_day c" "u16 ?A 10 = dt_hour c" "u16 ?A 12 = dt_minute c" "u16 ?A 14 = dt_second c"
    "u16 ?A 16 = 0" "u16 ?A 18 = 2" "u16 ?A 20 = ?net" "u16 ?A 22 = a_net ?d"
    by (simp_all add: u16_def u16_pair r r(7,8)[simplified] split del: if_split)
  moreover have "u16 ?B 0 = a_zone ?o" "u16 ?B 2 = a_zone ?d" "u16 ?B 4 = ?aux" "u16 ?B 6 = 256" "u16 ?B 10 = 1"
    "u16 ?B 12 = a_zone ?o" "u16 ?B 14 = a_zone ?d" "u16 ?B 16 = a_point ?o" "u16 ?B 18 = a_point ?d"
    by (simp_all add: u16_def u16_pair r split del: if_split)
  moreover have "uint (?A ! 24) = ?pc mod 256" "uint (?A ! 25) = fst (ph_product_version h)"
      "uint (?B ! 8) = ?pc div 256 mod 256" "uint (?B ! 9) = snd (ph_product_version h)"
    by (simp_all add: u8 r)
  ultimately have "header_layout h c ?A ?P ?B"
    using pw unfolding header_layout_def by (simp only: simp_thms)
  then show ?thesis using b unfolding c_def[symmetric] by blast
qed

definition without_domain :: "ftn_address \<Rightarrow> ftn_address" where
  "without_domain a = a\<lparr>a_domain := None\<rparr>"

lemma make_address_without_domain:
  "address_ok a \<Longrightarrow> make_address (a_zone a) (a_net a) (a_node a) (a_point a) None = Some (without_domain a)"
  by (simp add: make_address_def address_ok_def MAX_NUMBER_def without_domain_def)

lemma parse_built_header:
  assumes b: "build_header now h = Inr b" and h: "header_ok h"
    and c: "c = (case ph_created h of None \<Rightarrow> now | Some c \<Rightarrow> c)" "datetime_ok c"
  shows "length b = 58 \<and> parse_header b =
    Inr \<lparr>ph_orig = without_domain (ph_orig h), ph_dest = without_domain (ph_dest h), ph_created = Some c,
         ph_password = ph_password h, ph_product_code = ph_product_code h,
         ph_product_version = ph_product_version h, ph_kind = u ''2+''\<rparr>"
proof -
  obtain A P B where s: "b = A @ P @ B" and l: "header_layout h c A P B"
    using build_header_shape[OF b] c(1) by blast
  note l = l[unfolded header_layout_def]
  have len: "length A = 26" "length P = 8" "length B = 24" using l by blast+
  have A: "u16 b i = u16 A i" "b ! i = A ! i" if "Suc i < 26" for i
    using that len by (simp_all add: s u16_prefix nth_append)
  have A25: "b ! 25 = A ! 25" using len by (simp add: s nth_append)
  have B: "u16 b i = u16 B (i - 34)" "b ! i = B ! (i - 34)" if "34 \<le> i" for i
    using u16_behind[of 34 i "A @ P" B] nth_behind[of 34 i "A @ P" B] that len by (simp_all add: s)
  have pw: "ascii_decode (before_nul (take 8 (drop 26 b))) = ph_password h"
  proof -
    have "take 8 (drop 26 b) = P" using len by (simp add: s)
    moreover have "P = ascii_encode (ph_password h) @ replicate (8 - length (ph_password h)) 0" using l by blast
    ultimately show ?thesis
      using ascii_roundtrip[of "ph_password h"] h by (simp add: before_nul_pad header_ok_def)
  qed
  have time: "header_time (u16 b 4) (u16 b 6) (u16 b 8) (u16 b 10) (u16 b 12) (u16 b 14) = Some c"
    using l c(2) by (simp add: A header_time_def datetime_ok_def)
  have ok: "address_ok (ph_orig h)" "address_ok (ph_dest h)" using h by (simp_all add: header_ok_def)
  have net: "(if u16 b 20 = 0xFFFF \<and> u16 b 50 \<noteq> 0 then u16 b 38 else u16 b 20) = a_net (ph_orig h)"
  proof -
    have "u16 b 20 = u16 A 20" "u16 b 38 = u16 B 4" "u16 b 50 = u16 B 16"
      using A(1)[of 20] B(1)[of 38] B(1)[of 50] by simp_all
    then have "u16 b 20 = (if a_point (ph_orig h) \<noteq> 0 then 0xFFFF else a_net (ph_orig h))"
      "u16 b 38 = (if a_point (ph_orig h) \<noteq> 0 then a_net (ph_orig h) else 0)"
      "u16 b 50 = a_point (ph_orig h)" by (simp_all only: l)
    then show ?thesis by presburger
  qed
  have prod: "uint (b ! 42) * 256 + uint (b ! 24) = ph_product_code h"
  proof -
    have "uint (A ! 24) = ph_product_code h mod 256" "uint (B ! 8) = ph_product_code h div 256 mod 256"
      by (simp_all only: l)
    moreover have "p div 256 mod 256 * 256 + p mod 256 = p" if "0 \<le> p" "p < 65536" for p :: int
    proof -
      have "p div 256 < 256" "0 \<le> p div 256" using that by (simp_all add: div_less_iff_less_mult pos_imp_zdiv_nonneg_iff)
      then have "p div 256 mod 256 = p div 256" by simp
      then show ?thesis using div_mult_mod_eq[of p 256] by simp
    qed
    moreover have "0 \<le> ph_product_code h" "ph_product_code h < 65536" using h by (simp_all add: header_ok_def)
    moreover have "b ! 24 = A ! 24" "b ! 42 = B ! 8" using A(2)[of 24] B(2)[of 42] by simp_all
    ultimately show ?thesis by metis
  qed
  have "u16 b 46 = a_zone (ph_orig h)" "u16 b 34 = a_zone (ph_orig h)"
    "u16 b 48 = a_zone (ph_dest h)" "u16 b 36 = a_zone (ph_dest h)"
    using l by (simp_all add: B)
  then have zones: "or_else (u16 b 46) (u16 b 34) = a_zone (ph_orig h)" "or_else (u16 b 48) (u16 b 36) = a_zone (ph_dest h)"
    by (simp_all add: or_else_def)
  have rest: "u16 b 18 = PACKET_VERSION" "u16 b 16 \<noteq> 2" "u16 b 44 mod 2 = 1 \<and> swap16 (u16 b 40) = u16 b 44"
    "u16 b 0 = a_node (ph_orig h)" "u16 b 2 = a_node (ph_dest h)" "u16 b 22 = a_net (ph_dest h)"
    "u16 b 50 = a_point (ph_orig h)" "u16 b 52 = a_point (ph_dest h)"
    "uint (b ! 25) = fst (ph_product_version h)" "uint (b ! 43) = snd (ph_product_version h)"
    using l by (simp_all add: A A25 B PACKET_VERSION_def swap16_def)
  have "length b = 58" using len by (simp add: s)
  then show ?thesis
    unfolding parse_header_def Let_def HEADER_BYTES_def time pw net prod zones
    by (simp add: rest make_address_without_domain[OF ok(1)] make_address_without_domain[OF ok(2)] lift_address_def)
qed

section \<open>Properties\<close>


text \<open>
  A packet cut off anywhere behind its header loses nothing that arrived: it parses, says it was
  truncated, and yields an initial segment of the messages sent, each intact.
\<close>

theorem truncated_packet_keeps_prefix:
  assumes "build_packet now h ms = Inr data" and "header_ok h"
    and "datetime_ok (case ph_created h of None \<Rightarrow> now | Some c \<Rightarrow> c)"
    and "length ms \<le> MAX_MESSAGES" and "k \<le> MAX_PACKET_BYTES"
    and "HEADER_BYTES \<le> k" and "k < length data"
  shows "\<exists>p j. parse_packet (take k data) = Inr p \<and> pk_truncated p \<and> pk_messages p = take j ms"
proof -
  obtain ps b where ps: "pack_messages ms = Inr ps" and b: "build_header now h = Inr b"
    and d: "data = b @ concat ps @ [0, 0]"
    using assms(1) by (auto simp: build_packet_def build_packet_from_packed_def bindE_Inr)
  note hb = parse_built_header[OF b assms(2) refl assms(3)]
  have t: "take k data = b @ take (k - 58) (concat ps @ [0, 0])"
    using hb assms(6) by (simp add: d HEADER_BYTES_def)
  have "k - 58 < length (concat ps @ [0, 0])"
    using assms(6,7) conjunct1[OF hb] unfolding d HEADER_BYTES_def by simp
  then obtain j where "parse_loop (take k data) 58 [] = Inr (take j ms, True)"
    using parse_loop_cut[OF ps, of "[]" "k - 58" b] assms(4) conjunct1[OF hb] unfolding t by auto
  moreover have "take 58 (take k data) = b" using hb by (simp add: t)
  moreover have "length (take k data) = k" using assms(7) by simp
  ultimately show ?thesis
    using hb assms(5,6) by (auto simp: parse_packet_def HEADER_BYTES_def simp del: length_take)
qed


text \<open>A small packet: one message, from a point.\<close>

definition sample_header :: packet_header where
  "sample_header = \<lparr>
     ph_orig = \<lparr>a_zone = 2, a_net = 240, a_node = 1, a_point = 7, a_domain = Some (u ''fidonet'')\<rparr>,
     ph_dest = \<lparr>a_zone = 2, a_net = 240, a_node = 5, a_point = 0, a_domain = None\<rparr>,
     ph_created = Some \<lparr>dt_year = 2026, dt_month = 2, dt_day = 28, dt_hour = 23, dt_minute = 59, dt_second = 1\<rparr>,
     ph_password = u ''secret'', ph_product_code = 0xFE, ph_product_version = (1, 2), ph_kind = u ''2+''\<rparr>"

definition sample_message :: packed_message where
  "sample_message = \<lparr>pm_orig_net = 240, pm_orig_node = 1, pm_dest_net = 240, pm_dest_node = 5,
     pm_attributes = 1, pm_cost = 0, pm_date = [48, 49], pm_to_name = [65], pm_from_name = [66],
     pm_subject = [], pm_text = [104, 105, 13]\<rparr>"

definition sample_bytes :: bytes where
  "sample_bytes = (case build_packet \<lparr>dt_year = 2000, dt_month = 1, dt_day = 1, dt_hour = 0, dt_minute = 0, dt_second = 0\<rparr>
     sample_header [sample_message] of Inr d \<Rightarrow> d | Inl _ \<Rightarrow> [])"

lemmas sample_defs =
  build_packet_def build_packet_from_packed_def build_header_def pack_message_def sample_header_def
  sample_message_def field_ok_def pack16_def pack8_def swap16_def ascii_encode_def PASSWORD_FIELD_def
  PACKET_VERSION_def TO_FROM_FIELD_def SUBJECT_FIELD_def DATE_FIELD_def MAX_TEXT_BYTES_def

lemma sample_builds:
  "build_packet \<lparr>dt_year = 2000, dt_month = 1, dt_day = 1, dt_hour = 0, dt_minute = 0, dt_second = 0\<rparr>
     sample_header [sample_message] = Inr sample_bytes"
  unfolding sample_bytes_def by (simp add: sample_defs)

lemma sample_length: "length sample_bytes = 103"
  unfolding sample_bytes_def by (simp add: sample_defs)

lemma sample_ok: "header_ok sample_header" "datetime_ok (case ph_created sample_header of None \<Rightarrow> now | Some c \<Rightarrow> c)"
  by (auto simp: header_ok_def sample_header_def address_ok_def domain_char_def is_digit_def lower_char_def
      datetime_ok_def make_datetime_def days_in_month_def)


theorem truncated_packet_keeps_prefix_witness:
  "\<exists>p j. parse_packet (take 70 sample_bytes) = Inr p \<and> pk_truncated p \<and> pk_messages p = take j [sample_message]"
  by (rule truncated_packet_keeps_prefix[OF sample_builds sample_ok])
    (simp_all add: MAX_MESSAGES_def MAX_PACKET_BYTES_def HEADER_BYTES_def sample_length)

end
