(* ===== verification/Ftn_Control.thy ===== *)
theory Ftn_Control
  imports Ftn_Packet
begin

text \<open>
  The control lines of an FTN message, \<^verbatim>\<open>src/netbbs/ftn/message.py\<close>: SEEN-BY and PATH lists, kludges,
  dates and zones. \<open>None\<close> of \<open>net_nodes\<close> is the \<open>ValueError\<close> that \<open>int\<close> raises.
\<close>

section \<open>SEEN-BY and PATH lists\<close>

definition after :: "nat \<Rightarrow> ustr \<Rightarrow> ustr" where
  "after c s = tl (dropWhile (\<lambda>x. x \<noteq> c) s)"

definition before :: "nat \<Rightarrow> ustr \<Rightarrow> ustr" where
  "before c s = takeWhile (\<lambda>x. x \<noteq> c) s"

text \<open>The token without its zone, point and domain.\<close>

definition two_d :: "ustr \<Rightarrow> ustr" where
  "two_d tok = before 64 (before 46 (if 58 \<in> set tok then after 58 tok else tok))"

fun net_nodes :: "unitext \<Rightarrow> nat option \<Rightarrow> ustr list \<Rightarrow> ((nat \<times> nat) list \<times> nat option) option" where
  "net_nodes T net [] = Some ([], net)"
| "net_nodes T net (tok # toks) =
     (let t = two_d tok in
      if 47 \<in> set t then
        (if \<not> (py_isdigit T (before 47 t) \<and> py_isdigit T (after 47 t)) then net_nodes T net toks
         else
           py_int T (before 47 t) \<bind> (\<lambda>n. py_int T (after 47 t) \<bind> (\<lambda>m.
             map_option (\<lambda>(es, net). (if n \<le> 0xFFFF \<and> m \<le> 0xFFFF then (n, m) # es else es, net))
               (net_nodes T (Some n) toks))))
      else
        (case net of
           Some n \<Rightarrow>
             if py_isdigit T t then
               py_int T t \<bind> (\<lambda>m.
                 map_option (\<lambda>(es, net). (if n \<le> 0xFFFF \<and> m \<le> 0xFFFF then (n, m) # es else es, net))
                   (net_nodes T net toks))
             else net_nodes T net toks
         | None \<Rightarrow> net_nodes T net toks))"

definition parse_net_nodes :: "unitext \<Rightarrow> ustr \<Rightarrow> (nat \<times> nat) list option" where
  "parse_net_nodes T s = map_option fst (net_nodes T None (py_words (ut_space T) s))"

definition full_token :: "nat \<times> nat \<Rightarrow> ustr" where
  "full_token e = dec (fst e) @ [47] @ dec (snd e)"

text \<open>One pass of the loop of \<open>format_net_node_lines\<close>: the lines written, the line begun and its net.\<close>

definition add_token ::
  "ustr \<Rightarrow> nat \<Rightarrow> ustr list \<times> ustr \<times> nat option \<Rightarrow> nat \<times> nat \<Rightarrow> ustr list \<times> ustr \<times> nat option" where
  "add_token prefix width st e =
     (case st of (lines, line, net) \<Rightarrow>
      let bare = (if Some (fst e) = net \<and> line \<noteq> [] then dec (snd e) else full_token e);
          (lines, line, bare) =
            (if line \<noteq> [] \<and> width < length prefix + length line + 1 + length bare
             then (lines @ [prefix @ line], [], full_token e) else (lines, line, bare));
          line = (if line \<noteq> [] then line @ [32] @ bare else bare)
      in (lines, line, Some (fst e)))"

definition format_net_node_lines :: "ustr \<Rightarrow> (nat \<times> nat) list \<Rightarrow> nat \<Rightarrow> ustr list" where
  "format_net_node_lines prefix entries width =
     (case foldl (add_token prefix width) ([], [], None) entries of
        (lines, line, net) \<Rightarrow> if line \<noteq> [] then lines @ [prefix @ line] else lines)"

section \<open>Kludge lines\<close>

definition KLUDGE :: nat where "KLUDGE = 1"
definition MAX_CONTROL_LINE :: nat where "MAX_CONTROL_LINE = 80"
definition MAX_AREA_TAG :: nat where "MAX_AREA_TAG = 60"

definition plain_text :: "ustr \<Rightarrow> ustr" where
  "plain_text s = filter (\<lambda>c. c \<noteq> 0) (filter (\<lambda>c. c \<noteq> KLUDGE) (filter (\<lambda>c. c \<noteq> 13) s))"

text \<open>\<open>_KLUDGE_LINE\<close> and the stripping of its value.\<close>

definition split_kludge :: "unitext \<Rightarrow> ustr \<Rightarrow> ustr \<times> ustr" where
  "split_kludge T line =
     (let in_name = (\<lambda>c. \<not> ut_space T c \<and> c \<noteq> 58);
          rest = dropWhile in_name line;
          rest = (if rest \<noteq> [] \<and> hd rest = 58 then tl rest else rest)
      in (takeWhile in_name line, py_strip (ut_space T) (dropWhile (ut_space T) rest)))"

text \<open>\<open>upper\<close> is \<open>str.upper\<close>.\<close>

definition format_kludge :: "(ustr \<Rightarrow> ustr) \<Rightarrow> ustr \<Rightarrow> ustr \<Rightarrow> ustr" where
  "format_kludge upper name value =
     [KLUDGE] @ name
     @ (if upper name \<in> set [u ''FMPT'', u ''TOPT'', u ''INTL'', u ''VIA''] then u '' '' else u '': '')
     @ value"

definition normalise_msgid :: "unitext \<Rightarrow> ustr option \<Rightarrow> ustr option" where
  "normalise_msgid T value =
     (case value of
        None \<Rightarrow> None
      | Some v \<Rightarrow> if v = [] then None else Some (join_with [32] (py_words (ut_space T) v)))"

text \<open>\<open>format_msgid\<close>: the serial in eight lower-case hexadecimal digits.\<close>

definition hex_digit :: "nat \<Rightarrow> nat" where
  "hex_digit d = (if d < 10 then 48 + d else 87 + d)"

definition hex8 :: "int \<Rightarrow> ustr" where
  "hex8 n = map (\<lambda>i. hex_digit (nat (n mod 2 ^ 32) div 16 ^ (7 - i) mod 16)) [0..<8]"

definition format_msgid :: "ftn_address \<Rightarrow> int \<Rightarrow> ustr" where
  "format_msgid a serial = show_address a @ [32] @ hex8 serial"

text \<open>\<open>_raw_kludge\<close>, on the bytes of the text before it is decoded.\<close>

definition lstrip_lf :: "bytes \<Rightarrow> bytes" where
  "lstrip_lf line = dropWhile (\<lambda>b. b = 10) line"

definition starts_with :: "'a list \<Rightarrow> 'a list \<Rightarrow> bool" where
  "starts_with s p \<longleftrightarrow> take (length p) s = p"

fun find_raw_kludge :: "unitext \<Rightarrow> bytes \<Rightarrow> bytes list \<Rightarrow> ustr option" where
  "find_raw_kludge T name [] = None"
| "find_raw_kludge T name (line # lines) =
     (let line = lstrip_lf line in
      if starts_with line ([1] @ name @ [58]) \<or> starts_with line ([1] @ name @ [32])
      then Some (py_strip (ut_space T) (ascii_decode (drop (length name + 2) line)))
      else find_raw_kludge T name lines)"

definition raw_kludge :: "unitext \<Rightarrow> bytes \<Rightarrow> bytes \<Rightarrow> ustr option" where
  "raw_kludge T txt name = find_raw_kludge T name (split_on 13 txt)"

section \<open>Dates and zones\<close>

definition MONTHS :: "ustr list" where
  "MONTHS = map u [''Jan'', ''Feb'', ''Mar'', ''Apr'', ''May'', ''Jun'', ''Jul'', ''Aug'', ''Sep'', ''Oct'', ''Nov'', ''Dec'']"

definition ascii_letter :: "nat \<Rightarrow> bool" where
  "ascii_letter c \<longleftrightarrow> (65 \<le> c \<and> c \<le> 90) \<or> (97 \<le> c \<and> c \<le> 122)"

text \<open>The pieces of the two date patterns: \<open>\d{1,2}\<close> in front of \<open>stop\<close>, \<open>\d{2}\<close>, \<open>[A-Za-z]{3}\<close>, one
  given character, and a run of white space. The text is decoded ASCII, so \<open>\d\<close> is an ASCII digit.\<close>

definition one_or_two :: "ustr \<Rightarrow> (nat \<times> ustr) option" where
  "one_or_two s =
     (case s of
        a # b # r \<Rightarrow> if is_digit a \<and> is_digit b then Some (undec [a, b], r)
                     else if is_digit a then Some (undec [a], b # r) else None
      | [a] \<Rightarrow> if is_digit a then Some (undec [a], []) else None
      | [] \<Rightarrow> None)"

definition two_digits :: "ustr \<Rightarrow> (nat \<times> ustr) option" where
  "two_digits s =
     (case s of a # b # r \<Rightarrow> if is_digit a \<and> is_digit b then Some (undec [a, b], r) else None | _ \<Rightarrow> None)"

definition three_letters :: "ustr \<Rightarrow> (ustr \<times> ustr) option" where
  "three_letters s =
     (if 3 \<le> length s \<and> list_all ascii_letter (take 3 s) then Some (take 3 s, drop 3 s) else None)"

definition lit :: "nat \<Rightarrow> ustr \<Rightarrow> ustr option" where
  "lit c s = (if s \<noteq> [] \<and> hd s = c then Some (tl s) else None)"

definition spaces1 :: "ustr \<Rightarrow> ustr option" where
  "spaces1 s = (if s \<noteq> [] \<and> ascii_space (hd s) then Some (dropWhile ascii_space s) else None)"

definition match_fts_date :: "ustr \<Rightarrow> (nat \<times> ustr \<times> nat \<times> nat \<times> nat \<times> nat) option" where
  "match_fts_date s =
     one_or_two (dropWhile ascii_space s) \<bind> (\<lambda>(day, s). lit 32 s \<bind> (\<lambda>s.
     three_letters s \<bind> (\<lambda>(month, s). lit 32 s \<bind> (\<lambda>s.
     two_digits s \<bind> (\<lambda>(year, s). spaces1 s \<bind> (\<lambda>s.
     one_or_two s \<bind> (\<lambda>(hour, s). lit 58 s \<bind> (\<lambda>s.
     two_digits s \<bind> (\<lambda>(minute, s). lit 58 s \<bind> (\<lambda>s.
     map_option (\<lambda>(second, s). (day, month, year, hour, minute, second)) (two_digits s)))))))))))"

definition match_seadog_date :: "ustr \<Rightarrow> (nat \<times> ustr \<times> nat \<times> nat \<times> nat) option" where
  "match_seadog_date s =
     three_letters (dropWhile ascii_space s) \<bind> (\<lambda>(_, s). spaces1 s \<bind> (\<lambda>s.
     one_or_two s \<bind> (\<lambda>(day, s). lit 32 s \<bind> (\<lambda>s.
     three_letters s \<bind> (\<lambda>(month, s). lit 32 s \<bind> (\<lambda>s.
     two_digits s \<bind> (\<lambda>(year, s). lit 32 s \<bind> (\<lambda>s.
     one_or_two s \<bind> (\<lambda>(hour, s). lit 58 s \<bind> (\<lambda>s.
     map_option (\<lambda>(minute, s). (day, month, year, hour, minute)) (two_digits s)))))))))))"

definition upper_char :: "nat \<Rightarrow> nat" where
  "upper_char c = (if 97 \<le> c \<and> c \<le> 122 then c - 32 else c)"

definition capitalize :: "ustr \<Rightarrow> ustr" where
  "capitalize s = (case s of [] \<Rightarrow> [] | c # cs \<Rightarrow> upper_char c # map lower_char cs)"

fun index_of :: "'a \<Rightarrow> 'a list \<Rightarrow> nat option" where
  "index_of x [] = None"
| "index_of x (y # ys) = (if x = y then Some 0 else map_option Suc (index_of x ys))"

definition parse_fts_date :: "ustr \<Rightarrow> datetime option" where
  "parse_fts_date s =
     (case (case match_fts_date s of
              Some m \<Rightarrow> Some m
            | None \<Rightarrow> map_option (\<lambda>(d, mo, y, h, mi). (d, mo, y, h, mi, 0)) (match_seadog_date s)) of
        None \<Rightarrow> None
      | Some (day, name, year, hour, minute, second) \<Rightarrow>
          (case index_of (capitalize name) MONTHS of
             None \<Rightarrow> None
           | Some i \<Rightarrow>
               make_datetime (if 80 \<le> year then 1900 + int year else 2000 + int year) (int i + 1)
                 (int day) (int hour) (int minute) (int second)))"

definition dd :: "int \<Rightarrow> ustr" where
  "dd n = (if n < 10 then 48 # num n else num n)"

definition format_fts_date :: "datetime \<Rightarrow> ustr" where
  "format_fts_date m =
     dd (dt_day m) @ [32] @ MONTHS ! nat (dt_month m - 1) @ [32] @ dd (dt_year m mod 100) @ [32, 32]
     @ dd (dt_hour m) @ [58] @ dd (dt_minute m) @ [58] @ dd (dt_second m)"

text \<open>A zone in minutes: the code's \<open>timedelta\<close> holds whole minutes when it comes from \<open>parse_tzutc\<close>.\<close>

definition parse_tzutc :: "unitext \<Rightarrow> ustr \<Rightarrow> int option" where
  "parse_tzutc T s =
     (let s = py_strip (ut_space T) s;
          neg = (s \<noteq> [] \<and> hd s = 45);
          s = (if s \<noteq> [] \<and> (hd s = 43 \<or> hd s = 45) then tl s else s)
      in if length s = 4 \<and> list_all (\<lambda>c. ut_decimal T c \<noteq> None) s then
           let h = undec_in T (take 2 s); m = undec_in T (drop 2 s)
           in if 14 < h \<or> 59 < m then None
              else Some (if neg then - int (60 * h + m) else int (60 * h + m))
         else None)"

definition format_tzutc :: "int \<Rightarrow> ustr" where
  "format_tzutc minutes =
     (if minutes < 0 then [45] else []) @ dd (abs minutes div 60) @ dd (abs minutes mod 60)"

section \<open>Lists round trip\<close>

lemma dec_absent: "\<not> is_digit c \<Longrightarrow> c \<notin> set (dec n)"
  using dec_digits by blast

lemma dec_clean [simp]:
  "32 \<notin> set (dec n)" "46 \<notin> set (dec n)" "47 \<notin> set (dec n)" "58 \<notin> set (dec n)" "64 \<notin> set (dec n)"
  by (rule dec_absent, simp add: is_digit_def)+

lemma before_absent: "c \<notin> set s \<Longrightarrow> before c s = s"
  unfolding before_def by (auto simp: takeWhile_eq_all_conv)

lemma before_token: "before 47 (dec n @ 47 # s) = dec n" "after 47 (dec n @ 47 # s) = s"
proof -
  have "\<forall>x\<in>set (dec n). x \<noteq> 47" using dec_clean(3) by metis
  then show "before 47 (dec n @ 47 # s) = dec n" "after 47 (dec n @ 47 # s) = s"
    by (simp_all add: before_def after_def takeWhile_append2 dropWhile_append2)
qed

lemma two_d_clean: "58 \<notin> set s \<Longrightarrow> 46 \<notin> set s \<Longrightarrow> 64 \<notin> set s \<Longrightarrow> two_d s = s"
  by (simp add: two_d_def before_absent)

lemma two_d_tokens: "two_d (dec n) = dec n" "two_d (dec n @ 47 # dec m) = dec n @ 47 # dec m"
  by (rule two_d_clean; simp)+

lemma net_nodes_append:
  "net_nodes T net (xs @ ys) =
    net_nodes T net xs \<bind> (\<lambda>(es, net). map_option (\<lambda>(fs, net). (es @ fs, net)) (net_nodes T net ys))"
proof (induction T net xs rule: net_nodes.induct)
  case (1 T net)
  then show ?case by (cases "net_nodes T net ys") auto
next
  case (2 T net tok toks)
  then show ?case
    by (cases "net_nodes T net toks"; cases net)
      (auto simp: Let_def bind_eq_Some_conv option.map_comp comp_def case_prod_beta split: bind_splits)
qed

text \<open>What the loop has written so far: lines of tokens that read back as the entries taken, the last of
  them ending in the net the loop holds, and every line short enough.\<close>

definition reads :: "unitext \<Rightarrow> ustr list \<Rightarrow> (nat \<times> nat) list \<Rightarrow> nat option \<Rightarrow> bool" where
  "reads T ws es net \<longleftrightarrow> net_nodes T None ws = Some (es, net) \<and>
     (\<forall>w\<in>set ws. w \<noteq> [] \<and> (\<forall>c\<in>set w. \<not> ut_space T c))"

definition lines_ok ::
  "unitext \<Rightarrow> ustr \<Rightarrow> nat \<Rightarrow> (nat \<times> nat) list \<Rightarrow> ustr list \<times> ustr \<times> nat option \<Rightarrow> bool" where
  "lines_ok T prefix width done st \<longleftrightarrow>
     (case st of (lines, line, net) \<Rightarrow>
      \<exists>wss ess ws es. lines = map (\<lambda>ws. prefix @ join_with [32] ws) wss \<and> line = join_with [32] ws \<and>
        list_all2 (\<lambda>ws es. \<exists>net. reads T ws es net) wss ess \<and> reads T ws es (if ws = [] then None else net) \<and>
        done = concat ess @ es \<and>
        (\<forall>l\<in>set lines. length l \<le> width) \<and> (ws \<noteq> [] \<longrightarrow> length prefix + length line \<le> width))"

lemma join_with_Nil: "\<forall>w\<in>set ws. w \<noteq> [] \<Longrightarrow> join_with sep ws = [] \<longleftrightarrow> ws = []"
  by (cases "(sep, ws)" rule: join_with.cases) auto

lemma digits_not_space: "unicode_laws T \<Longrightarrow> c \<in> set (dec n) \<Longrightarrow> \<not> ut_space T c"
  by (rule dec_not_space)

lemma slash_not_space: "unicode_laws T \<Longrightarrow> \<not> ut_space T 47"
  by (simp add: unicode_laws_def ascii_space_def)

lemma reads_full:
  assumes "unicode_laws T" and "reads T ws es net0" and "n \<le> 65535" and "m \<le> 65535"
  shows "reads T (ws @ [full_token (n, m)]) (es @ [(n, m)]) (Some n)"
  using assms
  by (auto simp: reads_def net_nodes_append full_token_def two_d_tokens before_token py_int_dec16
      digits_not_space slash_not_space)

lemma reads_bare:
  assumes "unicode_laws T" and "reads T ws es (Some n)" and "n \<le> 65535" and "m \<le> 65535"
  shows "reads T (ws @ [dec m]) (es @ [(n, m)]) (Some n)"
  using assms by (auto simp: reads_def net_nodes_append two_d_tokens py_int_dec16 digits_not_space)

lemma reads_Nil: "reads T [] [] None"
  by (simp add: reads_def)

lemma length_full_token: "n \<le> 65535 \<Longrightarrow> m \<le> 65535 \<Longrightarrow> length (full_token (n, m)) \<le> 11"
  using length_dec[of n 5] length_dec[of m 5] by (simp add: full_token_def)

lemma add_token_ok:
  assumes laws: "unicode_laws T" and ok: "lines_ok T prefix width taken (lines, line, net)"
    and small: "n \<le> 65535" "m \<le> 65535" and room: "length prefix + 11 \<le> width"
  shows "lines_ok T prefix width (taken @ [(n, m)]) (add_token prefix width (lines, line, net) (n, m))"
proof -
  obtain wss ess ws es where inv: "lines = map (\<lambda>ws. prefix @ join_with [32] ws) wss" "line = join_with [32] ws"
      "list_all2 (\<lambda>ws es. \<exists>net. reads T ws es net) wss ess" "reads T ws es (if ws = [] then None else net)"
      "taken = concat ess @ es" "\<forall>l\<in>set lines. length l \<le> width"
      "ws \<noteq> [] \<longrightarrow> length prefix + length line \<le> width"
    using ok unfolding lines_ok_def prod.case by (elim exE conjE) (rule that; assumption)
  have ne: "line = [] \<longleftrightarrow> ws = []"
    using inv(2,4) join_with_Nil[of ws "[32]"] by (auto simp: reads_def)
  define bare where "bare = (if Some n = net \<and> line \<noteq> [] then dec m else full_token (n, m))"
  have read: "reads T (ws @ [bare]) (es @ [(n, m)]) (Some n)"
    using inv(4) reads_full[OF laws _ small] reads_bare[OF laws _ small] ne
    by (auto simp: bare_def split: if_splits)
  show ?thesis
  proof (cases "line \<noteq> [] \<and> width < length prefix + length line + 1 + length bare")
    case True
    then have "add_token prefix width (lines, line, net) (n, m) =
        (lines @ [prefix @ line], full_token (n, m), Some n)"
      unfolding add_token_def prod.case fst_conv snd_conv bare_def[symmetric] Let_def by simp
    moreover have "lines_ok T prefix width (taken @ [(n, m)]) (lines @ [prefix @ line], full_token (n, m), Some n)"
      unfolding lines_ok_def prod.case
      using inv True ne length_full_token[OF small] room reads_full[OF laws reads_Nil small]
      by (intro exI[of _ "wss @ [ws]"] exI[of _ "ess @ [es]"] exI[of _ "[full_token (n, m)]"]
          exI[of _ "[(n, m)]"]) (auto intro: list_all2_appendI)
    ultimately show ?thesis by simp
  next
    case False
    then have "add_token prefix width (lines, line, net) (n, m) = (lines, join_with [32] (ws @ [bare]), Some n)"
      using ne inv(2) join_with_snoc[of ws "[32]" bare]
      unfolding add_token_def prod.case fst_conv snd_conv bare_def[symmetric] Let_def by auto
    moreover have "length prefix + length (join_with [32] (ws @ [bare])) \<le> width"
      using False ne inv(2) join_with_snoc[of ws "[32]" bare] length_full_token[OF small] room
      by (cases "ws = []") (auto simp: bare_def)
    ultimately show ?thesis
      unfolding lines_ok_def prod.case
      using inv read by (auto intro!: exI[of _ wss] exI[of _ ess] exI[of _ "ws @ [bare]"] exI[of _ "es @ [(n, m)]"])
  qed
qed

lemma add_tokens_ok:
  assumes "unicode_laws T" and "length prefix + 11 \<le> width" and "\<forall>(n, m)\<in>set es. n \<le> 65535 \<and> m \<le> 65535"
    and "lines_ok T prefix width taken st"
  shows "lines_ok T prefix width (taken @ es) (foldl (add_token prefix width) st es)"
  using assms(3,4)
proof (induction es arbitrary: taken st)
  case (Cons e es)
  obtain lines line net where st: "st = (lines, line, net)" by (cases st)
  obtain n m where e: "e = (n, m)" by (cases e)
  have "lines_ok T prefix width (taken @ [e]) (add_token prefix width st e)"
    using add_token_ok[OF assms(1) _ _ _ assms(2)] Cons.prems st e by auto
  then show ?case using Cons.IH[of "taken @ [e]"] Cons.prems by simp
qed simp

section \<open>Properties\<close>

text \<open>
  A SEEN-BY or PATH list reads back as written: the lines keep to the width, and reading the text of
  each behind its prefix gives, in order, exactly the entries, the net being written again on every line.
\<close>

theorem net_node_lines_roundtrip:
  assumes "unicode_laws T" and "\<forall>(n, m)\<in>set entries. n \<le> 65535 \<and> m \<le> 65535"
    and "length prefix + 11 \<le> width"
  shows "\<exists>ess. map (\<lambda>l. parse_net_nodes T (drop (length prefix) l)) (format_net_node_lines prefix entries width)
      = map Some ess \<and> concat ess = entries \<and>
    list_all (\<lambda>l. length l \<le> width \<and> take (length prefix) l = prefix) (format_net_node_lines prefix entries width)"
proof -
  obtain lines line net where st: "foldl (add_token prefix width) ([], [], None) entries = (lines, line, net)"
    by (cases "foldl (add_token prefix width) ([], [], None) entries")
  have "lines_ok T prefix width [] ([], [], None)"
    unfolding lines_ok_def prod.case
    by (intro exI[of _ "[]"]) (simp add: reads_Nil)
  from add_tokens_ok[OF assms(1,3,2) this] st
  have "lines_ok T prefix width entries (lines, line, net)" by simp
  then obtain wss ess ws es where inv: "lines = map (\<lambda>ws. prefix @ join_with [32] ws) wss" "line = join_with [32] ws"
      "list_all2 (\<lambda>ws es. \<exists>net. reads T ws es net) wss ess" "reads T ws es (if ws = [] then None else net)"
      "entries = concat ess @ es" "\<forall>l\<in>set lines. length l \<le> width"
      "ws \<noteq> [] \<longrightarrow> length prefix + length line \<le> width"
    unfolding lines_ok_def prod.case by (elim exE conjE) (rule that; assumption)
  have read: "parse_net_nodes T (join_with [32] ws) = Some es" if "reads T ws es net" for ws es net
  proof -
    have "ut_space T 32" using assms(1) by (simp add: unicode_laws_def ascii_space_def)
    then have "py_words (ut_space T) (join_with [32] ws) = ws"
      by (rule py_words_join) (use that in \<open>simp add: reads_def\<close>)
    then show ?thesis using that by (simp add: parse_net_nodes_def reads_def)
  qed
  have old: "map (\<lambda>l. parse_net_nodes T (drop (length prefix) l)) lines = map Some ess"
    using inv(3) read unfolding inv(1) by (induction rule: list_all2_induct) auto
  have out: "format_net_node_lines prefix entries width = (if line \<noteq> [] then lines @ [prefix @ line] else lines)"
    by (simp add: format_net_node_lines_def st)
  show ?thesis
  proof (cases "line = []")
    case True
    then have "ws = []" using inv(2,4) join_with_Nil[of ws "[32]"] by (auto simp: reads_def)
    then have "es = []" using inv(4) by (simp add: reads_def)
    then show ?thesis
      using True old inv(1,5,6) unfolding out by (auto simp: list_all_iff intro!: exI[of _ ess])
  next
    case False
    then have "ws \<noteq> []" using inv(2) by auto
    then show ?thesis
      using False old inv(1,2,5,6,7) read[OF inv(4)] unfolding out
      by (auto simp: list_all_iff intro!: exI[of _ "ess @ [es]"])
  qed
qed

theorem net_node_lines_roundtrip_witness:
  "format_net_node_lines (u ''SEEN-BY: '') [(2, 5020), (2, 1), (280, 7)] 24
     = [u ''SEEN-BY: 2/5020 1 280/7''] \<and>
   (\<exists>ess. map (\<lambda>l. parse_net_nodes small_tables (drop 9 l))
       (format_net_node_lines (u ''SEEN-BY: '') [(2, 5020), (2, 1), (280, 7)] 24) = map Some ess \<and>
     concat ess = [(2, 5020), (2, 1), (280, 7)])"
proof
  show "format_net_node_lines (u ''SEEN-BY: '') [(2, 5020), (2, 1), (280, 7)] 24 = [u ''SEEN-BY: 2/5020 1 280/7'']"
    by (simp add: format_net_node_lines_def add_token_def full_token_def dec.simps)
  show "\<exists>ess. map (\<lambda>l. parse_net_nodes small_tables (drop 9 l))
       (format_net_node_lines (u ''SEEN-BY: '') [(2, 5020), (2, 1), (280, 7)] 24) = map Some ess \<and>
     concat ess = [(2, 5020), (2, 1), (280, 7)]"
  proof -
    have len: "length (u ''SEEN-BY: '') = 9" by simp
    have "\<forall>(n, m)\<in>set [(2, 5020), (2, 1), (280, 7)]. n \<le> (65535 :: nat) \<and> m \<le> (65535 :: nat)" by simp
    from net_node_lines_roundtrip[OF small_tables_laws this, of "u ''SEEN-BY: ''" 24]
    show ?thesis unfolding len by auto
  qed
qed

end
