(* ===== verification/Qwk_Format.thy ===== *)
theory Qwk_Format
  imports Ftn_Control
begin

text \<open>
  The QWK record layer, \<^verbatim>\<open>src/netbbs/qwk/format.py\<close>: 128-byte blocks, the message header, message text
  in CP437 and QWKE's long-field lines. Reply packets and hub packets are untrusted input. The Unicode
  tables are a parameter; \<open>casefold\<close> and \<open>upper\<close> join them, character by character as Unicode defines them.
\<close>

record qwktext = unitext +
  ut_casefold :: "nat \<Rightarrow> ustr"
  ut_upper_char :: "nat \<Rightarrow> ustr"

definition BLOCK :: nat where "BLOCK = 128"
definition QWK_FIELD :: nat where "QWK_FIELD = 25"
definition LINE_END :: "8 word" where "LINE_END = 0xE3"
definition ACTIVE :: "8 word" where "ACTIVE = 0xE1"
definition KILLED :: "8 word" where "KILLED = 0xE2"
definition PRIVATE_FLAGS :: "nat list" where "PRIVATE_FLAGS = u ''+*~`%^!#''"

datatype qwk_error = Qwk_Format_Error | Unicode_Encode_Error | Value_Error

section \<open>Text\<close>

text \<open>The upper half of Python's CP437 codec.\<close>

definition CP437_UPPER :: "nat list" where
  "CP437_UPPER = [199, 252, 233, 226, 228, 224, 229, 231, 234, 235, 232, 239, 238, 236, 196, 197, 201, 230, 198,
     244, 246, 242, 251, 249, 255, 214, 220, 162, 163, 165, 8359, 402, 225, 237, 243, 250, 241, 209, 170, 186,
     191, 8976, 172, 189, 188, 161, 171, 187, 9617, 9618, 9619, 9474, 9508, 9569, 9570, 9558, 9557, 9571, 9553,
     9559, 9565, 9564, 9563, 9488, 9492, 9524, 9516, 9500, 9472, 9532, 9566, 9567, 9562, 9556, 9577, 9574, 9568,
     9552, 9580, 9575, 9576, 9572, 9573, 9561, 9560, 9554, 9555, 9579, 9578, 9496, 9484, 9608, 9604, 9612, 9616,
     9600, 945, 223, 915, 960, 931, 963, 181, 964, 934, 920, 937, 948, 8734, 966, 949, 8745, 8801, 177, 8805,
     8804, 8992, 8993, 247, 8776, 176, 8729, 183, 8730, 8319, 178, 9632, 160]"

definition cp437_char :: "8 word \<Rightarrow> nat" where
  "cp437_char b = (if unat b < 128 then unat b else CP437_UPPER ! (unat b - 128))"

definition cp437_byte :: "nat \<Rightarrow> 8 word option" where
  "cp437_byte c =
     (if c < 128 then Some (of_nat c)
      else map_option (\<lambda>i. of_nat (128 + i)) (index_of c CP437_UPPER))"

definition spell_pi :: "ustr \<Rightarrow> ustr" where
  "spell_pi s = concat (map (\<lambda>c. if c = 960 then u ''pi'' else [c]) s)"

definition to_cp437 :: "ustr \<Rightarrow> bytes" where
  "to_cp437 s = map (\<lambda>c. case cp437_byte c of Some b \<Rightarrow> b | None \<Rightarrow> 63) (spell_pi s)"

definition from_cp437 :: "bytes \<Rightarrow> ustr" where
  "from_cp437 d = map cp437_char d"

text \<open>\<open>_CTRL_A.sub("", s)\<close> and \<open>_CONTROL.sub("", s)\<close>.\<close>

fun drop_ctrl_a :: "ustr \<Rightarrow> ustr" where
  "drop_ctrl_a [] = []"
| "drop_ctrl_a [c] = (if c = 1 then [] else [c])"
| "drop_ctrl_a (c # d # s) = (if c = 1 then drop_ctrl_a s else c # drop_ctrl_a (d # s))"

definition qwk_control :: "nat \<Rightarrow> bool" where
  "qwk_control c \<longleftrightarrow> c \<le> 8 \<or> (10 \<le> c \<and> c \<le> 31) \<or> c = 127"

definition qwk_clean_line :: "ustr \<Rightarrow> ustr" where
  "qwk_clean_line s = filter (\<lambda>c. \<not> qwk_control c) (drop_ctrl_a s)"

section \<open>Fields\<close>

definition ljust :: "nat \<Rightarrow> bytes \<Rightarrow> bytes" where
  "ljust width d = d @ replicate (width - length d) 32"

definition qwk_field :: "ustr \<Rightarrow> nat \<Rightarrow> bytes" where
  "qwk_field s width = ljust width (take width (to_cp437 (map (\<lambda>c. if c = 13 \<or> c = 10 then 32 else c) s)))"

definition fits :: "ustr \<Rightarrow> nat \<Rightarrow> bool" where
  "fits s width \<longleftrightarrow> length (to_cp437 s) \<le> width"

definition blank_byte :: "8 word \<Rightarrow> bool" where
  "blank_byte b \<longleftrightarrow> b = 32 \<or> b = 0"

definition rstrip_bytes :: "bytes \<Rightarrow> bytes" where
  "rstrip_bytes d = rev (dropWhile blank_byte (rev d))"

definition read_qwk_field :: "qwktext \<Rightarrow> bytes \<Rightarrow> ustr" where
  "read_qwk_field T d = py_strip (ut_space T) (qwk_clean_line (from_cp437 (rstrip_bytes d)))"

definition read_number :: "bytes \<Rightarrow> nat option" where
  "read_number d =
     (let s = py_strip (\<lambda>c. c = 32 \<or> c = 0) (ascii_decode d)
      in if s = [] \<or> \<not> list_all is_digit s \<or> 9 < length s then None else Some (undec s))"

section \<open>Headers\<close>

record qwk_header =
  qh_status :: nat
  qh_number :: "nat option"
  qh_when :: "datetime option"
  qh_to :: ustr
  qh_sender :: ustr
  qh_subject :: ustr
  qh_reference :: "nat option"
  qh_blocks :: "nat option"
  qh_active :: bool
  qh_conference :: nat
  qh_logical :: nat
  qh_tagline :: bool

definition header_private :: "qwk_header \<Rightarrow> bool" where
  "header_private h \<longleftrightarrow> qh_status h \<in> set PRIVATE_FLAGS"

text \<open>\<open>s.encode("ascii")\<close>, and \<open>struct.pack("<H", n)\<close> for a number that fits.\<close>

definition ascii_bytes :: "ustr \<Rightarrow> bytes" where
  "ascii_bytes s = map of_nat s"

definition pack_word :: "nat \<Rightarrow> bytes" where
  "pack_word n = [of_nat (n mod 256), of_nat (n div 256)]"

definition qwk_date :: "datetime \<Rightarrow> ustr" where
  "qwk_date m = dd (dt_month m) @ [45] @ dd (dt_day m) @ [45] @ dd (dt_year m mod 100)"

definition qwk_time :: "datetime \<Rightarrow> ustr" where
  "qwk_time m = dd (dt_hour m) @ [58] @ dd (dt_minute m)"

record header_fields =
  hf_status :: ustr
  hf_number :: ustr
  hf_when :: datetime
  hf_to :: ustr
  hf_sender :: ustr
  hf_subject :: ustr
  hf_reference :: "nat option"
  hf_blocks :: int
  hf_conference :: int
  hf_logical :: int
  hf_tagline :: bool

definition pack_header :: "header_fields \<Rightarrow> qwk_error + bytes" where
  "pack_header h =
     (if \<not> (0 \<le> hf_conference h \<and> hf_conference h \<le> 0xFFFF) then Inl Qwk_Format_Error
      else if hf_blocks h < 1 \<or> 999999 < hf_blocks h then Inl Qwk_Format_Error
      else if list_ex (\<lambda>c. 128 \<le> c) (hf_status h @ hf_number h) then Inl Unicode_Encode_Error
      else Inr (concat
        [ljust 1 (take 1 (ascii_bytes (hf_status h))),
         ljust 7 (take 7 (ascii_bytes (hf_number h))),
         ascii_bytes (qwk_date (hf_when h)),
         ascii_bytes (qwk_time (hf_when h)),
         qwk_field (hf_to h) QWK_FIELD,
         qwk_field (hf_sender h) QWK_FIELD,
         qwk_field (hf_subject h) QWK_FIELD,
         replicate 12 32,
         ljust 8 (take 8 (ascii_bytes (case hf_reference h of None \<Rightarrow> [] | Some r \<Rightarrow> if r = 0 then [] else dec r))),
         ljust 6 (ascii_bytes (num (hf_blocks h))),
         [ACTIVE],
         pack_word (nat (hf_conference h)),
         pack_word (nat (hf_logical h mod 65536)),
         [if hf_tagline h then 42 else 32]]))"

text \<open>\<open>strptime(s, "%m-%d-%y %H:%M")\<close> of ASCII text: one or two digits per part (two for the year), a
  day may have a blank for its first digit, and the whole text must match. Every part but the last is
  followed by a character that is no digit, so the pattern matches in one way at most.\<close>

definition day_of_month :: "ustr \<Rightarrow> (nat \<times> ustr) option" where
  "day_of_month s =
     (case s of a # b # r \<Rightarrow> if a = 32 \<and> is_digit b then Some (undec [b], r) else one_or_two s | _ \<Rightarrow> one_or_two s)"

definition strptime_qwk :: "ustr \<Rightarrow> datetime option" where
  "strptime_qwk s =
     do {(month, s) \<leftarrow> one_or_two s; s \<leftarrow> lit 45 s; (day, s) \<leftarrow> day_of_month s; s \<leftarrow> lit 45 s;
         (year, s) \<leftarrow> two_digits s; s \<leftarrow> spaces1 s; (hour, s) \<leftarrow> one_or_two s; s \<leftarrow> lit 58 s;
         (minute, s) \<leftarrow> one_or_two s;
         if s \<noteq> [] then None
         else make_datetime (if year \<le> 68 then 2000 + int year else 1900 + int year) (int month) (int day)
           (int hour) (int minute) 0}"

definition unpack_word :: "bytes \<Rightarrow> nat" where
  "unpack_word d = unat (d ! 0) + 256 * unat (d ! 1)"

definition cut_bytes :: "nat \<Rightarrow> nat \<Rightarrow> bytes \<Rightarrow> bytes" where
  "cut_bytes a b d = take (b - a) (drop a d)"

definition unpack_header :: "qwktext \<Rightarrow> bytes \<Rightarrow> qwk_error + qwk_header" where
  "unpack_header T block =
     (if length block \<noteq> BLOCK then Inl Qwk_Format_Error
      else let stamp = cut_bytes 8 16 block @ cut_bytes 16 21 block in
        Inr \<lparr>qh_status = (if 32 \<le> block ! 0 \<and> block ! 0 < 127 then unat (block ! 0) else 32),
          qh_number = read_number (cut_bytes 1 8 block),
          qh_when = (if list_all (\<lambda>b. b < 128) stamp
            then strptime_qwk (ascii_decode (cut_bytes 8 16 block) @ [32] @ ascii_decode (cut_bytes 16 21 block)) else None),
          qh_to = read_qwk_field T (cut_bytes 21 46 block),
          qh_sender = read_qwk_field T (cut_bytes 46 71 block),
          qh_subject = read_qwk_field T (cut_bytes 71 96 block),
          qh_reference = read_number (cut_bytes 108 116 block),
          qh_blocks = read_number (cut_bytes 116 122 block),
          qh_active = (block ! 122 \<noteq> KILLED),
          qh_conference = unpack_word (cut_bytes 123 125 block),
          qh_logical = unpack_word (cut_bytes 125 127 block),
          qh_tagline = (cut_bytes 127 128 block = [42])\<rparr>)"

section \<open>Message text\<close>

definition qwke_lines :: "ustr \<Rightarrow> ustr \<Rightarrow> ustr \<Rightarrow> ustr list" where
  "qwke_lines to sender subject =
     (let lines = map (\<lambda>(name, val). name @ u '': '' @ val)
        (filter (\<lambda>(name, val). \<not> fits val QWK_FIELD)
          (zip [u ''To'', u ''From'', u ''Subject''] [to, sender, subject]))
      in if lines \<noteq> [] then lines @ [[]] else [])"

definition encode_text :: "ustr list \<Rightarrow> bytes" where
  "encode_text lines =
     (let d = concat (map (\<lambda>l. to_cp437 l @ [LINE_END]) lines);
          padding = (if d = [] then BLOCK else nat (- int (length d) mod int BLOCK))
      in d @ replicate padding 32)"

fun newline_breaks :: "ustr \<Rightarrow> ustr" where
  "newline_breaks [] = []"
| "newline_breaks [c] = (if c = 13 then [10] else [c])"
| "newline_breaks (c # d # s) =
     (if c = 13 then (if d = 10 then 10 # newline_breaks s else 10 # newline_breaks (d # s))
      else c # newline_breaks (d # s))"

definition body_lines :: "qwktext \<Rightarrow> ustr \<Rightarrow> ustr list" where
  "body_lines T b =
     rev (dropWhile (\<lambda>l. py_strip (ut_space T) l = []) (rev (split_on 10 (newline_breaks b))))"

definition decode_line :: "qwktext \<Rightarrow> bytes \<Rightarrow> ustr" where
  "decode_line T raw = py_rstrip (ut_space T) (qwk_clean_line (from_cp437 (filter (\<lambda>b. b \<noteq> 13 \<and> b \<noteq> 10) raw)))"

fun byte_breaks :: "bytes \<Rightarrow> bytes" where
  "byte_breaks [] = []"
| "byte_breaks [c] = (if c = 13 then [10] else [c])"
| "byte_breaks (c # d # s) =
     (if c = 13 then (if d = 10 then 10 # byte_breaks s else 10 # byte_breaks (d # s))
      else c # byte_breaks (d # s))"

text \<open>\<open>decode_text\<close> of CP437 text.\<close>

definition decode_text :: "qwktext \<Rightarrow> bytes \<Rightarrow> ustr list" where
  "decode_text T data =
     (let d = rstrip_bytes data in
      if d = [] then []
      else map (decode_line T)
        (if LINE_END \<in> set d
         then let raw = split_on LINE_END d
              in if dropWhile blank_byte (rstrip_bytes (last raw)) = [] then butlast raw else raw
         else split_on 10 (byte_breaks d)))"

text \<open>\<open>decode_text(..., utf8=True)\<close>; the decoder of UTF-8 is a parameter.\<close>

definition decode_text_utf8 :: "qwktext \<Rightarrow> (bytes \<Rightarrow> ustr) \<Rightarrow> bytes \<Rightarrow> ustr list" where
  "decode_text_utf8 T utf8 data =
     (let d = rstrip_bytes data in
      if d = [] then []
      else map (\<lambda>l. py_rstrip (ut_space T) (qwk_clean_line l)) (split_on 10 (newline_breaks (utf8 d))))"

section \<open>QWKE lines\<close>

text \<open>\<open>_QWKE_LINE\<close>: without regard to case, which for \<open>re.IGNORECASE\<close> lets the long s (U+017F) stand for
  the s of subject. A dot matches no newline, and the end may stand before one that ends the line.\<close>

definition ignore_case :: "nat \<Rightarrow> nat" where
  "ignore_case c = (if 65 \<le> c \<and> c \<le> 90 then c + 32 else if c = 383 then 115 else c)"

definition ascii_lower_text :: "ustr \<Rightarrow> ustr" where
  "ascii_lower_text s = map (\<lambda>c. if 65 \<le> c \<and> c \<le> 90 then c + 32 else c) s"

definition qwke_match :: "ustr \<Rightarrow> (ustr \<times> ustr) option" where
  "qwke_match line =
     (let name = takeWhile (\<lambda>c. c \<noteq> 58) line; rest = dropWhile (\<lambda>c. c \<noteq> 58) line in
      if rest = [] \<or> map ignore_case name \<notin> {u ''to'', u ''from'', u ''subject''} then None
      else let val = (if tl rest \<noteq> [] \<and> hd (tl rest) \<in> {32, 9} then tl (tl rest) else tl rest);
               val = (if val \<noteq> [] \<and> last val = 10 then butlast val else val)
           in if 10 \<in> set val then None else Some (name, val))"

definition casefold :: "qwktext \<Rightarrow> ustr \<Rightarrow> ustr" where
  "casefold T s = concat (map (ut_casefold T) s)"

type_synonym field_map = "(ustr \<times> ustr) list"

definition get_field :: "field_map \<Rightarrow> ustr \<Rightarrow> ustr \<Rightarrow> ustr" where
  "get_field m k d = (case map_of m k of None \<Rightarrow> d | Some v \<Rightarrow> v)"

fun take_qwke :: "qwktext \<Rightarrow> field_map \<Rightarrow> nat \<Rightarrow> field_map \<Rightarrow> ustr list \<Rightarrow> field_map \<times> ustr list" where
  "take_qwke T header 0 vals lines = (vals, lines)"
| "take_qwke T header n vals [] = (vals, [])"
| "take_qwke T header (Suc n) vals (line # lines) =
     (case qwke_match line of
        None \<Rightarrow> (vals, line # lines)
      | Some (name, val) \<Rightarrow>
          let name = ascii_lower_text name; val = py_strip (ut_space T) val; expected = get_field header name [] in
          if map_of vals name \<noteq> None \<or> val = [] \<or> \<not> starts_with (casefold T val) (casefold T expected)
          then (vals, line # lines)
          else take_qwke T header n (vals @ [(name, val)]) lines)"

definition split_qwke :: "qwktext \<Rightarrow> field_map \<Rightarrow> ustr list \<Rightarrow> field_map \<times> ustr list" where
  "split_qwke T header lines =
     (case take_qwke T header 3 [] lines of (vals, rest) \<Rightarrow>
        (vals, if vals \<noteq> [] \<and> rest \<noteq> [] \<and> py_strip (ut_space T) (hd rest) = [] then tl rest else rest))"

end
