(* ===== verification/Qwk_Packet.thy ===== *)
theory Qwk_Packet
  imports Qwk_Format Py_Number
begin

text \<open>
  QWK packets and reply packets, \<^verbatim>\<open>src/netbbs/qwk/packet.py\<close> and \<^verbatim>\<open>qwk/rep.py\<close>, and HEADERS.DAT of
  \<^verbatim>\<open>qwk/format.py\<close>, from the members of the archive on: the ZIP itself is Python's. The decoders of UTF-8
  are parameters.
\<close>

section \<open>HEADERS.DAT\<close>

definition MAX_HEADER_VALUE :: nat where "MAX_HEADER_VALUE = 1024"
definition MAX_HEADER_SECTIONS :: nat where "MAX_HEADER_SECTIONS = 65536"
definition MAX_HEADER_FIELDS :: nat where "MAX_HEADER_FIELDS = 64"

definition hex_value :: "nat \<Rightarrow> nat option" where
  "hex_value c =
     (if is_digit c then Some (c - 48)
      else if 97 \<le> c \<and> c \<le> 102 then Some (c - 87)
      else if 65 \<le> c \<and> c \<le> 70 then Some (c - 55) else None)"

text \<open>\<open>_SECTION\<close> on a stripped line.\<close>

definition match_section :: "ustr \<Rightarrow> nat option" where
  "match_section line =
     (if line = [] \<or> hd line \<noteq> 91 \<or> last line \<noteq> 93 \<or> length line < 3 then None
      else let digits = butlast (tl line) in
        if 9 < length digits \<or> list_ex (\<lambda>c. hex_value c = None) digits then None
        else Some (foldl (\<lambda>a c. a * 16 + the (hex_value c)) 0 digits))"

definition key_start :: "nat \<Rightarrow> bool" where
  "key_start c \<longleftrightarrow> is_digit c \<or> ascii_letter c \<or> c = 64"

definition key_char :: "nat \<Rightarrow> bool" where
  "key_char c \<longleftrightarrow> key_start c \<or> c \<in> {95, 46, 45}"

text \<open>\<open>_HEADER_LINE\<close> on a stripped line: a key of at most 64 characters, a colon or equals sign, and a
  value after at most one blank.\<close>

definition match_header_line :: "qwktext \<Rightarrow> ustr \<Rightarrow> (ustr \<times> ustr) option" where
  "match_header_line T line =
     (let key = takeWhile key_char line; rest = dropWhile (ut_space T) (dropWhile key_char line) in
      if key = [] \<or> \<not> key_start (hd key) \<or> 64 < length key \<or> rest = [] \<or> hd rest \<notin> {58, 61} then None
      else let val = tl rest in
        Some (key, if val \<noteq> [] \<and> ut_space T (hd val) then tl val else val))"

definition put_field :: "ustr \<Rightarrow> ustr \<Rightarrow> field_map \<Rightarrow> field_map" where
  "put_field k v m = (if map_of m k = None then m @ [(k, v)] else map (\<lambda>(k', v'). (k', if k' = k then v else v')) m)"

type_synonym sections = "(nat \<times> field_map) list"

definition set_section :: "nat \<Rightarrow> field_map \<Rightarrow> sections \<Rightarrow> sections" where
  "set_section n m out = map (\<lambda>(n', m'). (n', if n' = n then m else m')) out"

fun read_headers :: "qwktext \<Rightarrow> ustr list \<Rightarrow> sections \<Rightarrow> nat option \<Rightarrow> sections" where
  "read_headers T [] out current = out"
| "read_headers T (raw # lines) out current =
     (let line = py_strip (ut_space T) raw in
      if line = [] \<or> hd line = 59 then read_headers T lines out current
      else case match_section line of
          Some n \<Rightarrow>
            if MAX_HEADER_SECTIONS \<le> length out then out
            else read_headers T lines (if map_of out n = None then out @ [(n, [])] else out) (Some n)
        | None \<Rightarrow>
            (case (current, match_header_line T line) of
               (Some n, Some (key, val)) \<Rightarrow>
                 let m = (case map_of out n of None \<Rightarrow> [] | Some m \<Rightarrow> m) in
                 if MAX_HEADER_FIELDS \<le> length m then read_headers T lines out current
                 else read_headers T lines
                   (set_section n (put_field (ascii_lower_text key)
                     (py_strip (ut_space T) (take MAX_HEADER_VALUE (qwk_clean_line val))) m) out) current
             | _ \<Rightarrow> read_headers T lines out current))"

definition parse_headers_dat :: "qwktext \<Rightarrow> (bytes \<Rightarrow> ustr option) \<Rightarrow> bytes \<Rightarrow> sections" where
  "parse_headers_dat T utf8_strict d =
     read_headers T (split_on 10 (newline_breaks (case utf8_strict d of Some s \<Rightarrow> s | None \<Rightarrow> from_cp437 d))) [] None"

definition header_flag :: "qwktext \<Rightarrow> field_map \<Rightarrow> ustr \<Rightarrow> bool" where
  "header_flag T m key \<longleftrightarrow>
     ascii_lower_text (py_strip (ut_space T) (get_field m key [])) \<in> {u ''true'', u ''yes'', u ''1'', u ''on''}"

text \<open>\<open>split_kludges\<close>.\<close>

definition kludge_match :: "qwktext \<Rightarrow> ustr \<Rightarrow> (ustr \<times> ustr) option" where
  "kludge_match T line =
     (let name = takeWhile (\<lambda>c. c \<noteq> 58) (tl line); rest = dropWhile (\<lambda>c. c \<noteq> 58) (tl line) in
      if line = [] \<or> hd line \<noteq> 64 \<or> rest = [] \<or>
         map ignore_case name \<notin> {u ''via'', u ''msgid'', u ''reply'', u ''tz'', u ''replyto''} then None
      else let val = (if tl rest \<noteq> [] \<and> ut_space T (hd (tl rest)) then tl (tl rest) else tl rest);
               val = (if val \<noteq> [] \<and> last val = 10 then butlast val else val)
           in if 10 \<in> set val then None else Some (name, val))"

fun take_kludges :: "qwktext \<Rightarrow> nat \<Rightarrow> field_map \<Rightarrow> ustr list \<Rightarrow> field_map \<times> ustr list" where
  "take_kludges T 0 vals lines = (vals, lines)"
| "take_kludges T n vals [] = (vals, [])"
| "take_kludges T (Suc n) vals (line # lines) =
     (case kludge_match T line of
        None \<Rightarrow> (vals, line # lines)
      | Some (name, val) \<Rightarrow>
          let name = ascii_lower_text name; val = take MAX_HEADER_VALUE (py_strip (ut_space T) val)
          in take_kludges T n (if map_of vals name = None then vals @ [(name, val)] else vals) lines)"

definition split_kludges :: "qwktext \<Rightarrow> ustr list \<Rightarrow> field_map \<times> ustr list" where
  "split_kludges T lines =
     (case take_kludges T 8 [] lines of (vals, rest) \<Rightarrow>
        (vals, if vals \<noteq> [] then dropWhile (\<lambda>l. py_strip (ut_space T) l = []) rest else rest))"

section \<open>Walking the messages\<close>

datatype walk_problem = Only_First nat | Damaged nat | Runs_Past nat

record walked =
  wk_header :: qwk_header
  wk_lines :: "ustr list"
  wk_offset :: nat
  wk_text :: bytes

function walk :: "qwktext \<Rightarrow> nat option \<Rightarrow> bytes \<Rightarrow> nat \<Rightarrow> walked list \<Rightarrow>
    qwk_error + walked list \<times> walk_problem list" where
  "walk T limit data offset messages =
     (if length data < offset + BLOCK then Inr (messages, [])
      else if (case limit of None \<Rightarrow> False | Some l \<Rightarrow> l \<le> length messages)
      then Inr (messages, [Only_First (length messages)])
      else
        let block = cut_bytes offset (offset + BLOCK) data; position = length messages + 1 in
        case unpack_header T block of
          Inl e \<Rightarrow> Inl e
        | Inr h \<Rightarrow>
            (case qh_blocks h of
               None \<Rightarrow> Inr (messages, if rstrip_bytes (dropWhile blank_byte block) = [] then [] else [Damaged position])
             | Some n \<Rightarrow>
                 if n = 0 then Inr (messages, if rstrip_bytes (dropWhile blank_byte block) = [] then [] else [Damaged position])
                 else if length data < offset + n * BLOCK then Inr (messages, [Runs_Past position])
                 else
                   let t = cut_bytes (offset + BLOCK) (offset + n * BLOCK) data
                   in walk T limit data (offset + n * BLOCK)
                        (messages @ [\<lparr>wk_header = h, wk_lines = decode_text T t, wk_offset = offset, wk_text = t\<rparr>])))"
  by pat_completeness auto
termination
  by (relation "measure (\<lambda>(T, limit, data, offset, messages). length data + 1 - offset)") (auto simp: BLOCK_def)

declare walk.simps [simp del]

definition parse_messages :: "qwktext \<Rightarrow> nat option \<Rightarrow> bytes \<Rightarrow>
    qwk_error + bytes \<times> walked list \<times> walk_problem list" where
  "parse_messages T limit data =
     (if length data < BLOCK then Inl Qwk_Format_Error
      else case walk T limit data BLOCK [] of
          Inl e \<Rightarrow> Inl e
        | Inr (messages, problems) \<Rightarrow> Inr (take BLOCK data, messages, problems))"

section \<open>Reply packets\<close>

text \<open>\<open>valid_bbs_id\<close>: the pattern's end may stand before a line break that ends the text.\<close>

definition valid_bbs_id :: "ustr \<Rightarrow> bool" where
  "valid_bbs_id s =
     (let t = (if s \<noteq> [] \<and> last s = 10 then butlast s else s)
      in t \<noteq> [] \<and> length t \<le> 8 \<and> list_all (\<lambda>c. is_digit c \<or> (65 \<le> c \<and> c \<le> 90)) t)"

record outgoing_reply =
  or_conference :: int
  or_to :: ustr
  or_sender :: ustr
  or_subject :: ustr
  or_body :: ustr
  or_reference :: "nat option"
  or_private :: bool
  or_when :: "datetime option"
  or_tagline :: bool

definition reply_text :: "qwktext \<Rightarrow> outgoing_reply \<Rightarrow> bytes" where
  "reply_text T r =
     encode_text (qwke_lines (or_to r) (or_sender r) (or_subject r) @ body_lines T (or_body r))"

definition Y2000 :: datetime where
  "Y2000 = \<lparr>dt_year = 2000, dt_month = 1, dt_day = 1, dt_hour = 0, dt_minute = 0, dt_second = 0\<rparr>"

definition reply_header :: "qwktext \<Rightarrow> outgoing_reply \<Rightarrow> header_fields" where
  "reply_header T r =
     \<lparr>hf_status = (if or_private r then u ''+'' else u '' ''), hf_number = num (or_conference r),
      hf_when = (case or_when r of None \<Rightarrow> Y2000 | Some w \<Rightarrow> w),
      hf_to = or_to r, hf_sender = or_sender r, hf_subject = or_subject r, hf_reference = or_reference r,
      hf_blocks = 1 + int (length (reply_text T r) div BLOCK), hf_conference = or_conference r,
      hf_logical = 0, hf_tagline = or_tagline r\<rparr>"

fun build_replies :: "qwktext \<Rightarrow> outgoing_reply list \<Rightarrow> qwk_error + bytes" where
  "build_replies T [] = Inr []"
| "build_replies T (r # rs) =
     (case pack_header (reply_header T r) of
        Inl e \<Rightarrow> Inl e
      | Inr h \<Rightarrow> (case build_replies T rs of Inl e \<Rightarrow> Inl e | Inr rest \<Rightarrow> Inr (h @ reply_text T r @ rest)))"

text \<open>\<open>build_msg\<close> for an ID of letters and digits.\<close>

definition build_msg :: "qwktext \<Rightarrow> ustr \<Rightarrow> outgoing_reply list \<Rightarrow> qwk_error + bytes" where
  "build_msg T bbs_id replies =
     (case build_replies T replies of
        Inl e \<Rightarrow> Inl e
      | Inr b \<Rightarrow> Inr (ljust BLOCK (ascii_bytes (map upper_char bbs_id)) @ b))"

record rep_limits =
  rl_messages :: nat
  rl_body_bytes :: nat

record rep_message =
  rm_index :: nat
  rm_conference :: nat
  rm_to :: ustr
  rm_subject :: ustr
  rm_body :: ustr
  rm_reference :: "nat option"
  rm_private :: bool
  rm_claimed_from :: ustr
  rm_when :: "datetime option"
  rm_headers :: field_map
  rm_status :: nat

datatype rep_problem = Too_Long nat | Walk_Problem walk_problem

record rep_packet =
  rp_messages :: "rep_message list"
  rp_problems :: "rep_problem list"
  rp_dropped :: "nat list"
  rp_added :: "nat list"

datatype rep_error = Rep_Error | Rep_Value_Error

text \<open>\<open>len(s.encode("utf-8"))\<close>.\<close>

definition utf8_length :: "ustr \<Rightarrow> nat" where
  "utf8_length s = sum_list (map (\<lambda>c. if c < 128 then 1 else if c < 2048 then 2 else if c < 65536 then 3 else 4) s)"

definition conference_of :: "qwk_header \<Rightarrow> nat" where
  "conference_of h = (case qh_number h of Some n \<Rightarrow> n | None \<Rightarrow> qh_conference h)"

text \<open>\<open>_todoor\<close>; \<open>None\<close> is the \<open>ValueError\<close> of \<open>int\<close>. The upper case of a CP437 character is an ASCII letter
  only if it is one itself or its small form.\<close>

fun todoor_lines :: "qwktext \<Rightarrow> ustr list \<Rightarrow> nat list \<Rightarrow> nat list \<Rightarrow> (nat list \<times> nat list) option" where
  "todoor_lines T [] dropped added = Some (dropped, added)"
| "todoor_lines T (line # lines) dropped added =
     (let parts = py_words (ut_space T) line; U = unitext.truncate T in
      if length parts \<noteq> 3 \<or> map upper_char (parts ! 0) \<noteq> u ''AREA'' \<or> \<not> py_isdigit U (parts ! 1) \<or> 5 < length (parts ! 1)
      then todoor_lines T lines dropped added
      else case py_int U (parts ! 1) of
          None \<Rightarrow> None
        | Some n \<Rightarrow>
            if 68 \<in> set (parts ! 2) then todoor_lines T lines (dropped @ [n]) added
            else if set (parts ! 2) \<inter> {97, 112, 103} \<noteq> {} then todoor_lines T lines dropped (added @ [n])
            else todoor_lines T lines dropped added)"

definition todoor :: "qwktext \<Rightarrow> ustr \<Rightarrow> (nat list \<times> nat list) option" where
  "todoor T s = todoor_lines T (take 1000 (splitlines s)) [] []"

text \<open>The body of a message as its lines: joined, its last line breaks off.\<close>

definition join_body :: "ustr list \<Rightarrow> ustr" where
  "join_body lines = rev (dropWhile (\<lambda>c. c = 10) (rev (join_with [10] lines)))"

definition header_names :: "qwk_header \<Rightarrow> field_map" where
  "header_names h = [(u ''to'', qh_to h), (u ''from'', qh_sender h), (u ''subject'', qh_subject h)]"

definition rep_message_of :: "qwktext \<Rightarrow> (bytes \<Rightarrow> ustr) \<Rightarrow> rep_limits \<Rightarrow> sections \<Rightarrow> nat \<Rightarrow> walked \<Rightarrow>
    (rep_problem + rep_message) option" where
  "rep_message_of T utf8 limits sections index w =
     (let h = wk_header w in
      if \<not> qh_active h then None
      else
        let m = (case map_of sections (wk_offset w) of None \<Rightarrow> [] | Some m \<Rightarrow> m);
            lines = (if header_flag T m (u ''utf8'') then decode_text_utf8 T utf8 (wk_text w) else wk_lines w);
            (vals, rest) = split_qwke T (header_names h) lines;
            b = join_body rest
        in if rl_body_bytes limits < utf8_length b then Some (Inl (Too_Long index))
           else Some (Inr \<lparr>rm_index = index, rm_conference = conference_of h,
             rm_to = get_field vals (u ''to'') (qh_to h), rm_subject = get_field vals (u ''subject'') (qh_subject h),
             rm_body = b, rm_reference = (if qh_reference h = Some 0 then None else qh_reference h),
             rm_private = header_private h, rm_claimed_from = get_field vals (u ''from'') (qh_sender h),
             rm_when = qh_when h, rm_headers = m, rm_status = qh_status h\<rparr>))"

text \<open>\<open>parse_rep\<close> from the members on: the text file, and \<open>TODOOR.EXT\<close> and \<open>HEADERS.DAT\<close> if present.\<close>

definition parse_rep :: "qwktext \<Rightarrow> (bytes \<Rightarrow> ustr) \<Rightarrow> (bytes \<Rightarrow> ustr option) \<Rightarrow> ustr \<Rightarrow> rep_limits \<Rightarrow>
    bytes \<Rightarrow> bytes option \<Rightarrow> bytes option \<Rightarrow> rep_error + rep_packet" where
  "parse_rep T utf8 utf8_strict bbs_id limits msg todoor_ext headers_dat =
     (let sections = (case headers_dat of None \<Rightarrow> [] | Some d \<Rightarrow> if d = [] then [] else parse_headers_dat T utf8_strict d) in
      if \<not> valid_bbs_id (map upper_char bbs_id) then Inl Rep_Value_Error
      else case parse_messages T (Some (rl_messages limits)) msg of
        Inl _ \<Rightarrow> Inl Rep_Error
      | Inr (first, messages, stopped) \<Rightarrow>
          let claimed = map upper_char (py_strip (\<lambda>c. c = 32 \<or> c = 0) (ascii_decode (take 8 first))) in
          if claimed \<noteq> map upper_char bbs_id then Inl Rep_Error
          else
            let read = map (\<lambda>(i, w). rep_message_of T utf8 limits sections (i + 1) w) (enumerate 0 messages) in
            case (case todoor_ext of None \<Rightarrow> Some ([], [])
                  | Some d \<Rightarrow> if d = [] then Some ([], []) else todoor T (from_cp437 d)) of
              None \<Rightarrow> Inl Rep_Value_Error
            | Some (dropped, added) \<Rightarrow>
                Inr \<lparr>rp_messages = List.map_filter (\<lambda>r. case r of Some (Inr m) \<Rightarrow> Some m | _ \<Rightarrow> None) read,
                  rp_problems = List.map_filter (\<lambda>r. case r of Some (Inl p) \<Rightarrow> Some p | _ \<Rightarrow> None) read @
                    map Walk_Problem stopped,
                  rp_dropped = dropped, rp_added = added\<rparr>)"

section \<open>Packets read back\<close>

record qwk_conference =
  qc_number :: nat
  qc_name :: ustr
  qc_flags :: ustr

fun toreader_flags :: "qwktext \<Rightarrow> ustr list \<Rightarrow> (nat \<times> ustr) list \<Rightarrow> (nat \<times> ustr) list option" where
  "toreader_flags T [] flags = Some flags"
| "toreader_flags T (line # lines) flags =
     (let parts = py_words (ut_space T) line; U = unitext.truncate T in
      if length parts = 3 \<and> map upper_char (parts ! 0) = u ''AREA'' \<and> py_isdigit U (parts ! 1)
      then (case py_int U (parts ! 1) of None \<Rightarrow> None | Some n \<Rightarrow> toreader_flags T lines ((n, parts ! 2) # flags))
      else toreader_flags T lines flags)"

fun control_conferences :: "qwktext \<Rightarrow> (nat \<times> ustr) list \<Rightarrow> nat \<Rightarrow> ustr list \<Rightarrow> qwk_error + qwk_conference list" where
  "control_conferences T flags (Suc n) (number # name # lines) =
     (let U = unitext.truncate T; number_text = py_strip (ut_space T) number in
      if \<not> py_isdigit U number_text then Inl Qwk_Format_Error
      else case py_int U number_text of
          None \<Rightarrow> Inl Value_Error
        | Some k \<Rightarrow>
            (case control_conferences T flags n lines of
               Inl e \<Rightarrow> Inl e
             | Inr cs \<Rightarrow> Inr (\<lparr>qc_number = k, qc_name = py_strip (ut_space T) name,
                 qc_flags = (case map_of flags k of None \<Rightarrow> u ''a'' | Some f \<Rightarrow> f)\<rparr> # cs)))"
| "control_conferences T flags n lines = Inr []"

record control_file =
  cf_bbs_name :: ustr
  cf_bbs_id :: ustr
  cf_user_name :: ustr
  cf_conferences :: "qwk_conference list"

fun drop_cr :: "ustr \<Rightarrow> ustr" where
  "drop_cr (c # d # s) = (if c = 13 \<and> d = 10 then 10 # drop_cr s else c # drop_cr (d # s))"
| "drop_cr s = s"

definition crlf_lines :: "ustr \<Rightarrow> ustr list" where
  "crlf_lines s = split_on 10 (drop_cr s)"

definition read_control :: "qwktext \<Rightarrow> bytes \<Rightarrow> bytes option \<Rightarrow> qwk_error + control_file" where
  "read_control T control toreader =
     (let lines = crlf_lines (from_cp437 control); strip = py_strip (ut_space T) in
      if length lines < 11 then Inl Qwk_Format_Error
      else
        let id_rest = dropWhile (\<lambda>c. c \<noteq> 44) (lines ! 4) in
        case py_int_word (unitext.truncate T) (strip (lines ! 10)) of
          None \<Rightarrow> Inl Qwk_Format_Error
        | Some n \<Rightarrow>
            let count = n + 1 in
            if \<not> (0 \<le> count \<and> count \<le> 65536) \<or> int (length lines) < 11 + 2 * count then Inl Qwk_Format_Error
            else
              (case (case toreader of None \<Rightarrow> Some [] | Some d \<Rightarrow> toreader_flags T (splitlines (from_cp437 d)) []) of
                 None \<Rightarrow> Inl Value_Error
               | Some flags \<Rightarrow>
                   (case control_conferences T flags (nat count) (drop 11 lines) of
                      Inl e \<Rightarrow> Inl e
                    | Inr cs \<Rightarrow> Inr \<lparr>cf_bbs_name = strip (lines ! 0), cf_bbs_id = strip (tl id_rest),
                        cf_user_name = strip (lines ! 6), cf_conferences = cs\<rparr>)))"

record read_message =
  rd_conference :: nat
  rd_number :: "nat option"
  rd_when :: "datetime option"
  rd_to :: ustr
  rd_sender :: ustr
  rd_subject :: ustr
  rd_body :: ustr
  rd_reference :: "nat option"
  rd_private :: bool
  rd_headers :: field_map
  rd_status :: nat
  rd_tagline :: bool

definition prefer_header :: "field_map \<Rightarrow> ustr \<Rightarrow> ustr \<Rightarrow> ustr" where
  "prefer_header m k d = (let v = get_field m k [] in if v \<noteq> [] then v else d)"

definition read_message_of :: "qwktext \<Rightarrow> (bytes \<Rightarrow> ustr) \<Rightarrow> sections \<Rightarrow> walked \<Rightarrow> read_message option" where
  "read_message_of T utf8 sections w =
     (let h = wk_header w in
      if \<not> qh_active h then None
      else
        let m = (case map_of sections (wk_offset w) of None \<Rightarrow> [] | Some m \<Rightarrow> m);
            lines = (if header_flag T m (u ''utf8'') then decode_text_utf8 T utf8 (wk_text w) else wk_lines w);
            (vals, rest) = split_qwke T (header_names h) lines
        in Some \<lparr>rd_conference = qh_conference h, rd_number = qh_number h, rd_when = qh_when h,
             rd_to = prefer_header m (u ''to'') (get_field vals (u ''to'') (qh_to h)),
             rd_sender = prefer_header m (u ''sender'') (get_field vals (u ''from'') (qh_sender h)),
             rd_subject = prefer_header m (u ''subject'') (get_field vals (u ''subject'') (qh_subject h)),
             rd_body = join_with [10] rest, rd_reference = qh_reference h, rd_private = header_private h,
             rd_headers = m, rd_status = qh_status h, rd_tagline = qh_tagline h\<rparr>)"

text \<open>\<open>read_packet\<close> from the members on.\<close>

definition read_packet :: "qwktext \<Rightarrow> (bytes \<Rightarrow> ustr) \<Rightarrow> (bytes \<Rightarrow> ustr option) \<Rightarrow> bytes option \<Rightarrow> bytes option \<Rightarrow>
    bytes option \<Rightarrow> bytes option \<Rightarrow> qwk_error + control_file \<times> read_message list" where
  "read_packet T utf8 utf8_strict control messages_dat toreader headers_dat =
     (case (control, messages_dat) of
        (Some c, Some d) \<Rightarrow>
          (case read_control T c toreader of
             Inl e \<Rightarrow> Inl e
           | Inr cf \<Rightarrow>
               let sections = (case headers_dat of None \<Rightarrow> [] | Some h \<Rightarrow> parse_headers_dat T utf8_strict h) in
               (case parse_messages T None d of
                  Inl e \<Rightarrow> Inl e
                | Inr (_, messages, problems) \<Rightarrow>
                    if problems \<noteq> [] then Inl Qwk_Format_Error
                    else Inr (cf, List.map_filter (read_message_of T utf8 sections) messages)))
      | _ \<Rightarrow> Inl Qwk_Format_Error)"

text \<open>
  \<open>toss_hub_packet\<close> of \<^verbatim>\<open>qwknet/exchange.py\<close> up to the messages: a packet that cannot be read, or is
  not the hub's, is held; an exception the handler does not name leaves the function.
\<close>

datatype hub_result = Held | Tossing "read_message list" | Raises qwk_error

definition toss_hub_packet :: "qwktext \<Rightarrow> (bytes \<Rightarrow> ustr) \<Rightarrow> (bytes \<Rightarrow> ustr option) \<Rightarrow> ustr \<Rightarrow> bytes option \<Rightarrow>
    bytes option \<Rightarrow> bytes option \<Rightarrow> bytes option \<Rightarrow> hub_result" where
  "toss_hub_packet T utf8 utf8_strict hub_id control messages_dat toreader headers_dat =
     (case read_packet T utf8 utf8_strict control messages_dat toreader headers_dat of
        Inl Qwk_Format_Error \<Rightarrow> Held
      | Inl e \<Rightarrow> Raises e
      | Inr (cf, messages) \<Rightarrow>
          if concat (map (ut_upper_char T) (cf_bbs_id cf)) \<noteq> hub_id then Held else Tossing messages)"

end
