(* ===== verification/Qwk_Text.thy ===== *)
theory Qwk_Text
  imports Qwk_Packet
begin

text \<open>
  What the record layer writes reads back: message text through its blocks, header fields, dates and
  numbers.
\<close>

section \<open>CP437\<close>

lemma cp437_upper: "length CP437_UPPER = 128" "distinct CP437_UPPER" "\<forall>c\<in>set CP437_UPPER. 128 \<le> c"
  "CP437_UPPER ! 99 = 960"
  by (simp_all add: CP437_UPPER_def)

lemma index_of_Some: "index_of x xs = Some i \<Longrightarrow> i < length xs \<and> xs ! i = x"
  by (induction x xs arbitrary: i rule: index_of.induct) (auto split: if_splits)

lemma cp437_byte_Some:
  assumes "cp437_byte c = Some b"
  shows "cp437_char b = c"
proof (cases "c < 128")
  case True
  then show ?thesis using assms by (auto simp: cp437_byte_def cp437_char_def unat_of_nat take_bit_nat_eq_self)
next
  case False
  then obtain i where i: "index_of c CP437_UPPER = Some i" "b = of_nat (128 + i)"
    using assms by (auto simp: cp437_byte_def)
  have "i < 128" "CP437_UPPER ! i = c" using index_of_Some[OF i(1)] cp437_upper(1) by auto
  moreover have "unat b = 128 + i"
    unfolding i(2) using \<open>i < 128\<close> by (simp only: unat_of_nat) (simp add: take_bit_nat_eq_self)
  ultimately show ?thesis by (simp add: cp437_char_def)
qed

definition in_cp437 :: "nat \<Rightarrow> bool" where
  "in_cp437 c \<longleftrightarrow> cp437_byte c \<noteq> None \<and> c \<noteq> 960"

lemma to_cp437_Cons: "in_cp437 c \<Longrightarrow> to_cp437 (c # s) = the (cp437_byte c) # to_cp437 s"
  by (auto simp: in_cp437_def to_cp437_def spell_pi_def)

lemma to_cp437_Nil [simp]: "to_cp437 [] = []"
  by (simp add: to_cp437_def spell_pi_def)

lemma to_cp437_map: "\<forall>c\<in>set s. in_cp437 c \<Longrightarrow> to_cp437 s = map (\<lambda>c. the (cp437_byte c)) s"
  by (induction s) (simp_all add: to_cp437_Cons)

lemma from_to_cp437: "\<forall>c\<in>set s. in_cp437 c \<Longrightarrow> from_cp437 (to_cp437 s) = s"
  by (auto simp: to_cp437_map from_cp437_def in_cp437_def cp437_byte_Some intro!: map_idI)

lemma length_to_cp437: "\<forall>c\<in>set s. in_cp437 c \<Longrightarrow> length (to_cp437 s) = length s"
  by (simp add: to_cp437_map)

text \<open>A character of the code page is a blank byte or a line end only as its own character.\<close>

lemma cp437_byte_eq: "in_cp437 c \<Longrightarrow> the (cp437_byte c) = b \<longleftrightarrow> cp437_char b = c"
proof
  assume "in_cp437 c" "the (cp437_byte c) = b"
  then show "cp437_char b = c" using cp437_byte_Some by (auto simp: in_cp437_def)
next
  assume c: "in_cp437 c" and b: "cp437_char b = c"
  have lt: "unat x < 256" for x :: "8 word"
  proof -
    have "unat x < 2 ^ LENGTH(8)" by (rule unsigned_less)
    then show ?thesis by simp
  qed
  have inj: "b = b'" if "cp437_char b = cp437_char b'" for b b' :: "8 word"
  proof -
    have up: "128 \<le> CP437_UPPER ! (unat x - 128)" if "128 \<le> unat x" for x :: "8 word"
    proof -
      have "unat x - 128 < length CP437_UPPER" using lt[of x] that cp437_upper(1) by simp
      then show ?thesis using cp437_upper(3) nth_mem by blast
    qed
    have "unat b = unat b'"
    proof (cases "unat b < 128")
      case True
      then show ?thesis using that up[of b'] by (auto simp: cp437_char_def split: if_splits)
    next
      case False
      then have n: "\<not> unat b' < 128" using that up[of b] by (auto simp: cp437_char_def split: if_splits)
      then have "CP437_UPPER ! (unat b - 128) = CP437_UPPER ! (unat b' - 128)"
        using that False by (simp add: cp437_char_def)
      moreover have "unat b - 128 < length CP437_UPPER" "unat b' - 128 < length CP437_UPPER"
        using lt[of b] lt[of b'] False n cp437_upper(1) by simp_all
      ultimately have "unat b - 128 = unat b' - 128" using cp437_upper(2) nth_eq_iff_index_eq by blast
      then show ?thesis using False n by simp
    qed
    then show ?thesis by (simp add: word_unat_eq_iff)
  qed
  obtain b' where "cp437_byte c = Some b'" using c by (auto simp: in_cp437_def)
  then show "the (cp437_byte c) = b" using cp437_byte_Some[of c b'] inj[of b' b] b by simp
qed

section \<open>Lines of text\<close>

definition plain_char :: "nat \<Rightarrow> bool" where
  "plain_char c \<longleftrightarrow> in_cp437 c \<and> \<not> qwk_control c"

definition cp437_text :: "ustr \<Rightarrow> bool" where
  "cp437_text s \<longleftrightarrow> (\<forall>c\<in>set s. plain_char c)"

definition plain_line :: "qwktext \<Rightarrow> ustr \<Rightarrow> bool" where
  "plain_line T l \<longleftrightarrow> (\<forall>c\<in>set l. plain_char c) \<and> (l = [] \<or> \<not> ut_space T (last l))"

lemma drop_ctrl_a_id: "1 \<notin> set s \<Longrightarrow> drop_ctrl_a s = s"
  by (induction s rule: drop_ctrl_a.induct) auto

lemma qwk_clean_line_id: "\<forall>c\<in>set s. plain_char c \<Longrightarrow> qwk_clean_line s = s"
  by (subgoal_tac "1 \<notin> set s") (auto simp: qwk_clean_line_def drop_ctrl_a_id plain_char_def qwk_control_def intro!: filter_True)

lemma plain_in_cp437: "\<forall>c\<in>set s. plain_char c \<Longrightarrow> \<forall>c\<in>set s. in_cp437 c"
  by (simp add: plain_char_def)

lemma plain_bytes:
  assumes "\<forall>c\<in>set s. plain_char c" "b \<in> set (to_cp437 s)"
  shows "b \<noteq> LINE_END" "b \<noteq> 13" "b \<noteq> 10"
proof -
  obtain c where c: "c \<in> set s" "the (cp437_byte c) = b"
    using assms to_cp437_map[OF plain_in_cp437[OF assms(1)]] by auto
  then have k: "cp437_char b = c" using cp437_byte_eq assms(1) by (auto simp: plain_char_def)
  have "cp437_char LINE_END = 960" by (simp add: cp437_char_def LINE_END_def cp437_upper(4))
  moreover have "c \<noteq> 960" "\<not> qwk_control c" using assms(1) c(1) by (auto simp: plain_char_def in_cp437_def)
  ultimately show "b \<noteq> LINE_END" "b \<noteq> 13" "b \<noteq> 10" using k by (auto simp: cp437_char_def qwk_control_def)
qed

lemma decode_line_plain: "cp437_text l \<Longrightarrow> decode_line T (to_cp437 l) = py_rstrip (ut_space T) l"
  using plain_bytes[of l] from_to_cp437[of l] qwk_clean_line_id[of l] plain_in_cp437[of l]
  by (auto simp: decode_line_def cp437_text_def filter_id_conv cong: filter_cong)

lemma rstrip_plain_line: "plain_line T l \<Longrightarrow> cp437_text l \<and> py_rstrip (ut_space T) l = l"
  by (auto simp: plain_line_def cp437_text_def py_rstrip_def dropWhile_id hd_rev)

lemma rstrip_bytes_end: "\<not> blank_byte b \<Longrightarrow> rstrip_bytes (d @ [b] @ replicate n 32) = d @ [b]"
  by (simp add: rstrip_bytes_def dropWhile_append3 blank_byte_def)

lemma rstrip_bytes_Nil: "rstrip_bytes (replicate n 32) = []"
  by (simp add: rstrip_bytes_def dropWhile_eq_Nil_conv blank_byte_def)

lemma split_ended: "\<forall>l\<in>set ls. sep \<notin> set l \<Longrightarrow> split_on sep (concat (map (\<lambda>l. l @ [sep]) ls)) = ls @ [[]]"
  by (induction ls) (auto simp: split_on_append)

lemma encode_text_shape:
  "\<exists>n. encode_text lines = concat (map (\<lambda>l. l @ [LINE_END]) (map to_cp437 lines)) @ replicate n 32"
  by (auto simp: encode_text_def Let_def comp_def)

lemma decode_encode_text:
  assumes "\<forall>l\<in>set lines. cp437_text l"
  shows "decode_text T (encode_text lines) = map (py_rstrip (ut_space T)) lines"
proof (cases lines rule: rev_cases)
  case Nil
  then show ?thesis by (simp add: encode_text_def decode_text_def rstrip_bytes_Nil)
next
  case (snoc ls l)
  let ?d = "concat (map (\<lambda>l. l @ [LINE_END]) (map to_cp437 lines))"
  obtain n where n: "encode_text lines = ?d @ replicate n 32" using encode_text_shape by blast
  have d: "?d = (concat (map (\<lambda>l. l @ [LINE_END]) (map to_cp437 ls)) @ to_cp437 l) @ [LINE_END]"
    by (simp add: snoc)
  have r: "rstrip_bytes (encode_text lines) = ?d"
    unfolding n d append_assoc by (subst append_assoc[symmetric], subst rstrip_bytes_end) (simp_all add: blank_byte_def LINE_END_def)
  have s: "split_on LINE_END ?d = map to_cp437 lines @ [[]]"
    using assms plain_bytes(1) unfolding cp437_text_def by (intro split_ended) fastforce
  have "LINE_END \<in> set ?d" "?d \<noteq> []" using d by auto
  then show ?thesis
    unfolding decode_text_def r Let_def
    using assms decode_line_plain by (simp add: s rstrip_bytes_def comp_def del: map_map) (simp add: comp_def)
qed

lemma encode_text_blocks: "length (encode_text lines) mod BLOCK = 0" "BLOCK \<le> length (encode_text lines)"
proof -
  let ?d = "concat (map (\<lambda>l. to_cp437 l @ [LINE_END]) lines)"
  have "length (encode_text lines) mod BLOCK = 0 \<and> BLOCK \<le> length (encode_text lines)"
  proof (cases "?d = []")
    case True
    then show ?thesis by (simp add: encode_text_def)
  next
    case False
    let ?n = "length ?d" and ?k = "nat (- int (length ?d) mod int BLOCK)"
    have k: "int ?k = - int ?n mod int BLOCK" by (simp add: BLOCK_def)
    have "(int ?n + - int ?n mod int BLOCK) mod int BLOCK = (int ?n + - int ?n) mod int BLOCK"
      by (rule mod_add_right_eq)
    then have "int ((?n + ?k) mod BLOCK) = 0" unfolding of_nat_mod of_nat_add k by simp
    then have z: "(?n + ?k) mod BLOCK = 0" by (simp only: of_nat_eq_0_iff)
    have "0 < ?n" using False by simp
    then have pos: "0 < ?n + ?k" by (rule trans_less_add1)
    have "BLOCK dvd ?n + ?k" using z by (rule mod_0_imp_dvd)
    then have "BLOCK \<le> ?n + ?k" using pos by (rule dvd_imp_le)
    moreover have "length (encode_text lines) = ?n + ?k"
      unfolding encode_text_def Let_def using False by (simp only: if_False length_append length_replicate)
    ultimately show ?thesis using z by (simp only:)
  qed
  then show "length (encode_text lines) mod BLOCK = 0" "BLOCK \<le> length (encode_text lines)" by auto
qed

section \<open>Header fields\<close>

lemma py_strip_tail: "\<forall>c\<in>set t. sp c \<Longrightarrow> py_strip sp (s @ t) = py_strip sp s"
proof -
  assume t: "\<forall>c\<in>set t. sp c"
  have r: "py_rstrip sp (x @ t) = py_rstrip sp x" for x
    using t by (simp add: py_rstrip_def dropWhile_append)
  show ?thesis
  proof (cases "\<forall>c\<in>set s. sp c")
    case True
    then have "dropWhile sp (s @ t) = []" "dropWhile sp s = []" using t by (auto simp: dropWhile_eq_Nil_conv)
    then show ?thesis unfolding py_strip_def py_lstrip_def by (simp only:)
  next
    case False
    then have "dropWhile sp (s @ t) = dropWhile sp s @ t" by (auto simp: dropWhile_append)
    then show ?thesis by (simp add: py_strip_def py_lstrip_def r)
  qed
qed

lemma py_strip_rstrip:
  assumes "\<forall>c. P c \<longrightarrow> c \<in> set s \<longrightarrow> sp c"
  shows "py_strip sp (py_rstrip P s) = py_strip sp s"
proof -
  have "s = py_rstrip P s @ rev (takeWhile P (rev s))"
    unfolding py_rstrip_def by (metis rev_append rev_rev_ident takeWhile_dropWhile_id)
  moreover have "\<forall>c\<in>set (rev (takeWhile P (rev s))). sp c" using assms by (auto dest: set_takeWhileD)
  ultimately show ?thesis by (metis py_strip_tail)
qed

lemma blank_char: "blank_byte b \<longleftrightarrow> cp437_char b = 32 \<or> cp437_char b = 0"
proof -
  have "128 \<le> cp437_char b" if "\<not> unat b < 128"
  proof -
    have "unat b < 2 ^ LENGTH(8)" by (rule unsigned_less)
    then have "unat b - 128 < length CP437_UPPER" using that cp437_upper(1) by simp
    then show ?thesis using that cp437_upper(3) nth_mem by (simp add: cp437_char_def)
  qed
  then show ?thesis
    by (cases "unat b < 128") (auto simp: cp437_char_def blank_byte_def word_unat_eq_iff)
qed

lemma from_cp437_rstrip: "from_cp437 (rstrip_bytes d) = py_rstrip (\<lambda>c. c = 32 \<or> c = 0) (from_cp437 d)"
proof -
  have "dropWhile (\<lambda>c. c = 32 \<or> c = 0) (map cp437_char (rev d)) = map cp437_char (dropWhile blank_byte (rev d))"
    unfolding dropWhile_map comp_def blank_char[symmetric] ..
  then show ?thesis by (simp add: from_cp437_def rstrip_bytes_def py_rstrip_def rev_map)
qed

definition plain_field :: "qwktext \<Rightarrow> ustr \<Rightarrow> bool" where
  "plain_field T s \<longleftrightarrow> (\<forall>c\<in>set s. plain_char c) \<and> (s = [] \<or> \<not> ut_space T (hd s) \<and> \<not> ut_space T (last s))"

lemma plain_space: "plain_char 32"
  by (simp add: plain_char_def in_cp437_def cp437_byte_def qwk_control_def)

lemma read_field_field:
  assumes "\<forall>c\<in>set s. plain_char c" "ut_space T 32"
  shows "read_qwk_field T (qwk_field s w) = py_strip (ut_space T) (take w s)"
proof -
  have "map (\<lambda>c. if c = 13 \<or> c = 10 then 32 else c) s = s"
    using assms(1) by (auto simp: plain_char_def qwk_control_def intro!: map_idI)
  then have f: "qwk_field s w = to_cp437 (take w s @ replicate (w - length s) 32)"
  proof -
    have "\<forall>c\<in>set (take w s @ replicate (w - length s) 32). in_cp437 c"
      using assms(1) plain_space by (auto simp: plain_char_def dest: in_set_takeD)
    moreover have "the (cp437_byte 32) = 32" by (simp add: cp437_byte_def)
    ultimately show ?thesis
      using \<open>map _ s = s\<close> plain_in_cp437[OF assms(1)]
      by (simp add: qwk_field_def ljust_def to_cp437_map take_map min_def)
  qed
  have p: "\<forall>c\<in>set (take w s @ replicate (w - length s) 32). plain_char c"
    using assms(1) plain_space by (auto dest: in_set_takeD)
  then have q: "from_cp437 (qwk_field s w) = take w s @ replicate (w - length s) 32"
    unfolding f using from_to_cp437[OF plain_in_cp437] by blast
  have sub: "set (py_rstrip P x) \<subseteq> set x" for P and x :: ustr
    unfolding py_rstrip_def by (metis set_rev set_dropWhileD subsetI)
  have n0: "0 \<notin> set (take w s @ replicate (w - length s) 32)"
    using p by (auto simp: plain_char_def qwk_control_def)
  have "read_qwk_field T (qwk_field s w) =
      py_strip (ut_space T) (py_rstrip (\<lambda>c. c = 32 \<or> c = 0) (take w s @ replicate (w - length s) 32))"
    unfolding read_qwk_field_def from_cp437_rstrip q
    using p sub by (subst qwk_clean_line_id) blast+
  also have "\<dots> = py_strip (ut_space T) (take w s @ replicate (w - length s) 32)"
    by (rule py_strip_rstrip) (use n0 assms(2) in auto)
  also have "\<dots> = py_strip (ut_space T) (take w s)"
    by (rule py_strip_tail) (use assms(2) in auto)
  finally show ?thesis .
qed

lemma plain_field_short:
  assumes "plain_field T s" "ut_space T 32" "fits s QWK_FIELD"
  shows "read_qwk_field T (qwk_field s QWK_FIELD) = s"
proof -
  have p: "\<forall>c\<in>set s. plain_char c" using assms(1) by (simp add: plain_field_def)
  then have "length s \<le> QWK_FIELD" using assms(3) length_to_cp437[OF plain_in_cp437] by (simp add: fits_def)
  then show ?thesis
    using assms(1) read_field_field[OF p assms(2)] by (cases "s = []") (auto simp: plain_field_def py_strip_id)
qed

section \<open>Numbers and dates\<close>

lemma unat_small: "c < 256 \<Longrightarrow> unat (of_nat c :: 8 word) = c"
  by (simp add: unat_of_nat take_bit_nat_eq_self)

lemma decode_ascii_bytes: "\<forall>c\<in>set s. c < 128 \<Longrightarrow> ascii_decode (ascii_bytes s) = s"
  by (auto simp: ascii_decode_def ascii_bytes_def word_less_nat_alt unat_small intro!: map_idI)

lemma length_ascii_bytes [simp]: "length (ascii_bytes s) = length s"
  by (simp add: ascii_bytes_def)

lemma ascii_bytes_low: "\<forall>c\<in>set s. c < 128 \<Longrightarrow> list_all (\<lambda>b. b < 128) (ascii_bytes s)"
proof -
  assume "\<forall>c\<in>set s. c < 128"
  then have "unat (of_nat c :: 8 word) < 128" if "c \<in> set s" for c using that unat_small[of c] by fastforce
  then show ?thesis by (simp add: list_all_iff ascii_bytes_def word_less_nat_alt)
qed

lemma read_number_dec:
  assumes "n < 10 ^ w" "0 < w" "w \<le> 9"
  shows "read_number (ljust w (ascii_bytes (dec n))) = Some n"
proof -
  have d: "\<forall>c\<in>set (dec n). 48 \<le> c \<and> c \<le> 57" using dec_digits by (auto simp: is_digit_def)
  have "ascii_decode (ljust w (ascii_bytes (dec n))) = dec n @ replicate (w - length (dec n)) 32"
    using decode_ascii_bytes[of "dec n"] d by (fastforce simp: ljust_def ascii_decode_def)
  moreover have "py_strip (\<lambda>c. c = 32 \<or> c = 0) (dec n @ replicate (w - length (dec n)) 32) = dec n"
    using d by (subst py_strip_tail) (auto intro!: py_strip_id dest: bspec[OF _ hd_in_set] bspec[OF _ last_in_set])
  moreover have "list_all is_digit (dec n)" using dec_digits by (auto simp: list_all_iff)
  moreover have "length (dec n) \<le> 9" using length_dec[OF assms(1,2)] assms(3) by simp
  ultimately show ?thesis by (simp add: read_number_def)
qed

lemma read_number_blank: "read_number (replicate n 32) = None"
proof -
  have "py_strip (\<lambda>c. c = 32 \<or> c = 0) ([] @ replicate n 32) = []" by (subst py_strip_tail) auto
  then show ?thesis by (simp add: read_number_def ascii_decode_def)
qed

lemma dd_digits:
  assumes "0 \<le> n" "n < 100"
  shows "dd n = [48 + nat n div 10, 48 + nat n mod 10]"
proof -
  define m where "m = nat n"
  have n: "n = int m" "m < 100" using assms by (auto simp: m_def)
  have small: "dec k = [48 + k]" if "k < 10" for k using that by (subst dec.simps) simp
  show ?thesis
  proof (cases "m < 10")
    case True
    then show ?thesis using n by (simp add: dd_def num_def small)
  next
    case False
    then have "dec m = dec (m div 10) @ [48 + m mod 10]" by (subst dec.simps) simp
    also have "dec (m div 10) = [48 + m div 10]" using n(2) by (intro small) simp
    finally show ?thesis using False n by (simp add: dd_def num_def)
  qed
qed

lemma dd_read:
  assumes "0 \<le> n" "n < 100"
  shows "one_or_two (dd n @ s) = Some (nat n, s)" "two_digits (dd n @ s) = Some (nat n, s)"
    "day_of_month (dd n @ s) = Some (nat n, s)" "length (dd n) = 2" "\<forall>c\<in>set (dd n). is_digit c"
proof -
  have m: "nat n div 10 < 10" "nat n mod 10 < 10" "nat n div 10 * 10 + nat n mod 10 = nat n" using assms by auto
  have d: "is_digit (48 + nat n div 10)" "is_digit (48 + nat n mod 10)" using m by (auto simp: is_digit_def)
  have v: "undec [48 + nat n div 10, 48 + nat n mod 10] = nat n" using m by (simp add: undec_def)
  show "one_or_two (dd n @ s) = Some (nat n, s)" "two_digits (dd n @ s) = Some (nat n, s)"
    "day_of_month (dd n @ s) = Some (nat n, s)" "length (dd n) = 2" "\<forall>c\<in>set (dd n). is_digit c"
    unfolding dd_digits[OF assms] using d v
    by (simp_all add: one_or_two_def two_digits_def day_of_month_def)
qed

text \<open>The format keeps the minute, and two digits of the year.\<close>

definition to_minute :: "datetime \<Rightarrow> datetime" where
  "to_minute m = m\<lparr>dt_second := 0\<rparr>"

lemma strptime_written:
  assumes "datetime_ok m"
  shows "1969 \<le> dt_year m \<Longrightarrow> dt_year m \<le> 2068 \<Longrightarrow> strptime_qwk (qwk_date m @ [32] @ qwk_time m) = Some (to_minute m)"
    "length (qwk_date m) = 8" "length (qwk_time m) = 5" "\<forall>c\<in>set (qwk_date m @ qwk_time m). c < 128"
proof -
  let ?y = "dt_year m" and ?o = "dt_month m" and ?d = "dt_day m" and ?h = "dt_hour m" and ?i = "dt_minute m"
  have ok: "make_datetime ?y ?o ?d ?h ?i 0 = Some (to_minute m)"
    using assms by (auto simp: datetime_ok_def make_datetime_def to_minute_def split: if_splits)
  then have bounds: "1 \<le> ?o" "?o \<le> 12" "1 \<le> ?d" "?d \<le> days_in_month ?y ?o" "0 \<le> ?h" "?h < 24" "0 \<le> ?i" "?i < 60"
    unfolding make_datetime_def by (auto split: if_splits)
  have "days_in_month ?y ?o < 100" by (simp add: days_in_month_def)
  with bounds have r: "0 \<le> ?o" "?o < 100" "0 \<le> ?d" "?d < 100" "0 \<le> ?h" "?h < 100" "0 \<le> ?i" "?i < 100" by auto
  have y: "0 \<le> ?y mod 100" "?y mod 100 < 100" by auto
  note reads = dd_read[OF r(1,2)] dd_read[OF r(3,4)] dd_read[OF r(5,6)] dd_read[OF r(7,8)] dd_read[OF y]
  have last: "one_or_two (dd ?i) = Some (nat ?i, [])" using dd_read(1)[OF r(7,8), of "[]"] by simp
  have hd: "hd (dd ?h) = 48 + nat ?h div 10" "dd ?h \<noteq> []" by (simp_all add: dd_digits[OF r(5,6)])
  then have sp: "spaces1 (32 # dd ?h @ s) = Some (dd ?h @ s)" for s
    using r(5,6) by (simp add: spaces1_def ascii_space_def dropWhile_id)
  have century: "1969 \<le> ?y \<Longrightarrow> ?y \<le> 2068 \<Longrightarrow> (if nat (?y mod 100) \<le> 68 then 2000 + int (nat (?y mod 100)) else 1900 + int (nat (?y mod 100))) = ?y"
  proof (cases "?y < 2000")
    assume range: "1969 \<le> ?y" "?y \<le> 2068"
    case True
    have "?y mod 100 = (?y - 1900 + 19 * 100) mod 100" by simp
    then have "?y mod 100 = (?y - 1900) mod 100" by (simp only: mod_mult_self1)
    then have "?y mod 100 = ?y - 1900" using True range by (simp add: mod_pos_pos_trivial)
    then show ?thesis using True range by simp
  next
    assume range: "1969 \<le> ?y" "?y \<le> 2068"
    case False
    have "?y mod 100 = (?y - 2000 + 20 * 100) mod 100" by simp
    then have "?y mod 100 = (?y - 2000) mod 100" by (simp only: mod_mult_self1)
    then have "?y mod 100 = ?y - 2000" using False range by (simp add: mod_pos_pos_trivial)
    then show ?thesis using False range by simp
  qed
  show "strptime_qwk (qwk_date m @ [32] @ qwk_time m) = Some (to_minute m)" if "1969 \<le> ?y" "?y \<le> 2068"
    using r century[OF that] ok
    by (simp add: strptime_qwk_def qwk_date_def qwk_time_def reads lit_def sp last del: dd_def)
  show "length (qwk_date m) = 8" "length (qwk_time m) = 5" by (simp_all add: qwk_date_def qwk_time_def reads)
  show "\<forall>c\<in>set (qwk_date m @ qwk_time m). c < 128"
    using reads(5,10,15,20,25) unfolding qwk_date_def qwk_time_def is_digit_def by fastforce
qed

end
