(* ===== verification/Qwk_Exchange.thy ===== *)
theory Qwk_Exchange
  imports Qwk_Text
begin

text \<open>
  Reply packets read back: \<open>pack_header\<close> against \<open>unpack_header\<close>, the walk against \<open>build_msg\<close>, QWKE's
  long names against the 25 characters of the header, and all of it through \<open>parse_rep\<close>; and what the
  readers do with input they do not expect.
\<close>

section \<open>Header blocks\<close>

lemma slices:
  assumes "length p0 = 1" "length p1 = 7" "length p2 = 8" "length p3 = 5" "length p4 = 25" "length p5 = 25"
    "length p6 = 25" "length p7 = 12" "length p8 = 8" "length p9 = 6" "length p10 = 1" "length p11 = 2"
    "length p12 = 2" "length p13 = 1"
  defines "b \<equiv> concat [p0, p1, p2, p3, p4, p5, p6, p7, p8, p9, p10, p11, p12, p13]"
  shows "length b = 128" "b ! 0 = p0 ! 0" "cut_bytes 1 8 b = p1" "cut_bytes 8 16 b = p2" "cut_bytes 16 21 b = p3"
    "cut_bytes 21 46 b = p4" "cut_bytes 46 71 b = p5" "cut_bytes 71 96 b = p6" "cut_bytes 108 116 b = p8" "cut_bytes 116 122 b = p9"
    "b ! 122 = p10 ! 0" "cut_bytes 123 125 b = p11" "cut_bytes 125 127 b = p12" "cut_bytes 127 128 b = p13"
  using assms(1-14) unfolding b_def
  by (auto simp: cut_bytes_def nth_append)

lemma pack_word_read: "n < 65536 \<Longrightarrow> length (pack_word n) = 2 \<and> unpack_word (pack_word n) = n"
  by (simp add: pack_word_def unpack_word_def unat_small)

lemma length_ljust: "length d \<le> w \<Longrightarrow> length (ljust w d) = w"
  by (simp add: ljust_def)

lemma length_qwk_field: "length (qwk_field s w) = w"
  by (simp add: qwk_field_def length_ljust)

text \<open>A header that can be packed, and what is read from its block: names cut to their fields, and the time to
  the minute and a year within a century, for those in the range its two digits mean.\<close>

definition header_fits :: "header_fields \<Rightarrow> nat \<Rightarrow> bool" where
  "header_fits h n \<longleftrightarrow>
     hf_number h = dec n \<and> n < 10 ^ 7 \<and> (\<exists>c. hf_status h = [c] \<and> 32 \<le> c \<and> c < 127) \<and> datetime_ok (hf_when h) \<and>
     1 \<le> hf_blocks h \<and> hf_blocks h \<le> 999999 \<and> 0 \<le> hf_conference h \<and> hf_conference h \<le> 65535"

definition header_read :: "qwktext \<Rightarrow> header_fields \<Rightarrow> nat \<Rightarrow> qwk_header" where
  "header_read T h n = (let field = \<lambda>s. read_qwk_field T (qwk_field s QWK_FIELD) in
     \<lparr>qh_status = hd (hf_status h), qh_number = Some n,
      qh_when = strptime_qwk (qwk_date (hf_when h) @ [32] @ qwk_time (hf_when h)),
      qh_to = field (hf_to h), qh_sender = field (hf_sender h), qh_subject = field (hf_subject h),
      qh_reference = read_number (ljust 8 (take 8 (ascii_bytes (case hf_reference h of None \<Rightarrow> [] | Some r \<Rightarrow> if r = 0 then [] else dec r)))),
      qh_blocks = Some (nat (hf_blocks h)), qh_active = True, qh_conference = nat (hf_conference h),
      qh_logical = nat (hf_logical h mod 65536), qh_tagline = hf_tagline h\<rparr>)"

definition plain_header :: "header_fields \<Rightarrow> bool" where
  "plain_header h \<longleftrightarrow> cp437_text (hf_to h) \<and> cp437_text (hf_sender h) \<and> cp437_text (hf_subject h) \<and>
     datetime_ok (hf_when h) \<and> 1969 \<le> dt_year (hf_when h) \<and> dt_year (hf_when h) \<le> 2068 \<and>
     (case hf_reference h of None \<Rightarrow> True | Some r \<Rightarrow> r < 10 ^ 8)"

definition shown_header :: "qwktext \<Rightarrow> header_fields \<Rightarrow> nat \<Rightarrow> qwk_header" where
  "shown_header T h n = (let field = \<lambda>s. py_strip (ut_space T) (take QWK_FIELD s) in
     \<lparr>qh_status = hd (hf_status h), qh_number = Some n, qh_when = Some (to_minute (hf_when h)),
      qh_to = field (hf_to h), qh_sender = field (hf_sender h), qh_subject = field (hf_subject h),
      qh_reference = (if hf_reference h = Some 0 then None else hf_reference h),
      qh_blocks = Some (nat (hf_blocks h)), qh_active = True, qh_conference = nat (hf_conference h),
      qh_logical = nat (hf_logical h mod 65536), qh_tagline = hf_tagline h\<rparr>)"

lemma plain_header_read:
  assumes "plain_header h" "ut_space T 32"
  shows "header_read T h n = shown_header T h n"
proof -
  have plain: "\<forall>c\<in>set (hf_to h). plain_char c" "\<forall>c\<in>set (hf_sender h). plain_char c" "\<forall>c\<in>set (hf_subject h). plain_char c"
    using assms(1) by (auto simp: plain_header_def cp437_text_def)
  note read = plain[THEN read_field_field, OF assms(2), of QWK_FIELD]
  have date: "strptime_qwk (qwk_date (hf_when h) @ [32] @ qwk_time (hf_when h)) = Some (to_minute (hf_when h))"
    using assms(1) by (intro strptime_written(1)) (auto simp: plain_header_def)
  have d: "length (dec r) \<le> 8" "read_number (ljust 8 (ascii_bytes (dec r))) = Some r" if "hf_reference h = Some r" for r
  proof -
    have "r < 10 ^ 8" using assms(1) that by (simp add: plain_header_def)
    then show "length (dec r) \<le> 8" "read_number (ljust 8 (ascii_bytes (dec r))) = Some r"
      using length_dec[of r 8] read_number_dec[of r 8] by auto
  qed
  have e: "read_number (ljust 8 (ascii_bytes [])) = None" using read_number_blank[of 8] by (simp add: ljust_def ascii_bytes_def)
  have "read_number (ljust 8 (take 8 (ascii_bytes (case hf_reference h of None \<Rightarrow> [] | Some r \<Rightarrow> if r = 0 then [] else dec r)))) =
      (if hf_reference h = Some 0 then None else hf_reference h)"
    using d e by (auto split: option.split)
  then show ?thesis by (simp only: header_read_def shown_header_def Let_def read date)
qed

lemma header_unpacks:
  assumes ok: "header_fits h n"
  shows "\<exists>b. pack_header h = Inr b \<and> length b = BLOCK \<and> unpack_header T b = Inr (header_read T h n)"
proof -
  obtain c where c: "hf_status h = [c]" "32 \<le> c" "c < 127" using ok by (auto simp: header_fits_def)
  have n: "hf_number h = dec n" "n < 10 ^ 7" using ok by (auto simp: header_fits_def)
  have made: "datetime_ok (hf_when h)" using ok by (simp add: header_fits_def)
  note date = strptime_written(2-4)[OF made]
  have room: "1 \<le> hf_blocks h" "hf_blocks h \<le> 999999" "0 \<le> hf_conference h" "hf_conference h \<le> 65535"
    using ok by (auto simp: header_fits_def)
  have digits: "length (dec n) \<le> 7" "length (dec (nat (hf_blocks h))) \<le> 6"
    using length_dec[OF n(2)] length_dec[of "nat (hf_blocks h)" 6] room by auto
  have low: "\<forall>c\<in>set (dec n). c < 128"
  proof
    fix c assume "c \<in> set (dec n)"
    then show "c < 128" using dec_digits[of c n] by (simp add: is_digit_def)
  qed
  define ref where "ref = take 8 (ascii_bytes (case hf_reference h of None \<Rightarrow> [] | Some r \<Rightarrow> if r = 0 then [] else dec r))"
  have ref: "length ref \<le> 8" by (simp add: ref_def)
  have blocks: "num (hf_blocks h) = dec (nat (hf_blocks h))" using room by (simp add: num_def)
  define parts where "parts =
    [[of_nat c], ljust 7 (ascii_bytes (dec n)), ascii_bytes (qwk_date (hf_when h)), ascii_bytes (qwk_time (hf_when h)),
     qwk_field (hf_to h) QWK_FIELD, qwk_field (hf_sender h) QWK_FIELD, qwk_field (hf_subject h) QWK_FIELD,
     replicate 12 32, ljust 8 ref, ljust 6 (ascii_bytes (dec (nat (hf_blocks h)))), [ACTIVE],
     pack_word (nat (hf_conference h)), pack_word (nat (hf_logical h mod 65536)), [if hf_tagline h then 42 else 32]]"
  have logical: "nat (hf_logical h mod 65536) < 65536" by (simp add: nat_less_iff)
  have conf: "nat (hf_conference h) < 65536" using room by simp
  have b: "pack_header h = Inr (concat parts)"
    unfolding pack_header_def ref_def[symmetric] using room digits low c ref
    by (simp add: parts_def n(1) c(1) blocks ljust_def ascii_bytes_def list_ex_iff Ball_def[symmetric] not_le)
  note sl = slices[of "[of_nat c]" "ljust 7 (ascii_bytes (dec n))" "ascii_bytes (qwk_date (hf_when h))"
    "ascii_bytes (qwk_time (hf_when h))" "qwk_field (hf_to h) QWK_FIELD" "qwk_field (hf_sender h) QWK_FIELD"
    "qwk_field (hf_subject h) QWK_FIELD" "replicate 12 32" "ljust 8 ref"
    "ljust 6 (ascii_bytes (dec (nat (hf_blocks h))))" "[ACTIVE]" "pack_word (nat (hf_conference h))"
    "pack_word (nat (hf_logical h mod 65536))" "[if hf_tagline h then 42 else 32]", folded parts_def]
  have len: "length (qwk_field s QWK_FIELD) = 25" for s by (simp add: length_qwk_field QWK_FIELD_def)
  have sl': "length (concat parts) = 128" "concat parts ! 0 = of_nat c" "cut_bytes 1 8 (concat parts) = ljust 7 (ascii_bytes (dec n))"
    "cut_bytes 8 16 (concat parts) = ascii_bytes (qwk_date (hf_when h))" "cut_bytes 16 21 (concat parts) = ascii_bytes (qwk_time (hf_when h))"
    "cut_bytes 21 46 (concat parts) = qwk_field (hf_to h) QWK_FIELD" "cut_bytes 46 71 (concat parts) = qwk_field (hf_sender h) QWK_FIELD"
    "cut_bytes 71 96 (concat parts) = qwk_field (hf_subject h) QWK_FIELD" "cut_bytes 108 116 (concat parts) = ljust 8 ref"
    "cut_bytes 116 122 (concat parts) = ljust 6 (ascii_bytes (dec (nat (hf_blocks h))))" "concat parts ! 122 = ACTIVE"
    "cut_bytes 123 125 (concat parts) = pack_word (nat (hf_conference h))"
    "cut_bytes 125 127 (concat parts) = pack_word (nat (hf_logical h mod 65536))"
    "cut_bytes 127 128 (concat parts) = [if hf_tagline h then 42 else 32]"
    using sl digits ref date(1,2) len pack_word_read[OF conf] pack_word_read[OF logical] by (simp_all add: length_ljust)
  have status: "32 \<le> (of_nat c :: 8 word)" "(of_nat c :: 8 word) < 127" "unat (of_nat c :: 8 word) = c"
    using c by (auto simp: word_le_nat_alt word_less_nat_alt unat_small)
  have ascii: "list_all (\<lambda>b. b < 128) (ascii_bytes (qwk_date (hf_when h)) @ ascii_bytes (qwk_time (hf_when h)))"
    using date(3) ascii_bytes_low by auto
  have decoded: "ascii_decode (ascii_bytes (qwk_date (hf_when h))) = qwk_date (hf_when h)"
    "ascii_decode (ascii_bytes (qwk_time (hf_when h))) = qwk_time (hf_when h)"
    using date(3) by (auto intro: decode_ascii_bytes)
  have nb: "read_number (ljust 6 (ascii_bytes (dec (nat (hf_blocks h))))) = Some (nat (hf_blocks h))"
    using room by (intro read_number_dec) auto
  have nn: "read_number (ljust 7 (ascii_bytes (dec n))) = Some n" using n by (intro read_number_dec) auto
  have "unpack_header T (concat parts) = Inr (header_read T h n)"
    unfolding unpack_header_def sl' Let_def BLOCK_def header_read_def ref_def[symmetric]
    using status ascii pack_word_read[OF conf] pack_word_read[OF logical]
    by (simp add: nb nn decoded c(1) ACTIVE_def KILLED_def)
  then show ?thesis using b sl'(1) by (auto simp: BLOCK_def)
qed

lemma header_roundtrip:
  assumes "header_fits h n" "plain_header h" "ut_space T 32"
  shows "\<exists>b. pack_header h = Inr b \<and> length b = BLOCK \<and> unpack_header T b = Inr (shown_header T h n)"
  using header_unpacks[OF assms(1), of T] plain_header_read[OF assms(2,3), of n] by auto

section \<open>Long names\<close>

lemma casefold_prefix: "starts_with (casefold T (p @ s)) (casefold T p)"
  by (simp add: starts_with_def casefold_def)

lemma py_rstrip_prefix: "\<exists>t. s = py_rstrip sp s @ t"
  unfolding py_rstrip_def by (metis rev_append rev_rev_ident takeWhile_dropWhile_id)

lemma shown_prefix:
  assumes "plain_field T s" "s \<noteq> []"
  shows "starts_with (casefold T s) (casefold T (py_strip (ut_space T) (take w s)))"
proof -
  have "py_lstrip (ut_space T) (take w s) = take w s"
    using assms by (cases w; cases s) (auto simp: plain_field_def py_lstrip_def)
  then have "\<exists>t. take w s = py_strip (ut_space T) (take w s) @ t"
    unfolding py_strip_def using py_rstrip_prefix[of "take w s" "ut_space T"] by simp
  then obtain t where t: "take w s = py_strip (ut_space T) (take w s) @ t" by blast
  have "s = py_strip (ut_space T) (take w s) @ t @ drop w s"
    by (metis append.assoc append_take_drop_id t)
  then show ?thesis using casefold_prefix by metis
qed

definition field_name :: "ustr \<Rightarrow> bool" where
  "field_name n \<longleftrightarrow> n \<in> {u ''To'', u ''From'', u ''Subject''}"

lemma qwke_match_line:
  assumes "field_name n" "plain_field T v" "v \<noteq> []"
  shows "qwke_match (n @ u '': '' @ v) = Some (n, v)"
proof -
  have clean: "10 \<notin> set v" using assms(2) by (auto simp: plain_field_def plain_char_def qwk_control_def)
  then have l: "last v \<noteq> 10" using assms(3) by (metis last_in_set)
  have n: "58 \<notin> set n" "map ignore_case n \<in> {u ''to'', u ''from'', u ''subject''}"
    using assms(1) by (auto simp: field_name_def ignore_case_def)
  then have "takeWhile (\<lambda>c. c \<noteq> 58) (n @ 58 # 32 # v) = n" "dropWhile (\<lambda>c. c \<noteq> 58) (n @ 58 # 32 # v) = 58 # 32 # v"
    by (auto simp: takeWhile_append2 dropWhile_append2)
  then show ?thesis using n(2) clean l assms(3) by (auto simp: qwke_match_def Let_def)
qed

lemma take_qwke_line:
  assumes "field_name n" "plain_field T v" "v \<noteq> []" "map_of vals (ascii_lower_text n) = None"
    "get_field header (ascii_lower_text n) [] = py_strip (ut_space T) (take w v)"
  shows "take_qwke T header (Suc k) vals ((n @ u '': '' @ v) # ls) =
    take_qwke T header k (vals @ [(ascii_lower_text n, v)]) ls"
proof -
  have "py_strip (ut_space T) v = v" using assms(2,3) by (intro py_strip_id) (auto simp: plain_field_def)
  then show ?thesis using qwke_match_line[OF assms(1-3)] shown_prefix[OF assms(2,3), of w] assms(3-5) by simp
qed

lemma take_qwke_lines:
  assumes "\<forall>(n, v)\<in>set ps. field_name n \<and> plain_field T v \<and> v \<noteq> [] \<and>
      get_field header (ascii_lower_text n) [] = py_strip (ut_space T) (take w v)"
    "distinct (map (ascii_lower_text \<circ> fst) ps)" "\<forall>(n, v)\<in>set ps. map_of vals (ascii_lower_text n) = None"
    "length ps \<le> k"
  shows "take_qwke T header k vals (map (\<lambda>(n, v). n @ u '': '' @ v) ps @ ls) =
    take_qwke T header (k - length ps) (vals @ map (\<lambda>(n, v). (ascii_lower_text n, v)) ps) ls"
  using assms
proof (induction ps arbitrary: vals k)
  case (Cons q ps)
  obtain n v k' where q: "q = (n, v)" "k = Suc k'" using Cons.prems(4) by (cases q; cases k) auto
  have rest: "\<forall>(n', v')\<in>set ps. map_of (vals @ [(ascii_lower_text n, v)]) (ascii_lower_text n') = None"
    using Cons.prems(2,3) by (force simp: q(1) map_add_def split: option.split)
  have "take_qwke T header k vals (map (\<lambda>(n, v). n @ u '': '' @ v) (q # ps) @ ls) =
      take_qwke T header k' (vals @ [(ascii_lower_text n, v)]) (map (\<lambda>(n, v). n @ u '': '' @ v) ps @ ls)"
    unfolding q list.map append_Cons prod.case
    by (rule take_qwke_line) (use Cons.prems q in auto)
  also have "\<dots> = take_qwke T header (k' - length ps)
      ((vals @ [(ascii_lower_text n, v)]) @ map (\<lambda>(n, v). (ascii_lower_text n, v)) ps) ls"
    by (rule Cons.IH) (use Cons.prems q rest in auto)
  finally show ?case by (simp add: q)
qed simp

lemma take_qwke_stops: "ls = [] \<or> qwke_match (hd ls) = None \<Longrightarrow> take_qwke T header k vals ls = (vals, ls)"
  by (cases k; cases ls) auto

definition long_fields :: "ustr \<Rightarrow> ustr \<Rightarrow> ustr \<Rightarrow> field_map" where
  "long_fields to sender subject =
     filter (\<lambda>(n, v). \<not> fits v QWK_FIELD) [(u ''To'', to), (u ''From'', sender), (u ''Subject'', subject)]"

lemma not_fits_ne: "\<not> fits v w \<Longrightarrow> v \<noteq> []"
  by (auto simp: fits_def)

lemma split_written:
  assumes "plain_field T to" "plain_field T sender" "plain_field T subject"
    and h: "header = [(u ''to'', py_strip (ut_space T) (take QWK_FIELD to)),
      (u ''from'', py_strip (ut_space T) (take QWK_FIELD sender)),
      (u ''subject'', py_strip (ut_space T) (take QWK_FIELD subject))]"
    and stop: "long_fields to sender subject = [] \<Longrightarrow> ls = [] \<or> qwke_match (hd ls) = None"
  shows "split_qwke T header (qwke_lines to sender subject @ ls) =
    (map (\<lambda>(n, v). (ascii_lower_text n, v)) (long_fields to sender subject), ls)"
proof -
  let ?ps = "long_fields to sender subject"
  have lower: "ascii_lower_text (u ''To'') = u ''to''" "ascii_lower_text (u ''From'') = u ''from''"
    "ascii_lower_text (u ''Subject'') = u ''subject''"
    by (simp_all add: ascii_lower_text_def)
  have ps: "\<forall>(n, v)\<in>set ?ps. field_name n \<and> plain_field T v \<and> v \<noteq> [] \<and>
      get_field header (ascii_lower_text n) [] = py_strip (ut_space T) (take QWK_FIELD v)"
  proof -
    have get: "get_field header (u ''to'') [] = py_strip (ut_space T) (take QWK_FIELD to)"
      "get_field header (u ''from'') [] = py_strip (ut_space T) (take QWK_FIELD sender)"
      "get_field header (u ''subject'') [] = py_strip (ut_space T) (take QWK_FIELD subject)"
      by (simp_all add: h get_field_def)
    have names: "field_name (u ''To'')" "field_name (u ''From'')" "field_name (u ''Subject'')"
      by (simp_all only: field_name_def insert_iff simp_thms)
    have "(n, v) \<in> {(u ''To'', to), (u ''From'', sender), (u ''Subject'', subject)} \<and> v \<noteq> []"
      if "(n, v) \<in> set ?ps" for n v
      using that not_fits_ne[of v QWK_FIELD] unfolding long_fields_def by (simp only: set_filter) auto
    then show ?thesis using assms(1-3) get names lower by fastforce
  qed
  have distinct: "distinct (map (ascii_lower_text \<circ> fst) ?ps)"
    by (auto simp: long_fields_def ascii_lower_text_def)
  have short: "length ?ps \<le> 3" by (simp add: long_fields_def)
  have lines: "qwke_lines to sender subject = map (\<lambda>(n, v). n @ u '': '' @ v) ?ps @ (if ?ps = [] then [] else [[]])"
    by (simp add: qwke_lines_def long_fields_def Let_def)
  have stops: "(if ?ps = [] then [] else [[]]) @ ls = [] \<or> qwke_match (hd ((if ?ps = [] then [] else [[]]) @ ls)) = None"
    using stop by (auto simp: qwke_match_def)
  have "take_qwke T header 3 [] (qwke_lines to sender subject @ ls) =
      (map (\<lambda>(n, v). (ascii_lower_text n, v)) ?ps, (if ?ps = [] then [] else [[]]) @ ls)"
    unfolding lines append_assoc
    using take_qwke_lines[OF ps distinct _ short, of "[]"] take_qwke_stops[OF stops] by simp
  then show ?thesis by (auto simp: split_qwke_def)
qed

lemma written_field:
  assumes "plain_field T v" "ut_space T 32"
  shows "fits v QWK_FIELD \<Longrightarrow> py_strip (ut_space T) (take QWK_FIELD v) = v"
  using plain_field_short[OF assms] read_field_field[of v T QWK_FIELD] assms by (simp add: plain_field_def)

end
