(* ===== verification/Qwk_Replies.thy ===== *)
theory Qwk_Replies
  imports Qwk_Exchange
begin

text \<open>
  Whole reply packets: what \<open>build_msg\<close> writes, \<open>parse_rep\<close> reads, and what a first line that looks like a
  QWKE field, or a digit that is no decimal digit, does to it.
\<close>

section \<open>The walk over what was written\<close>

definition plain_reply :: "qwktext \<Rightarrow> outgoing_reply \<Rightarrow> bool" where
  "plain_reply T r \<longleftrightarrow>
     plain_field T (or_to r) \<and> plain_field T (or_sender r) \<and> plain_field T (or_subject r) \<and>
     (\<forall>l\<in>set (body_lines T (or_body r)). cp437_text l) \<and>
     0 \<le> or_conference r \<and> or_conference r \<le> 65535 \<and>
     (case or_reference r of None \<Rightarrow> True | Some n \<Rightarrow> n < 10 ^ 8) \<and>
     (case or_when r of None \<Rightarrow> True | Some m \<Rightarrow>
        datetime_ok m \<and> 1969 \<le> dt_year m \<and> dt_year m \<le> 2068) \<and>
     length (reply_text T r) div BLOCK \<le> 999998"

text \<open>The lines of a body as a reader sees them: the blanks at each line's end are gone.\<close>

definition shown_lines :: "qwktext \<Rightarrow> ustr \<Rightarrow> ustr list" where
  "shown_lines T b = map (py_rstrip (ut_space T)) (body_lines T b)"

definition reply_lines :: "qwktext \<Rightarrow> outgoing_reply \<Rightarrow> ustr list" where
  "reply_lines T r = qwke_lines (or_to r) (or_sender r) (or_subject r) @ shown_lines T (or_body r)"

definition walked_reply :: "qwktext \<Rightarrow> nat \<Rightarrow> outgoing_reply \<Rightarrow> walked" where
  "walked_reply T off r =
     \<lparr>wk_header = shown_header T (reply_header T r) (nat (or_conference r)), wk_lines = reply_lines T r,
      wk_offset = off, wk_text = reply_text T r\<rparr>"

fun walked_replies :: "qwktext \<Rightarrow> nat \<Rightarrow> outgoing_reply list \<Rightarrow> walked list" where
  "walked_replies T off [] = []"
| "walked_replies T off (r # rs) =
     walked_reply T off r # walked_replies T (off + BLOCK + length (reply_text T r)) rs"

lemma plain_ascii: "32 \<le> c \<Longrightarrow> c < 127 \<Longrightarrow> plain_char c"
  by (simp add: plain_char_def in_cp437_def cp437_byte_def qwk_control_def)

lemma plain_qwke_lines:
  assumes "plain_field T to" "plain_field T sender" "plain_field T subject" "l \<in> set (qwke_lines to sender subject)"
  shows "plain_line T l"
proof -
  have one: "plain_line T (n @ u '': '' @ v)" if "plain_field T v" "v \<noteq> []" "\<forall>c\<in>set n. 32 \<le> c \<and> c < 127" for n v
    using that plain_ascii by (auto simp: plain_line_def plain_field_def)
  have names: "\<forall>c\<in>set (u ''To''). 32 \<le> c \<and> c < 127" "\<forall>c\<in>set (u ''From''). 32 \<le> c \<and> c < 127"
    "\<forall>c\<in>set (u ''Subject''). 32 \<le> c \<and> c < 127" by simp_all
  have "plain_line T []" by (simp add: plain_line_def)
  then show ?thesis
    using one[OF assms(1) _ names(1)] one[OF assms(2) _ names(2)] one[OF assms(3) _ names(3)] assms(4)
      not_fits_ne[of _ QWK_FIELD] unfolding qwke_lines_def Let_def
    by (auto split: if_splits)
qed

lemma Y2000_ok: "datetime_ok Y2000" "dt_year Y2000 = 2000"
  by (simp_all add: Y2000_def datetime_ok_def make_datetime_def days_in_month_def)

lemma reply_header_ok:
  assumes "plain_reply T r"
  shows "header_fits (reply_header T r) (nat (or_conference r)) \<and> plain_header (reply_header T r)"
proof -
  have "(case or_when r of None \<Rightarrow> Y2000 | Some w \<Rightarrow> w) = m \<Longrightarrow>
      datetime_ok m \<and> 1969 \<le> dt_year m \<and> dt_year m \<le> 2068" for m
    using assms Y2000_ok by (auto simp: plain_reply_def split: option.splits)
  moreover have "num (or_conference r) = dec (nat (or_conference r))" "nat (or_conference r) < 10 ^ 7"
    using assms by (auto simp: num_def plain_reply_def)
  ultimately show ?thesis
    using assms by (auto simp: header_fits_def plain_header_def cp437_text_def reply_header_def plain_reply_def plain_field_def)
qed

lemma decode_message_text:
  assumes "plain_field T to" "plain_field T sender" "plain_field T subject" "\<forall>l\<in>set (body_lines T b). cp437_text l"
  shows "decode_text T (encode_text (qwke_lines to sender subject @ body_lines T b)) =
    qwke_lines to sender subject @ shown_lines T b"
proof -
  have q: "\<forall>l\<in>set (qwke_lines to sender subject). cp437_text l \<and> py_rstrip (ut_space T) l = l"
    using plain_qwke_lines[OF assms(1-3)] rstrip_plain_line by blast
  then have "map (py_rstrip (ut_space T)) (qwke_lines to sender subject) = qwke_lines to sender subject"
    by (simp add: map_idI)
  then show ?thesis using q assms(4) by (subst decode_encode_text) (auto simp: shown_lines_def)
qed

lemma reply_text_lines: "plain_reply T r \<Longrightarrow> decode_text T (reply_text T r) = reply_lines T r"
  unfolding reply_text_def reply_lines_def plain_reply_def by (rule decode_message_text) auto

lemma walk_step:
  assumes "unpack_header T h = Inr hdr" "length h = BLOCK" "length t mod BLOCK = 0"
    "qh_blocks hdr = Some (1 + length t div BLOCK)" "case lim of None \<Rightarrow> True | Some l \<Rightarrow> length ms < l"
  shows "walk T lim (pre @ h @ t @ rest) (length pre) ms =
    walk T lim (pre @ h @ t @ rest) (length pre + BLOCK + length t)
      (ms @ [\<lparr>wk_header = hdr, wk_lines = decode_text T t, wk_offset = length pre, wk_text = t\<rparr>])"
proof -
  have n: "length t div BLOCK * BLOCK = length t"
    using assms(3) by (intro dvd_div_mult_self mod_0_imp_dvd)
  have "cut_bytes (length pre) (length pre + BLOCK) (pre @ h @ t @ rest) = h" using assms(2) by (simp add: cut_bytes_def)
  moreover have "cut_bytes (length pre + BLOCK) (length pre + (BLOCK + length t)) (pre @ h @ t @ rest) = t"
    using assms(2) by (simp add: cut_bytes_def)
  ultimately show ?thesis
    using assms by (subst walk.simps) (simp add: n Let_def add.assoc split: option.splits)
qed

lemma walk_replies:
  assumes "\<forall>r\<in>set rs. plain_reply T r" "ut_space T 32"
  shows "\<exists>b. build_replies T rs = Inr b \<and> (\<forall>pre ms. length ms + length rs \<le> l \<longrightarrow>
    walk T (Some l) (pre @ b) (length pre) ms = Inr (ms @ walked_replies T (length pre) rs, []))"
  using assms(1)
proof (induction rs)
  case Nil
  then show ?case by (simp add: walk.simps BLOCK_def)
next
  case (Cons r rs)
  then have r: "plain_reply T r" by simp
  obtain b where b: "build_replies T rs = Inr b" "\<And>pre ms. length ms + length rs \<le> l \<Longrightarrow>
    walk T (Some l) (pre @ b) (length pre) ms = Inr (ms @ walked_replies T (length pre) rs, [])"
    using Cons by auto
  obtain h where h: "pack_header (reply_header T r) = Inr h" "length h = BLOCK"
    "unpack_header T h = Inr (shown_header T (reply_header T r) (nat (or_conference r)))"
    using header_roundtrip[OF _ _ assms(2)] reply_header_ok[OF r] by blast
  let ?t = "reply_text T r"
  have blocks: "length ?t mod BLOCK = 0" by (simp add: reply_text_def encode_text_blocks)
  have count: "qh_blocks (shown_header T (reply_header T r) (nat (or_conference r))) = Some (1 + length ?t div BLOCK)"
    by (simp add: shown_header_def reply_header_def nat_add_distrib)
  have "walk T (Some l) (pre @ h @ ?t @ b) (length pre) ms = Inr (ms @ walked_replies T (length pre) (r # rs), [])"
    if "length ms + length (r # rs) \<le> l" for pre ms
  proof -
    have room: "length ms < l" using that by simp
    have w: "\<lparr>wk_header = shown_header T (reply_header T r) (nat (or_conference r)), wk_lines = decode_text T ?t,
        wk_offset = length pre, wk_text = ?t\<rparr> = walked_reply T (length pre) r"
      by (simp add: walked_reply_def reply_text_lines[OF r])
    have "walk T (Some l) ((pre @ h @ ?t) @ b) (length (pre @ h @ ?t)) (ms @ [walked_reply T (length pre) r]) =
        Inr ((ms @ [walked_reply T (length pre) r]) @ walked_replies T (length (pre @ h @ ?t)) rs, [])"
      by (rule b(2)) (use that in simp)
    then show ?thesis
      using walk_step[OF h(3,2) blocks count, where lim = "Some l" and ms = ms and pre = pre and rest = b] room h(2) unfolding w by (simp add: add.assoc)
  qed
  then show ?case using b(1) h(1) by auto
qed

section \<open>Messages as they are read\<close>

definition reply_body :: "qwktext \<Rightarrow> outgoing_reply \<Rightarrow> ustr" where
  "reply_body T r = join_with [10] (shown_lines T (or_body r))"

definition reply_read :: "qwktext \<Rightarrow> nat \<Rightarrow> outgoing_reply \<Rightarrow> rep_message" where
  "reply_read T i r =
     \<lparr>rm_index = i, rm_conference = nat (or_conference r), rm_to = or_to r, rm_subject = or_subject r,
      rm_body = reply_body T r, rm_reference = (if or_reference r = Some 0 then None else or_reference r),
      rm_private = or_private r, rm_claimed_from = or_sender r,
      rm_when = Some (to_minute (case or_when r of None \<Rightarrow> Y2000 | Some w \<Rightarrow> w)), rm_headers = [],
      rm_status = (if or_private r then 43 else 32)\<rparr>"

text \<open>Nothing in the body can be taken for a QWKE line: its first line is none, or QWKE lines and the blank
  line after them stand in front of it.\<close>

definition unmistakable :: "qwktext \<Rightarrow> outgoing_reply \<Rightarrow> bool" where
  "unmistakable T r \<longleftrightarrow> long_fields (or_to r) (or_sender r) (or_subject r) \<noteq> [] \<or>
     shown_lines T (or_body r) = [] \<or> qwke_match (hd (shown_lines T (or_body r))) = None"

lemma join_body_lines:
  assumes "\<forall>l\<in>set ls. cp437_text l" "ls = [] \<or> last ls \<noteq> []"
  shows "join_body ls = join_with [10] ls"
proof (cases ls rule: rev_cases)
  case (snoc xs l)
  then have l: "l \<noteq> []" "10 \<notin> set l"
    using assms by (auto simp: cp437_text_def plain_char_def qwk_control_def)
  have "last (join_with [10] ls) = last l" using l(1) by (cases "xs = []") (simp_all add: snoc join_with_snoc)
  then have "last (join_with [10] ls) \<noteq> 10" using l by (metis last_in_set)
  then show ?thesis by (simp add: join_body_def dropWhile_id hd_rev disj_commute)
qed (simp add: join_body_def)

lemma shown_lines_last: "shown_lines T b = [] \<or> last (shown_lines T b) \<noteq> []"
proof -
  let ?P = "\<lambda>l. py_strip (ut_space T) l = []" and ?r = "rev (split_on 10 (newline_breaks b))"
  have strip: "py_strip (ut_space T) (py_rstrip (ut_space T) l) = py_strip (ut_space T) l" for l
    by (rule py_strip_rstrip) simp
  have "dropWhile ?P ?r = [] \<or> \<not> ?P (hd (dropWhile ?P ?r))" using hd_dropWhile[of ?P ?r] by blast
  then have "body_lines T b = [] \<or> \<not> ?P (last (body_lines T b))" by (auto simp: body_lines_def last_rev)
  moreover have "?P l" if "py_rstrip (ut_space T) l = []" for l using strip[of l] that by simp
  ultimately show ?thesis by (auto simp: shown_lines_def last_map)
qed

lemma shown_lines_text: "\<forall>l\<in>set (body_lines T b). cp437_text l \<Longrightarrow> \<forall>l\<in>set (shown_lines T b). cp437_text l"
  using set_py_rstrip by (fastforce simp: shown_lines_def cp437_text_def)

lemma join_shown_lines:
  "\<forall>l\<in>set (body_lines T b). cp437_text l \<Longrightarrow> join_body (shown_lines T b) = join_with [10] (shown_lines T b)"
  using shown_lines_text shown_lines_last by (intro join_body_lines) auto

lemma long_field_values:
  assumes "plain_field T to" "plain_field T sender" "plain_field T subject" "ut_space T 32"
  defines "vals \<equiv> map (\<lambda>(n, v). (ascii_lower_text n, v)) (long_fields to sender subject)"
  shows "get_field vals (u ''to'') (py_strip (ut_space T) (take QWK_FIELD to)) = to"
    "get_field vals (u ''from'') (py_strip (ut_space T) (take QWK_FIELD sender)) = sender"
    "get_field vals (u ''subject'') (py_strip (ut_space T) (take QWK_FIELD subject)) = subject"
  using written_field[OF assms(1,4)] written_field[OF assms(2,4)] written_field[OF assms(3,4)]
  by (auto simp: vals_def long_fields_def get_field_def ascii_lower_text_def)

lemma shown_reply_header:
  "header_names (shown_header T (reply_header T r) n) =
    [(u ''to'', py_strip (ut_space T) (take QWK_FIELD (or_to r))),
     (u ''from'', py_strip (ut_space T) (take QWK_FIELD (or_sender r))),
     (u ''subject'', py_strip (ut_space T) (take QWK_FIELD (or_subject r)))]"
  by (simp add: header_names_def shown_header_def reply_header_def Let_def)

lemma no_utf8_flag: "\<not> header_flag T [] k"
  by (simp add: header_flag_def get_field_def ascii_lower_text_def)

lemma read_written_reply:
  assumes r: "plain_reply T r" "unmistakable T r" and sp: "ut_space T 32"
    and short: "utf8_length (reply_body T r) \<le> rl_body_bytes limits"
  shows "rep_message_of T utf8 limits [] i (walked_reply T off r) = Some (Inr (reply_read T i r))"
proof -
  have names: "plain_field T (or_to r)" "plain_field T (or_sender r)" "plain_field T (or_subject r)"
    using r(1) by (auto simp: plain_reply_def)
  have split: "split_qwke T (header_names (shown_header T (reply_header T r) (nat (or_conference r)))) (reply_lines T r) =
      (map (\<lambda>(n, v). (ascii_lower_text n, v)) (long_fields (or_to r) (or_sender r) (or_subject r)), shown_lines T (or_body r))"
    unfolding shown_reply_header reply_lines_def
    by (rule split_written[OF names refl]) (use r(2) in \<open>auto simp: unmistakable_def\<close>)
  have body: "join_body (shown_lines T (or_body r)) = reply_body T r"
    unfolding reply_body_def using r(1) by (intro join_shown_lines) (simp add: plain_reply_def)
  note gets = long_field_values[OF names sp]
  define h where "h = shown_header T (reply_header T r) (nat (or_conference r))"
  have h: "qh_active h" "qh_to h = py_strip (ut_space T) (take QWK_FIELD (or_to r))"
    "qh_sender h = py_strip (ut_space T) (take QWK_FIELD (or_sender r))"
    "qh_subject h = py_strip (ut_space T) (take QWK_FIELD (or_subject r))"
    "qh_reference h = (if or_reference r = Some 0 then None else or_reference r)"
    "qh_when h = Some (to_minute (case or_when r of None \<Rightarrow> Y2000 | Some w \<Rightarrow> w))"
    "qh_status h = (if or_private r then 43 else 32)" "conference_of h = nat (or_conference r)"
    by (simp_all add: h_def shown_header_def reply_header_def conference_of_def Let_def)
  have secret: "header_private h = or_private r" by (simp add: header_private_def h(7) PRIVATE_FLAGS_def)
  have w: "wk_header (walked_reply T off r) = h" "wk_lines (walked_reply T off r) = reply_lines T r"
    by (simp_all add: walked_reply_def h_def)
  show ?thesis
    using short gets unfolding rep_message_of_def Let_def w
    by (simp add: no_utf8_flag h secret split[folded h_def] body reply_read_def not_less)
qed

lemma read_walked_replies:
  assumes "\<And>r i off. r \<in> set rs \<Longrightarrow> rep_message_of T utf8 limits [] i (walked_reply T off r) = Some (Inr (f i r))"
  shows "map (\<lambda>(i, w). rep_message_of T utf8 limits [] (i + 1) w) (enumerate k (walked_replies T off rs)) =
    map (\<lambda>(i, r). Some (Inr (f (i + 1) r))) (enumerate k rs)"
  using assms by (induction rs arbitrary: k off) auto

section \<open>Whole packets\<close>

definition bbs_id_ok :: "ustr \<Rightarrow> bool" where
  "bbs_id_ok s \<longleftrightarrow> s \<noteq> [] \<and> length s \<le> 8 \<and> list_all (\<lambda>c. is_digit c \<or> ascii_letter c) s"

lemma bbs_id_block:
  assumes "bbs_id_ok s"
  defines "ID \<equiv> map upper_char s"
  shows "valid_bbs_id ID" "length (ljust BLOCK (ascii_bytes ID)) = BLOCK"
    "map upper_char (py_strip (\<lambda>c. c = 32 \<or> c = 0) (ascii_decode (take 8 (ljust BLOCK (ascii_bytes ID))))) = ID"
proof -
  have chars: "\<forall>c\<in>set ID. (is_digit c \<or> 65 \<le> c \<and> c \<le> 90) \<and> c < 128 \<and> upper_char c = c \<and> c \<noteq> 32 \<and> c \<noteq> 0 \<and> c \<noteq> 10"
    using assms(1) by (fastforce simp: ID_def bbs_id_ok_def list_all_iff is_digit_def ascii_letter_def upper_char_def)
  have len: "ID \<noteq> []" "length ID \<le> 8" using assms(1) by (auto simp: ID_def bbs_id_ok_def)
  have "last ID \<noteq> 10" "hd ID \<noteq> 32" "hd ID \<noteq> 0" "last ID \<noteq> 32" "last ID \<noteq> 0"
    using len(1) chars hd_in_set last_in_set by blast+
  note ends = this
  show "valid_bbs_id ID" using len chars ends by (simp add: valid_bbs_id_def list_all_iff)
  show l: "length (ljust BLOCK (ascii_bytes ID)) = BLOCK" using len by (simp add: length_ljust BLOCK_def)
  have "take 8 (ljust BLOCK (ascii_bytes ID)) = ascii_bytes ID @ replicate (8 - length ID) 32"
    using len(2) by (simp add: ljust_def BLOCK_def min_def)
  then have "ascii_decode (take 8 (ljust BLOCK (ascii_bytes ID))) = ID @ replicate (8 - length ID) 32"
    using decode_ascii_bytes[of ID] chars by (simp add: ascii_decode_def)
  moreover have "py_strip (\<lambda>c. c = 32 \<or> c = 0) (ID @ replicate (8 - length ID) 32) = ID"
    using len(1) ends by (subst py_strip_tail) (auto intro!: py_strip_id)
  ultimately show "map upper_char (py_strip (\<lambda>c. c = 32 \<or> c = 0) (ascii_decode (take 8 (ljust BLOCK (ascii_bytes ID))))) = ID"
    using chars by (auto intro!: map_idI)
qed

definition todoor_of :: "qwktext \<Rightarrow> bytes option \<Rightarrow> (nat list \<times> nat list) option" where
  "todoor_of T d = (case d of None \<Rightarrow> Some ([], []) | Some d \<Rightarrow> if d = [] then Some ([], []) else todoor T (from_cp437 d))"

definition packet_of :: "(nat \<Rightarrow> outgoing_reply \<Rightarrow> rep_message) \<Rightarrow> outgoing_reply list \<Rightarrow> nat list \<Rightarrow> nat list \<Rightarrow> rep_packet" where
  "packet_of f rs dropped added =
     \<lparr>rp_messages = map (\<lambda>(i, r). f (i + 1) r) (enumerate 0 rs), rp_problems = [], rp_dropped = dropped, rp_added = added\<rparr>"

lemma map_filter_Inr: "List.map_filter (\<lambda>r. case r of Some (Inr m) \<Rightarrow> Some m | _ \<Rightarrow> None) (map (\<lambda>(i, r). Some (Inr (f i r))) xs) =
    map (\<lambda>(i, r). f i r) xs"
  by (induction xs) (auto simp: List.map_filter_simps)

lemma map_filter_Inl: "List.map_filter (\<lambda>r. case r of Some (Inl p) \<Rightarrow> Some p | _ \<Rightarrow> None) (map (\<lambda>(i, r). Some (Inr (f i r))) xs) = []"
  by (induction xs) (auto simp: List.map_filter_simps)

lemma parse_built:
  assumes "\<forall>r\<in>set rs. plain_reply T r" "ut_space T 32" "bbs_id_ok bbs_id" "length rs \<le> rl_messages limits"
    and read: "\<And>r i off. r \<in> set rs \<Longrightarrow> rep_message_of T utf8 limits [] i (walked_reply T off r) = Some (Inr (f i r))"
  shows "\<exists>d. build_msg T bbs_id rs = Inr d \<and> (\<forall>door. parse_rep T utf8 strict bbs_id limits d door None =
    (case todoor_of T door of None \<Rightarrow> Inl Rep_Value_Error | Some (dropped, added) \<Rightarrow> Inr (packet_of f rs dropped added)))"
proof -
  let ?first = "ljust BLOCK (ascii_bytes (map upper_char bbs_id))"
  note id = bbs_id_block[OF assms(3)]
  obtain b where b: "build_replies T rs = Inr b" "\<And>pre ms. length ms + length rs \<le> rl_messages limits \<Longrightarrow>
    walk T (Some (rl_messages limits)) (pre @ b) (length pre) ms = Inr (ms @ walked_replies T (length pre) rs, [])"
    using walk_replies[OF assms(1,2)] by blast
  have "walk T (Some (rl_messages limits)) (?first @ b) BLOCK [] = Inr (walked_replies T BLOCK rs, [])"
    using b(2)[of "[]" ?first] assms(4) unfolding id(2) by simp
  then have parsed: "parse_messages T (Some (rl_messages limits)) (?first @ b) = Inr (?first, walked_replies T BLOCK rs, [])"
    using id(2) by (simp add: parse_messages_def)
  have msgs: "map (\<lambda>(i, w). rep_message_of T utf8 limits [] (i + 1) w) (enumerate 0 (walked_replies T BLOCK rs)) =
      map (\<lambda>(i, r). Some (Inr (f (i + 1) r))) (enumerate 0 rs)"
    by (rule read_walked_replies) (rule read)
  have "parse_rep T utf8 strict bbs_id limits (?first @ b) door None =
      (case todoor_of T door of None \<Rightarrow> Inl Rep_Value_Error | Some (dropped, added) \<Rightarrow> Inr (packet_of f rs dropped added))" for door
    unfolding parse_rep_def Let_def option.case parsed sum.case prod.case id(3) msgs map_filter_Inr map_filter_Inl
    using id(1) by (simp add: todoor_of_def packet_of_def split: option.split)
  then show ?thesis using b(1) by (intro exI[of _ "?first @ b"]) (simp add: build_msg_def)
qed

section \<open>What a reply packet can carry\<close>

definition clean_text :: "ustr \<Rightarrow> bool" where
  "clean_text s \<longleftrightarrow> (\<forall>c\<in>set s. \<not> qwk_control c)"

lemma clean_qwk_clean_line: "clean_text (qwk_clean_line s)"
  by (simp add: clean_text_def qwk_clean_line_def)

text \<open>The pattern stops at DEL: the C1 controls, which include the one-character CSI U+009B, pass.\<close>

lemma c1_controls_pass: "\<forall>c\<in>set s. 128 \<le> c \<and> c \<le> 159 \<Longrightarrow> qwk_clean_line s = s"
  by (subgoal_tac "1 \<notin> set s") (auto simp: qwk_clean_line_def drop_ctrl_a_id qwk_control_def intro!: filter_True)

lemma clean_subset: "set t \<subseteq> set s \<Longrightarrow> clean_text s \<Longrightarrow> clean_text t"
  by (auto simp: clean_text_def)

lemma clean_field: "clean_text (read_qwk_field T d)"
  unfolding read_qwk_field_def by (rule clean_subset[OF set_py_strip clean_qwk_clean_line])

lemma clean_decode: "l \<in> set (decode_text T d) \<Longrightarrow> clean_text l"
  "l \<in> set (decode_text_utf8 T utf8 d) \<Longrightarrow> clean_text l"
  by (auto simp: decode_text_def decode_text_utf8_def decode_line_def Let_def split: if_splits
      intro!: clean_subset[OF set_py_rstrip clean_qwk_clean_line])

lemma clean_qwke_match:
  assumes "qwke_match l = Some (n, v)" "clean_text l"
  shows "clean_text v"
proof -
  have d: "set (dropWhile P l) \<subseteq> set l" for P using set_dropWhileD by fast
  have t: "set (tl xs) \<subseteq> set xs" for xs :: ustr by (cases xs) auto
  have b: "set (butlast xs) \<subseteq> set xs" for xs :: ustr by (auto dest: in_set_butlastD)
  let ?r = "dropWhile (\<lambda>c. c \<noteq> 58) l"
  have "v \<in> {tl ?r, tl (tl ?r), butlast (tl ?r), butlast (tl (tl ?r))}"
    using assms(1) unfolding qwke_match_def Let_def by (simp split: if_splits)
  then have "set v \<subseteq> set l" using d[of "\<lambda>c. c \<noteq> 58"] t b by (elim insertE emptyE) (metis subset_trans)+
  then show ?thesis using assms(2) by (rule clean_subset)
qed

lemma clean_take_qwke:
  assumes "take_qwke T header k vals ls = (vals', rest)" "\<forall>l\<in>set ls. clean_text l" "\<forall>(n, v)\<in>set vals. clean_text v"
  shows "(\<forall>(n, v)\<in>set vals'. clean_text v) \<and> (\<forall>l\<in>set rest. clean_text l)"
  using assms
proof (induction T header k vals ls arbitrary: vals' rest rule: take_qwke.induct)
  case (3 T header n vals line lines)
  show ?case
  proof (cases "qwke_match line")
    case (Some nv)
    obtain m v where nv: "qwke_match line = Some (m, v)" using Some by (cases nv) auto
    let ?n = "ascii_lower_text m" and ?v = "py_strip (ut_space T) v"
    let ?stop = "map_of vals ?n \<noteq> None \<or> ?v = [] \<or> \<not> starts_with (casefold T ?v) (casefold T (get_field header ?n []))"
    have v: "clean_text ?v"
      using clean_subset[OF set_py_strip clean_qwke_match[OF nv]] "3.prems"(2) by simp
    have eq: "take_qwke T header (Suc n) vals (line # lines) =
        (if ?stop then (vals, line # lines) else take_qwke T header n (vals @ [(?n, ?v)]) lines)"
      by (simp only: take_qwke.simps nv option.case prod.case Let_def)
    show ?thesis
    proof (cases ?stop)
      case True
      then have "vals' = vals" "rest = line # lines" using "3.prems"(1) unfolding eq by simp_all
      then show ?thesis using "3.prems"(2,3) by simp
    next
      case False
      then have "take_qwke T header n (vals @ [(?n, ?v)]) lines = (vals', rest)" using "3.prems"(1) unfolding eq by (simp only: if_False)
      then show ?thesis using "3.prems"(2,3) v by (intro "3.IH"[OF nv refl refl refl refl False]) auto
    qed
  qed (use 3 in auto)
qed auto

lemma clean_get_field: "\<forall>(n, v)\<in>set m. clean_text v \<Longrightarrow> clean_text d \<Longrightarrow> clean_text (get_field m k d)"
  by (auto simp: get_field_def split: option.split dest!: map_of_SomeD)

definition clean_header :: "qwk_header \<Rightarrow> bool" where
  "clean_header h \<longleftrightarrow> clean_text (qh_to h) \<and> clean_text (qh_sender h) \<and> clean_text (qh_subject h)"

definition clean_walked :: "walked \<Rightarrow> bool" where
  "clean_walked w \<longleftrightarrow> clean_header (wk_header w) \<and> (\<forall>l\<in>set (wk_lines w). clean_text l)"

lemma clean_unpacked: "unpack_header T b = Inr h \<Longrightarrow> clean_header h"
  by (auto simp: unpack_header_def Let_def clean_header_def clean_field split: if_splits)

lemma walk_ok:
  "walk T limit d off ms = Inr (out, problems) \<Longrightarrow> \<forall>w\<in>set ms. clean_walked w \<Longrightarrow>
    (\<forall>w\<in>set out. clean_walked w) \<and> (\<forall>l. limit = Some l \<longrightarrow> length ms \<le> l \<longrightarrow> length out \<le> l)"
proof (induction T limit d off ms arbitrary: out problems rule: walk.induct)
  case (1 T limit d off ms)
  let ?block = "cut_bytes off (off + BLOCK) d"
  show ?case
  proof (cases "length d < off + BLOCK \<or> (case limit of None \<Rightarrow> False | Some l \<Rightarrow> l \<le> length ms)")
    case True
    then show ?thesis using "1.prems" by (subst (asm) walk.simps) (auto split: if_splits)
  next
    case go: False
    then obtain h where h: "unpack_header T ?block = Inr h"
      using "1.prems"(1) by (subst (asm) walk.simps) (auto simp: Let_def split: sum.splits)
    show ?thesis
    proof (cases "case qh_blocks h of None \<Rightarrow> True | Some n \<Rightarrow> n = 0 \<or> length d < off + n * BLOCK")
      case True
      then show ?thesis
        using "1.prems" go h by (subst (asm) walk.simps) (auto simp: Let_def split: option.splits if_splits)
    next
      case False
      then obtain n where n: "qh_blocks h = Some n" "n \<noteq> 0" "\<not> length d < off + n * BLOCK"
        by (auto split: option.splits)
      let ?t = "cut_bytes (off + BLOCK) (off + n * BLOCK) d"
      let ?w = "\<lparr>wk_header = h, wk_lines = decode_text T ?t, wk_offset = off, wk_text = ?t\<rparr>"
      have go1: "\<not> length d < off + BLOCK" "\<not> (case limit of None \<Rightarrow> False | Some l \<Rightarrow> l \<le> length ms)" using go by auto
      have w: "walk T limit d (off + n * BLOCK) (ms @ [?w]) = Inr (out, problems)"
        using "1.prems"(1) go1 h n by (subst (asm) walk.simps) (simp add: Let_def)
      have "clean_walked ?w" using clean_unpacked[OF h] clean_decode(1) by (simp add: clean_walked_def)
      then have "(\<forall>w\<in>set out. clean_walked w) \<and> (\<forall>l. limit = Some l \<longrightarrow> length (ms @ [?w]) \<le> l \<longrightarrow> length out \<le> l)"
        using "1.prems"(2) by (intro "1.IH"[OF go1 refl refl h n refl w]) auto
      then show ?thesis using go1(2) by auto
    qed
  qed
qed

definition clean_message :: "rep_message \<Rightarrow> bool" where
  "clean_message m \<longleftrightarrow> clean_text (rm_to m) \<and> clean_text (rm_subject m) \<and> clean_text (rm_claimed_from m) \<and>
     (\<forall>c\<in>set (rm_body m). c = 10 \<or> \<not> qwk_control c)"

lemma set_join_with: "c \<in> set (join_with [10] ls) \<Longrightarrow> c = 10 \<or> (\<exists>l\<in>set ls. c \<in> set l)"
  by (induction ls rule: induct_list012) auto

lemma clean_read_message:
  assumes "rep_message_of T utf8 limits sections i w = Some (Inr m)" "clean_walked w"
  shows "clean_message m \<and> utf8_length (rm_body m) \<le> rl_body_bytes limits"
proof -
  define lines where "lines = (if header_flag T (case map_of sections (wk_offset w) of None \<Rightarrow> [] | Some m \<Rightarrow> m) (u ''utf8'')
    then decode_text_utf8 T utf8 (wk_text w) else wk_lines w)"
  have lines: "\<forall>l\<in>set lines. clean_text l"
    using assms(2) clean_decode(2) by (auto simp: lines_def clean_walked_def)
  obtain vals rest where s: "split_qwke T (header_names (wk_header w)) lines = (vals, rest)" by fastforce
  obtain rest' where t: "take_qwke T (header_names (wk_header w)) 3 [] lines = (vals, rest')" "set rest \<subseteq> set rest'"
    using s by (auto simp: split_qwke_def split: prod.splits if_splits) (metis list.set_sel(2) subsetI tl_Nil)+
  have vals: "\<forall>(n, v)\<in>set vals. clean_text v" "\<forall>l\<in>set rest. clean_text l"
    using clean_take_qwke[OF t(1) lines] t(2) by auto
  have body: "c = 10 \<or> \<not> qwk_control c" if "c \<in> set (join_body rest)" for c
  proof -
    have "c \<in> set (join_with [10] rest)" using that unfolding join_body_def by (metis set_rev set_dropWhileD)
    then show ?thesis using set_join_with[of c rest] vals(2) by (auto simp: clean_text_def)
  qed
  have h: "clean_header (wk_header w)" using assms(2) by (simp add: clean_walked_def)
  let ?h = "wk_header w"
  have m: "rm_to m = get_field vals (u ''to'') (qh_to ?h)" "rm_subject m = get_field vals (u ''subject'') (qh_subject ?h)"
    "rm_claimed_from m = get_field vals (u ''from'') (qh_sender ?h)" "rm_body m = join_body rest"
    "utf8_length (join_body rest) \<le> rl_body_bytes limits"
    using assms(1) unfolding rep_message_of_def Let_def lines_def[symmetric] s prod.case
    by (auto simp: not_less split: if_splits)
  show ?thesis
    using h clean_get_field[OF vals(1)] body m(5) unfolding clean_message_def m clean_header_def by blast
qed

lemma parse_messages_ok:
  assumes "parse_messages T (Some l) d = Inr (first, out, problems)"
  shows "(\<forall>w\<in>set out. clean_walked w) \<and> length out \<le> l"
proof -
  have "walk T (Some l) d BLOCK [] = Inr (out, problems)"
    using assms by (auto simp: parse_messages_def split: if_splits sum.splits)
  from walk_ok[OF this] show ?thesis by simp
qed

lemma parse_rep_ok:
  assumes "parse_rep T utf8 strict bbs_id limits d door headers = Inr p"
  obtains first out problems sections where
    "parse_messages T (Some (rl_messages limits)) d = Inr (first, out, problems)"
    "rp_messages p = List.map_filter (\<lambda>r. case r of Some (Inr m) \<Rightarrow> Some m | _ \<Rightarrow> None)
      (map (\<lambda>(i, w). rep_message_of T utf8 limits sections (i + 1) w) (enumerate 0 out))"
  using assms unfolding parse_rep_def Let_def by (auto split: if_splits sum.splits option.splits)

lemma set_read_messages:
  "m \<in> set (List.map_filter (\<lambda>r. case r of Some (Inr m) \<Rightarrow> Some m | _ \<Rightarrow> None) rs) \<Longrightarrow> Some (Inr m) \<in> set rs"
  by (induction rs) (auto simp: List.map_filter_simps split: option.splits sum.splits)

text \<open>
  C26: Whatever a reply packet holds, everything \<^verbatim>\<open>parse_rep\<close> accepts is within its limits and rid of what
  \<^verbatim>\<open>clean_line\<close> drops: at most \<^verbatim>\<open>limits.messages\<close> messages, no body of more than \<^verbatim>\<open>limits.body_bytes\<close> bytes of
  UTF-8, and in every name, subject and body none of the characters U+0000 to U+0008, U+000A to U+001F
  and U+007F, but for the newlines between a body's lines. So no ESC is left. (The C1 controls U+0080 to U+009F
  are not among them: CP437 has none, but a message marked UTF-8 can carry them.)
\<close>

theorem reply_packet_is_bounded_and_clean:
  assumes "parse_rep T utf8 strict bbs_id limits d door headers = Inr p"
  shows "length (rp_messages p) \<le> rl_messages limits \<and>
    (\<forall>m\<in>set (rp_messages p). clean_message m \<and> utf8_length (rm_body m) \<le> rl_body_bytes limits)"
proof (intro conjI ballI)
  obtain first out problems sections where w: "parse_messages T (Some (rl_messages limits)) d = Inr (first, out, problems)"
    "rp_messages p = List.map_filter (\<lambda>r. case r of Some (Inr m) \<Rightarrow> Some m | _ \<Rightarrow> None)
      (map (\<lambda>(i, w). rep_message_of T utf8 limits sections (i + 1) w) (enumerate 0 out))"
    using parse_rep_ok[OF assms] .
  note ok = parse_messages_ok[OF w(1)]
  have "length (rp_messages p) \<le> length out"
    unfolding w(2) List.map_filter_def using length_filter_le[of _ "map _ (enumerate 0 out)"] by simp
  then show "length (rp_messages p) \<le> rl_messages limits" using ok by simp
  fix m
  assume "m \<in> set (rp_messages p)"
  then have "Some (Inr m) \<in> set (map (\<lambda>(i, w). rep_message_of T utf8 limits sections (i + 1) w) (enumerate 0 out))"
    unfolding w(2) by (rule set_read_messages)
  then obtain i w' where m: "w' \<in> set out" "rep_message_of T utf8 limits sections (i + 1) w' = Some (Inr m)"
    by (force simp: in_set_enumerate_eq)
  then show "clean_message m" "utf8_length (rm_body m) \<le> rl_body_bytes limits" using clean_read_message ok by blast+
qed

lemma written_packet_read:
  assumes "ut_space T 32" "bbs_id_ok bbs_id" "length rs \<le> rl_messages limits"
    "\<forall>r\<in>set rs. plain_reply T r \<and> unmistakable T r \<and> utf8_length (reply_body T r) \<le> rl_body_bytes limits"
  shows "\<exists>d. build_msg T bbs_id rs = Inr d \<and> (\<forall>door. parse_rep T utf8 strict bbs_id limits d door None =
      (case todoor_of T door of None \<Rightarrow> Inl Rep_Value_Error | Some (dropped, added) \<Rightarrow> Inr (packet_of (reply_read T) rs dropped added)))"
proof -
  have plain: "\<forall>r\<in>set rs. plain_reply T r" using assms(4) by simp
  show ?thesis
    using parse_built[OF plain assms(1-3), where f = "reply_read T"] read_written_reply[OF _ _ assms(1)] assms(4) by blast
qed

lemma laws_space: "unicode_laws (unitext.truncate T) \<Longrightarrow> ut_space T 32"
  by (simp add: unicode_laws_def unitext.truncate_def ascii_space_def)


section \<open>A first line that names the addressee\<close>

definition after_blank :: "qwktext \<Rightarrow> ustr list \<Rightarrow> ustr list" where
  "after_blank T ls = (if ls \<noteq> [] \<and> py_strip (ut_space T) (hd ls) = [] then tl ls else ls)"

lemma split_first_line:
  assumes "plain_field T v" "v \<noteq> []" "starts_with (casefold T v) (casefold T (get_field header (u ''to'') []))"
    "ls = [] \<or> qwke_match (hd ls) = None"
  shows "split_qwke T header ((u ''To'' @ u '': '' @ v) # ls) = ([(u ''to'', v)], after_blank T ls)"
proof -
  have m: "qwke_match (u ''To'' @ u '': '' @ v) = Some (u ''To'', v)"
    by (rule qwke_match_line[OF _ assms(1,2)]) (simp add: field_name_def)
  have lower: "ascii_lower_text (u ''To'') = u ''to''" by (simp add: ascii_lower_text_def)
  have strip: "py_strip (ut_space T) v = v" using assms(1,2) by (intro py_strip_id) (auto simp: plain_field_def)
  have three: "(3::nat) = Suc 2" by simp
  have "take_qwke T header (Suc 2) [] ((u ''To'' @ u '': '' @ v) # ls) = take_qwke T header 2 [(u ''to'', v)] ls"
    unfolding take_qwke.simps(3) m option.case prod.case Let_def lower strip
    using assms(2,3) by (simp only: map_of.simps simp_thms if_False append_Nil)
  then have "take_qwke T header 3 [] ((u ''To'' @ u '': '' @ v) # ls) = ([(u ''to'', v)], ls)"
    unfolding three take_qwke_stops[OF assms(4)] .
  then show ?thesis by (auto simp: split_qwke_def after_blank_def)
qed

text \<open>
  C27: A reply is delivered to somebody else when its text begins so: its names fit the header, so no QWKE
  line is written, and the text's first line is \<open>To:\<close> and a name that begins with the addressee's. The
  reader takes that line for the long form of the address; the message goes to the name in the text (to
  Bobby for a message to Bob), and the line is gone from the body.
\<close>

theorem first_line_readdresses_reply:
  assumes "unicode_laws (unitext.truncate T)" "bbs_id_ok bbs_id" "1 \<le> rl_messages limits" "plain_reply T r"
    and fits: "long_fields (or_to r) (or_sender r) (or_subject r) = []"
    and says: "shown_lines T (or_body r) = (u ''To'' @ u '': '' @ v) # ls"
    and v: "plain_field T v" "v \<noteq> []" "starts_with (casefold T v) (casefold T (or_to r))"
    and rest: "ls = [] \<or> qwke_match (hd ls) = None"
    and short: "utf8_length (join_body (after_blank T ls)) \<le> rl_body_bytes limits"
  shows "\<exists>d. build_msg T bbs_id [r] = Inr d \<and>
    parse_rep T utf8 strict bbs_id limits d None None =
      Inr (packet_of (\<lambda>i r. (reply_read T i r)\<lparr>rm_to := v, rm_body := join_body (after_blank T ls)\<rparr>) [r] [] [])"
proof -
  note sp = laws_space[OF assms(1)]
  have names: "plain_field T (or_to r)" "plain_field T (or_sender r)" "plain_field T (or_subject r)"
    using assms(4) by (auto simp: plain_reply_def)
  have short_names: "fits (or_to r) QWK_FIELD" "fits (or_sender r) QWK_FIELD" "fits (or_subject r) QWK_FIELD"
    using fits by (auto simp: long_fields_def split: if_splits)
  note same = written_field[OF names(1) sp short_names(1)] written_field[OF names(2) sp short_names(2)]
    written_field[OF names(3) sp short_names(3)]
  define h where "h = shown_header T (reply_header T r) (nat (or_conference r))"
  have h: "qh_active h" "qh_sender h = or_sender r" "qh_subject h = or_subject r"
    "qh_reference h = (if or_reference r = Some 0 then None else or_reference r)"
    "qh_when h = Some (to_minute (case or_when r of None \<Rightarrow> Y2000 | Some w \<Rightarrow> w))"
    "qh_status h = (if or_private r then 43 else 32)" "conference_of h = nat (or_conference r)"
    by (simp_all add: h_def shown_header_def reply_header_def conference_of_def Let_def same)
  have secret: "header_private h = or_private r" by (simp add: header_private_def h(6) PRIVATE_FLAGS_def)
  have header: "get_field (header_names h) (u ''to'') [] = or_to r"
    unfolding h_def shown_reply_header by (simp add: get_field_def same)
  have lines: "reply_lines T r = (u ''To'' @ u '': '' @ v) # ls"
    using short_names by (simp add: reply_lines_def says qwke_lines_def)
  have split: "split_qwke T (header_names h) (reply_lines T r) = ([(u ''to'', v)], after_blank T ls)"
    unfolding lines by (rule split_first_line) (use v rest header in auto)
  have "rep_message_of T utf8 limits [] i (walked_reply T off r) =
      Some (Inr ((reply_read T i r)\<lparr>rm_to := v, rm_body := join_body (after_blank T ls)\<rparr>))" for i off
  proof -
    have w: "wk_header (walked_reply T off r) = h" "wk_lines (walked_reply T off r) = reply_lines T r"
      by (simp_all add: walked_reply_def h_def)
    show ?thesis
      unfolding rep_message_of_def Let_def w
      using short by (simp add: no_utf8_flag split get_field_def h secret reply_read_def not_less)
  qed
  note read = this
  have "length [r] \<le> rl_messages limits" using assms(3) by simp
  then obtain d where "build_msg T bbs_id [r] = Inr d" "\<forall>door. parse_rep T utf8 strict bbs_id limits d door None =
      (case todoor_of T door of None \<Rightarrow> Inl Rep_Value_Error | Some (dropped, added) \<Rightarrow>
        Inr (packet_of (\<lambda>i r. (reply_read T i r)\<lparr>rm_to := v, rm_body := join_body (after_blank T ls)\<rparr>) [r] dropped added))"
    using parse_built[of "[r]" T bbs_id limits utf8 "\<lambda>i r. (reply_read T i r)\<lparr>rm_to := v, rm_body := join_body (after_blank T ls)\<rparr>"]
      sp assms(2,4) read by fastforce
  then show ?thesis by (auto simp: todoor_of_def)
qed

section \<open>A digit that is no decimal digit\<close>

text \<open>The code page's byte 0xFD is the superscript two: \<open>isdigit\<close> holds of it, \<open>int\<close> raises.\<close>

definition superscript_two :: "qwktext \<Rightarrow> bool" where
  "superscript_two T \<longleftrightarrow> unicode_laws (unitext.truncate T) \<and> ut_isdigit T 178 \<and> ut_decimal T 178 = None \<and> \<not> ut_space T 178"

lemma superscript_int:
  assumes "superscript_two T"
  shows "py_isdigit (unitext.truncate T) [178]" "py_int (unitext.truncate T) [178] = None" "ut_space T 32"
  using assms by (auto simp: superscript_two_def py_isdigit_def py_int_def unitext.truncate_def unicode_laws_def ascii_space_def)

lemma cp437_superscript: "cp437_char 0xFD = 178"
  by (simp add: cp437_char_def CP437_UPPER_def)

lemma todoor_superscript:
  assumes "superscript_two T" "\<not> ut_space T 68"
  shows "todoor T [65, 82, 69, 65, 32, 178, 32, 68] = None"
proof -
  have sp: "\<not> ut_space T 65" "\<not> ut_space T 82" "\<not> ut_space T 69" "\<not> ut_space T 178" "ut_space T 32"
    using assms(1) by (auto simp: superscript_two_def unicode_laws_def unitext.truncate_def ascii_space_def)
  have "py_words (ut_space T) (join_with [32] [[65, 82, 69, 65], [178], [68]]) = [[65, 82, 69, 65], [178], [68]]"
    by (rule py_words_join) (use sp assms(2) in auto)
  then have "py_words (ut_space T) [65, 82, 69, 65, 32, 178, 32, 68] = [[65, 82, 69, 65], [178], [68]]" by simp
  moreover have "splitlines [65, 82, 69, 65, 32, 178, 32, 68] = [[65, 82, 69, 65, 32, 178, 32, 68]]"
    by (simp add: line_break_def)
  ultimately show ?thesis
    using superscript_int[OF assms(1)] by (simp add: todoor_def upper_char_def)
qed

text \<open>
  One line of \<^verbatim>\<open>TODOOR.EXT\<close> whose conference number is a superscript two makes \<^verbatim>\<open>parse_rep\<close> raise
  a plain \<^verbatim>\<open>ValueError\<close>, not \<^verbatim>\<open>RepError\<close>, although every message of the packet can be read: the line is
  neither skipped nor reported.
\<close>

theorem superscript_conference_loses_replies:
  assumes "superscript_two T" "bbs_id_ok bbs_id" "length rs \<le> rl_messages limits"
    "\<forall>r\<in>set rs. plain_reply T r \<and> unmistakable T r \<and> utf8_length (reply_body T r) \<le> rl_body_bytes limits"
  shows "\<exists>d. build_msg T bbs_id rs = Inr d \<and>
    parse_rep T utf8 strict bbs_id limits d None None = Inr (packet_of (reply_read T) rs [] []) \<and>
    parse_rep T utf8 strict bbs_id limits d (Some [65, 82, 69, 65, 32, 0xFD, 32, 68]) None = Inl Rep_Value_Error"
proof -
  have sp: "ut_space T 32" "\<not> ut_space T 68"
    using assms(1) by (auto simp: superscript_two_def unicode_laws_def unitext.truncate_def ascii_space_def)
  obtain d where d: "build_msg T bbs_id rs = Inr d" "\<And>door. parse_rep T utf8 strict bbs_id limits d door None =
      (case todoor_of T door of None \<Rightarrow> Inl Rep_Value_Error | Some (dropped, added) \<Rightarrow> Inr (packet_of (reply_read T) rs dropped added))"
    using written_packet_read[OF sp(1) assms(2-4), of utf8 strict] by blast
  have "from_cp437 [65, 82, 69, 65, 32, 0xFD, 32, 68] = [65, 82, 69, 65, 32, 178, 32, 68]"
    unfolding from_cp437_def list.map cp437_superscript by (simp add: cp437_char_def)
  then have "todoor_of T (Some [65, 82, 69, 65, 32, 0xFD, 32, 68]) = None"
    using todoor_superscript[OF assms(1) sp(2)] by (simp add: todoor_of_def)
  then show ?thesis using d by (auto simp: todoor_of_def)
qed

text \<open>
  A hub packet whose \<^verbatim>\<open>CONTROL.DAT\<close> gives a conference the number superscript two is neither tossed nor
  held: \<^verbatim>\<open>read_packet\<close> raises a \<^verbatim>\<open>ValueError\<close> that the handler of \<^verbatim>\<open>toss_hub_packet\<close> does not name, so the
  exception leaves it.
\<close>

theorem unreadable_hub_packet_escapes:
  assumes "superscript_two T" "crlf_lines (from_cp437 c) = front @ [[48], [178], name] @ rest" "length front = 10"
  shows "toss_hub_packet T utf8 strict hub_id (Some c) (Some d) None headers = Raises Value_Error"
proof -
  let ?lines = "front @ [[48], [178], name] @ rest"
  have laws: "unicode_laws (unitext.truncate T)" and sp: "\<not> ut_space T 48" "\<not> ut_space T 178"
    using assms(1) by (auto simp: superscript_two_def unicode_laws_def unitext.truncate_def ascii_space_def is_digit_def)
  have strip: "py_strip (ut_space T) [48] = [48]" "py_strip (ut_space T) [178] = [178]" using sp by (auto intro: py_strip_id)
  have zero: "ut_decimal (unitext.truncate T) 48 = Some 0" using laws by (simp add: unicode_laws_def is_digit_def)
  then have "py_int_word (unitext.truncate T) [48] = Some 0"
    by (simp add: py_int_word_def py_int_def undec_in_def INT_MAX_DIGITS_def)
  moreover have "?lines ! 10 = [48]" "drop 11 ?lines = [178] # name # rest" "13 \<le> length ?lines"
    using assms(3) by (simp_all add: nth_append)
  moreover have "control_conferences T [] (Suc 0) ([178] # name # rest) = Inl Value_Error"
    using superscript_int[OF assms(1)] strip(2) by simp
  ultimately have "read_control T c None = Inl Value_Error"
    unfolding read_control_def assms(2) Let_def by (simp add: strip(1))
  then show ?thesis by (simp add: toss_hub_packet_def read_packet_def)
qed

section \<open>Concrete packets\<close>

definition sample_qwk :: qwktext where
  "sample_qwk = \<lparr>ut_space = ascii_space, ut_isdigit = (\<lambda>c. is_digit c \<or> c = 178),
     ut_decimal = (\<lambda>c. if is_digit c then Some (c - 48) else None),
     ut_casefold = (\<lambda>c. [lower_char c]), ut_upper_char = (\<lambda>c. [upper_char c])\<rparr>"

lemma sample_tables: "unitext.truncate sample_qwk = small_tables"
  by (simp add: sample_qwk_def small_tables_def unitext.truncate_def)

definition sample_reply :: outgoing_reply where
  "sample_reply = \<lparr>or_conference = 7, or_to = u ''Bartholomew Featherstonehaugh'', or_sender = u ''Ann'',
     or_subject = u ''Hi'', or_body = u ''To: all  '' @ [13, 10] @ u ''See you'' @ [10], or_reference = Some 12,
     or_private = True, or_when = Some (Y2000\<lparr>dt_second := 42\<rparr>), or_tagline = False\<rparr>"

definition short_reply :: outgoing_reply where
  "short_reply = sample_reply\<lparr>or_to := u ''Bob'', or_body := u ''To: Bobby''\<rparr>"

definition sample_limits :: rep_limits where
  "sample_limits = \<lparr>rl_messages = 200, rl_body_bytes = 200000\<rparr>"

lemma sample_lines:
  "body_lines sample_qwk (or_body sample_reply) = [u ''To: all  '', u ''See you'']"
  "body_lines sample_qwk (or_body short_reply) = [u ''To: Bobby'']"
  "shown_lines sample_qwk (or_body sample_reply) = [u ''To: all'', u ''See you'']"
  "shown_lines sample_qwk (or_body short_reply) = [u ''To: Bobby'']"
  by (simp_all add: shown_lines_def body_lines_def sample_qwk_def sample_reply_def short_reply_def py_strip_def py_rstrip_def
      py_lstrip_def ascii_space_def)

lemmas sample_reply_defs = sample_reply_def short_reply_def sample_qwk_def

lemma sample_fits:
  "\<not> fits (u ''Bartholomew Featherstonehaugh'') 25" "fits (u ''Ann'') 25" "fits (u ''Hi'') 25" "fits (u ''Bob'') 25"
  by (simp_all add: fits_def to_cp437_def spell_pi_def)

lemma sample_short: "length (reply_text sample_qwk sample_reply) \<le> 1000" "length (reply_text sample_qwk short_reply) \<le> 1000"
  unfolding reply_text_def sample_lines
  by (simp_all add: sample_reply_def short_reply_def qwke_lines_def QWK_FIELD_def sample_fits[simplified] encode_text_def
      to_cp437_def spell_pi_def BLOCK_def Let_def)

lemma sample_plain: "plain_reply sample_qwk sample_reply" "plain_reply sample_qwk short_reply"
proof -
  have div: "length t div BLOCK \<le> 999998" if "length t \<le> 1000" for t :: bytes
    using div_le_dividend[of "length t" BLOCK] that by linarith
  have names: "plain_field sample_qwk (u ''Bartholomew Featherstonehaugh'')" "plain_field sample_qwk (u ''Ann'')"
    "plain_field sample_qwk (u ''Hi'')" "plain_field sample_qwk (u ''Bob'')"
    by (simp_all add: plain_field_def plain_ascii sample_qwk_def ascii_space_def)
  have lines: "cp437_text (u ''To: all  '')" "cp437_text (u ''See you'')" "cp437_text (u ''To: Bobby'')"
    by (simp_all add: cp437_text_def plain_ascii)
  have at42: "datetime_ok (Y2000\<lparr>dt_second := 42\<rparr>)" "dt_year (Y2000\<lparr>dt_second := 42\<rparr>) = 2000"
    by (simp_all add: Y2000_def datetime_ok_def make_datetime_def days_in_month_def)
  show "plain_reply sample_qwk sample_reply" "plain_reply sample_qwk short_reply"
    unfolding plain_reply_def sample_lines
    using names lines at42 div[OF sample_short(1)] div[OF sample_short(2)] by (simp_all add: sample_reply_def short_reply_def)
qed

lemma sample_good:
  "superscript_two sample_qwk" "bbs_id_ok (u ''netbbs'')" "length [sample_reply] \<le> rl_messages sample_limits"
  "\<forall>r\<in>set [sample_reply]. plain_reply sample_qwk r \<and> unmistakable sample_qwk r \<and>
    utf8_length (reply_body sample_qwk r) \<le> rl_body_bytes sample_limits"
  using sample_plain(1) sample_fits(1)
  by (auto simp: superscript_two_def sample_tables small_tables_laws bbs_id_ok_def is_digit_def ascii_letter_def
      sample_limits_def unmistakable_def reply_body_def sample_lines utf8_length_def long_fields_def QWK_FIELD_def)
    (simp_all add: sample_reply_defs is_digit_def ascii_space_def)


theorem reply_packet_is_bounded_and_clean_witness:
  "\<exists>d p. parse_rep sample_qwk from_cp437 (\<lambda>_. None) (u ''netbbs'') sample_limits d None None = Inr p \<and>
    length (rp_messages p) = 1 \<and> length (rp_messages p) \<le> 200 \<and> (\<forall>m\<in>set (rp_messages p). clean_message m)"
proof -
  have sp: "ut_space sample_qwk 32" by (simp add: sample_qwk_def ascii_space_def)
  obtain d where d: "\<forall>door. parse_rep sample_qwk from_cp437 (\<lambda>_. None) (u ''netbbs'') sample_limits d door None =
      (case todoor_of sample_qwk door of None \<Rightarrow> Inl Rep_Value_Error | Some (dropped, added) \<Rightarrow>
        Inr (packet_of (reply_read sample_qwk) [sample_reply] dropped added))"
    using written_packet_read[OF sp sample_good(2-4), of from_cp437 "\<lambda>_. None"] by blast
  have read: "parse_rep sample_qwk from_cp437 (\<lambda>_. None) (u ''netbbs'') sample_limits d None None =
      Inr (packet_of (reply_read sample_qwk) [sample_reply] [] [])"
    unfolding d[rule_format] by (simp add: todoor_of_def)
  moreover have "length (rp_messages (packet_of (reply_read sample_qwk) [sample_reply] [] [])) = 1" by (simp add: packet_of_def)
  ultimately show ?thesis
    using reply_packet_is_bounded_and_clean[OF read]
    by (intro exI[of _ d] exI[of _ "packet_of (reply_read sample_qwk) [sample_reply] [] []"]) (simp add: sample_limits_def)
qed

theorem first_line_readdresses_reply_witness:
  "\<exists>d. build_msg sample_qwk (u ''netbbs'') [short_reply] = Inr d \<and>
    parse_rep sample_qwk from_cp437 (\<lambda>_. None) (u ''netbbs'') sample_limits d None None =
      Inr (packet_of (\<lambda>i r. (reply_read sample_qwk i r)\<lparr>rm_to := u ''Bobby'', rm_body := join_body (after_blank sample_qwk [])\<rparr>)
        [short_reply] [] [])"
proof (rule first_line_readdresses_reply)
  show "unicode_laws (unitext.truncate sample_qwk)" by (simp add: sample_tables small_tables_laws)
  show "long_fields (or_to short_reply) (or_sender short_reply) (or_subject short_reply) = []"
    using sample_fits by (simp add: long_fields_def sample_reply_defs QWK_FIELD_def)
  show "plain_field sample_qwk (u ''Bobby'')"
    by (simp add: plain_field_def plain_ascii sample_qwk_def ascii_space_def)
  show "starts_with (casefold sample_qwk (u ''Bobby'')) (casefold sample_qwk (or_to short_reply))"
    by (simp add: starts_with_def casefold_def sample_reply_defs lower_char_def)
  show "utf8_length (join_body (after_blank sample_qwk [])) \<le> rl_body_bytes sample_limits"
    by (simp add: after_blank_def join_body_def utf8_length_def)
qed (use sample_good(2) sample_plain(2) sample_lines(4) in \<open>auto simp: sample_limits_def\<close>)

theorem superscript_conference_loses_replies_witness:
  "\<exists>d. build_msg sample_qwk (u ''netbbs'') [sample_reply] = Inr d \<and>
    parse_rep sample_qwk from_cp437 (\<lambda>_. None) (u ''netbbs'') sample_limits d None None =
      Inr (packet_of (reply_read sample_qwk) [sample_reply] [] []) \<and>
    parse_rep sample_qwk from_cp437 (\<lambda>_. None) (u ''netbbs'') sample_limits d (Some [65, 82, 69, 65, 32, 0xFD, 32, 68]) None =
      Inl Rep_Value_Error"
  by (rule superscript_conference_loses_replies[OF sample_good])

definition sample_control :: bytes where
  "sample_control = replicate 10 10 @ [48, 10, 0xFD, 10, 65]"

theorem unreadable_hub_packet_escapes_witness:
  "toss_hub_packet sample_qwk from_cp437 (\<lambda>_. None) (u ''HUB'') (Some sample_control) (Some []) None None = Raises Value_Error"
proof (rule unreadable_hub_packet_escapes[OF sample_good(1), where front = "replicate 10 []" and name = "[65]" and rest = "[]"])
  have "from_cp437 sample_control = replicate 10 10 @ [48, 10, 178, 10, 65]"
    unfolding sample_control_def from_cp437_def map_append list.map cp437_superscript by (simp add: cp437_char_def)
  then show "crlf_lines (from_cp437 sample_control) = replicate 10 [] @ [[48], [178], [65]] @ []"
    by (simp add: crlf_lines_def eval_nat_numeral)
qed simp

end
