(* ===== verification/Qwk_Build.thy ===== *)
theory Qwk_Build
  imports Qwk_Replies
begin

text \<open>
  Packets for callers, \<^verbatim>\<open>qwk/packet.py\<close>: MESSAGES.DAT, the index files with their Microsoft binary
  numbers, CONTROL.DAT and the other members, up to the archive. HEADERS.DAT is \<^verbatim>\<open>qwk/format.py\<close>'s.
\<close>

section \<open>Microsoft binary numbers\<close>

fun log2 :: "nat \<Rightarrow> nat" where
  "log2 n = (if n \<le> 1 then 0 else 1 + log2 (n div 2))"

declare log2.simps [simp del]

text \<open>Division by a power of two, rounded to the nearest integer and halves to the even one.\<close>

definition round_half_even :: "nat \<Rightarrow> nat \<Rightarrow> nat" where
  "round_half_even v k =
     (let q = v div 2 ^ k; r = v mod 2 ^ k
      in if 2 ^ k < 2 * r \<or> (2 * r = 2 ^ k \<and> odd q) then q + 1 else q)"

text \<open>
  The IEEE single of a positive integer below \<open>2\<^sup>5\<^sup>3\<close> (which \<open>float\<close> represents exactly) as exponent and
  24-bit mantissa, and its bits.
\<close>

definition single_parts :: "nat \<Rightarrow> nat \<times> nat" where
  "single_parts n =
     (let e = log2 n; m = (if e \<le> 23 then n * 2 ^ (23 - e) else round_half_even n (e - 23))
      in if m = 2 ^ 24 then (e + 1, 2 ^ 23) else (e, m))"

definition single_bits :: "nat \<Rightarrow> nat" where
  "single_bits n = (case single_parts n of (e, m) \<Rightarrow> (e + 127) * 2 ^ 23 + (m - 2 ^ 23))"

text \<open>\<open>to_msbin\<close> of a number that is not negative. Where the code joins disjoint bits with \<open>|\<close>, here
  stands a sum.\<close>

definition to_msbin :: "nat \<Rightarrow> qwk_error + bytes" where
  "to_msbin n =
     (if n = 0 then Inr [0, 0, 0, 0]
      else let bits = single_bits n; b2 = bits div 2 ^ 16 mod 256; b3 = bits div 2 ^ 24 mod 256;
               exponent = 2 * b3 mod 256 + b2 div 128
           in if 255 < exponent + 2 then Inl Value_Error
              else Inr [of_nat (bits mod 256), of_nat (bits div 2 ^ 8 mod 256),
                of_nat (b3 div 128 * 128 + b2 mod 128), of_nat (exponent + 2)])"

definition from_msbin :: "bytes \<Rightarrow> qwk_error + int" where
  "from_msbin d =
     (if length d \<noteq> 4 then Inl Qwk_Format_Error
      else if d ! 3 = 0 then Inr 0
      else if d ! 3 = 1 then Inl Value_Error
      else let exponent = unat (d ! 3) - 2; d2 = unat (d ! 2);
               ieee3 = d2 div 128 * 128 + exponent div 2; ieee2 = exponent mod 2 * 128 + d2 mod 128;
               bits = unat (d ! 0) + 2 ^ 8 * unat (d ! 1) + 2 ^ 16 * ieee2 + 2 ^ 24 * ieee3;
               e = bits div 2 ^ 23 mod 256; m = 2 ^ 23 + bits mod 2 ^ 23;
               v = (if e = 0 then 0 else if 150 \<le> e then m * 2 ^ (e - 150) else round_half_even m (150 - e))
           in Inr (if 2 ^ 31 \<le> bits then - int v else int v))"

section \<open>HEADERS.DAT\<close>

fun hex_text :: "nat \<Rightarrow> ustr" where
  "hex_text n =
     (let c = n mod 16; digit = (if c < 10 then 48 + c else 87 + c)
      in if n < 16 then [digit] else hex_text (n div 16) @ [digit])"

declare hex_text.simps [simp del]

definition kept_fields :: "qwktext \<Rightarrow> field_map \<Rightarrow> field_map" where
  "kept_fields T m =
     filter (\<lambda>(k, v). v \<noteq> []) (map (\<lambda>(k, v). (k, take MAX_HEADER_VALUE (join_with [32] (py_words (ut_space T) v)))) m)"

definition header_section :: "qwktext \<Rightarrow> nat \<times> field_map \<Rightarrow> ustr list" where
  "header_section T s =
     (case s of (offset, fs) \<Rightarrow>
        let kept = kept_fields T fs in
        if kept = [] then [] else [[91] @ hex_text offset @ [93]] @ map (\<lambda>(k, v). k @ u '': '' @ v) kept @ [[]])"

text \<open>\<open>build_headers_dat\<close> before it is encoded.\<close>

definition headers_text :: "qwktext \<Rightarrow> sections \<Rightarrow> ustr" where
  "headers_text T sections = concat (map (\<lambda>l. l @ [13, 10]) (concat (map (header_section T) sections)))"

section \<open>The members\<close>

record packet_message =
  pm_conference :: nat
  pm_number :: int
  pm_when :: datetime
  pm_to :: ustr
  pm_sender :: ustr
  pm_subject :: ustr
  pm_body :: ustr
  pm_reference :: "nat option"
  pm_private :: bool
  pm_personal :: bool
  pm_headers :: field_map
  pm_tagline :: bool

record packet_info =
  pi_bbs_id :: ustr
  pi_bbs_name :: ustr
  pi_user_name :: ustr
  pi_created :: datetime
  pi_sysop :: ustr
  pi_city :: ustr
  pi_phone :: ustr
  pi_door :: ustr
  pi_version :: ustr
  pi_hello :: ustr

definition COPYRIGHT_BLOCK :: bytes where
  "COPYRIGHT_BLOCK = ascii_bytes (u ''Produced by Qmail...Copyright (c) 1987 by Sparkware.  All Rights Reserved'')"

definition MAX_CONFERENCE_NAME :: nat where "MAX_CONFERENCE_NAME = 255"

definition message_text :: "qwktext \<Rightarrow> packet_message \<Rightarrow> bytes" where
  "message_text T m = encode_text (qwke_lines (pm_to m) (pm_sender m) (pm_subject m) @ body_lines T (pm_body m))"

definition message_header :: "qwktext \<Rightarrow> nat \<Rightarrow> packet_message \<Rightarrow> header_fields" where
  "message_header T logical m =
     \<lparr>hf_status = (if pm_private m then u ''+'' else u '' ''), hf_number = num (pm_number m), hf_when = pm_when m,
      hf_to = pm_to m, hf_sender = pm_sender m, hf_subject = pm_subject m, hf_reference = pm_reference m,
      hf_blocks = 1 + int (length (message_text T m) div BLOCK), hf_conference = int (pm_conference m),
      hf_logical = int logical, hf_tagline = pm_tagline m\<rparr>"

type_synonym index = "(nat \<times> nat \<times> bool) list"

fun messages_dat :: "qwktext \<Rightarrow> nat \<Rightarrow> nat \<Rightarrow> packet_message list \<Rightarrow> qwk_error + bytes \<times> index \<times> sections" where
  "messages_dat T block logical [] = Inr ([], [], [])"
| "messages_dat T block logical (m # ms) =
     (if \<not> (0 < pm_number m \<and> pm_number m \<le> 9999999) then Inl Qwk_Format_Error
      else case pack_header (message_header T logical m) of
          Inl e \<Rightarrow> Inl e
        | Inr h \<Rightarrow>
            (let t = message_text T m in
             case messages_dat T (block + (1 + length t div BLOCK)) (logical + 1) ms of
               Inl e \<Rightarrow> Inl e
             | Inr (d, ix, hs) \<Rightarrow>
                 Inr (h @ t @ d, (pm_conference m, block, pm_personal m) # ix,
                   (if pm_headers m \<noteq> [] then [((block - 1) * BLOCK, pm_headers m)] else []) @ hs)))"

definition ndx_record :: "nat \<Rightarrow> nat \<Rightarrow> qwk_error + bytes" where
  "ndx_record conference block = (case to_msbin block of Inl e \<Rightarrow> Inl e | Inr b \<Rightarrow> Inr (b @ [of_nat (conference mod 256)]))"

fun ndx :: "(nat \<times> nat) list \<Rightarrow> qwk_error + bytes" where
  "ndx [] = Inr []"
| "ndx ((conference, block) # rs) =
     (case ndx_record conference block of
        Inl e \<Rightarrow> Inl e
      | Inr b \<Rightarrow> (case ndx rs of Inl e \<Rightarrow> Inl e | Inr bs \<Rightarrow> Inr (b @ bs)))"

definition ndx_name :: "nat \<Rightarrow> ustr" where
  "ndx_name conference = replicate (3 - length (dec conference)) 48 @ dec conference @ u ''.NDX''"

definition crlf :: "ustr list \<Rightarrow> bytes" where
  "crlf lines = concat (map (\<lambda>l. to_cp437 l @ [13, 10]) lines)"

definition one_line :: "ustr \<Rightarrow> ustr" where
  "one_line s = map (\<lambda>c. if c = 13 \<or> c = 10 then 32 else c) s"

definition long_date :: "datetime \<Rightarrow> ustr" where
  "long_date m = dd (dt_month m) @ [45] @ dd (dt_day m) @ [45] @ num (dt_year m) @ [44] @ dd (dt_hour m) @ [58] @
     dd (dt_minute m) @ [58] @ dd (dt_second m)"

definition control_lines :: "qwktext \<Rightarrow> packet_info \<Rightarrow> qwk_conference list \<Rightarrow> nat \<Rightarrow> ustr list" where
  "control_lines T info conferences count =
     [pi_bbs_name info, pi_city info, pi_phone info, pi_sysop info @ u '', Sysop'', u ''00000,'' @ pi_bbs_id info,
      long_date (pi_created info), concat (map (ut_upper_char T) (pi_user_name info)), [], u ''0'', dec count,
      num (int (length conferences) - 1)] @
     concat (map (\<lambda>c. [dec (qc_number c), take MAX_CONFERENCE_NAME (one_line (qc_name c))]) conferences) @
     [if pi_hello info \<noteq> [] then u ''HELLO'' else [], [], []]"

definition door_id :: "packet_info \<Rightarrow> bytes" where
  "door_id info =
     (let version = (if pi_version info \<noteq> [] then pi_version info else u ''1'')
      in crlf [u ''DOOR = '' @ pi_door info, u ''VERSION = '' @ version,
        u ''SYSTEM = '' @ pi_door info @ [32] @ version, u ''MIXEDCASE = YES''])"

definition toreader :: "qwk_conference list \<Rightarrow> bytes" where
  "toreader conferences = crlf (map (\<lambda>c. u ''AREA '' @ dec (qc_number c) @ [32] @ qc_flags c) conferences)"

text \<open>The index files in the order of the conferences, then the personal one.\<close>

fun ndx_files :: "index \<Rightarrow> nat list \<Rightarrow> qwk_error + (ustr \<times> bytes) list" where
  "ndx_files ix [] = Inr []"
| "ndx_files ix (c # cs) =
     (case ndx (map (\<lambda>(conf, block, _). (conf, block)) (filter (\<lambda>(conf, _). conf = c) ix)) of
        Inl e \<Rightarrow> Inl e
      | Inr b \<Rightarrow> (case ndx_files ix cs of Inl e \<Rightarrow> Inl e | Inr fs \<Rightarrow> Inr ((ndx_name c, b) # fs)))"

definition personal_ndx :: "index \<Rightarrow> qwk_error + (ustr \<times> bytes) list" where
  "personal_ndx ix =
     (let personal = map (\<lambda>(conf, block, _). (conf, block)) (filter (\<lambda>(_, _, p). p) ix)
      in if personal = [] then Inr []
         else case ndx personal of Inl e \<Rightarrow> Inl e | Inr b \<Rightarrow> Inr [(u ''PERSONAL.NDX'', b)])"

text \<open>\<open>build_packet\<close>: the members of the archive in the order they are written.\<close>

definition build_qwk_packet :: "qwktext \<Rightarrow> (ustr \<Rightarrow> bytes) \<Rightarrow> packet_info \<Rightarrow> qwk_conference list \<Rightarrow> packet_message list \<Rightarrow>
    qwk_error + (ustr \<times> bytes) list" where
  "build_qwk_packet T utf8_encode info conferences messages =
     (if \<not> valid_bbs_id (pi_bbs_id info) then Inl Qwk_Format_Error
      else if conferences = [] then Inl Qwk_Format_Error
      else if \<not> distinct (map qc_number conferences) then Inl Qwk_Format_Error
      else if \<not> set (map pm_conference messages) \<subseteq> set (map qc_number conferences) then Inl Qwk_Format_Error
      else case messages_dat T 2 1 messages of
          Inl e \<Rightarrow> Inl e
        | Inr (d, ix, headers) \<Rightarrow>
            (case (ndx_files ix (map qc_number conferences), personal_ndx ix) of
               (Inl e, _) \<Rightarrow> Inl e
             | (_, Inl e) \<Rightarrow> Inl e
             | (Inr files, Inr personal) \<Rightarrow>
                 Inr ([(u ''CONTROL.DAT'', crlf (control_lines T info conferences (length messages))),
                   (u ''MESSAGES.DAT'', ljust BLOCK COPYRIGHT_BLOCK @ d),
                   (u ''DOOR.ID'', door_id info),
                   (u ''TOREADER.EXT'', toreader conferences)] @ files @ personal @
                  (if pi_hello info \<noteq> [] then [(u ''HELLO'', crlf (splitlines (pi_hello info)))] else []) @
                  (if headers \<noteq> [] then [(u ''HEADERS.DAT'', utf8_encode (headers_text T headers))] else []))))"

end
