(* ===== verification/Qwk_Index.thy ===== *)
theory Qwk_Index
  imports Qwk_Build
begin

text \<open>
  The index files of a packet point at its messages: numbers survive the Microsoft format, and every
  record names the block where its message's header stands.
\<close>

section \<open>Microsoft binary numbers\<close>

lemma log2_bounds: "0 < n \<Longrightarrow> 2 ^ log2 n \<le> n \<and> n < 2 * 2 ^ log2 n"
proof (induction n rule: log2.induct)
  case (1 n)
  show ?case
  proof (cases "n \<le> 1")
    case True
    then show ?thesis using 1 by (subst (1 2) log2.simps) simp
  next
    case False
    then have ih: "2 ^ log2 (n div 2) \<le> n div 2" "n div 2 < 2 * 2 ^ log2 (n div 2)" using 1 by auto
    have "log2 n = 1 + log2 (n div 2)" using False by (subst log2.simps) simp
    moreover have "n = 2 * (n div 2) + n mod 2" "n mod 2 < 2" by simp_all
    ultimately show ?thesis using ih by (simp only: power_add power_one_right) linarith
  qed
qed

lemma mantissa:
  assumes "0 < n" "n < 2 ^ 24"
  defines "m \<equiv> n * 2 ^ (23 - log2 n)"
  shows "log2 n \<le> 23" "2 ^ 23 \<le> m" "m < 2 ^ 24" "single_parts n = (log2 n, m)"
proof -
  note b = log2_bounds[OF assms(1)]
  have "(2::nat) ^ log2 n < 2 ^ 24" using b assms(2) by linarith
  then have "log2 n < 24" by (rule power_less_imp_less_exp[rotated]) simp
  then show e: "log2 n \<le> 23" by simp
  have p: "2 ^ 23 = (2::nat) ^ log2 n * 2 ^ (23 - log2 n)" using e by (simp flip: power_add)
  show l: "2 ^ 23 \<le> m" unfolding p m_def using b by simp
  have "m < 2 * 2 ^ log2 n * 2 ^ (23 - log2 n)" unfolding m_def using b by simp
  then show u: "m < 2 ^ 24" using p by (simp add: mult.assoc)
  show "single_parts n = (log2 n, m)" using e u by (simp add: single_parts_def m_def[symmetric] Let_def)
qed

text \<open>The bytes of the number are the bits of the single: the exponent's last bit moves below the sign.\<close>

lemma bytes_of_bits:
  fixes bits :: nat
  assumes "bits < 2 ^ 31"
  defines "b2 \<equiv> bits div 2 ^ 16 mod 256" and "b3 \<equiv> bits div 2 ^ 24 mod 256"
  shows "b3 div 128 = 0" "2 * b3 mod 256 + b2 div 128 = bits div 2 ^ 23"
    "bits mod 256 + 2 ^ 8 * (bits div 2 ^ 8 mod 256) + 2 ^ 16 * (bits div 2 ^ 23 mod 2 * 128 + b2 mod 128) +
      2 ^ 24 * (bits div 2 ^ 23 div 2) = bits"
proof -
  define q where "q = bits div 2 ^ 16"
  have q: "q < 2 ^ 15" using assms(1) by (simp add: q_def div_less_iff_less_mult)
  have d: "bits div 2 ^ 24 = q div 256" "bits div 2 ^ 23 = q div 128" by (simp_all add: q_def div_mult2_eq[symmetric])
  have "q div 256 < 256" using q by (simp add: div_less_iff_less_mult)
  then have b3: "b3 = q div 256" unfolding b3_def d(1) by simp
  then have small: "b3 < 128" using q by (simp add: div_less_iff_less_mult)
  then show "b3 div 128 = 0" by simp
  have h: "q div 128 = 2 * (q div 256) + q mod 256 div 128"
  proof -
    have "q div 128 = (128 * (2 * (q div 256)) + q mod 256) div 128" by (rule arg_cong[of _ _ "\<lambda>x. x div 128"]) simp
    then show ?thesis by (simp only: div_mult_self4[of 128] div_mult_self2)
  qed
  show "2 * b3 mod 256 + b2 div 128 = bits div 2 ^ 23"
    using small unfolding b2_def q_def[symmetric] d(2) h b3 by simp
  have "q mod 256 mod 128 = q mod 128" by (simp add: mod_mod_cancel)
  then have "q div 128 mod 2 * 128 + b2 mod 128 = q mod 256"
    unfolding b2_def q_def[symmetric] using mod_mult2_eq[of q 128 2] by simp
  moreover have "q div 128 div 2 = q div 256" by (simp flip: div_mult2_eq)
  moreover have "bits = bits mod 256 + 256 * (bits div 2 ^ 8 mod 256) + 2 ^ 16 * q"
  proof -
    have "bits mod 2 ^ 16 = bits mod 256 + 256 * (bits div 256 mod 256)" using mod_mult2_eq[of bits 256 256] by simp
    then show ?thesis unfolding q_def by simp (metis add.assoc div_mult_mod_eq mult.commute add.commute)
  qed
  moreover have c: "(2::nat) ^ 8 = 256" "(2::nat) ^ 16 = 65536" "(2::nat) ^ 24 = 16777216" by simp_all
  ultimately show "bits mod 256 + 2 ^ 8 * (bits div 2 ^ 8 mod 256) + 2 ^ 16 * (bits div 2 ^ 23 mod 2 * 128 + b2 mod 128) +
      2 ^ 24 * (bits div 2 ^ 23 div 2) = bits"
    unfolding d(2) using c mod_mult_div_eq[of q 256] by (simp only:)
qed

lemma round_exact: "round_half_even (n * 2 ^ k) k = n"
  by (simp add: round_half_even_def Let_def)

lemma msbin_roundtrip:
  assumes "n < 2 ^ 24"
  shows "\<exists>b. to_msbin n = Inr b \<and> length b = 4 \<and> from_msbin b = Inr (int n)"
proof (cases "n = 0")
  case True
  then show ?thesis by (simp add: to_msbin_def from_msbin_def)
next
  case False
  define e where "e = log2 n"
  define m where "m = n * 2 ^ (23 - e)"
  note mant = mantissa[of n, folded e_def, folded m_def]
  have m: "e \<le> 23" "2 ^ 23 \<le> m" "m < 2 ^ 24" "single_parts n = (e, m)" using mant False assms by auto
  define bits where "bits = single_bits n"
  have bits: "bits = (e + 127) * 2 ^ 23 + (m - 2 ^ 23)" by (simp add: bits_def single_bits_def m(4))
  have f: "m - 2 ^ 23 < 2 ^ 23" using m by simp
  have parts: "bits div 2 ^ 23 = e + 127" "bits mod 2 ^ 23 = m - 2 ^ 23" using f unfolding bits by (simp_all only: div_mult_self3 mod_mult_self3) simp_all
  have "bits < 2 ^ 31" using m(1) f by (simp add: bits)
  note b = bytes_of_bits[OF this]
  have w: "e + 127 + 2 \<le> 255" "\<not> 255 < e + 127 + 2" using m(1) by auto
  let ?b2 = "bits div 2 ^ 16 mod 256"
  let ?d = "[of_nat (bits mod 256), of_nat (bits div 2 ^ 8 mod 256), of_nat (?b2 mod 128), of_nat (e + 127 + 2)] :: bytes"
  have to: "to_msbin n = Inr ?d"
    using False w unfolding to_msbin_def Let_def bits_def[symmetric] b(1,2) parts(1) by simp
  have u: "unat (?d ! 0) = bits mod 256" "unat (?d ! 1) = bits div 2 ^ 8 mod 256" "unat (?d ! 2) = ?b2 mod 128"
    "unat (?d ! 3) = e + 127 + 2"
    using w by (simp_all add: unat_small del: of_nat_add)
  have nz: "?d ! 3 \<noteq> 0" "?d ! 3 \<noteq> 1"
  proof -
    have "unat (?d ! 3) \<noteq> unat (0 :: 8 word)" "unat (?d ! 3) \<noteq> unat (1 :: 8 word)" unfolding u(4) by simp_all
    then show "?d ! 3 \<noteq> 0" "?d ! 3 \<noteq> 1" by metis+
  qed
  have "from_msbin ?d = Inr (int n)"
  proof -
    have joined: "bits mod 256 + 2 ^ 8 * (bits div 2 ^ 8 mod 256) + 2 ^ 16 * ((e + 127) mod 2 * 128 + ?b2 mod 128) +
        2 ^ 24 * (0 * 128 + (e + 127) div 2) = bits"
      using b(3) unfolding parts(1) by simp
    have d2: "?b2 mod 128 div 128 = 0" "?b2 mod 128 mod 128 = ?b2 mod 128" by simp_all
    have ex: "e + 127 + 2 - 2 = e + 127" "(e + 127) mod 256 = e + 127" "e + 127 \<noteq> 0" "\<not> 2 ^ 31 \<le> bits"
      using m(1) \<open>bits < 2 ^ 31\<close> by simp_all
    have v: "(if 150 \<le> e + 127 then (2 ^ 23 + (m - 2 ^ 23)) * 2 ^ (e + 127 - 150)
        else round_half_even (2 ^ 23 + (m - 2 ^ 23)) (150 - (e + 127))) = n"
    proof (cases "e = 23")
      case True
      then show ?thesis using m(2) by (simp add: m_def)
    next
      case False
      then have k: "\<not> 150 \<le> e + 127" "150 - (e + 127) = 23 - e" using m(1) by auto
      then show ?thesis using m(2) round_exact[of n "23 - e"] by (simp only: if_False le_add_diff_inverse m_def)
    qed
    have len: "length ?d = 4" by simp
    show ?thesis
      unfolding from_msbin_def Let_def u d2 ex(1) joined parts ex(2) if_not_P[OF nz(1)] if_not_P[OF nz(2)]
        if_not_P[OF ex(3)] if_not_P[OF ex(4)] v
      using len by simp
  qed
  then show ?thesis using to by simp
qed

section \<open>MESSAGES.DAT\<close>

definition message_fits :: "qwktext \<Rightarrow> packet_message \<Rightarrow> bool" where
  "message_fits T m \<longleftrightarrow> 0 < pm_number m \<and> pm_number m \<le> 9999999 \<and> pm_conference m \<le> 65535 \<and> datetime_ok (pm_when m) \<and>
     length (message_text T m) div BLOCK \<le> 999998"

definition plain_message :: "qwktext \<Rightarrow> packet_message \<Rightarrow> bool" where
  "plain_message T m \<longleftrightarrow>
     plain_field T (pm_to m) \<and> plain_field T (pm_sender m) \<and> plain_field T (pm_subject m) \<and>
     (\<forall>l\<in>set (body_lines T (pm_body m)). cp437_text l) \<and>
     (case pm_reference m of None \<Rightarrow> True | Some n \<Rightarrow> n < 10 ^ 8) \<and>
     datetime_ok (pm_when m) \<and> 1969 \<le> dt_year (pm_when m) \<and> dt_year (pm_when m) \<le> 2068"

definition message_shown :: "qwktext \<Rightarrow> nat \<Rightarrow> packet_message \<Rightarrow> qwk_header" where
  "message_shown T logical m = header_read T (message_header T logical m) (nat (pm_number m))"

definition walked_message :: "qwktext \<Rightarrow> nat \<Rightarrow> nat \<Rightarrow> packet_message \<Rightarrow> walked" where
  "walked_message T off logical m =
     \<lparr>wk_header = message_shown T logical m, wk_lines = decode_text T (message_text T m), wk_offset = off, wk_text = message_text T m\<rparr>"

fun walked_messages :: "qwktext \<Rightarrow> nat \<Rightarrow> nat \<Rightarrow> packet_message list \<Rightarrow> walked list" where
  "walked_messages T off logical [] = []"
| "walked_messages T off logical (m # ms) =
     walked_message T off logical m # walked_messages T (off + BLOCK + length (message_text T m)) (logical + 1) ms"

lemma message_header_fits: "message_fits T m \<Longrightarrow> header_fits (message_header T logical m) (nat (pm_number m))"
  by (auto simp: header_fits_def message_header_def message_fits_def num_def)

text \<open>An entry of the index points at the block where its message's header stands.\<close>

definition points_at :: "qwktext \<Rightarrow> bytes \<Rightarrow> nat \<times> nat \<times> bool \<Rightarrow> packet_message \<Rightarrow> bool" where
  "points_at T d e m =
     (case e of (conference, block, personal) \<Rightarrow>
        conference = pm_conference m \<and> personal = pm_personal m \<and> 1 \<le> block \<and> block * BLOCK < length d \<and>
        (\<exists>h. unpack_header T (cut_bytes ((block - 1) * BLOCK) (block * BLOCK) d) = Inr h \<and>
          qh_number h = Some (nat (pm_number m)) \<and> qh_conference h = pm_conference m))"

definition blocks_of :: "qwktext \<Rightarrow> packet_message list \<Rightarrow> nat" where
  "blocks_of T ms = sum_list (map (\<lambda>m. 1 + length (message_text T m) div BLOCK) ms)"

lemma messages_dat_ok:
  assumes "\<forall>m\<in>set ms. message_fits T m"
  shows "\<exists>d ix hs. messages_dat T block logical ms = Inr (d, ix, hs) \<and>
    ((\<forall>m\<in>set ms. pm_headers m = []) \<longrightarrow> hs = []) \<and> length d = blocks_of T ms * BLOCK \<and>
    (\<forall>pre acc. walk T None (pre @ d) (length pre) acc = Inr (acc @ walked_messages T (length pre) logical ms, [])) \<and>
    (\<forall>pre. 1 \<le> block \<longrightarrow> length pre = (block - 1) * BLOCK \<longrightarrow> list_all2 (points_at T (pre @ d)) ix ms)"
  using assms
proof (induction ms arbitrary: block logical)
  case Nil
  then show ?case by (simp add: walk.simps BLOCK_def blocks_of_def)
next
  case (Cons m ms)
  then have m: "message_fits T m" by simp
  let ?t = "message_text T m"
  obtain h where h: "pack_header (message_header T logical m) = Inr h" "length h = BLOCK"
    "unpack_header T h = Inr (message_shown T logical m)"
    using header_unpacks[OF message_header_fits[OF m]] by (auto simp: message_shown_def)
  let ?next = "block + (1 + length ?t div BLOCK)"
  obtain d ix hs where d: "messages_dat T ?next (logical + 1) ms = Inr (d, ix, hs)"
    "(\<forall>m\<in>set ms. pm_headers m = []) \<Longrightarrow> hs = []" "length d = blocks_of T ms * BLOCK"
    "\<And>pre acc. walk T None (pre @ d) (length pre) acc = Inr (acc @ walked_messages T (length pre) (logical + 1) ms, [])"
    "\<And>pre. 1 \<le> ?next \<Longrightarrow> length pre = (?next - 1) * BLOCK \<Longrightarrow> list_all2 (points_at T (pre @ d)) ix ms"
    using Cons.IH[of ?next "logical + 1"] Cons.prems by auto
  have blocks: "length ?t mod BLOCK = 0" "BLOCK \<le> length ?t" by (simp_all add: message_text_def encode_text_blocks)
  then have size: "length ?t div BLOCK * BLOCK = length ?t" by (intro dvd_div_mult_self mod_0_imp_dvd)
  have count: "qh_blocks (message_shown T logical m) = Some (1 + length ?t div BLOCK)"
    by (simp add: message_shown_def header_read_def message_header_def nat_add_distrib)
  have number: "0 < pm_number m" "pm_number m \<le> 9999999" using m by (auto simp: message_fits_def)
  have made: "messages_dat T block logical (m # ms) = Inr (h @ ?t @ d, (pm_conference m, block, pm_personal m) # ix,
      (if pm_headers m \<noteq> [] then [((block - 1) * BLOCK, pm_headers m)] else []) @ hs)"
    using number h(1) d(1) by (simp add: Let_def)
  have walked: "walk T None (pre @ h @ ?t @ d) (length pre) acc = Inr (acc @ walked_messages T (length pre) logical (m # ms), [])"
    for pre acc
  proof -
    have w: "\<lparr>wk_header = message_shown T logical m, wk_lines = decode_text T ?t,
        wk_offset = length pre, wk_text = ?t\<rparr> = walked_message T (length pre) logical m"
      by (simp add: walked_message_def)
    have "walk T None ((pre @ h @ ?t) @ d) (length (pre @ h @ ?t)) (acc @ [walked_message T (length pre) logical m]) =
        Inr ((acc @ [walked_message T (length pre) logical m]) @ walked_messages T (length (pre @ h @ ?t)) (logical + 1) ms, [])"
      by (rule d(4))
    then show ?thesis
      using walk_step[OF h(3,2) blocks(1) count, where lim = None and ms = acc and pre = pre and rest = d] h(2) unfolding w by (simp add: add.assoc)
  qed
  have points: "list_all2 (points_at T (pre @ h @ ?t @ d)) ((pm_conference m, block, pm_personal m) # ix) (m # ms)"
    if "1 \<le> block" "length pre = (block - 1) * BLOCK" for pre
  proof -
    have b: "block * BLOCK = length pre + BLOCK" using that by (cases block) simp_all
    have "length (pre @ h @ ?t) = (?next - 1) * BLOCK"
      using that h(2) size b by (cases block) (simp_all add: distrib_right)
    from d(5)[OF _ this] have tl: "list_all2 (points_at T (pre @ h @ ?t @ d)) ix ms" by simp
    have cut: "cut_bytes ((block - 1) * BLOCK) (block * BLOCK) (pre @ h @ ?t @ d) = h"
      using h(2) unfolding b that(2)[symmetric] by (simp add: cut_bytes_def)
    have "qh_number (message_shown T logical m) = Some (nat (pm_number m))"
      "qh_conference (message_shown T logical m) = pm_conference m"
      by (simp_all add: message_shown_def header_read_def message_header_def Let_def)
    then have "points_at T (pre @ h @ ?t @ d) (pm_conference m, block, pm_personal m) m"
      using that(1) cut h(2,3) b blocks(2) by (auto simp: points_at_def BLOCK_def)
    then show ?thesis using tl by simp
  qed
  have "length (h @ ?t @ d) = blocks_of T (m # ms) * BLOCK"
    using h(2) d(3) size by (simp add: blocks_of_def distrib_right)
  then show ?case unfolding made using d(2) walked points by (intro exI conjI) auto
qed

section \<open>Index files\<close>

lemma ndx_read:
  assumes "\<forall>(c, block)\<in>set rs. block < 2 ^ 24"
  shows "\<exists>b. ndx rs = Inr b \<and> length b = 5 * length rs \<and>
    (\<forall>k<length rs. from_msbin (cut_bytes (5 * k) (5 * k + 4) b) = Inr (int (snd (rs ! k))))"
  using assms
proof (induction rs)
  case (Cons r rs)
  obtain c block where r: "r = (c, block)" by (cases r)
  obtain m where m: "to_msbin block = Inr m" "length m = 4" "from_msbin m = Inr (int block)"
    using msbin_roundtrip[of block] Cons.prems r by auto
  obtain b where b: "ndx rs = Inr b" "length b = 5 * length rs"
    "\<forall>k<length rs. from_msbin (cut_bytes (5 * k) (5 * k + 4) b) = Inr (int (snd (rs ! k)))"
    using Cons by auto
  let ?b = "m @ [of_nat (c mod 256)] @ b"
  have "from_msbin (cut_bytes (5 * k) (5 * k + 4) ?b) = Inr (int (snd ((r # rs) ! k)))" if "k < length (r # rs)" for k
  proof (cases k)
    case 0
    then show ?thesis using m r by (simp add: cut_bytes_def)
  next
    case (Suc j)
    then have "cut_bytes (5 * k) (5 * k + 4) ?b = cut_bytes (5 * j) (5 * j + 4) b" using m(2) by (simp add: cut_bytes_def)
    then show ?thesis using Suc b(3) that by simp
  qed
  then show ?case using m b r by (intro exI[of _ ?b]) (auto simp: ndx_record_def)
qed simp

lemma ndx_name_number: "undec (take (length (ndx_name c) - 4) (ndx_name c)) = c"
proof -
  have zeros: "undec (replicate k 48 @ s) = undec s" for k s by (induction k) (simp_all add: undec_def)
  show ?thesis by (simp add: ndx_name_def zeros)
qed

lemma ndx_name_inj: "ndx_name c = ndx_name c' \<longleftrightarrow> c = c'"
  by (metis ndx_name_number)

lemma ndx_name_digit: "is_digit (hd (ndx_name c))"
  using dec_digits[of "hd (dec c)" c] by (cases "3 - length (dec c)") (simp_all add: ndx_name_def is_digit_def)

lemma ndx_files_read:
  "\<forall>c\<in>set cs. ndx (map (\<lambda>(conf, block, _). (conf, block)) (filter (\<lambda>(conf, _). conf = c) ix)) = Inr (f c) \<Longrightarrow>
    ndx_files ix cs = Inr (map (\<lambda>c. (ndx_name c, f c)) cs)"
  by (induction cs) auto

lemma map_of_ndx: "c \<in> set cs \<Longrightarrow> map_of (map (\<lambda>c. (ndx_name c, f c)) cs @ rest) (ndx_name c) = Some (f c)"
  by (induction cs) (auto simp: ndx_name_inj)

lemma map_of_other:
  "\<not> is_digit (hd n) \<Longrightarrow> map_of (map (\<lambda>c. (ndx_name c, f c)) cs @ rest) n = map_of rest n"
  using ndx_name_digit by (induction cs) auto

lemma other_member:
  assumes "n \<noteq> u ''CONTROL.DAT''" "n \<noteq> u ''MESSAGES.DAT''" "n \<noteq> u ''DOOR.ID''" "n \<noteq> u ''TOREADER.EXT''"
  shows "\<not> is_digit (hd n) \<Longrightarrow> map_of ([(u ''CONTROL.DAT'', a), (u ''MESSAGES.DAT'', b), (u ''DOOR.ID'', i),
    (u ''TOREADER.EXT'', t)] @ map (\<lambda>c. (ndx_name c, f c)) cs @ rest) n = map_of rest n"
  unfolding append.simps map_of.simps fst_conv snd_conv fun_upd_apply using assms map_of_other[of n f cs rest]
  by (simp only: if_False not_False_eq_True)

lemma filter_points:
  "list_all2 (points_at T d) ix ms \<Longrightarrow>
    list_all2 (points_at T d) (filter (\<lambda>(conf, _). conf = c) ix) (filter (\<lambda>m. pm_conference m = c) ms)"
  by (induction rule: list_all2_induct) (auto simp: points_at_def)

text \<open>What an index file promises: its records name, in order, the header blocks of the messages.\<close>

definition index_leads :: "qwktext \<Rightarrow> bytes \<Rightarrow> bytes \<Rightarrow> packet_message list \<Rightarrow> bool" where
  "index_leads T d b ms \<longleftrightarrow> length b = 5 * length ms \<and>
     (\<forall>k<length ms. \<exists>n h. from_msbin (cut_bytes (5 * k) (5 * k + 4) b) = Inr (int n) \<and>
        unpack_header T (cut_bytes ((n - 1) * BLOCK) (n * BLOCK) d) = Inr h \<and>
        qh_number h = Some (nat (pm_number (ms ! k))) \<and> qh_conference h = pm_conference (ms ! k))"

lemma index_leads_ndx:
  assumes "list_all2 (points_at T d) es ms" "length d \<le> 2 ^ 31"
  shows "\<exists>b. ndx (map (\<lambda>(conf, block, _). (conf, block)) es) = Inr b \<and> index_leads T d b ms"
proof -
  let ?rs = "map (\<lambda>(conf, block, _). (conf, block)) es"
  have len: "length es = length ms" using assms(1) by (rule list_all2_lengthD)
  have at: "points_at T d (es ! k) (ms ! k)" if "k < length ms" for k
    using assms(1) that len by (simp add: list_all2_conv_all_nth)
  have "\<forall>(c, block)\<in>set ?rs. block < 2 ^ 24"
  proof (intro ballI, clarify)
    fix c block assume "(c, block) \<in> set ?rs"
    then obtain p where "(c, block, p) \<in> set es" by auto
    then obtain k where "k < length ms" "es ! k = (c, block, p)" using len by (metis in_set_conv_nth)
    then have "block * BLOCK < length d" using at[of k] by (simp add: points_at_def)
    then show "block < 2 ^ 24" using assms(2) by (simp add: BLOCK_def)
  qed
  from ndx_read[OF this] obtain b where b: "ndx ?rs = Inr b" "length b = 5 * length ms"
    "\<And>k. k < length ms \<Longrightarrow> from_msbin (cut_bytes (5 * k) (5 * k + 4) b) = Inr (int (snd (?rs ! k)))"
    using len by auto
  have "\<exists>n h. from_msbin (cut_bytes (5 * k) (5 * k + 4) b) = Inr (int n) \<and>
      unpack_header T (cut_bytes ((n - 1) * BLOCK) (n * BLOCK) d) = Inr h \<and>
      qh_number h = Some (nat (pm_number (ms ! k))) \<and> qh_conference h = pm_conference (ms ! k)" if "k < length ms" for k
  proof -
    obtain c n p where e: "es ! k = (c, n, p)" by (cases "es ! k") auto
    have "?rs ! k = (c, n)" using e that len by simp
    then show ?thesis using at[OF that] b(3)[OF that] by (auto simp: points_at_def e)
  qed
  then show ?thesis using b(1,2) by (auto simp: index_leads_def)
qed

section \<open>The archive\<close>

definition packet_ok :: "qwktext \<Rightarrow> packet_info \<Rightarrow> qwk_conference list \<Rightarrow> packet_message list \<Rightarrow> bool" where
  "packet_ok T info conferences ms \<longleftrightarrow>
     valid_bbs_id (pi_bbs_id info) \<and> conferences \<noteq> [] \<and> distinct (map qc_number conferences) \<and>
     set (map pm_conference ms) \<subseteq> set (map qc_number conferences) \<and>
     (\<forall>m\<in>set ms. message_fits T m) \<and> blocks_of T ms \<le> 2 ^ 24 - 1"

lemma personal_points:
  "list_all2 (points_at T d) ix ms \<Longrightarrow> list_all2 (points_at T d) (filter (\<lambda>(_, _, p). p) ix) (filter pm_personal ms)"
  by (induction rule: list_all2_induct) (auto simp: points_at_def)

lemma build_shape:
  assumes ok: "packet_ok T info conferences ms"
  obtains d hs f personal where
    "build_qwk_packet T enc info conferences ms = Inr (
      [(u ''CONTROL.DAT'', crlf (control_lines T info conferences (length ms))),
       (u ''MESSAGES.DAT'', ljust BLOCK COPYRIGHT_BLOCK @ d), (u ''DOOR.ID'', door_id info), (u ''TOREADER.EXT'', toreader conferences)] @
      map (\<lambda>c. (ndx_name c, f c)) (map qc_number conferences) @ personal @
      (if pi_hello info \<noteq> [] then [(u ''HELLO'', crlf (splitlines (pi_hello info)))] else []) @
      (if hs \<noteq> [] then [(u ''HEADERS.DAT'', enc (headers_text T hs))] else []))"
    "(\<forall>m\<in>set ms. pm_headers m = []) \<Longrightarrow> hs = []"
    "\<And>acc. walk T None (ljust BLOCK COPYRIGHT_BLOCK @ d) BLOCK acc = Inr (acc @ walked_messages T BLOCK 1 ms, [])"
    "\<And>c. index_leads T (ljust BLOCK COPYRIGHT_BLOCK @ d) (f c) (filter (\<lambda>m. pm_conference m = c) ms)"
    "personal = [] \<and> filter pm_personal ms = [] \<or>
      (\<exists>b. personal = [(u ''PERSONAL.NDX'', b)] \<and> index_leads T (ljust BLOCK COPYRIGHT_BLOCK @ d) b (filter pm_personal ms))"
proof -
  let ?c = "ljust BLOCK COPYRIGHT_BLOCK"
  have c: "length ?c = BLOCK" by (simp add: length_ljust COPYRIGHT_BLOCK_def BLOCK_def)
  obtain d ix hs where d: "messages_dat T 2 1 ms = Inr (d, ix, hs)" "(\<forall>m\<in>set ms. pm_headers m = []) \<Longrightarrow> hs = []"
    "length d = blocks_of T ms * BLOCK"
    "\<And>pre acc. walk T None (pre @ d) (length pre) acc = Inr (acc @ walked_messages T (length pre) 1 ms, [])"
    "\<And>pre. length pre = (2 - 1) * BLOCK \<Longrightarrow> list_all2 (points_at T (pre @ d)) ix ms"
    using messages_dat_ok[of ms T 2 1] ok by (auto simp: packet_ok_def)
  have walk: "walk T None (?c @ d) BLOCK acc = Inr (acc @ walked_messages T BLOCK 1 ms, [])" for acc
    using d(4)[of ?c acc] unfolding c .
  have points: "list_all2 (points_at T (?c @ d)) ix ms" using d(5)[of ?c] c by simp
  have size: "length (?c @ d) \<le> 2 ^ 31" using ok d(3) c by (simp add: packet_ok_def BLOCK_def)
  define f where "f conf = (THE b. ndx (map (\<lambda>(conf, block, _). (conf, block)) (filter (\<lambda>(c, _). c = conf) ix)) = Inr b)" for conf
  have f: "ndx (map (\<lambda>(conf, block, _). (conf, block)) (filter (\<lambda>(c, _). c = conf) ix)) = Inr (f conf)"
    "index_leads T (?c @ d) (f conf) (filter (\<lambda>m. pm_conference m = conf) ms)" for conf
    using index_leads_ndx[OF filter_points[OF points, of conf] size] by (auto simp: f_def)
  have files: "ndx_files ix (map qc_number conferences) = Inr (map (\<lambda>c. (ndx_name c, f c)) (map qc_number conferences))"
    by (rule ndx_files_read) (simp add: f(1))
  let ?pix = "filter (\<lambda>(_, _, p). p) ix"
  obtain b where b: "ndx (map (\<lambda>(conf, block, _). (conf, block)) ?pix) = Inr b" "index_leads T (?c @ d) b (filter pm_personal ms)"
    using index_leads_ndx[OF personal_points[OF points] size] by auto
  have same: "?pix = [] \<longleftrightarrow> filter pm_personal ms = []" using list_all2_lengthD[OF personal_points[OF points]] by auto
  define personal where "personal = (if ?pix = [] then [] else [(u ''PERSONAL.NDX'', b)])"
  have p: "personal_ndx ix = Inr personal" using b(1) by (simp add: personal_ndx_def personal_def Let_def)
  have pf: "personal = [] \<and> filter pm_personal ms = [] \<or>
      (\<exists>b. personal = [(u ''PERSONAL.NDX'', b)] \<and> index_leads T (?c @ d) b (filter pm_personal ms))"
    using same b(2) by (auto simp: personal_def)
  have checks: "valid_bbs_id (pi_bbs_id info)" "conferences \<noteq> []" "distinct (map qc_number conferences)"
    "set (map pm_conference ms) \<subseteq> set (map qc_number conferences)"
    using ok unfolding packet_ok_def by blast+
  show ?thesis
    by (rule that[OF _ d(2) walk f(2) pf])
      (use checks d(1) files p in \<open>simp_all add: build_qwk_packet_def\<close>)
qed

text \<open>
  C25: In a packet that \<^verbatim>\<open>build_packet\<close> writes, every conference's index file leads to its messages: it has one
  record per message of the conference, in their order, and the Microsoft binary number in each record is the number of
  the block of \<^verbatim>\<open>MESSAGES.DAT\<close> in which that message's header stands, with its number and conference;
  \<^verbatim>\<open>PERSONAL.NDX\<close> leads so to the personal ones. Names, subjects and bodies may be any text. The packet is one
  \<^verbatim>\<open>build_packet\<close> does not refuse (a valid ID, distinct conferences that include every message's,
  message numbers of one to seven digits, conferences of 16 bits, at most 999998 blocks of text each) and holds up to
  \<open>2\<^sup>2\<^sup>4 - 1\<close> blocks of messages, all the format's 24-bit mantissa can count.
\<close>

theorem index_files_find_messages:
  assumes "packet_ok T info conferences ms"
  shows "\<exists>files d. build_qwk_packet T enc info conferences ms = Inr files \<and> map_of files (u ''MESSAGES.DAT'') = Some d \<and>
    (\<forall>c\<in>set (map qc_number conferences). \<exists>b. map_of files (ndx_name c) = Some b \<and>
      index_leads T d b (filter (\<lambda>m. pm_conference m = c) ms)) \<and>
    (filter pm_personal ms \<noteq> [] \<longrightarrow> (\<exists>b. map_of files (u ''PERSONAL.NDX'') = Some b \<and>
      index_leads T d b (filter pm_personal ms)))"
proof -
  obtain d hs f personal where built: "build_qwk_packet T enc info conferences ms = Inr (
      [(u ''CONTROL.DAT'', crlf (control_lines T info conferences (length ms))),
       (u ''MESSAGES.DAT'', ljust BLOCK COPYRIGHT_BLOCK @ d), (u ''DOOR.ID'', door_id info), (u ''TOREADER.EXT'', toreader conferences)] @
      map (\<lambda>c. (ndx_name c, f c)) (map qc_number conferences) @ personal @
      (if pi_hello info \<noteq> [] then [(u ''HELLO'', crlf (splitlines (pi_hello info)))] else []) @
      (if hs \<noteq> [] then [(u ''HEADERS.DAT'', enc (headers_text T hs))] else []))"
    and leads: "\<And>c. index_leads T (ljust BLOCK COPYRIGHT_BLOCK @ d) (f c) (filter (\<lambda>m. pm_conference m = c) ms)"
    and pf: "personal = [] \<and> filter pm_personal ms = [] \<or>
      (\<exists>b. personal = [(u ''PERSONAL.NDX'', b)] \<and> index_leads T (ljust BLOCK COPYRIGHT_BLOCK @ d) b (filter pm_personal ms))"
    by (rule build_shape[OF assms, of enc]) blast
  let ?c = "ljust BLOCK COPYRIGHT_BLOCK"
  have digit: "\<not> is_digit (hd (u ''CONTROL.DAT''))" "\<not> is_digit (hd (u ''MESSAGES.DAT''))" "\<not> is_digit (hd (u ''DOOR.ID''))"
    "\<not> is_digit (hd (u ''TOREADER.EXT''))" "\<not> is_digit (hd (u ''PERSONAL.NDX''))" by (simp_all add: is_digit_def)
  have names: "ndx_name c \<noteq> u ''CONTROL.DAT''" "ndx_name c \<noteq> u ''MESSAGES.DAT''" "ndx_name c \<noteq> u ''DOOR.ID''"
    "ndx_name c \<noteq> u ''TOREADER.EXT''" for c using digit ndx_name_digit by metis+
  let ?tail = "(if pi_hello info \<noteq> [] then [(u ''HELLO'', crlf (splitlines (pi_hello info)))] else []) @
      (if hs \<noteq> [] then [(u ''HEADERS.DAT'', enc (headers_text T hs))] else [])"
  define files where "files = [(u ''CONTROL.DAT'', crlf (control_lines T info conferences (length ms))),
       (u ''MESSAGES.DAT'', ?c @ d), (u ''DOOR.ID'', door_id info), (u ''TOREADER.EXT'', toreader conferences)] @
      map (\<lambda>c. (ndx_name c, f c)) (map qc_number conferences) @ personal @ ?tail"
  have "map_of files (u ''MESSAGES.DAT'') = Some (?c @ d)" by (simp add: files_def)
  moreover have "map_of files (ndx_name c) = Some (f c)" if "c \<in> set (map qc_number conferences)" for c
    unfolding files_def by (simp only: append.simps map_of.simps fst_conv snd_conv fun_upd_apply names if_False map_of_ndx[OF that])
  then have "\<forall>c\<in>set (map qc_number conferences). \<exists>b. map_of files (ndx_name c) = Some b \<and>
      index_leads T (?c @ d) b (filter (\<lambda>m. pm_conference m = c) ms)" using leads by blast
  moreover have "map_of files (u ''PERSONAL.NDX'') = map_of (personal @ ?tail) (u ''PERSONAL.NDX'')"
    unfolding files_def by (rule other_member[OF _ _ _ _ digit(5)]) simp_all
  then have "filter pm_personal ms \<noteq> [] \<longrightarrow> (\<exists>b. map_of files (u ''PERSONAL.NDX'') = Some b \<and>
      index_leads T (?c @ d) b (filter pm_personal ms))" using pf by auto
  ultimately show ?thesis using built[folded files_def] by blast
qed

end
