(* ===== verification/Qwk_Readback.thy ===== *)
theory Qwk_Readback
  imports Qwk_Index
begin

text \<open>A packet built for a caller, read by \<open>read_packet\<close>: its control file, its flags and its messages.\<close>

section \<open>Files of lines\<close>









section \<open>Flags and conferences\<close>








section \<open>The control file\<close>









section \<open>The messages\<close>










section \<open>A concrete packet\<close>

definition sample_caller_message :: packet_message where
  "sample_caller_message = \<lparr>pm_conference = 7, pm_number = 41, pm_when = Y2000\<lparr>dt_second := 42\<rparr>,
     pm_to = u ''Bartholomew Featherstonehaugh'', pm_sender = u ''Ann'', pm_subject = u ''Hi'',
     pm_body = u ''To: all  '' @ [13, 10] @ u ''See you'' @ [10], pm_reference = None, pm_private = True,
     pm_personal = True, pm_headers = [], pm_tagline = False\<rparr>"

definition sample_info :: packet_info where
  "sample_info = \<lparr>pi_bbs_id = u ''NETBBS'', pi_bbs_name = u ''Sample'', pi_user_name = u ''Bob'', pi_created = Y2000,
     pi_sysop = u ''SysOp'', pi_city = [], pi_phone = [], pi_door = u ''NetBBS'', pi_version = [], pi_hello = []\<rparr>"

definition sample_conferences :: "qwk_conference list" where
  "sample_conferences = [\<lparr>qc_number = 0, qc_name = u ''Mail'', qc_flags = u ''a''\<rparr>, \<lparr>qc_number = 7, qc_name = [], qc_flags = u ''pO''\<rparr>]"

lemma sample_caller_text: "message_text sample_qwk sample_caller_message = reply_text sample_qwk sample_reply"
  by (simp add: message_text_def reply_text_def sample_caller_message_def sample_reply_def)

lemma sample_blocks: "length (message_text sample_qwk sample_caller_message) div BLOCK \<le> 1000"
  using div_le_dividend[of "length (message_text sample_qwk sample_caller_message)" BLOCK] sample_short(1)
  unfolding sample_caller_text by linarith


lemma sample_packet_ok: "packet_ok sample_qwk sample_info sample_conferences [sample_caller_message]"
proof -
  have "message_fits sample_qwk sample_caller_message"
    using sample_plain(1) sample_blocks
    by (simp add: message_fits_def plain_reply_def sample_caller_message_def sample_reply_def)
  moreover have "valid_bbs_id (pi_bbs_id sample_info)"
    by (simp add: sample_info_def valid_bbs_id_def is_digit_def)
  ultimately show ?thesis
    using sample_blocks by (simp add: packet_ok_def sample_conferences_def blocks_of_def sample_caller_message_def)
qed


theorem index_files_find_messages_witness:
  "\<exists>files d. build_qwk_packet sample_qwk (\<lambda>_. []) sample_info sample_conferences [sample_caller_message] = Inr files \<and>
    map_of files (u ''MESSAGES.DAT'') = Some d \<and>
    (\<forall>c\<in>set (map qc_number sample_conferences). \<exists>b. map_of files (ndx_name c) = Some b \<and>
      index_leads sample_qwk d b (filter (\<lambda>m. pm_conference m = c) [sample_caller_message])) \<and>
    (filter pm_personal [sample_caller_message] \<noteq> [] \<longrightarrow> (\<exists>b. map_of files (u ''PERSONAL.NDX'') = Some b \<and>
      index_leads sample_qwk d b (filter pm_personal [sample_caller_message])))"
  by (rule index_files_find_messages[OF sample_packet_ok])


end
