(* ===== verification/Ftn_Message.thy ===== *)
theory Ftn_Message
  imports Ftn_Control "HOL-Library.Product_Lexorder"
begin

text \<open>
  \<^verbatim>\<open>src/netbbs/ftn/message.py\<close> (reading and writing a message's text) and the character sets of
  \<^verbatim>\<open>src/netbbs/ftn/chrs.py\<close>. Python's codecs and \<open>str.upper\<close> are the record \<open>codecs\<close>.
\<close>

section \<open>Character sets\<close>

record codecs =
  cd_decode :: "ustr \<Rightarrow> bytes \<Rightarrow> ustr"
  cd_encode :: "ustr \<Rightarrow> ustr \<Rightarrow> bytes"
  cd_fits_cp437 :: "ustr \<Rightarrow> bool"
  cd_known :: "ustr \<Rightarrow> bool"
  cd_upper :: "ustr \<Rightarrow> ustr"

definition IDENTIFIERS :: "(ustr \<times> ustr) list" where
  "IDENTIFIERS = map (\<lambda>(a, b). (u a, u b))
     [(''ASCII'', ''ascii''), (''CP437'', ''cp437''), (''CP850'', ''cp850''), (''CP852'', ''cp852''),
      (''CP857'', ''cp857''), (''CP858'', ''cp858''), (''CP860'', ''cp860''), (''CP861'', ''cp861''),
      (''CP863'', ''cp863''), (''CP865'', ''cp865''), (''CP866'', ''cp866''), (''CP1250'', ''cp1250''),
      (''CP1251'', ''cp1251''), (''CP1252'', ''cp1252''), (''LATIN-1'', ''latin-1''),
      (''LATIN-2'', ''iso8859-2''), (''LATIN-5'', ''iso8859-9''), (''LATIN-9'', ''iso8859-15''),
      (''ISO-8859-1'', ''latin-1''), (''KOI8-R'', ''koi8-r''), (''KOI8-U'', ''koi8-u''),
      (''MAC'', ''mac-roman''), (''UTF-8'', ''utf-8''), (''IBMPC'', ''cp437''), (''+7_FIDO'', ''cp866'')]"

definition LEGACY :: "ustr list" where
  "LEGACY = [u ''IBMPC'', u ''+7_FIDO'', u ''ISO-8859-1'']"

definition MAX_NAME_BYTES :: nat where "MAX_NAME_BYTES = 35"
definition MAX_SUBJECT_BYTES :: nat where "MAX_SUBJECT_BYTES = 71"

text \<open>\<open>None\<close>: the \<open>IndexError\<close> of a value that is only white space, or the \<open>ValueError\<close> of \<open>int\<close>.\<close>

definition codec_for_kludge ::
  "unitext \<Rightarrow> codecs \<Rightarrow> ustr option \<Rightarrow> ustr option \<Rightarrow> ustr \<Rightarrow> ustr option" where
  "codec_for_kludge T C value codepage fallback =
     (case value of None \<Rightarrow> Some fallback | Some v \<Rightarrow>
      if v = [] then Some fallback
      else case py_words (ut_space T) v of
        [] \<Rightarrow> None
      | w # _ \<Rightarrow>
          let identifier = cd_upper C w;
              named = Some (case map_of IDENTIFIERS identifier of Some c \<Rightarrow> c | None \<Rightarrow> fallback);
              page = py_strip (ut_space T) (case codepage of None \<Rightarrow> [] | Some p \<Rightarrow> p)
          in if identifier = u ''IBMPC'' \<and> py_isdigit T page then
               (case py_int T page of
                  None \<Rightarrow> None
                | Some n \<Rightarrow> if cd_known C (u ''cp'' @ dec n) then Some (u ''cp'' @ dec n) else named)
             else named)"

definition kludge_for_codec :: "ustr \<Rightarrow> ustr option" where
  "kludge_for_codec codec =
     map_option (\<lambda>name. name @ [32] @ dec (if name = u ''UTF-8'' then 4 else if name = u ''ASCII'' then 1 else 2))
       (map_of (rev (map (\<lambda>(name, codec). (codec, name)) (filter (\<lambda>(name, codec). name \<notin> set LEGACY) IDENTIFIERS)))
          codec)"

definition choose_outbound_charset :: "codecs \<Rightarrow> ustr list \<Rightarrow> ustr \<times> ustr" where
  "choose_outbound_charset C texts =
     (if list_all (cd_fits_cp437 C) texts then (u ''cp437'', u ''CP437 2'') else (u ''utf-8'', u ''UTF-8 4''))"

fun truncate_loop :: "codecs \<Rightarrow> ustr \<Rightarrow> nat \<Rightarrow> ustr \<Rightarrow> bytes \<Rightarrow> bytes" where
  "truncate_loop C codec max_bytes [] out = out"
| "truncate_loop C codec max_bytes (c # cs) out =
     (let piece = cd_encode C codec [c]
      in if max_bytes < length out + length piece then out
         else truncate_loop C codec max_bytes cs (out @ piece))"

definition truncate_encoded :: "codecs \<Rightarrow> ustr \<Rightarrow> ustr \<Rightarrow> nat \<Rightarrow> bytes" where
  "truncate_encoded C s codec max_bytes = truncate_loop C codec max_bytes s []"

section \<open>Messages\<close>

record ftn_message =
  m_to_name :: ustr
  m_from_name :: ustr
  m_subject :: ustr
  m_body :: ustr
  m_area :: "ustr option"
  m_date :: "datetime option"
  m_kludges :: "(ustr \<times> ustr) list"
  m_trailing :: "(ustr \<times> ustr) list"
  m_tear_line :: "ustr option"
  m_origin :: "ustr option"
  m_seen_by :: "(nat \<times> nat) list"
  m_path :: "(nat \<times> nat) list"
  m_attributes :: int
  m_orig_net :: int
  m_orig_node :: int
  m_dest_net :: int
  m_dest_node :: int
  m_charset :: "ustr option"

definition is_echomail :: "ftn_message \<Rightarrow> bool" where
  "is_echomail m \<longleftrightarrow> m_area m \<noteq> None"

definition find_kludge :: "codecs \<Rightarrow> ftn_message \<Rightarrow> ustr \<Rightarrow> ustr option" where
  "find_kludge C m name =
     map_option snd (find (\<lambda>kv. cd_upper C (fst kv) = cd_upper C name) (m_kludges m @ m_trailing m))"

definition msgid :: "unitext \<Rightarrow> codecs \<Rightarrow> ftn_message \<Rightarrow> ustr option" where
  "msgid T C m = normalise_msgid T (find_kludge C m (u ''MSGID''))"

definition reply :: "unitext \<Rightarrow> codecs \<Rightarrow> ftn_message \<Rightarrow> ustr option" where
  "reply T C m = normalise_msgid T (find_kludge C m (u ''REPLY''))"

definition utc_offset :: "unitext \<Rightarrow> codecs \<Rightarrow> ftn_message \<Rightarrow> int option" where
  "utc_offset T C m = parse_tzutc T (case find_kludge C m (u ''TZUTC'') of None \<Rightarrow> [] | Some v \<Rightarrow> v)"

definition origin_address :: "unitext \<Rightarrow> codecs \<Rightarrow> ftn_message \<Rightarrow> ftn_address option" where
  "origin_address T C m =
     (let found = (case m_origin m of None \<Rightarrow> None | Some t \<Rightarrow> if t = [] then None else find_address T t)
      in case found of
           Some a \<Rightarrow> Some a
         | None \<Rightarrow>
             (case msgid T C m of
                None \<Rightarrow> None
              | Some v \<Rightarrow> (case py_words (ut_space T) v of [] \<Rightarrow> None | w # _ \<Rightarrow> parse_address T w)))"

section \<open>Reading\<close>

text \<open>The lines sorted into kludges before and after the body, PATH entries and content.\<close>

fun sort_lines ::
  "unitext \<Rightarrow> codecs \<Rightarrow> ustr list \<Rightarrow> (ustr \<times> ustr) list \<Rightarrow> (ustr \<times> ustr) list \<Rightarrow> (nat \<times> nat) list \<Rightarrow> ustr list \<Rightarrow>
   ((ustr \<times> ustr) list \<times> (ustr \<times> ustr) list \<times> (nat \<times> nat) list \<times> ustr list) option" where
  "sort_lines T C [] ks ts path content = Some (ks, ts, path, content)"
| "sort_lines T C (line # lines) ks ts path content =
     (if starts_with line [KLUDGE] then
        (case split_kludge T (tl line) of (name, value) \<Rightarrow>
           if cd_upper C name = u ''PATH'' then
             parse_net_nodes T value \<bind> (\<lambda>es. sort_lines T C lines ks ts (path @ es) content)
           else if content \<noteq> [] then sort_lines T C lines ks (ts @ [(name, value)]) path content
           else sort_lines T C lines (ks @ [(name, value)]) ts path content)
      else sort_lines T C lines ks ts path (content @ [line]))"

definition pop_while :: "('a \<Rightarrow> bool) \<Rightarrow> 'a list \<Rightarrow> 'a list \<times> 'a list" where
  "pop_while P xs = (rev (dropWhile P (rev xs)), rev (takeWhile P (rev xs)))"

definition skip :: "nat \<Rightarrow> ustr \<Rightarrow> ustr" where
  "skip c s = (if s \<noteq> [] \<and> hd s = c then tl s else s)"

definition drop_prefix :: "ustr \<Rightarrow> ustr \<Rightarrow> ustr option" where
  "drop_prefix p s = (if starts_with s p then Some (drop (length p) s) else None)"

text \<open>\<open>_ORIGIN\<close>: the text after the marker, of a line without a line feed.\<close>

definition match_origin :: "ustr \<Rightarrow> ustr option" where
  "match_origin line =
     lit 42 (skip 32 line) \<bind> (\<lambda>s. map_option (skip 32) (drop_prefix (u ''Origin:'') (skip 32 s)))"

fun parse_all :: "unitext \<Rightarrow> ustr list \<Rightarrow> (nat \<times> nat) list option" where
  "parse_all T [] = Some []"
| "parse_all T (line # lines) =
     parse_net_nodes T (drop 8 line) \<bind> (\<lambda>es. map_option (\<lambda>fs. es @ fs) (parse_all T lines))"

text \<open>What is left once the SEEN-BY lines are off: blank lines, the Origin line, the tear line, the body.\<close>

definition assemble ::
  "unitext \<Rightarrow> ustr option \<Rightarrow> (ustr \<times> ustr) list \<Rightarrow> (ustr \<times> ustr) list \<Rightarrow> (nat \<times> nat) list \<Rightarrow> (nat \<times> nat) list \<Rightarrow>
   ustr list \<Rightarrow> ftn_message \<Rightarrow> ftn_message" where
  "assemble T area ks ts path seen_by content m =
     (let content = fst (pop_while (\<lambda>l. py_strip (ut_space T) l = []) content);
          origin = (if content = [] then None
                    else map_option (py_rstrip (ut_space T)) (match_origin (last content)));
          content = (if origin = None then content else butlast content);
          is_tear = (content \<noteq> [] \<and> (last content = u ''---'' \<or> starts_with (last content) (u ''--- '')));
          tear = (if is_tear then Some (py_rstrip (ut_space T) (drop 4 (last content))) else None);
          content = (if is_tear then butlast content else content)
      in m\<lparr>m_area := area, m_kludges := ks, m_trailing := ts, m_path := path, m_seen_by := seen_by,
           m_origin := origin, m_tear_line := tear,
           m_body := py_rstrip (\<lambda>c. c = 10) (join_with [10] content)\<rparr>)"

definition is_seen_by :: "ustr \<Rightarrow> bool" where
  "is_seen_by line = starts_with line (u ''SEEN-BY:'')"

definition read_lines ::
  "unitext \<Rightarrow> codecs \<Rightarrow> ustr option \<Rightarrow> ustr list \<Rightarrow> ftn_message \<Rightarrow> ftn_message option" where
  "read_lines T C area lines m =
     sort_lines T C lines [] [] [] [] \<bind> (\<lambda>(ks, ts, path, content).
       map_option (\<lambda>seen_by. assemble T area ks ts path seen_by (fst (pop_while is_seen_by content)) m)
         (parse_all T (snd (pop_while is_seen_by content))))"

definition decoded_lines :: "ustr \<Rightarrow> ustr list" where
  "decoded_lines front =
     (let lines = split_on 13 (filter (\<lambda>c. c \<noteq> 10) front) in if last lines = [] then butlast lines else lines)"

definition read_text ::
  "unitext \<Rightarrow> codecs \<Rightarrow> ustr \<Rightarrow> ftn_message \<Rightarrow> ftn_message option" where
  "read_text T C front m =
     (let lines = decoded_lines front;
          area = (if lines = [] then None
                  else map_option (py_strip (ut_space T)) (drop_prefix (u ''AREA:'') (skip KLUDGE (hd lines))))
      in read_lines T C area (if area = None then lines else tl lines) m)"

definition message_codec :: "unitext \<Rightarrow> codecs \<Rightarrow> ustr \<Rightarrow> packed_message \<Rightarrow> ustr option" where
  "message_codec T C fallback p =
     (let chrs = (case raw_kludge T (pm_text p) (ascii_encode (u ''CHRS'')) of
                    Some v \<Rightarrow> (if v = [] then raw_kludge T (pm_text p) (ascii_encode (u ''CHARSET'')) else Some v)
                  | None \<Rightarrow> raw_kludge T (pm_text p) (ascii_encode (u ''CHARSET'')))
      in codec_for_kludge T C chrs (raw_kludge T (pm_text p) (ascii_encode (u ''CODEPAGE''))) fallback)"

definition decode_message ::
  "unitext \<Rightarrow> codecs \<Rightarrow> ustr \<Rightarrow> packed_message \<Rightarrow> ftn_message option" where
  "decode_message T C fallback p =
     message_codec T C fallback p \<bind> (\<lambda>codec.
         read_text T C (cd_decode C codec (pm_text p))
           \<lparr>m_to_name = cd_decode C codec (pm_to_name p), m_from_name = cd_decode C codec (pm_from_name p),
            m_subject = cd_decode C codec (pm_subject p), m_body = [], m_area = None,
            m_date = parse_fts_date (ascii_decode (pm_date p)), m_kludges = [], m_trailing = [],
            m_tear_line = None, m_origin = None, m_seen_by = [], m_path = [],
            m_attributes = pm_attributes p, m_orig_net = pm_orig_net p, m_orig_node = pm_orig_node p,
            m_dest_net = pm_dest_net p, m_dest_node = pm_dest_node p, m_charset = Some codec\<rparr>)"

section \<open>Writing\<close>

datatype message_error = Bad_Area | Bad_Codec

definition outbound_charset :: "codecs \<Rightarrow> ftn_message \<Rightarrow> message_error + ustr \<times> ustr" where
  "outbound_charset C m =
     (let chosen = Inr (choose_outbound_charset C
            [m_to_name m, m_from_name m, m_subject m, m_body m,
             (case m_origin m of None \<Rightarrow> [] | Some t \<Rightarrow> t), (case m_tear_line m of None \<Rightarrow> [] | Some t \<Rightarrow> t)])
      in case m_charset m of
           None \<Rightarrow> chosen
         | Some c \<Rightarrow>
             if c = [] then chosen
             else case kludge_for_codec c of None \<Rightarrow> Inl Bad_Codec | Some k \<Rightarrow> Inr (c, k))"

definition encoded_name_bytes :: "codecs \<Rightarrow> ustr \<Rightarrow> ustr \<times> ustr \<Rightarrow> nat" where
  "encoded_name_bytes C name charset = length (cd_encode C (fst charset) name)"

definition area_char :: "nat \<Rightarrow> bool" where
  "area_char c \<longleftrightarrow> (0x21 \<le> c \<and> c \<le> 0x60) \<or> (0x7b \<le> c \<and> c \<le> 0x7e)"

definition area_ok :: "ustr \<Rightarrow> bool" where
  "area_ok a \<longleftrightarrow> 1 \<le> length a \<and> length a \<le> MAX_AREA_TAG \<and> list_all area_char a"

definition text_lines :: "unitext \<Rightarrow> codecs \<Rightarrow> ftn_message \<Rightarrow> ustr \<Rightarrow> message_error + ustr list" where
  "text_lines T C m chrs =
     (let ks = filter (\<lambda>kv. cd_upper C (fst kv) \<noteq> u ''CHRS'' \<and> cd_upper C (fst kv) \<noteq> u ''CHARSET'') (m_kludges m)
               @ [(u ''CHRS'', chrs)];
          body = plain_text (m_body m)
      in bindE (case m_area m of
                  None \<Rightarrow> Inr []
                | Some a \<Rightarrow> if area_ok a then Inr [u ''AREA:'' @ a] else Inl Bad_Area)
         (\<lambda>lines. Inr
           (lines @ map (\<lambda>(n, v). format_kludge (cd_upper C) n v) ks
            @ (if body = [] then [] else split_on 10 body)
            @ (case m_tear_line m of None \<Rightarrow> [] | Some t \<Rightarrow> [py_rstrip (ut_space T) (u ''--- '' @ plain_text t)])
            @ (case m_origin m of None \<Rightarrow> [] | Some t \<Rightarrow> [take 79 (u '' * Origin: '' @ plain_text t)])
            @ (if m_seen_by m = [] then []
               else format_net_node_lines (u ''SEEN-BY: '') (sorted_list_of_set (set (m_seen_by m))) MAX_CONTROL_LINE)
            @ map (\<lambda>(n, v). format_kludge (cd_upper C) n v) (m_trailing m)
            @ (if m_path m = [] then []
               else map (Cons KLUDGE) (format_net_node_lines (u ''PATH: '') (m_path m) (MAX_CONTROL_LINE - 1))))))"

text \<open>\<open>now\<close> is \<open>datetime.now()\<close>, read when the message has no date.\<close>

definition encode_message ::
  "unitext \<Rightarrow> codecs \<Rightarrow> datetime \<Rightarrow> ftn_message \<Rightarrow> message_error + packed_message" where
  "encode_message T C now m =
     bindE (outbound_charset C m) (\<lambda>(codec, chrs).
     bindE (text_lines T C m chrs) (\<lambda>lines. Inr
       \<lparr>pm_orig_net = m_orig_net m, pm_orig_node = m_orig_node m, pm_dest_net = m_dest_net m,
        pm_dest_node = m_dest_node m, pm_attributes = m_attributes m, pm_cost = 0,
        pm_date = ascii_encode (format_fts_date (case m_date m of None \<Rightarrow> now | Some d \<Rightarrow> d)),
        pm_to_name = truncate_encoded C (m_to_name m) codec MAX_NAME_BYTES,
        pm_from_name = truncate_encoded C (m_from_name m) codec MAX_NAME_BYTES,
        pm_subject = truncate_encoded C (m_subject m) codec MAX_SUBJECT_BYTES,
        pm_text = cd_encode C codec (concat (map (\<lambda>l. l @ [13]) lines))\<rparr>))"

section \<open>When reading raises\<close>

lemma sort_lines_append:
  "sort_lines T C (xs @ ys) ks ts path content =
    sort_lines T C xs ks ts path content \<bind> (\<lambda>(ks, ts, path, content). sort_lines T C ys ks ts path content)"
proof (induction T C xs ks ts path content rule: sort_lines.induct)
  case (2 T C line lines ks ts path content)
  obtain name val where kv: "split_kludge T (tl line) = (name, val)" by (cases "split_kludge T (tl line)")
  show ?case
    using 2 kv by (cases "parse_net_nodes T val") (simp_all add: kv)
qed simp

lemma parse_all_None: "parse_net_nodes T (drop 8 line) = None \<Longrightarrow> line \<in> set lines \<Longrightarrow> parse_all T lines = None"
  by (induction lines) (auto simp: bind_eq_None_conv split: bind_splits)

lemma pop_while_end: "P x \<Longrightarrow> \<forall>y\<in>set ys. P y \<Longrightarrow> x \<in> set (snd (pop_while P (xs @ x # ys)))"
  by (simp add: pop_while_def takeWhile_append)

lemma sort_lines_content:
  "sort_lines T C lines ks ts path content = Some (ks', ts', path', content') \<Longrightarrow>
    content' = content @ filter (\<lambda>l. \<not> starts_with l [KLUDGE]) lines"
  by (induction T C lines ks ts path content rule: sort_lines.induct)
    (auto simp: bind_eq_Some_conv split: prod.splits if_splits)

text \<open>The lines that may follow a SEEN-BY line for it to be read as one: others, and kludge lines.\<close>

definition control_tail :: "ustr list \<Rightarrow> bool" where
  "control_tail lines \<longleftrightarrow> (\<forall>l\<in>set lines. is_seen_by l \<or> starts_with l [KLUDGE])"

lemma read_lines_bad_line:
  assumes "parse_net_nodes T (drop 8 line) = None" and "is_seen_by line" and "control_tail behind"
  shows "read_lines T C area (front @ line # behind) m = None"
proof (cases "sort_lines T C (front @ line # behind) [] [] [] []")
  case (Some r)
  then obtain ks ts path content where r: "sort_lines T C (front @ line # behind) [] [] [] [] = Some (ks, ts, path, content)"
    by (cases r) auto
  have "\<not> starts_with line [KLUDGE]"
    using assms(2) by (cases line) (auto simp: is_seen_by_def starts_with_def KLUDGE_def)
  then have "content = filter (\<lambda>l. \<not> starts_with l [KLUDGE]) front @ line # filter (\<lambda>l. \<not> starts_with l [KLUDGE]) behind"
    using sort_lines_content[OF r] by simp
  moreover have "\<forall>l\<in>set (filter (\<lambda>l. \<not> starts_with l [KLUDGE]) behind). is_seen_by l"
    using assms(3) by (auto simp: control_tail_def)
  ultimately have "line \<in> set (snd (pop_while is_seen_by content))" using pop_while_end[of is_seen_by line] assms(2) by simp
  then show ?thesis using parse_all_None[OF assms(1)] r by (simp add: read_lines_def)
qed (simp add: read_lines_def)

lemma read_text_bad_line:
  assumes "parse_net_nodes T (drop 8 line) = None" and "is_seen_by line" and "control_tail behind"
    and "decoded_lines text = front @ line # behind"
  shows "read_text T C text m = None"
proof (cases front)
  case Nil
  have "drop_prefix (u ''AREA:'') (skip KLUDGE line) = None"
    using assms(2) by (cases line) (auto simp: is_seen_by_def starts_with_def KLUDGE_def skip_def drop_prefix_def)
  then show ?thesis
    using read_lines_bad_line[OF assms(1-3), of C None "[]"] by (simp add: read_text_def assms(4) Nil)
next
  case (Cons l ls)
  then show ?thesis
    using read_lines_bad_line[OF assms(1-3), of C _ front] read_lines_bad_line[OF assms(1-3), of C _ ls]
    by (simp add: read_text_def assms(4) Let_def)
qed

lemma ascii_isdigit: "unicode_laws T \<Longrightarrow> ut_isdigit T c \<Longrightarrow> c < 128 \<Longrightarrow> is_digit c"
  by (simp add: unicode_laws_def)

lemma net_nodes_later: "(\<And>net. net_nodes T net toks = None) \<Longrightarrow> net_nodes T net (tok # toks) = None"
  by (simp add: Let_def bind_eq_None_conv del: not_None_eq split: option.split)

lemma net_nodes_bad_token:
  assumes "\<And>net toks. net_nodes T net (w # toks) = None"
  shows "w \<in> set ws \<Longrightarrow> net_nodes T net ws = None"
proof (induction ws arbitrary: net)
  case (Cons tok toks)
  show ?case
  proof (cases "w = tok")
    case False
    then show ?thesis using Cons by (intro net_nodes_later) simp
  qed (use assms in simp)
qed simp

lemma bad_digit_raises:
  assumes "unicode_laws T" and "py_isdigit T net" and "py_isdigit T node"
    and "c \<in> set (net @ node)" and "ut_decimal T c = None" and "net @ 47 # node \<in> set (py_words (ut_space T) s)"
  shows "parse_net_nodes T s = None"
proof -
  have digits: "d \<noteq> 58 \<and> d \<noteq> 46 \<and> d \<noteq> 64 \<and> d \<noteq> 47" if "d \<in> set (net @ node)" for d
  proof (cases "d < 128")
    case True
    have "ut_isdigit T d" using that assms(2,3) by (auto simp: py_isdigit_def list_all_iff)
    then have "is_digit d" using ascii_isdigit[OF assms(1)] True by blast
    then show ?thesis by (auto simp: is_digit_def)
  qed simp
  then have two_d: "two_d (net @ 47 # node) = net @ 47 # node" by (intro two_d_clean) auto
  have parts: "before 47 (net @ 47 # node) = net" "after 47 (net @ 47 # node) = node"
    using digits by (auto simp: before_def after_def takeWhile_append2 dropWhile_append2 takeWhile_tail)
  have "py_int T net = None \<or> py_int T node = None" using assms(4,5) by (auto simp: py_int_def list_ex_iff)
  then have "net_nodes T n ((net @ 47 # node) # toks) = None" for n toks
    using assms(2,3) by (auto simp: two_d parts bind_eq_None_conv Let_def)
  from net_nodes_bad_token[OF this assms(6)] show ?thesis by (simp add: parse_net_nodes_def)
qed

section \<open>Properties\<close>

text \<open>
  C38: A message from another system can make \<^verbatim>\<open>decode_message\<close> raise a plain \<open>ValueError\<close>, which the tosser
  does not catch: it is enough that one of the SEEN-BY lines at its end (those after which only SEEN-BY and kludge
  lines follow) has a pair \<open>net/node\<close> with a character that \<open>isdigit\<close> holds of but no decimal digit, such as the
  superscript two that byte FD is in CP437. It does not matter which character set the message is read in, by its kludges
  or by default, nor what its other lines are.
\<close>

theorem remote_seen_by_raises:
  assumes "unicode_laws T" and "message_codec T C fallback p = Some codec"
    and "decoded_lines (cd_decode C codec (pm_text p)) = front @ line # behind"
    and "is_seen_by line" and "control_tail behind"
    and "net @ 47 # node \<in> set (py_words (ut_space T) (drop 8 line))" and "py_isdigit T net" and "py_isdigit T node"
    and "c \<in> set (net @ node)" and "ut_decimal T c = None"
  shows "decode_message T C fallback p = None"
  using read_text_bad_line[OF bad_digit_raises[OF assms(1,7-10,6)] assms(4,5,3)] assms(2)
  by (simp add: decode_message_def)

text \<open>CP437 for the bytes of an example: ASCII, and FD as the superscript two.\<close>

definition some_codecs :: codecs where
  "some_codecs = \<lparr>cd_decode = (\<lambda>_. map (\<lambda>b. if b = 0xFD then 178 else unat b)),
     cd_encode = (\<lambda>_. map (\<lambda>c. if c = 178 then 0xFD else of_nat c)),
     cd_fits_cp437 = list_all (\<lambda>c. c < 128 \<or> c = 178), cd_known = (\<lambda>_. True),
     cd_upper = map upper_char\<rparr>"

definition bad_packed :: packed_message where
  "bad_packed = \<lparr>pm_orig_net = 1, pm_orig_node = 2, pm_dest_net = 1, pm_dest_node = 3, pm_attributes = 0,
     pm_cost = 0, pm_date = [], pm_to_name = [], pm_from_name = [], pm_subject = [],
     pm_text = ascii_encode (u ''AREA:X'') @ 13 # 1 # ascii_encode (u ''CHRS: CP437 2'') @ 13 # ascii_encode (u ''Hello'') @
       13 # ascii_encode (u ''SEEN-BY: 2/5 1/'') @ 0xFD # 13 # 1 # ascii_encode (u ''PATH: 1/2'') @ [13]\<rparr>"

theorem remote_seen_by_raises_witness:
  "decode_message small_tables some_codecs (u ''ascii'') bad_packed = None"
proof (rule remote_seen_by_raises[OF small_tables_laws, where codec = "u ''cp437''" and c = 178
      and front = "[u ''AREA:X'', 1 # u ''CHRS: CP437 2'', u ''Hello'']" and line = "u ''SEEN-BY: 2/5 1/'' @ [178]"
      and behind = "[1 # u ''PATH: 1/2'']" and net = "[49]" and node = "[178]"])
  show "message_codec small_tables some_codecs (u ''ascii'') bad_packed = Some (u ''cp437'')"
    by code_simp
  show "decoded_lines (cd_decode some_codecs (u ''cp437'') (pm_text bad_packed)) =
      [u ''AREA:X'', 1 # u ''CHRS: CP437 2'', u ''Hello''] @ (u ''SEEN-BY: 2/5 1/'' @ [178]) # [1 # u ''PATH: 1/2'']"
    by code_simp
  show "[49] @ 47 # [178] \<in> set (py_words (ut_space small_tables) (drop 8 (u ''SEEN-BY: 2/5 1/'' @ [178])))"
    by code_simp
qed (simp_all add: small_tables_def is_digit_def is_seen_by_def starts_with_def control_tail_def KLUDGE_def py_isdigit_def)

end
