(* ===== verification/Work_Items.thy ===== *)
theory Work_Items
  imports NB_Prelude "HOL-Library.List_Lexorder"
begin

text \<open>
  \<^verbatim>\<open>src/netbbs/link/work_items.py\<close>: the outbox of Link mail, the mail side it drives
  (\<^verbatim>\<open>src/netbbs/link/mail.py\<close>) and the part of the synchronisation loop that pushes due items
  (\<open>_push_pending_link_mail\<close> of \<^verbatim>\<open>src/netbbs/link/sync.py\<close>).

  A table is the list of its rows in order of their row ids. An instant is a number of microseconds:
  the code stores the fixed-width ISO 8601 string of it, whose order as text is the order of the
  instants. Each reading of the clock is an argument. A \<open>WorkItemError\<close> is \<open>Inl\<close>; the operations
  raise it before they change a row, except after an \<open>UPDATE\<close> that matched none.
\<close>

section \<open>Rows\<close>

type_synonym instant = int

datatype wi_status = Pending | Retrying | Pushed | Dead_Lettered | Cancelled

datatype wi_kind = Mail_Delivery | Mail_Ack

record work_item =
  wi_id :: nat
  wi_kind :: wi_kind
  wi_reference :: ustr
  wi_target :: ustr
  wi_status :: wi_status
  wi_attempts :: nat
  wi_next :: instant
  wi_created :: instant
  wi_last_attempt :: "instant option"
  wi_last_error :: "ustr option"
  wi_resolved :: "instant option"

datatype letter_status = L_Pending | L_Delivered | L_Bounced | L_Expired

text \<open>The columns of \<open>mail_messages\<close> that delivery reads and writes.\<close>

record letter =
  l_content_id :: ustr
  l_status :: letter_status
  l_reason :: "ustr option"
  l_notice :: bool
  l_handoff :: "instant option"

text \<open>\<open>link_work_items\<close>, \<open>mail_messages\<close>, \<open>link_mail_acknowledgements\<close> (whether the row is a bounce) and
  the actions recorded in the moderation log; \<open>o_known\<close> is the node's \<open>known_event_ids\<close>.\<close>

record outbox =
  o_items :: "work_item list"
  o_letters :: "letter list"
  o_acks :: "ustr \<Rightarrow> bool option"
  o_known :: "ustr set"
  o_log :: "(ustr \<times> nat) list"

datatype work_item_error = WorkItemError

type_synonym 'a wi_result = "work_item_error + 'a"

definition POLICY_REFUSED :: ustr where "POLICY_REFUSED = u ''link policy refused target''"
definition SECOND :: int where "SECOND = 1000000"
definition INITIAL_BACKOFF :: int where "INITIAL_BACKOFF = 300 * SECOND"
definition MAX_BACKOFF :: int where "MAX_BACKOFF = 21600 * SECOND"
definition MAX_ATTEMPTS :: nat where "MAX_ATTEMPTS = 10"
definition MAX_AGE :: int where "MAX_AGE = 5 * 86400 * SECOND"

fun unresolved :: "wi_status \<Rightarrow> bool" where
  "unresolved Pending = True"
| "unresolved Retrying = True"
| "unresolved _ = False"

definition backoff :: "nat \<Rightarrow> int" where
  "backoff attempts = min (INITIAL_BACKOFF * 2 ^ attempts) MAX_BACKOFF"

text \<open>\<open>UPDATE ... WHERE id = ?\<close>, and the row id SQLite gives an \<open>INTEGER PRIMARY KEY\<close>: one more than
  the largest in use.\<close>

definition update_item :: "nat \<Rightarrow> (work_item \<Rightarrow> work_item) \<Rightarrow> outbox \<Rightarrow> outbox" where
  "update_item i f b = b\<lparr>o_items := map (\<lambda>w. if wi_id w = i then f w else w) (o_items b)\<rparr>"

definition next_id :: "work_item list \<Rightarrow> nat" where
  "next_id ws = Suc (foldr max (map wi_id ws) 0)"

definition update_letters :: "(letter \<Rightarrow> bool) \<Rightarrow> (letter \<Rightarrow> letter) \<Rightarrow> outbox \<Rightarrow> outbox" where
  "update_letters P f b = b\<lparr>o_letters := map (\<lambda>l. if P l then f l else l) (o_letters b)\<rparr>"

section \<open>The letter's side\<close>

definition expire_letter :: "ustr \<Rightarrow> ustr option \<Rightarrow> outbox \<Rightarrow> outbox" where
  "expire_letter cid reason =
     update_letters (\<lambda>l. l_content_id l = cid \<and> l_status l = L_Pending)
       (\<lambda>l. l\<lparr>l_status := L_Expired, l_reason := reason, l_notice := True\<rparr>)"

definition unexpire_letter :: "ustr \<Rightarrow> outbox \<Rightarrow> outbox" where
  "unexpire_letter cid =
     update_letters (\<lambda>l. l_content_id l = cid \<and> l_status l = L_Expired)
       (\<lambda>l. l\<lparr>l_status := L_Pending, l_reason := None, l_notice := False, l_handoff := None\<rparr>)"

definition record_relay_handoff :: "ustr \<Rightarrow> instant \<Rightarrow> outbox \<Rightarrow> outbox" where
  "record_relay_handoff cid now =
     update_letters (\<lambda>l. l_content_id l = cid \<and> l_status l = L_Pending) (\<lambda>l. l\<lparr>l_handoff := Some now\<rparr>)"

definition RELAY_NO_ANSWER_TIMEOUT :: int where "RELAY_NO_ANSWER_TIMEOUT = 14 * 86400 * SECOND"

definition record_bounce :: "ustr \<Rightarrow> ustr \<Rightarrow> bool \<Rightarrow> outbox \<Rightarrow> outbox" where
  "record_bounce cid reason only_pending =
     update_letters (\<lambda>l. l_content_id l = cid \<and> (only_pending \<longrightarrow> l_status l = L_Pending))
       (\<lambda>l. l\<lparr>l_status := L_Bounced, l_reason := Some (take 64 reason),
              l_notice := (if l_status l = L_Bounced then l_notice l else True)\<rparr>)"

definition apply_accepted :: "ustr \<Rightarrow> outbox \<Rightarrow> outbox" where
  "apply_accepted cid =
     update_letters (\<lambda>l. l_content_id l = cid)
       (\<lambda>l. l\<lparr>l_status := L_Delivered, l_reason := None, l_notice := False\<rparr>)"

definition apply_bounced :: "ustr \<Rightarrow> ustr \<Rightarrow> outbox \<Rightarrow> outbox" where
  "apply_bounced cid reason = record_bounce cid reason False"

definition record_refused :: "ustr \<Rightarrow> ustr \<Rightarrow> outbox \<Rightarrow> outbox" where
  "record_refused cid reason = record_bounce cid reason True"

definition expire_unanswered_relay_mail :: "instant \<Rightarrow> outbox \<Rightarrow> outbox" where
  "expire_unanswered_relay_mail now =
     update_letters
       (\<lambda>l. l_status l = L_Pending \<and> (\<exists>h\<in>set_option (l_handoff l). h \<le> now - RELAY_NO_ANSWER_TIMEOUT))
       (\<lambda>l. l\<lparr>l_status := L_Expired, l_reason := Some (u ''no_answer''), l_notice := True\<rparr>)"

section \<open>Work items\<close>

definition get_by_key :: "outbox \<Rightarrow> wi_kind \<Rightarrow> ustr \<Rightarrow> ustr \<Rightarrow> work_item option" where
  "get_by_key b k ref tgt =
     find (\<lambda>w. wi_kind w = k \<and> wi_reference w = ref \<and> wi_target w = tgt) (o_items b)"

definition enqueue :: "instant \<Rightarrow> wi_kind \<Rightarrow> ustr \<Rightarrow> ustr \<Rightarrow> outbox \<Rightarrow> outbox" where
  "enqueue now k ref tgt b =
     (if get_by_key b k ref tgt \<noteq> None then b
      else b\<lparr>o_items := o_items b @
        [\<lparr>wi_id = next_id (o_items b), wi_kind = k, wi_reference = ref, wi_target = tgt, wi_status = Pending,
          wi_attempts = 0, wi_next = now, wi_created = now, wi_last_attempt = None, wi_last_error = None,
          wi_resolved = None\<rparr>]\<rparr>)"

definition get_item :: "outbox \<Rightarrow> nat \<Rightarrow> work_item wi_result" where
  "get_item b i = (case find (\<lambda>w. wi_id w = i) (o_items b) of None \<Rightarrow> Inl WorkItemError | Some w \<Rightarrow> Inr w)"

definition load_due :: "instant \<Rightarrow> wi_kind \<Rightarrow> nat \<Rightarrow> outbox \<Rightarrow> work_item list" where
  "load_due now k limit b =
     take limit (sort_key wi_next
       (filter (\<lambda>w. wi_kind w = k \<and> unresolved (wi_status w) \<and> wi_next w \<le> now) (o_items b)))"

definition list_items :: "wi_status option \<Rightarrow> wi_kind option \<Rightarrow> outbox \<Rightarrow> work_item list" where
  "list_items st k b =
     sort_key (\<lambda>w. - wi_created w)
       (filter (\<lambda>w. (st = None \<or> st = Some (wi_status w)) \<and> (k = None \<or> k = Some (wi_kind w))) (o_items b))"

definition with_item :: "outbox \<Rightarrow> nat \<Rightarrow> (work_item \<times> outbox) wi_result" where
  "with_item b i = map_sum id (\<lambda>w. (w, b)) (get_item b i)"

definition record_success :: "instant \<Rightarrow> work_item \<Rightarrow> outbox \<Rightarrow> (work_item \<times> outbox) wi_result" where
  "record_success now w b =
     with_item (update_item (wi_id w)
       (\<lambda>r. r\<lparr>wi_status := Pushed, wi_last_attempt := Some now, wi_resolved := Some now\<rparr>) b) (wi_id w)"

text \<open>The clock is read three times, by \<open>utc_now_iso\<close>, \<open>_cutoff_iso\<close> and \<open>_offset_iso\<close>. \<open>w\<close> is the row as it
  was when the caller loaded it.\<close>

definition record_failure ::
  "instant \<times> instant \<times> instant \<Rightarrow> work_item \<Rightarrow> ustr \<Rightarrow> outbox \<Rightarrow> (work_item \<times> outbox) wi_result" where
  "record_failure ts w err b =
     (case ts of (now, cut_now, off_now) \<Rightarrow>
      let attempts = wi_attempts w + 1;
          too_old = wi_created w < cut_now - MAX_AGE;
          b = (if MAX_ATTEMPTS \<le> attempts \<or> too_old
               then update_item (wi_id w)
                 (\<lambda>r. r\<lparr>wi_status := Dead_Lettered, wi_attempts := attempts, wi_last_attempt := Some now,
                        wi_last_error := Some err, wi_resolved := Some now\<rparr>) b
               else update_item (wi_id w)
                 (\<lambda>r. r\<lparr>wi_status := Retrying, wi_attempts := attempts, wi_last_attempt := Some now,
                        wi_last_error := Some err, wi_next := off_now + backoff attempts\<rparr>) b)
      in with_item b (wi_id w))"

definition held :: "ustr \<Rightarrow> work_item \<Rightarrow> bool" where
  "held err w \<longleftrightarrow> unresolved (wi_status w) \<and> wi_last_error w = Some err"

definition targets_held_by :: "ustr \<Rightarrow> outbox \<Rightarrow> ustr list" where
  "targets_held_by err b = sorted_list_of_set (wi_target ` set (filter (held err) (o_items b)))"

definition wakes :: "instant \<Rightarrow> ustr \<Rightarrow> ustr \<Rightarrow> work_item \<Rightarrow> bool" where
  "wakes now tgt err w \<longleftrightarrow> wi_target w = tgt \<and> held err w \<and> now < wi_next w"

definition wake_items :: "instant \<Rightarrow> ustr \<Rightarrow> ustr \<Rightarrow> outbox \<Rightarrow> nat \<times> outbox" where
  "wake_items now tgt err b =
     (length (filter (wakes now tgt err) (o_items b)),
      b\<lparr>o_items := map (\<lambda>w. if wakes now tgt err w then w\<lparr>wi_next := now\<rparr> else w) (o_items b)\<rparr>)"

definition log_action :: "ustr \<Rightarrow> nat \<Rightarrow> outbox \<Rightarrow> outbox" where
  "log_action act i b = b\<lparr>o_log := o_log b @ [(act, i)]\<rparr>"

definition replay :: "instant \<Rightarrow> nat \<Rightarrow> outbox \<Rightarrow> (work_item \<times> outbox) wi_result" where
  "replay now i b =
     (case get_item b i of Inl e \<Rightarrow> Inl e | Inr w \<Rightarrow>
      if wi_status w \<noteq> Dead_Lettered \<and> wi_status w \<noteq> Cancelled then Inl WorkItemError
      else
        let b = update_item i (\<lambda>r. r\<lparr>wi_status := Pending, wi_attempts := 0, wi_next := now, wi_created := now,
                                  wi_last_error := None, wi_resolved := None\<rparr>) b;
            b = (if wi_kind w = Mail_Delivery then unexpire_letter (wi_reference w) b else b)
        in with_item (log_action (u ''replay_link_work_item'') i b) i)"

definition cancel_item :: "instant \<Rightarrow> nat \<Rightarrow> outbox \<Rightarrow> (work_item \<times> outbox) wi_result" where
  "cancel_item now i b =
     (case get_item b i of Inl e \<Rightarrow> Inl e | Inr w \<Rightarrow>
      if \<not> unresolved (wi_status w) then Inl WorkItemError
      else
        let b = update_item i (\<lambda>r. r\<lparr>wi_status := Cancelled, wi_resolved := Some now\<rparr>) b;
            b = (if wi_kind w = Mail_Delivery
                 then expire_letter (wi_reference w) (Some (u ''sysop_cancelled'')) b else b)
        in with_item (log_action (u ''cancel_link_work_item'') i b) i)"

definition delete_item :: "nat \<Rightarrow> outbox \<Rightarrow> outbox wi_result" where
  "delete_item i b =
     (case get_item b i of Inl e \<Rightarrow> Inl e | Inr w \<Rightarrow>
      if wi_status w \<noteq> Dead_Lettered \<and> wi_status w \<noteq> Cancelled then Inl WorkItemError
      else Inr (log_action (u ''delete_link_work_item'') i
                  (b\<lparr>o_items := filter (\<lambda>r. wi_id r \<noteq> i) (o_items b)\<rparr>)))"

section \<open>The synchronisation pass\<close>

text \<open>
  The two loops of \<open>_push_pending_link_mail\<close>, cut at their network attempt, which awaits: \<open>push_begin\<close>
  is the body up to the attempt (\<open>None\<close>: the item is settled without one), \<open>push_end\<close> the rest.
  \<open>allowed\<close> and \<open>probationary\<close> are the answers of the trust policy for the target, \<open>enforce\<close> whether it
  is asked. The network's part is one of four outcomes.
\<close>

datatype push_result = Took_It | Left_At_Relay instant | Policy_Refused ustr | No_Route

definition no_route :: ustr where "no_route = u ''could not push on any known or relayed address''"

definition letter_of :: "outbox \<Rightarrow> ustr \<Rightarrow> letter option" where
  "letter_of b cid = find (\<lambda>l. l_content_id l = cid) (o_letters b)"

definition settle :: "(work_item \<times> outbox) wi_result \<Rightarrow> (work_item option \<times> outbox) wi_result" where
  "settle = map_sum id (\<lambda>(w, b). (None, b))"

definition expire_if_dead ::
  "wi_kind \<Rightarrow> ustr \<Rightarrow> ustr option \<Rightarrow> work_item \<times> outbox \<Rightarrow> work_item \<times> outbox" where
  "expire_if_dead k ref reason wb =
     (if k = Mail_Delivery \<and> wi_status (fst wb) = Dead_Lettered
      then (fst wb, expire_letter ref reason (snd wb)) else wb)"

definition push_begin ::
  "bool \<Rightarrow> bool \<Rightarrow> bool \<Rightarrow> instant \<times> instant \<times> instant \<Rightarrow> work_item \<Rightarrow> outbox \<Rightarrow>
   (work_item option \<times> outbox) wi_result" where
  "push_begin enforce allowed probationary ts w b =
     (case wi_kind w of
        Mail_Delivery \<Rightarrow>
          (case letter_of b (wi_reference w) of
             None \<Rightarrow> settle (record_success (fst ts) w b)
           | Some l \<Rightarrow>
               if l_status l \<noteq> L_Pending then settle (record_success (fst ts) w b)
               else
                 let b = b\<lparr>o_known := insert (wi_reference w) (o_known b)\<rparr> in
                 if enforce \<and> \<not> allowed
                 then settle (map_sum id (expire_if_dead Mail_Delivery (wi_reference w) (Some (u ''own_policy'')))
                        (record_failure ts w POLICY_REFUSED b))
                 else Inr (Some w, b))
      | Mail_Ack \<Rightarrow>
          (case o_acks b (wi_reference w) of
             None \<Rightarrow> settle (record_success (fst ts) w b)
           | Some bounce \<Rightarrow>
               if enforce \<and> \<not> allowed \<and> \<not> (bounce \<and> probationary)
               then settle (record_failure ts w POLICY_REFUSED b)
               else Inr (Some w, b)))"

fun push_end ::
  "push_result \<Rightarrow> instant \<times> instant \<times> instant \<Rightarrow> work_item \<Rightarrow> outbox \<Rightarrow> (work_item \<times> outbox) wi_result" where
  "push_end Took_It ts w b = record_success (fst ts) w b"
| "push_end (Left_At_Relay t) ts w b =
     record_success (fst ts) w
       (if wi_kind w = Mail_Delivery then record_relay_handoff (wi_reference w) t b else b)"
| "push_end (Policy_Refused reason) ts w b =
     (if wi_kind w = Mail_Delivery
      then record_success (fst ts) w (record_refused (wi_reference w) reason b)
      else map_sum id (expire_if_dead (wi_kind w) (wi_reference w) None) (record_failure ts w no_route b))"
| "push_end No_Route ts w b =
     map_sum id (expire_if_dead (wi_kind w) (wi_reference w) None) (record_failure ts w no_route b)"

section \<open>Every interleaving\<close>

text \<open>
  One step of the node: a caller or SysOp operation, an answer from the other node, or a piece of the
  synchronisation pass. \<open>s_todo\<close> holds the rows loaded for this pass, \<open>s_flight\<close> the one whose network
  attempt is under way; both are snapshots, and other steps may change the rows meanwhile.
\<close>

record sync =
  s_box :: outbox
  s_now :: instant
  s_todo :: "work_item list"
  s_flight :: "work_item option"

fun last_reading :: "instant \<times> instant \<times> instant \<Rightarrow> instant" where
  "last_reading (_, _, t) = t"

fun readings_from :: "instant \<Rightarrow> instant \<times> instant \<times> instant \<Rightarrow> bool" where
  "readings_from now (a, b, c) \<longleftrightarrow> now \<le> a \<and> a \<le> b \<and> b \<le> c"

inductive sync_step :: "sync \<Rightarrow> sync \<Rightarrow> bool" where
  compose: "s_now s \<le> t \<Longrightarrow> sync_step s (s\<lparr>s_box := enqueue t k ref tgt (s_box s), s_now := t\<rparr>)"
| write_letter: "sync_step s (s\<lparr>s_box := (s_box s)\<lparr>o_letters := o_letters (s_box s) @ [l], o_acks := acks\<rparr>\<rparr>)"
| sysop_cancel: "s_now s \<le> t \<Longrightarrow> cancel_item t i (s_box s) = Inr (w, b) \<Longrightarrow>
    sync_step s (s\<lparr>s_box := b, s_now := t\<rparr>)"
| sysop_replay: "s_now s \<le> t \<Longrightarrow> replay t i (s_box s) = Inr (w, b) \<Longrightarrow>
    sync_step s (s\<lparr>s_box := b, s_now := t\<rparr>)"
| sysop_delete: "delete_item i (s_box s) = Inr b \<Longrightarrow> sync_step s (s\<lparr>s_box := b\<rparr>)"
| wake: "s_now s \<le> t \<Longrightarrow> sync_step s (s\<lparr>s_box := snd (wake_items t tgt err (s_box s)), s_now := t\<rparr>)"
| accepted: "sync_step s (s\<lparr>s_box := apply_accepted cid (s_box s)\<rparr>)"
| bounced: "sync_step s (s\<lparr>s_box := apply_bounced cid reason (s_box s)\<rparr>)"
| relay_timeout: "s_now s \<le> t \<Longrightarrow>
    sync_step s (s\<lparr>s_box := expire_unanswered_relay_mail t (s_box s), s_now := t\<rparr>)"
| load: "s_now s \<le> t \<Longrightarrow> sync_step s (s\<lparr>s_todo := load_due t k limit (s_box s), s_now := t\<rparr>)"
| begin_push: "s_todo s = w # ws \<Longrightarrow> s_flight s = None \<Longrightarrow> readings_from (s_now s) ts \<Longrightarrow>
    push_begin enforce allowed probationary ts w (s_box s) = Inr (fl, b) \<Longrightarrow>
    sync_step s (s\<lparr>s_box := b, s_now := last_reading ts, s_todo := ws, s_flight := fl\<rparr>)"
| end_push: "s_flight s = Some w \<Longrightarrow> readings_from (s_now s) ts \<Longrightarrow>
    push_end result ts w (s_box s) = Inr (w', b) \<Longrightarrow>
    sync_step s (s\<lparr>s_box := b, s_now := last_reading ts, s_flight := None\<rparr>)"

definition empty_outbox :: outbox where
  "empty_outbox = \<lparr>o_items = [], o_letters = [], o_acks = Map.empty, o_known = {}, o_log = []\<rparr>"

definition start_sync :: "instant \<Rightarrow> sync" where
  "start_sync t = \<lparr>s_box = empty_outbox, s_now = t, s_todo = [], s_flight = None\<rparr>"

section \<open>The invariant\<close>

definition wi_key :: "work_item \<Rightarrow> wi_kind \<times> ustr \<times> ustr" where
  "wi_key w = (wi_kind w, wi_reference w, wi_target w)"

definition item_ok :: "instant \<Rightarrow> work_item \<Rightarrow> bool" where
  "item_ok now w \<longleftrightarrow>
     (unresolved (wi_status w) \<longrightarrow> wi_attempts w < MAX_ATTEMPTS \<and> wi_next w \<le> now + MAX_BACKOFF)"

definition items_ok :: "instant \<Rightarrow> work_item list \<Rightarrow> bool" where
  "items_ok now ws \<longleftrightarrow>
     distinct (map wi_id ws) \<and> distinct (map wi_key ws) \<and> (\<forall>w\<in>set ws. item_ok now w)"

lemma item_ok_later: "item_ok now w \<Longrightarrow> now \<le> t \<Longrightarrow> item_ok t w"
  by (auto simp: item_ok_def)

lemma items_ok_later: "items_ok now ws \<Longrightarrow> now \<le> t \<Longrightarrow> items_ok t ws"
  by (auto simp: items_ok_def intro: item_ok_later)

lemma backoff_le: "backoff n \<le> MAX_BACKOFF"
  by (simp add: backoff_def)

lemma items_ok_map:
  assumes "items_ok now ws" and "\<And>w. wi_id (f w) = wi_id w" and "\<And>w. wi_key (f w) = wi_key w"
    and "\<And>w. w \<in> set ws \<Longrightarrow> item_ok t (f w)"
  shows "items_ok t (map f ws)"
proof -
  have same: "map wi_id (map f ws) = map wi_id ws" "map wi_key (map f ws) = map wi_key ws"
    using assms(2,3) by simp_all
  show ?thesis unfolding items_ok_def same using assms(1,4) by (auto simp: items_ok_def)
qed

lemma update_item_ok:
  assumes "items_ok now (o_items b)" and "\<And>w. wi_id (f w) = wi_id w" and "\<And>w. wi_key (f w) = wi_key w"
    and "\<And>w. w \<in> set (o_items b) \<Longrightarrow> item_ok now (f w)"
  shows "items_ok now (o_items (update_item i f b))"
proof -
  have "items_ok now (map (\<lambda>w. if wi_id w = i then f w else w) (o_items b))"
    using assms by (intro items_ok_map[OF assms(1)]) (auto simp: items_ok_def)
  then show ?thesis by (simp add: update_item_def)
qed

lemma items_update_letters [simp]: "o_items (update_letters P f b) = o_items b"
  by (simp add: update_letters_def)

lemmas letter_ops = expire_letter_def unexpire_letter_def record_relay_handoff_def record_bounce_def
  apply_accepted_def apply_bounced_def record_refused_def expire_unanswered_relay_mail_def

lemma items_letter_ops [simp]:
  "o_items (expire_letter c r b) = o_items b" "o_items (unexpire_letter c b) = o_items b"
  "o_items (record_relay_handoff c t b) = o_items b" "o_items (record_bounce c e p b) = o_items b"
  "o_items (apply_accepted c b) = o_items b" "o_items (apply_bounced c e b) = o_items b"
  "o_items (record_refused c e b) = o_items b" "o_items (expire_unanswered_relay_mail t b) = o_items b"
  by (simp_all add: letter_ops)

lemma items_log [simp]: "o_items (log_action a i b) = o_items b"
  by (simp add: log_action_def)

lemma next_id_fresh: "w \<in> set ws \<Longrightarrow> wi_id w < next_id ws"
  unfolding next_id_def by (induction ws) auto

lemma enqueue_ok: "items_ok now (o_items b) \<Longrightarrow> items_ok now (o_items (enqueue now k ref tgt b))"
  using next_id_fresh[of _ "o_items b"]
  by (fastforce simp: enqueue_def items_ok_def get_by_key_def find_None_iff wi_key_def item_ok_def
      MAX_ATTEMPTS_def MAX_BACKOFF_def SECOND_def)

lemma with_item_box: "with_item b i = Inr (w, b') \<Longrightarrow> b' = b \<and> w \<in> set (o_items b) \<and> wi_id w = i"
  by (auto simp: with_item_def get_item_def find_Some_iff split: option.splits)

lemma record_success_ok:
  assumes "record_success t w b = Inr (w', b')" and "items_ok now (o_items b)"
  shows "items_ok now (o_items b')"
proof -
  have "b' = update_item (wi_id w)
      (\<lambda>r. r\<lparr>wi_status := Pushed, wi_last_attempt := Some t, wi_resolved := Some t\<rparr>) b"
    using assms(1) by (auto simp: record_success_def dest: with_item_box)
  then show ?thesis
    using assms(2) by (auto intro!: update_item_ok simp: wi_key_def item_ok_def)
qed

lemma record_failure_ok:
  assumes "record_failure (t1, t2, t3) w err b = Inr (w', b')" and "items_ok now (o_items b)"
    and "now \<le> t3"
  shows "items_ok t3 (o_items b')"
  using assms(1) items_ok_later[OF assms(2,3)] backoff_le[of "wi_attempts w + 1"]
  by (auto simp: record_failure_def Let_def wi_key_def item_ok_def
      dest!: with_item_box split: if_splits intro!: update_item_ok)

lemma get_item_Inr: "get_item b i = Inr w \<Longrightarrow> w \<in> set (o_items b) \<and> wi_id w = i"
  by (auto simp: get_item_def find_Some_iff split: option.splits)

lemma cancel_ok:
  assumes "cancel_item t i b = Inr (w', b')" and "items_ok now (o_items b)"
  shows "items_ok now (o_items b')"
  using assms
  by (auto simp: cancel_item_def Let_def wi_key_def item_ok_def
      dest!: with_item_box split: sum.splits if_splits intro!: update_item_ok)

lemma replay_ok:
  assumes "replay t i b = Inr (w', b')" and "items_ok t (o_items b)"
  shows "items_ok t (o_items b')"
  using assms
  by (auto simp: replay_def Let_def wi_key_def item_ok_def MAX_ATTEMPTS_def MAX_BACKOFF_def SECOND_def
      dest!: with_item_box split: sum.splits if_splits intro!: update_item_ok)

lemma items_ok_filter: "items_ok now ws \<Longrightarrow> items_ok now (filter P ws)"
  by (auto simp: items_ok_def distinct_map intro: inj_on_subset)

lemma delete_ok:
  assumes "delete_item i b = Inr b'" and "items_ok now (o_items b)"
  shows "items_ok now (o_items b')"
  using assms by (auto simp: delete_item_def split: sum.splits if_splits intro: items_ok_filter)

lemma wake_ok:
  assumes "items_ok now (o_items b)" and "now \<le> t"
  shows "items_ok t (o_items (snd (wake_items t tgt err b)))"
proof -
  have "items_ok t (map (\<lambda>w. if wakes t tgt err w then w\<lparr>wi_next := t\<rparr> else w) (o_items b))"
    using assms
    by (intro items_ok_map[OF assms(1)])
      (auto simp: items_ok_def item_ok_def wi_key_def MAX_BACKOFF_def SECOND_def)
  then show ?thesis by (simp add: wake_items_def)
qed

lemma settle_Inr: "settle r = Inr (fl, b) \<Longrightarrow> \<exists>w. r = Inr (w, b) \<and> fl = None"
  by (cases r) (auto simp: settle_def)

lemma expire_if_dead_items [simp]: "o_items (snd (expire_if_dead k ref reason wb)) = o_items (snd wb)"
  by (simp add: expire_if_dead_def)

lemma map_sum_Inr: "map_sum id f r = Inr y \<longleftrightarrow> (\<exists>x. r = Inr x \<and> y = f x)"
  by (cases r) auto

lemma expired_Inr:
  "map_sum id (expire_if_dead k ref reason) r = Inr (w, b) \<Longrightarrow>
    \<exists>wb. r = Inr wb \<and> o_items b = o_items (snd wb)"
  by (cases r) (auto simp: expire_if_dead_def split: if_splits)

lemma push_begin_ok:
  assumes "push_begin enforce allowed probationary (t1, t2, t3) w b = Inr (fl, b')"
    and "items_ok now (o_items b)" and "now \<le> t3"
  shows "items_ok t3 (o_items b')"
proof -
  let ?b = "b\<lparr>o_known := insert (wi_reference w) (o_known b)\<rparr>"
  have ok: "items_ok t3 (o_items b)" and same: "o_items ?b = o_items b"
    using items_ok_later[OF assms(2,3)] by simp_all
  consider (pushed) w' where "record_success t1 w b = Inr (w', b')"
    | (refused) wb where "record_failure (t1, t2, t3) w POLICY_REFUSED ?b = Inr wb"
        "o_items b' = o_items (snd wb)"
    | (held) w' where "record_failure (t1, t2, t3) w POLICY_REFUSED b = Inr (w', b')"
    | (tried) "o_items b' = o_items b"
    using assms(1)
    by (auto simp: push_begin_def Let_def dest!: settle_Inr expired_Inr
        split: wi_kind.splits option.splits if_splits)
  then show ?thesis
  proof cases
    case pushed
    then show ?thesis using record_success_ok ok by blast
  next
    case refused
    then show ?thesis using record_failure_ok[of t1 t2 t3 w _ ?b "fst wb" "snd wb" now] assms(2,3) by simp
  next
    case held
    then show ?thesis using record_failure_ok assms(2,3) by blast
  next
    case tried
    then show ?thesis using ok by simp
  qed
qed

lemma push_end_ok:
  assumes "push_end result (t1, t2, t3) w b = Inr (w', b')"
    and "items_ok now (o_items b)" and "now \<le> t3"
  shows "items_ok t3 (o_items b')"
proof -
  have ok: "items_ok t3 (o_items b)" using items_ok_later[OF assms(2,3)] .
  consider (pushed) b0 where "record_success t1 w b0 = Inr (w', b')" "o_items b0 = o_items b"
    | (failed) wb where "record_failure (t1, t2, t3) w no_route b = Inr wb" "o_items b' = o_items (snd wb)"
    using assms(1) by (cases result) (auto dest!: expired_Inr split: if_splits)
  then show ?thesis
  proof cases
    case pushed
    then show ?thesis using record_success_ok[OF pushed(1)] ok by simp
  next
    case failed
    then show ?thesis using record_failure_ok[of t1 t2 t3 w _ b "fst wb" "snd wb" now] assms(2,3) by simp
  qed
qed

definition sync_ok :: "sync \<Rightarrow> bool" where
  "sync_ok s \<longleftrightarrow> items_ok (s_now s) (o_items (s_box s))"

lemma sync_step_ok: "sync_step s s' \<Longrightarrow> sync_ok s \<Longrightarrow> sync_ok s'"
proof (induction rule: sync_step.induct)
  case (begin_push s w ws ts enforce allowed probationary fl b)
  obtain t1 t2 t3 where ts: "ts = (t1, t2, t3)" by (cases ts)
  show ?case
    using push_begin_ok[OF begin_push(4)[unfolded ts]] begin_push.prems begin_push(3) ts
    by (simp add: sync_ok_def)
next
  case (end_push s w ts result w' b)
  obtain t1 t2 t3 where ts: "ts = (t1, t2, t3)" by (cases ts)
  show ?case
    using push_end_ok[OF end_push(3)[unfolded ts]] end_push.prems end_push(2) ts
    by (simp add: sync_ok_def)
qed (auto simp: sync_ok_def intro: enqueue_ok cancel_ok replay_ok delete_ok wake_ok items_ok_later)

lemma sync_steps_ok: "sync_step\<^sup>*\<^sup>* s s' \<Longrightarrow> sync_ok s \<Longrightarrow> sync_ok s'"
  by (induction rule: rtranclp_induct) (auto intro: sync_step_ok)

lemma start_sync_ok: "sync_ok (start_sync t)"
  by (simp add: sync_ok_def start_sync_def empty_outbox_def items_ok_def)

section \<open>Giving up\<close>

text \<open>The loop's own use: each failure is recorded on the row the previous one returned.\<close>

fun fail_run ::
  "(instant \<times> instant \<times> instant) list \<Rightarrow> ustr \<Rightarrow> work_item \<Rightarrow> outbox \<Rightarrow> (work_item \<times> outbox) wi_result" where
  "fail_run [] err w b = Inr (w, b)"
| "fail_run (ts # tss) err w b =
     (case record_failure ts w err b of
        Inl e \<Rightarrow> Inl e
      | Inr (w', b') \<Rightarrow> if wi_status w' = Dead_Lettered then Inr (w', b') else fail_run tss err w' b')"

lemma get_update_item:
  assumes "get_item b i = Inr w" and "\<And>w. wi_id (f w) = wi_id w"
  shows "with_item (update_item i f b) i = Inr (f w, update_item i f b)"
proof -
  have "find (\<lambda>w. wi_id w = i) (map (\<lambda>w. if wi_id w = i then f w else w) ws) = Some (f w)"
    if "find (\<lambda>w. wi_id w = i) ws = Some w" for ws
    using that by (induction ws) (auto simp: assms(2) split: if_splits)
  then show ?thesis
    using assms(1) by (auto simp: with_item_def get_item_def update_item_def split: option.splits)
qed

lemma with_item_get: "with_item b i = Inr (w, b') \<Longrightarrow> get_item b' i = Inr w \<and> b' = b"
  by (auto simp: with_item_def map_sum_Inr)

lemma get_updated:
  "get_item b i = Inr w \<Longrightarrow> (\<And>w. wi_id (f w) = wi_id w) \<Longrightarrow> get_item (update_item i f b) i = Inr (f w)"
  using with_item_get[OF get_update_item[of b i w f]] by simp

lemma record_failure_cases:
  assumes "get_item b (wi_id w) = Inr w"
  shows "\<exists>w' b'. record_failure (t1, t2, t3) w err b = Inr (w', b') \<and>
    get_item b' (wi_id w') = Inr w' \<and> wi_attempts w' = wi_attempts w + 1 \<and>
    (if MAX_ATTEMPTS \<le> wi_attempts w + 1 \<or> wi_created w < t2 - MAX_AGE then wi_status w' = Dead_Lettered
     else wi_status w' = Retrying \<and> wi_next w' = t3 + backoff (wi_attempts w + 1))"
  using assms
  by (auto simp: record_failure_def Let_def get_update_item get_updated)

lemma fail_run_dies:
  assumes "get_item b (wi_id w) = Inr w" and "wi_attempts w < MAX_ATTEMPTS"
    and "MAX_ATTEMPTS - wi_attempts w \<le> length tss"
  shows "\<exists>w' b'. fail_run tss err w b = Inr (w', b') \<and> wi_status w' = Dead_Lettered \<and>
    wi_attempts w' \<le> MAX_ATTEMPTS"
  using assms
proof (induction tss arbitrary: w b)
  case (Cons ts tss)
  obtain t1 t2 t3 where ts: "ts = (t1, t2, t3)" by (cases ts)
  obtain w' b' where r: "record_failure (t1, t2, t3) w err b = Inr (w', b')"
      "get_item b' (wi_id w') = Inr w'" "wi_attempts w' = wi_attempts w + 1"
      "if MAX_ATTEMPTS \<le> wi_attempts w + 1 \<or> wi_created w < t2 - MAX_AGE then wi_status w' = Dead_Lettered
       else wi_status w' = Retrying \<and> wi_next w' = t3 + backoff (wi_attempts w + 1)"
    using record_failure_cases[OF Cons.prems(1), of t1 t2 t3 err] by blast
  show ?case
  proof (cases "wi_status w' = Dead_Lettered")
    case True
    then show ?thesis using r Cons.prems(2) ts by auto
  next
    case False
    then have "wi_attempts w' < MAX_ATTEMPTS" using r(3,4) by (auto split: if_splits)
    then show ?thesis using Cons.IH[OF r(2)] r Cons.prems(3) ts False by auto
  qed
qed simp

lemma find_update_letter:
  assumes "\<And>l. l_content_id (f l) = l_content_id l"
  shows "find (\<lambda>l. l_content_id l = c) (map (\<lambda>l. if l_content_id l = c \<and> P l then f l else l) ls)
    = map_option (\<lambda>l. if P l then f l else l) (find (\<lambda>l. l_content_id l = c) ls)"
  using assms by (induction ls) auto

section \<open>Properties\<close>

text \<open>
  C34: The outbox under every interleaving of composing, SysOp actions, answers and the push loop: row
  ids and the key of a delivery are unique, and an item still to be tried has fewer than ten attempts
  behind it and is due at most six hours from now.
\<close>

theorem outbox_bounded_and_unique:
  assumes "sync_step\<^sup>*\<^sup>* (start_sync t0) s"
  shows "distinct (map wi_id (o_items (s_box s))) \<and> distinct (map wi_key (o_items (s_box s))) \<and>
    list_all (\<lambda>w. unresolved (wi_status w) \<longrightarrow>
      wi_attempts w < 10 \<and> wi_next w \<le> s_now s + 21600 * 1000000) (o_items (s_box s))"
  using sync_steps_ok[OF assms start_sync_ok]
  by (auto simp: sync_ok_def items_ok_def item_ok_def list_all_iff MAX_ATTEMPTS_def MAX_BACKOFF_def SECOND_def)

definition composed :: sync where
  "composed = (start_sync 0)
     \<lparr>s_box := enqueue 5 Mail_Delivery (u ''m1'') (u ''node'') (s_box (start_sync 0)), s_now := 5\<rparr>"

theorem outbox_bounded_and_unique_witness:
  "distinct (map wi_id (o_items (s_box composed))) \<and> distinct (map wi_key (o_items (s_box composed))) \<and>
    list_all (\<lambda>w. unresolved (wi_status w) \<longrightarrow>
      wi_attempts w < 10 \<and> wi_next w \<le> s_now composed + 21600 * 1000000) (o_items (s_box composed))"
proof (rule outbox_bounded_and_unique)
  show "sync_step\<^sup>*\<^sup>* (start_sync 0) composed"
    unfolding composed_def by (rule r_into_rtranclp, rule sync_step.compose) (simp add: start_sync_def)
qed

text \<open>
  C35: A delivery is not retried for ever: when every attempt from the first on fails, the item is
  dead-lettered after at most ten of them, whatever the clock does.
\<close>

theorem failing_delivery_dead_letters:
  assumes "get_item b (wi_id w) = Inr w" and "wi_attempts w = 0" and "length tss = 10"
  shows "\<exists>w' b'. fail_run tss err w b = Inr (w', b') \<and> wi_status w' = Dead_Lettered \<and> wi_attempts w' \<le> 10"
  using fail_run_dies[of b w tss err] assms by (simp add: MAX_ATTEMPTS_def)

theorem failing_delivery_dead_letters_witness:
  "\<exists>w' b'. fail_run (replicate 10 (7, 7, 7)) no_route (hd (o_items (s_box composed))) (s_box composed)
     = Inr (w', b') \<and> wi_status w' = Dead_Lettered \<and> wi_attempts w' \<le> 10"
  by (rule failing_delivery_dead_letters)
    (simp_all add: composed_def enqueue_def empty_outbox_def get_by_key_def get_item_def start_sync_def)

text \<open>
  C36: A SysOp's cancellation does not stand if it falls between the loading of the item and the end of
  its network attempt. The failed attempt turns the cancelled item into one that is being retried
  while its letter is already expired, and the next pass then records it as pushed, although no
  attempt ever succeeded.
\<close>

theorem stale_failure_overrides_cancel:
  assumes "get_item b (wi_id w) = Inr w" and "wi_kind w = Mail_Delivery" and "unresolved (wi_status w)"
    and "wi_attempts w + 1 < 10" and "t2 - 5 * 86400 * 1000000 \<le> wi_created w"
    and "letter_of b (wi_reference w) = Some l"
  shows "\<exists>wc b1 wr b2 b3 wp. cancel_item t (wi_id w) b = Inr (wc, b1) \<and> wi_status wc = Cancelled \<and>
    push_end No_Route (t1, t2, t3) w b1 = Inr (wr, b2) \<and> wi_status wr = Retrying \<and>
    push_begin enforce allowed probationary (t4, t5, t6) wr b2 = Inr (None, b3) \<and>
    get_item b3 (wi_id w) = Inr wp \<and> wi_status wp = Pushed"
proof -
  let ?i = "wi_id w"
  let ?c = "\<lambda>r. r\<lparr>wi_status := Cancelled, wi_resolved := Some t\<rparr>"
  define b1 where "b1 = log_action (u ''cancel_link_work_item'') ?i
    (expire_letter (wi_reference w) (Some (u ''sysop_cancelled'')) (update_item ?i ?c b))"
  have row1: "get_item b1 ?i = Inr (?c w)"
    using with_item_get[OF get_update_item[OF assms(1), of ?c]]
    by (simp add: b1_def get_item_def)
  have cancel: "cancel_item t ?i b = Inr (?c w, b1)"
    using assms(1-3) row1 by (simp add: cancel_item_def Let_def with_item_def b1_def)
  have letter: "\<exists>l. letter_of b1 (wi_reference w) = Some l \<and> l_status l \<noteq> L_Pending"
    using assms(6)
    by (simp add: b1_def letter_of_def log_action_def expire_letter_def update_letters_def update_item_def
        find_update_letter)
  let ?f = "\<lambda>r. r\<lparr>wi_status := Retrying, wi_attempts := wi_attempts w + 1, wi_last_attempt := Some t1,
    wi_last_error := Some no_route, wi_next := t3 + backoff (wi_attempts w + 1)\<rparr>"
  let ?b2 = "update_item ?i ?f b1" and ?wr = "?f (?c w)"
  have failed: "push_end No_Route (t1, t2, t3) w b1 = Inr (?wr, ?b2)"
    using assms(2,4,5) get_update_item[OF row1, of ?f]
    by (simp add: record_failure_def Let_def MAX_ATTEMPTS_def MAX_AGE_def SECOND_def expire_if_dead_def)
  have row2: "get_item ?b2 ?i = Inr ?wr"
    using with_item_get[OF get_update_item[OF row1, of ?f]] by simp
  have letter2: "\<exists>l. letter_of ?b2 (wi_reference w) = Some l \<and> l_status l \<noteq> L_Pending"
    using letter by (simp add: letter_of_def update_item_def)
  let ?p = "\<lambda>r. r\<lparr>wi_status := Pushed, wi_last_attempt := Some t4, wi_resolved := Some t4\<rparr>"
  have "push_begin enforce allowed probationary (t4, t5, t6) ?wr ?b2 = Inr (None, update_item ?i ?p ?b2)"
    using letter2 assms(2) get_update_item[OF row2, of ?p]
    by (auto simp: push_begin_def record_success_def settle_def)
  moreover have "get_item (update_item ?i ?p ?b2) ?i = Inr (?p ?wr)"
    using with_item_get[OF get_update_item[OF row2, of ?p]] by simp
  ultimately show ?thesis
    using cancel failed by fastforce
qed

text \<open>A letter to one node, its delivery cancelled at time 6 while the attempt runs.\<close>

definition mailed :: outbox where
  "mailed = (s_box composed)\<lparr>o_letters :=
     [\<lparr>l_content_id = u ''m1'', l_status = L_Pending, l_reason = None, l_notice = False, l_handoff = None\<rparr>]\<rparr>"

theorem stale_failure_overrides_cancel_witness:
  "let w = hd (o_items mailed)
   in \<exists>wc b1 wr b2 b3 wp. cancel_item 6 (wi_id w) mailed = Inr (wc, b1) \<and> wi_status wc = Cancelled \<and>
    push_end No_Route (7, 7, 7) w b1 = Inr (wr, b2) \<and> wi_status wr = Retrying \<and>
    push_begin False True False (9, 9, 9) wr b2 = Inr (None, b3) \<and>
    get_item b3 (wi_id w) = Inr wp \<and> wi_status wp = Pushed"
  unfolding Let_def
  by (rule stale_failure_overrides_cancel)
    (simp_all add: mailed_def composed_def start_sync_def enqueue_def empty_outbox_def get_by_key_def
      get_item_def letter_of_def)

text \<open>
  A replay undoes a cancellation: the cancelled delivery's letter is no longer pending, and after
  the replay the item is due at once with a clean count and the letter, unless it was answered in the
  meantime, is pending again with nothing left to tell its sender.
\<close>

theorem replay_undoes_cancel:
  assumes "get_item b i = Inr w" and "wi_kind w = Mail_Delivery" and "unresolved (wi_status w)"
    and "letter_of b (wi_reference w) = Some l"
  shows "\<exists>wc b1 wr b2 l1 l2. cancel_item t1 i b = Inr (wc, b1) \<and> replay t2 i b1 = Inr (wr, b2) \<and>
    wi_status wr = Pending \<and> wi_attempts wr = 0 \<and> wi_next wr = t2 \<and> wi_created wr = t2 \<and>
    letter_of b1 (wi_reference w) = Some l1 \<and> l_status l1 \<noteq> L_Pending \<and>
    letter_of b2 (wi_reference w) = Some l2 \<and>
    (if l_status l = L_Pending \<or> l_status l = L_Expired
     then l_status l2 = L_Pending \<and> l_reason l2 = None \<and> \<not> l_notice l2 else l2 = l)"
proof -
  let ?c = "\<lambda>r. r\<lparr>wi_status := Cancelled, wi_resolved := Some t1\<rparr>"
  let ?p = "\<lambda>r. r\<lparr>wi_status := Pending, wi_attempts := 0, wi_next := t2, wi_created := t2,
    wi_last_error := None, wi_resolved := None\<rparr>"
  define b1 where "b1 = log_action (u ''cancel_link_work_item'') i
    (expire_letter (wi_reference w) (Some (u ''sysop_cancelled'')) (update_item i ?c b))"
  define b2 where "b2 = log_action (u ''replay_link_work_item'') i
    (unexpire_letter (wi_reference w) (update_item i ?p b1))"
  have row1: "get_item b1 i = Inr (?c w)"
    using get_updated[OF assms(1), of ?c] by (simp add: b1_def get_item_def)
  have row2: "get_item b2 i = Inr (?p (?c w))"
    using get_updated[OF row1, of ?p] by (simp add: b2_def get_item_def)
  have cancel: "cancel_item t1 i b = Inr (?c w, b1)"
    using assms(1-3) row1 by (simp add: cancel_item_def Let_def with_item_def b1_def)
  have replay: "replay t2 i b1 = Inr (?p (?c w), b2)"
    using row1 row2 assms(2) by (simp add: replay_def Let_def with_item_def b2_def)
  let ?l1 = "if l_status l = L_Pending
    then l\<lparr>l_status := L_Expired, l_reason := Some (u ''sysop_cancelled''), l_notice := True\<rparr> else l"
  let ?l2 = "if l_status ?l1 = L_Expired
    then ?l1\<lparr>l_status := L_Pending, l_reason := None, l_notice := False, l_handoff := None\<rparr> else ?l1"
  have letter1: "letter_of b1 (wi_reference w) = Some ?l1"
    using assms(4)
    by (simp add: b1_def letter_of_def log_action_def expire_letter_def update_letters_def update_item_def
        find_update_letter)
  have letter2: "letter_of b2 (wi_reference w) = Some ?l2"
    using letter1
    by (simp add: b2_def letter_of_def log_action_def unexpire_letter_def update_letters_def
        update_item_def find_update_letter)
  show ?thesis
    using cancel replay letter1 letter2
    by (intro exI[of _ "?c w"] exI[of _ b1] exI[of _ "?p (?c w)"] exI[of _ b2] exI[of _ ?l1] exI[of _ ?l2])
      simp
qed

theorem replay_undoes_cancel_witness:
  "\<exists>wc b1 wr b2 l1 l2. cancel_item 6 1 mailed = Inr (wc, b1) \<and> replay 8 1 b1 = Inr (wr, b2) \<and>
    wi_status wr = Pending \<and> wi_attempts wr = 0 \<and> wi_next wr = 8 \<and> wi_created wr = 8 \<and>
    letter_of b1 (u ''m1'') = Some l1 \<and> l_status l1 \<noteq> L_Pending \<and>
    letter_of b2 (u ''m1'') = Some l2 \<and> l_status l2 = L_Pending \<and> l_reason l2 = None \<and> \<not> l_notice l2"
  using replay_undoes_cancel[of mailed 1 "hd (o_items mailed)" "hd (o_letters mailed)" 6 8]
  by (simp add: mailed_def composed_def start_sync_def enqueue_def empty_outbox_def get_by_key_def
      get_item_def letter_of_def next_id_def)

end
