(* ===== verification/Relay_Selection.thy ===== *)
theory Relay_Selection
  imports NB_Prelude "HOL-Library.AList" Complex_Main
begin

text \<open>
  Which nodes relay for this one: \<^verbatim>\<open>src/netbbs/link/reliability.py\<close> (the tally of dial attempts),
  \<^verbatim>\<open>src/netbbs/link/relay_selection.py\<close> (ranking and self-healing) and \<open>_maintain_relay_selection\<close> of
  \<^verbatim>\<open>src/netbbs/link/sync.py\<close>, the pass that drops and tops up.

  A Python dict is the association list of its entries in insertion order. A score is the exact
  quotient; the code's floating-point quotients compare the same way for fewer than \<open>2\<^sup>2\<^sup>5\<close>
  attempts. What the network answers is an argument: \<open>ask\<close> gives each candidate's answer and
  \<open>dialable\<close> whether an address for it is on file. The hello that precedes a request also refreshes
  the peer table; that refresh is not represented, and this pass does not read it again.
\<close>

section \<open>Reliability\<close>

type_synonym instant = int

record tally =
  attempts :: nat
  successes :: nat

type_synonym reliability = "ustr \<Rightarrow> tally option"

definition UNOBSERVED_SCORE :: rat where "UNOBSERVED_SCORE = 1 / 2"

definition record_dial_outcome :: "ustr \<Rightarrow> bool \<Rightarrow> reliability \<Rightarrow> reliability" where
  "record_dial_outcome fp ok r =
     (let s = (if ok then 1 else 0)
      in r(fp \<mapsto> (case r fp of
             None \<Rightarrow> \<lparr>attempts = 1, successes = s\<rparr>
           | Some t \<Rightarrow> \<lparr>attempts = attempts t + 1, successes = successes t + s\<rparr>)))"

definition reliability_score :: "reliability \<Rightarrow> ustr \<Rightarrow> rat" where
  "reliability_score r fp =
     (case r fp of
        None \<Rightarrow> UNOBSERVED_SCORE
      | Some t \<Rightarrow> if attempts t = 0 then UNOBSERVED_SCORE else of_nat (successes t) / of_nat (attempts t))"

text \<open>\<open>sorted\<close> with \<open>reverse=True\<close> keeps the order of entries with equal keys, as \<open>sort_key\<close> does.\<close>

definition rank_by_reliability :: "reliability \<Rightarrow> ustr list \<Rightarrow> ustr list" where
  "rank_by_reliability r fps = sort_key (\<lambda>fp. - reliability_score r fp) fps"

section \<open>Selection\<close>

text \<open>The fields of \<open>LinkNode\<close> the selection reads; a peer or candidate with its \<open>outgoing_only\<close> flag.
  \<open>rn_saved\<close> are the stored consents with role \<open>relay_for_me\<close>.\<close>

record relay_node =
  rn_self :: ustr
  rn_peers :: "(ustr \<times> bool) list"
  rn_candidates :: "(ustr \<times> bool) list"
  rn_pending :: "ustr list"
  rn_serving :: "(ustr \<times> instant) list"
  rn_saved :: "(ustr \<times> instant) list"
  rn_reliability :: reliability
  rn_declines :: "(ustr \<times> instant) list"

definition TARGET_RELAY_COUNT :: nat where "TARGET_RELAY_COUNT = 3"
definition RELIABILITY_FLOOR :: rat where "RELIABILITY_FLOOR = 3 / 10"
definition MAX_CONSENT_ATTEMPTS :: nat where "MAX_CONSENT_ATTEMPTS = 6"
definition DECLINE_MEMORY :: int where "DECLINE_MEMORY = 3600 * 1000000"
definition MAX_REMEMBERED_DECLINES :: nat where "MAX_REMEMBERED_DECLINES = 1024"

text \<open>One pass of the loops over \<open>node.peers\<close> and \<open>node.candidate_descriptors\<close>.\<close>

definition see_peer :: "ustr \<Rightarrow> ustr list \<Rightarrow> ustr \<times> bool \<Rightarrow> ustr list" where
  "see_peer self seen p =
     (case p of (fp, outgoing_only) \<Rightarrow>
      if fp = self then seen
      else if outgoing_only then seen
      else if fp \<in> set seen then seen else seen @ [fp])"

definition reachable_candidates :: "relay_node \<Rightarrow> ustr list" where
  "reachable_candidates n =
     (let seen = foldl (see_peer (rn_self n)) [] (rn_peers n);
          seen = foldl (see_peer (rn_self n)) seen (rn_candidates n)
      in filter (\<lambda>fp. fp \<notin> fst ` set (rn_serving n) \<and> fp \<notin> set (rn_pending n)) seen)"

definition select_relay_candidates :: "nat \<Rightarrow> relay_node \<Rightarrow> ustr list" where
  "select_relay_candidates count n =
     (if count \<le> length (rn_serving n) then []
      else rank_by_reliability (rn_reliability n) (reachable_candidates n))"

definition relays_needing_replacement :: "rat \<Rightarrow> relay_node \<Rightarrow> ustr list" where
  "relays_needing_replacement least n =
     filter (\<lambda>fp. reliability_score (rn_reliability n) fp \<le> least) (map fst (rn_serving n))"

section \<open>The maintenance pass\<close>

text \<open>What asking one candidate comes to: not reached, reached and not granted, or granted at a time.\<close>

datatype consent = Unreached | Declined | Granted instant

definition drop_relay :: "relay_node \<Rightarrow> ustr \<Rightarrow> relay_node" where
  "drop_relay n fp =
     n\<lparr>rn_serving := AList.delete fp (rn_serving n), rn_saved := AList.delete fp (rn_saved n)\<rparr>"

text \<open>\<open>request_relay_consent\<close> on an accepted response.\<close>

definition grant_relay :: "ustr \<Rightarrow> instant \<Rightarrow> relay_node \<Rightarrow> relay_node" where
  "grant_relay fp t n =
     n\<lparr>rn_serving := AList.update fp t (rn_serving n), rn_saved := AList.update fp t (rn_saved n)\<rparr>"

definition note_decline :: "instant \<Rightarrow> ustr \<Rightarrow> relay_node \<Rightarrow> relay_node" where
  "note_decline now fp n =
     (let d = rn_declines n;
          d = drop (length d - (MAX_REMEMBERED_DECLINES - 1)) d
      in n\<lparr>rn_declines := AList.update fp now d\<rparr>)"

definition ask_one :: "instant \<Rightarrow> ustr \<Rightarrow> consent \<Rightarrow> relay_node \<Rightarrow> relay_node" where
  "ask_one now fp answer n =
     (let n = (case answer of Granted t \<Rightarrow> grant_relay fp t n | _ \<Rightarrow> n);
          n = n\<lparr>rn_reliability := record_dial_outcome fp (answer \<noteq> Unreached) (rn_reliability n)\<rparr>
      in case answer of
           Granted _ \<Rightarrow> n\<lparr>rn_declines := AList.delete fp (rn_declines n)\<rparr>
         | _ \<Rightarrow> note_decline now fp n)"

fun ask_loop ::
  "instant \<Rightarrow> (ustr \<Rightarrow> bool) \<Rightarrow> (ustr \<Rightarrow> consent) \<Rightarrow> int \<Rightarrow> nat \<Rightarrow> ustr list \<Rightarrow> relay_node \<Rightarrow> relay_node \<times> ustr list" where
  "ask_loop now dialable ask needed attempted [] n = (n, [])"
| "ask_loop now dialable ask needed attempted (fp # fps) n =
     (if needed \<le> 0 \<or> MAX_CONSENT_ATTEMPTS \<le> attempted then (n, [])
      else if \<not> dialable fp then ask_loop now dialable ask needed attempted fps n
      else
        let needed = (case ask fp of Granted _ \<Rightarrow> needed - 1 | _ \<Rightarrow> needed);
            (n, asked) = ask_loop now dialable ask needed (attempted + 1) fps (ask_one now fp (ask fp) n)
        in (n, fp # asked))"

text \<open>The second result lists the candidates dialled, in order.\<close>

definition maintain_relay_selection ::
  "instant \<Rightarrow> (ustr \<Rightarrow> bool) \<Rightarrow> (ustr \<Rightarrow> consent) \<Rightarrow> relay_node \<Rightarrow> relay_node \<times> ustr list" where
  "maintain_relay_selection now dialable ask n =
     (let n = foldl drop_relay n (relays_needing_replacement RELIABILITY_FLOOR n);
          needed = int TARGET_RELAY_COUNT - int (length (rn_serving n));
          n = n\<lparr>rn_declines := filter (\<lambda>(fp, t). now - t < DECLINE_MEMORY) (rn_declines n)\<rparr>;
          ranked = select_relay_candidates TARGET_RELAY_COUNT n;
          declined = fst ` set (rn_declines n);
          ordered = filter (\<lambda>fp. fp \<notin> declined) ranked @ filter (\<lambda>fp. fp \<in> declined) ranked
      in ask_loop now dialable ask needed 0 ordered n)"

section \<open>Reliability\<close>

definition tally_ok :: "reliability \<Rightarrow> bool" where
  "tally_ok r \<longleftrightarrow> (\<forall>fp t. r fp = Some t \<longrightarrow> successes t \<le> attempts t)"

lemma record_dial_ok: "tally_ok r \<Longrightarrow> tally_ok (record_dial_outcome fp ok r)"
  by (auto simp: tally_ok_def record_dial_outcome_def Let_def split: option.splits) fastforce+

lemma score_bounds: "tally_ok r \<Longrightarrow> 0 \<le> reliability_score r fp \<and> reliability_score r fp \<le> 1"
  by (auto simp: tally_ok_def reliability_score_def UNOBSERVED_SCORE_def divide_le_eq_1 split: option.splits)

section \<open>Candidates\<close>

lemma see_peer_distinct: "distinct seen \<Longrightarrow> distinct (foldl (see_peer self) seen ps)"
  by (induction ps arbitrary: seen) (auto simp: see_peer_def split: prod.splits)

lemma see_peer_one: "set (see_peer self seen p) = set seen \<union> {fp. p = (fp, False) \<and> fp \<noteq> self}"
  by (cases p) (auto simp: see_peer_def)

lemma see_peer_set:
  "set (foldl (see_peer self) seen ps) = set seen \<union> {fp. (fp, False) \<in> set ps \<and> fp \<noteq> self}"
  by (induction ps arbitrary: seen) (simp_all add: see_peer_one, blast)

lemma candidates_distinct: "distinct (reachable_candidates n)"
  by (simp add: reachable_candidates_def Let_def see_peer_distinct)

lemma candidates_set:
  "set (reachable_candidates n) =
    {fp. (fp, False) \<in> set (rn_peers n) \<union> set (rn_candidates n) \<and> fp \<noteq> rn_self n \<and>
         fp \<notin> fst ` set (rn_serving n) \<and> fp \<notin> set (rn_pending n)}"
  by (auto simp: reachable_candidates_def Let_def see_peer_set)

section \<open>The pass\<close>

lemma length_alist_update:
  "length (AList.update k v xs) = (if k \<in> fst ` set xs then length xs else Suc (length xs))"
  by (induction xs) auto

lemma length_alist_delete_le: "length (AList.delete k xs) \<le> length xs"
  by (simp add: AList.delete_eq)

lemma ask_one_frame:
  "rn_serving (ask_one now fp a n) =
     (case a of Granted t \<Rightarrow> AList.update fp t (rn_serving n) | _ \<Rightarrow> rn_serving n)"
  "rn_saved (ask_one now fp a n) =
     (case a of Granted t \<Rightarrow> AList.update fp t (rn_saved n) | _ \<Rightarrow> rn_saved n)"
  by (auto simp: ask_one_def grant_relay_def note_decline_def Let_def split: consent.splits)

lemma ask_one_declines:
  "length (rn_declines n) \<le> MAX_REMEMBERED_DECLINES \<Longrightarrow>
    length (rn_declines (ask_one now fp a n)) \<le> MAX_REMEMBERED_DECLINES"
  using length_alist_delete_le[of fp "rn_declines n"]
  by (auto simp: ask_one_def grant_relay_def note_decline_def Let_def length_alist_update
      MAX_REMEMBERED_DECLINES_def split: consent.splits)

lemma ask_one_tally: "tally_ok (rn_reliability n) \<Longrightarrow> tally_ok (rn_reliability (ask_one now fp a n))"
  by (auto simp: ask_one_def grant_relay_def note_decline_def Let_def record_dial_ok split: consent.splits)

lemma ask_loop_bounds:
  assumes "ask_loop now dialable ask needed attempted fps n = (n', asked)"
  shows "length (rn_serving n') \<le> length (rn_serving n) + nat needed \<and>
    length asked \<le> MAX_CONSENT_ATTEMPTS - attempted \<and> set asked \<subseteq> set fps \<and>
    fst ` set (rn_serving n) \<subseteq> fst ` set (rn_serving n')"
  using assms
proof (induction now dialable ask needed attempted fps n arbitrary: n' asked rule: ask_loop.induct)
  case (2 now dialable ask needed attempted fp fps n)
  consider (stop) "needed \<le> 0 \<or> MAX_CONSENT_ATTEMPTS \<le> attempted"
    | (skip) "\<not> (needed \<le> 0 \<or> MAX_CONSENT_ATTEMPTS \<le> attempted)" "\<not> dialable fp"
    | (dial) "\<not> (needed \<le> 0 \<or> MAX_CONSENT_ATTEMPTS \<le> attempted)" "dialable fp" by blast
  then show ?case
  proof cases
    case stop
    then show ?thesis using 2(3) by auto
  next
    case skip
    then show ?thesis using 2(1)[of n' asked] 2(3) by auto
  next
    case dial
    let ?n = "ask_one now fp (ask fp) n"
    let ?needed = "case ask fp of Granted _ \<Rightarrow> needed - 1 | _ \<Rightarrow> needed"
    obtain rest where rest: "ask_loop now dialable ask ?needed (attempted + 1) fps ?n = (n', rest)"
        "asked = fp # rest"
      using 2(3) dial by (auto simp: Let_def split: prod.splits)
    have IH: "length (rn_serving n') \<le> length (rn_serving ?n) + nat ?needed \<and>
        length rest \<le> MAX_CONSENT_ATTEMPTS - (attempted + 1) \<and> set rest \<subseteq> set fps \<and>
        fst ` set (rn_serving ?n) \<subseteq> fst ` set (rn_serving n')"
      using 2(2)[OF dial(1) _ refl rest(1)] dial(2) by simp
    have "length (rn_serving ?n) + nat ?needed \<le> length (rn_serving n) + nat needed"
      using dial(1) by (auto simp: ask_one_frame length_alist_update split: consent.splits)
    moreover have "fst ` set (rn_serving n) \<subseteq> fst ` set (rn_serving n')"
    proof -
      have "fst ` set (rn_serving n) \<subseteq> fst ` set (rn_serving ?n)"
        by (auto simp: ask_one_frame AList.dom_update split: consent.splits)
      with IH show ?thesis by blast
    qed
    ultimately show ?thesis using IH rest(2) dial(1) by (intro conjI) auto
  qed
qed simp

lemma ask_loop_invariant:
  assumes "ask_loop now dialable ask needed attempted fps n = (n', asked)"
    and "P n" and "\<And>t n fp a. P n \<Longrightarrow> P (ask_one t fp a n)"
  shows "P n'"
  using assms(1,2)
proof (induction now dialable ask needed attempted fps n arbitrary: n' asked rule: ask_loop.induct)
  case (2 now dialable ask needed attempted fp fps n)
  show ?case
  proof (cases "needed \<le> 0 \<or> MAX_CONSENT_ATTEMPTS \<le> attempted")
    case True
    then show ?thesis using 2(3,4) by auto
  next
    case False
    note stop = False
    show ?thesis
    proof (cases "dialable fp")
      case False
      then show ?thesis using 2(1)[of n' asked] 2(3,4) stop by auto
    next
      case True
      obtain rest where "ask_loop now dialable ask (case ask fp of Granted _ \<Rightarrow> needed - 1 | _ \<Rightarrow> needed)
          (attempted + 1) fps (ask_one now fp (ask fp) n) = (n', rest)"
        using 2(3) stop True by (auto simp: Let_def split: prod.splits)
      from 2(2)[OF stop _ refl this] show ?thesis using True assms(3)[OF 2(4)] by simp
    qed
  qed
qed simp

lemma drop_relays:
  "rn_serving (foldl drop_relay n fps) = filter (\<lambda>p. fst p \<notin> set fps) (rn_serving n)"
  "rn_saved (foldl drop_relay n fps) = filter (\<lambda>p. fst p \<notin> set fps) (rn_saved n)"
  "rn_reliability (foldl drop_relay n fps) = rn_reliability n"
  "rn_declines (foldl drop_relay n fps) = rn_declines n"
  "rn_self (foldl drop_relay n fps) = rn_self n" "rn_peers (foldl drop_relay n fps) = rn_peers n"
  "rn_candidates (foldl drop_relay n fps) = rn_candidates n" "rn_pending (foldl drop_relay n fps) = rn_pending n"
  by (induction fps arbitrary: n) (auto simp: drop_relay_def AList.delete_eq intro: filter_cong)

lemma maintain_obtain:
  assumes "maintain_relay_selection now dialable ask n = (n', asked)"
  obtains n0 fps where "ask_loop now dialable ask (3 - int (length (rn_serving n0))) 0 fps n0 = (n', asked)"
    and "rn_serving n0 = filter (\<lambda>p. 3 / 10 < reliability_score (rn_reliability n) (fst p)) (rn_serving n)"
    and "rn_saved n0 = filter (\<lambda>p. fst p \<notin> set (relays_needing_replacement (3 / 10) n)) (rn_saved n)"
    and "rn_reliability n0 = rn_reliability n" and "length (rn_declines n0) \<le> length (rn_declines n)"
    and "set fps \<subseteq> set (reachable_candidates n0)"
proof -
  let ?d = "foldl drop_relay n (relays_needing_replacement RELIABILITY_FLOOR n)"
  let ?n = "?d\<lparr>rn_declines := filter (\<lambda>(fp, t). now - t < DECLINE_MEMORY) (rn_declines ?d)\<rparr>"
  obtain fps where loop: "ask_loop now dialable ask (3 - int (length (rn_serving ?n))) 0 fps ?n = (n', asked)"
      and fps: "set fps \<subseteq> set (reachable_candidates ?n)"
    using assms
    by (auto simp: maintain_relay_selection_def Let_def TARGET_RELAY_COUNT_def select_relay_candidates_def
        rank_by_reliability_def split: if_splits)
  show ?thesis
    by (rule that[OF loop _ _ _ _ fps])
      (auto simp: drop_relays relays_needing_replacement_def RELIABILITY_FLOOR_def not_le intro!: filter_cong)
qed

section \<open>Properties\<close>

text \<open>
  The candidates are offered best first, and the offer is complete and fair: exactly the reachable
  full peers that are neither this node nor serving nor being asked, each once, ordered by observed
  reliability, and those with equal reliability in the order they became known.
\<close>

theorem relay_candidates_ranked:
  assumes "length (rn_serving n) < count"
  shows "sorted_wrt (\<lambda>a b. reliability_score (rn_reliability n) b \<le> reliability_score (rn_reliability n) a)
      (select_relay_candidates count n) \<and>
    distinct (select_relay_candidates count n) \<and>
    set (select_relay_candidates count n) =
      {fp. (fp, False) \<in> set (rn_peers n) \<union> set (rn_candidates n) \<and> fp \<noteq> rn_self n \<and>
           fp \<notin> fst ` set (rn_serving n) \<and> fp \<notin> set (rn_pending n)} \<and>
    filter (\<lambda>fp. reliability_score (rn_reliability n) fp = q) (select_relay_candidates count n) =
      filter (\<lambda>fp. reliability_score (rn_reliability n) fp = q) (reachable_candidates n)"
proof -
  let ?s = "reliability_score (rn_reliability n)"
  let ?c = "sort_key (\<lambda>fp. - ?s fp) (reachable_candidates n)"
  have cs: "select_relay_candidates count n = ?c"
    using assms by (simp add: select_relay_candidates_def rank_by_reliability_def)
  have "sorted_wrt (\<lambda>a b. ?s b \<le> ?s a) ?c"
    using sorted_sort_key[of "\<lambda>fp. - ?s fp" "reachable_candidates n"] by (simp add: sorted_wrt_map)
  moreover have "filter (\<lambda>fp. ?s fp = q) ?c = filter (\<lambda>fp. ?s fp = q) (reachable_candidates n)"
    using sort_key_stable[of "\<lambda>fp. - ?s fp" "- q" "reachable_candidates n"] by simp
  ultimately show ?thesis
    unfolding cs by (simp add: candidates_distinct candidates_set)
qed

text \<open>A node that is served by \<open>a\<close> (two failures) and \<open>b\<close> (two successes) and knows \<open>c\<close> and \<open>d\<close>.\<close>

definition small_node :: relay_node where
  "small_node = \<lparr>rn_self = u ''me'', rn_peers = [(u ''a'', False), (u ''c'', False)],
     rn_candidates = [(u ''d'', False), (u ''e'', True), (u ''me'', False)], rn_pending = [],
     rn_serving = [(u ''a'', 1), (u ''b'', 2)], rn_saved = [(u ''a'', 1), (u ''b'', 2)],
     rn_reliability = [u ''a'' \<mapsto> \<lparr>attempts = 2, successes = 0\<rparr>, u ''b'' \<mapsto> \<lparr>attempts = 2, successes = 2\<rparr>,
       u ''d'' \<mapsto> \<lparr>attempts = 1, successes = 1\<rparr>], rn_declines = []\<rparr>"

theorem relay_candidates_ranked_witness:
  "select_relay_candidates 3 small_node = [u ''d'', u ''c''] \<and>
    sorted_wrt (\<lambda>a b. reliability_score (rn_reliability small_node) b \<le> reliability_score (rn_reliability small_node) a)
      (select_relay_candidates 3 small_node) \<and> distinct (select_relay_candidates 3 small_node)"
proof -
  have "select_relay_candidates 3 small_node = [u ''d'', u ''c'']"
    by (simp add: small_node_def select_relay_candidates_def rank_by_reliability_def reachable_candidates_def
        see_peer_def reliability_score_def UNOBSERVED_SCORE_def)
  then show ?thesis
    using relay_candidates_ranked[of small_node 3 0] by (simp add: small_node_def)
qed

text \<open>
  C37: One maintenance pass: every relay observed to be good stays, the set never grows past three
  (unless it was larger already), at most six nodes are dialled, none of them a relay that was kept,
  the stored consents stay equal to the live ones, and the memory of declines stays bounded.
\<close>

theorem maintenance_keeps_good_relays:
  assumes "maintain_relay_selection now dialable ask n = (n', asked)"
    and "rn_saved n = rn_serving n" and "length (rn_declines n) \<le> MAX_REMEMBERED_DECLINES"
  shows "length (rn_serving n') \<le> max 3 (length (rn_serving n)) \<and> length asked \<le> 6 \<and>
    {fp \<in> fst ` set (rn_serving n). 3 / 10 < reliability_score (rn_reliability n) fp}
      \<subseteq> fst ` set (rn_serving n') - set asked \<and>
    rn_saved n' = rn_serving n' \<and> length (rn_declines n') \<le> 1024"
proof -
  obtain n0 fps where loop: "ask_loop now dialable ask (3 - int (length (rn_serving n0))) 0 fps n0 = (n', asked)"
    and kept: "rn_serving n0 = filter (\<lambda>p. 3 / 10 < reliability_score (rn_reliability n) (fst p)) (rn_serving n)"
    and saved: "rn_saved n0 = filter (\<lambda>p. fst p \<notin> set (relays_needing_replacement (3 / 10) n)) (rn_saved n)"
    and declines: "length (rn_declines n0) \<le> length (rn_declines n)"
    and fps: "set fps \<subseteq> set (reachable_candidates n0)"
    using maintain_obtain[OF assms(1)] by metis
  have "rn_saved n0 = rn_serving n0"
    unfolding saved kept assms(2)
    by (rule filter_cong) (auto simp: relays_needing_replacement_def not_le)
  then have "rn_saved n' = rn_serving n'"
    by (rule ask_loop_invariant[OF loop]) (auto simp: ask_one_frame split: consent.splits)
  moreover have "length (rn_declines n') \<le> MAX_REMEMBERED_DECLINES"
    by (rule ask_loop_invariant[OF loop, where P = "\<lambda>n. length (rn_declines n) \<le> MAX_REMEMBERED_DECLINES"])
      (use declines assms(3) in \<open>auto intro: ask_one_declines\<close>)
  moreover have "length (rn_serving n0) \<le> length (rn_serving n)" by (simp add: kept)
  moreover have "set asked \<inter> fst ` set (rn_serving n0) = {}"
    using ask_loop_bounds[OF loop] fps by (auto simp: candidates_set)
  moreover have "{fp \<in> fst ` set (rn_serving n). 3 / 10 < reliability_score (rn_reliability n) fp}
      = fst ` set (rn_serving n0)"
    by (auto simp: kept)
  ultimately show ?thesis
    using ask_loop_bounds[OF loop]
    by (auto simp: MAX_REMEMBERED_DECLINES_def MAX_CONSENT_ATTEMPTS_def)
qed

theorem maintenance_keeps_good_relays_witness:
  "let (n', asked) = maintain_relay_selection 9 (\<lambda>_. True) (\<lambda>_. Granted 9) small_node
   in length (rn_serving n') \<le> max 3 2 \<and> length asked \<le> 6 \<and> u ''b'' \<in> fst ` set (rn_serving n') - set asked \<and>
      rn_saved n' = rn_serving n'"
proof -
  obtain n' asked where r: "maintain_relay_selection 9 (\<lambda>_. True) (\<lambda>_. Granted 9) small_node = (n', asked)"
    by force
  have good: "u ''b'' \<in> {fp \<in> fst ` set (rn_serving small_node).
      3 / 10 < reliability_score (rn_reliability small_node) fp}"
    by (simp add: small_node_def reliability_score_def)
  have "rn_saved small_node = rn_serving small_node" "length (rn_declines small_node) \<le> MAX_REMEMBERED_DECLINES"
    "length (rn_serving small_node) = 2"
    by (simp_all add: small_node_def)
  with maintenance_keeps_good_relays[OF r] good show ?thesis unfolding r by auto
qed

end
