(* ===== verification/Session_Registry.thy ===== *)
theory Session_Registry
  imports Bounded_Queue "HOL-Library.AList"
begin

text \<open>
  \<^verbatim>\<open>src/netbbs/net/session_registry.py\<close>: every connected session, its task and its account, and the
  operations that reach or end sessions. Sessions and tasks are opaque. The dict of sessions is the
  association list of its entries in insertion order. Of an \<open>asyncio.Task\<close> the registry uses
  \<open>cancel\<close>, which counts a request unless the task is done, and \<open>uncancel\<close>, which takes one back and
  returns how many are left: \<open>rg_cancelling\<close> is that count. An \<open>asyncio.Event\<close> is whether it is set.
  What a session's connection accepts is an argument: \<open>raises s d\<close> says that writing \<open>d\<close> to \<open>s\<close>
  raises \<open>SessionClosedError\<close>. Awaiting the cancelled tasks changes nothing here.
\<close>

section \<open>State\<close>

record 't entry =
  en_task :: 't
  en_session_id :: nat
  en_username :: "ustr option"
  en_is_sysop :: bool
  en_connected_at :: int
  en_entered :: int
  en_user_level :: "int option"
  en_can_verify :: bool
  en_staff :: int
  en_recheck :: bool
  en_account_changed :: bool
  en_armed :: bool
  en_pending :: bool

text \<open>What reaches a session's terminal.\<close>

datatype delivery = Via_Hook ustr | Via_Line ustr | Bell ustr

record ('s, 't) registry =
  rg_sessions :: "('s \<times> 't entry) list"
  rg_next :: nat
  rg_events :: "(int \<times> ustr) list"
  rg_cancelling :: "'t \<Rightarrow> nat"
  rg_done :: "'t \<Rightarrow> bool"
  rg_sent :: "('s \<times> delivery) list"

definition SYSOP_LEVEL :: int where "SYSOP_LEVEL = 255"
definition RECENT_EVENT_LIMIT :: nat where "RECENT_EVENT_LIMIT = 50"

definition new_registry :: "('s, 't) registry" where
  "new_registry = \<lparr>rg_sessions = [], rg_next = 1, rg_events = [], rg_cancelling = (\<lambda>_. 0),
     rg_done = (\<lambda>_. False), rg_sent = []\<rparr>"

section \<open>Tasks\<close>

definition task_cancel :: "'t \<Rightarrow> ('s, 't) registry \<Rightarrow> ('s, 't) registry" where
  "task_cancel t r =
     (if rg_done r t then r else r\<lparr>rg_cancelling := (rg_cancelling r)(t := rg_cancelling r t + 1)\<rparr>)"

definition task_uncancel :: "'t \<Rightarrow> ('s, 't) registry \<Rightarrow> nat \<times> ('s, 't) registry" where
  "task_uncancel t r =
     (rg_cancelling r t - 1, r\<lparr>rg_cancelling := (rg_cancelling r)(t := rg_cancelling r t - 1)\<rparr>)"

section \<open>Sessions coming and going\<close>

definition entry_of :: "('s, 't) registry \<Rightarrow> 's \<Rightarrow> 't entry option" where
  "entry_of r s = map_of (rg_sessions r) s"

definition set_entry :: "'s \<Rightarrow> 't entry \<Rightarrow> ('s, 't) registry \<Rightarrow> ('s, 't) registry" where
  "set_entry s e r = r\<lparr>rg_sessions := AList.update s e (rg_sessions r)\<rparr>"

text \<open>\<open>deque(maxlen=RECENT_EVENT_LIMIT).append\<close>\<close>

definition tail_push :: "'x list \<Rightarrow> 'x \<Rightarrow> 'x list" where
  "tail_push xs x = newest RECENT_EVENT_LIMIT (xs @ [x])"

definition note_event :: "int \<Rightarrow> ustr \<Rightarrow> ('s, 't) registry \<Rightarrow> ('s, 't) registry" where
  "note_event now msg r = r\<lparr>rg_events := tail_push (rg_events r) (now, msg)\<rparr>"

definition recent_events :: "('s, 't) registry \<Rightarrow> (int \<times> ustr) list" where
  "recent_events r = rg_events r"

text \<open>\<open>t\<close> is the current task, \<open>now\<close> the wall clock and \<open>ticks\<close> the monotonic one.\<close>

definition enter :: "'t \<Rightarrow> int \<Rightarrow> int \<Rightarrow> 's \<Rightarrow> ('s, 't) registry \<Rightarrow> ('s, 't) registry" where
  "enter t now ticks s r =
     (let i = rg_next r; r = r\<lparr>rg_next := rg_next r + 1\<rparr>
      in set_entry s
           \<lparr>en_task = t, en_session_id = i, en_username = None, en_is_sysop = False, en_connected_at = now,
            en_entered = ticks, en_user_level = None, en_can_verify = False, en_staff = 0,
            en_recheck = False, en_account_changed = False, en_armed = False, en_pending = False\<rparr> r)"

definition leave :: "int \<Rightarrow> 's \<Rightarrow> ('s, 't) registry \<Rightarrow> ('s, 't) registry" where
  "leave now s r =
     (let e = entry_of r s; r = r\<lparr>rg_sessions := AList.delete s (rg_sessions r)\<rparr>
      in case e of
           None \<Rightarrow> r
         | Some e \<Rightarrow> (case en_username e of None \<Rightarrow> r | Some name \<Rightarrow> note_event now (u ''left: '' @ name) r))"

definition mark_authenticated ::
  "int \<Rightarrow> ustr \<Rightarrow> 's \<Rightarrow> ustr \<Rightarrow> bool \<Rightarrow> ('s, 't) registry \<Rightarrow> ('s, 't) registry" where
  "mark_authenticated now transport s name is_sysop r =
     (case entry_of r s of
        None \<Rightarrow> r
      | Some e \<Rightarrow>
          note_event now (u ''login ('' @ transport @ u ''): '' @ name)
            (set_entry s (e\<lparr>en_username := Some name, en_is_sysop := is_sysop\<rparr>) r))"

section \<open>Access changes\<close>

definition record_account ::
  "'s \<Rightarrow> int \<Rightarrow> bool \<Rightarrow> int \<Rightarrow> ('s, 't) registry \<Rightarrow> ('s, 't) registry" where
  "record_account s level verify staff r =
     (case entry_of r s of
        None \<Rightarrow> r
      | Some e \<Rightarrow> set_entry s (e\<lparr>en_user_level := Some level, en_can_verify := verify, en_staff := staff,
                                 en_is_sysop := (SYSOP_LEVEL \<le> level)\<rparr>) r)"

definition account_baseline :: "('s, 't) registry \<Rightarrow> 's \<Rightarrow> (int \<times> bool \<times> int) option" where
  "account_baseline r s =
     (case entry_of r s of
        None \<Rightarrow> None
      | Some e \<Rightarrow> map_option (\<lambda>l. (l, en_can_verify e, en_staff e)) (en_user_level e))"

definition recheck_event :: "('s, 't) registry \<Rightarrow> 's \<Rightarrow> bool option" where
  "recheck_event r s = map_option en_recheck (entry_of r s)"

definition account_changed_event :: "('s, 't) registry \<Rightarrow> 's \<Rightarrow> bool option" where
  "account_changed_event r s = map_option en_account_changed (entry_of r s)"

definition request_account_recheck :: "ustr \<Rightarrow> ('s, 't) registry \<Rightarrow> ('s, 't) registry" where
  "request_account_recheck name r =
     r\<lparr>rg_sessions := map (\<lambda>(s, e). (s, if en_username e = Some name then e\<lparr>en_recheck := True\<rparr> else e))
         (rg_sessions r)\<rparr>"

definition arm_level_unwind :: "'s \<Rightarrow> bool \<Rightarrow> ('s, 't) registry \<Rightarrow> ('s, 't) registry" where
  "arm_level_unwind s armed r =
     (case entry_of r s of None \<Rightarrow> r | Some e \<Rightarrow> set_entry s (e\<lparr>en_armed := armed\<rparr>) r)"

definition request_level_unwind :: "'s \<Rightarrow> ('s, 't) registry \<Rightarrow> bool \<times> ('s, 't) registry" where
  "request_level_unwind s r =
     (case entry_of r s of
        None \<Rightarrow> (False, r)
      | Some e \<Rightarrow>
          if \<not> en_armed e \<or> en_pending e then (False, r)
          else (True, task_cancel (en_task e) (set_entry s (e\<lparr>en_pending := True\<rparr>) r)))"

definition finish_level_unwind :: "'s \<Rightarrow> ('s, 't) registry \<Rightarrow> bool \<times> ('s, 't) registry" where
  "finish_level_unwind s r =
     (case entry_of r s of
        None \<Rightarrow> (False, r)
      | Some e \<Rightarrow>
          if \<not> en_pending e then (False, r)
          else case task_uncancel (en_task e) (set_entry s (e\<lparr>en_pending := False\<rparr>) r) of
                 (n, r) \<Rightarrow> (n = 0, r))"

section \<open>Listing, writing and ending\<close>

record 's summary =
  su_session :: 's
  su_session_id :: nat
  su_username :: "ustr option"
  su_connected_at :: int
  su_peer :: "ustr option"
  su_idle :: int
  su_activity :: "ustr list"
  su_is_sysop :: bool
  su_connected :: int

text \<open>\<open>last_input\<close>, \<open>peer\<close> and \<open>activity\<close> are the session objects' own attributes.\<close>

definition list_entries ::
  "int \<Rightarrow> ('s \<Rightarrow> int option) \<Rightarrow> ('s \<Rightarrow> ustr option) \<Rightarrow> ('s \<Rightarrow> ustr list) \<Rightarrow> ('s, 't) registry \<Rightarrow> 's summary list" where
  "list_entries now last_input peer activity r =
     map (\<lambda>(s, e).
       let since = (case last_input s of None \<Rightarrow> en_entered e | Some l \<Rightarrow> max l (en_entered e))
       in \<lparr>su_session = s, su_session_id = en_session_id e, su_username = en_username e,
           su_connected_at = en_connected_at e, su_peer = peer s, su_idle = max 0 (now - since),
           su_activity = activity s, su_is_sysop = en_is_sysop e, su_connected = max 0 (now - en_entered e)\<rparr>)
       (rg_sessions r)"

definition session_count :: "('s, 't) registry \<Rightarrow> nat" where
  "session_count r = length (rg_sessions r)"

definition send_one :: "('s \<Rightarrow> delivery \<Rightarrow> bool) \<Rightarrow> 's \<Rightarrow> delivery \<Rightarrow> ('s, 't) registry \<Rightarrow> bool \<times> ('s, 't) registry" where
  "send_one raises s d r = (if raises s d then (False, r) else (True, r\<lparr>rg_sent := rg_sent r @ [(s, d)]\<rparr>))"

definition notice :: "('s \<Rightarrow> bool) \<Rightarrow> 's \<Rightarrow> ustr \<Rightarrow> delivery" where
  "notice hooked s msg = (if hooked s then Via_Hook msg else Via_Line msg)"

fun broadcast_loop ::
  "('s \<Rightarrow> bool) \<Rightarrow> ('s \<Rightarrow> delivery \<Rightarrow> bool) \<Rightarrow> ustr \<Rightarrow> bool \<Rightarrow> ('s \<times> 't entry) list \<Rightarrow> ('s, 't) registry \<Rightarrow>
   ('s, 't) registry" where
  "broadcast_loop hooked raises msg exclude [] r = r"
| "broadcast_loop hooked raises msg exclude ((s, e) # es) r =
     broadcast_loop hooked raises msg exclude es
       (if exclude \<and> en_is_sysop e then r else snd (send_one raises s (notice hooked s msg) r))"

definition broadcast_to_all ::
  "('s \<Rightarrow> bool) \<Rightarrow> ('s \<Rightarrow> delivery \<Rightarrow> bool) \<Rightarrow> ustr \<Rightarrow> bool \<Rightarrow> ('s, 't) registry \<Rightarrow> ('s, 't) registry" where
  "broadcast_to_all hooked raises msg exclude r = broadcast_loop hooked raises msg exclude (rg_sessions r) r"

definition disconnect_all :: "bool \<Rightarrow> ('s, 't) registry \<Rightarrow> ('s, 't) registry" where
  "disconnect_all exclude r =
     foldl (\<lambda>r t. task_cancel t r) r
       (map (\<lambda>(s, e). en_task e) (filter (\<lambda>(s, e). \<not> (exclude \<and> en_is_sysop e)) (rg_sessions r)))"

definition sessions_for_username :: "ustr \<Rightarrow> ('s, 't) registry \<Rightarrow> 's list" where
  "sessions_for_username name r = map fst (filter (\<lambda>(s, e). en_username e = Some name) (rg_sessions r))"

definition cancel_one :: "'s \<Rightarrow> ('s, 't) registry \<Rightarrow> bool \<times> ('s, 't) registry" where
  "cancel_one s r =
     (case entry_of r s of None \<Rightarrow> (False, r) | Some e \<Rightarrow> (True, task_cancel (en_task e) r))"

definition disconnect_one :: "'s \<Rightarrow> ('s, 't) registry \<Rightarrow> bool \<times> ('s, 't) registry" where
  "disconnect_one s r =
     (case entry_of r s of None \<Rightarrow> (False, r) | Some e \<Rightarrow> (True, task_cancel (en_task e) r))"

definition disconnect_username :: "ustr \<Rightarrow> 's option \<Rightarrow> ('s, 't) registry \<Rightarrow> nat \<times> ('s, 't) registry" where
  "disconnect_username name exclude r =
     (let targets = filter (\<lambda>s. Some s \<noteq> exclude) (sessions_for_username name r)
      in (length targets, foldl (\<lambda>r s. snd (disconnect_one s r)) r targets))"

definition notify_one ::
  "('s \<Rightarrow> bool) \<Rightarrow> ('s \<Rightarrow> bool) \<Rightarrow> ('s \<Rightarrow> delivery \<Rightarrow> bool) \<Rightarrow> 's \<Rightarrow> ustr \<Rightarrow> ustr option \<Rightarrow> ('s, 't) registry \<Rightarrow>
   bool \<times> ('s, 't) registry" where
  "notify_one hooked belled raises s msg ring r =
     (case entry_of r s of
        None \<Rightarrow> (False, r)
      | Some e \<Rightarrow>
          (case send_one raises s (notice hooked s msg) r of
             (ok, r) \<Rightarrow>
               if ok \<and> hooked s \<and> belled s
               then (case ring of None \<Rightarrow> (ok, r) | Some who \<Rightarrow> send_one raises s (Bell who) r)
               else (ok, r)))"

interpretation tail: drop_oldest tail_push id id 50
  by unfold_locales (auto simp: tail_push_def newest_def RECENT_EVENT_LIMIT_def drop_Suc)

section \<open>Every sequence of operations\<close>

text \<open>
  One operation, labelled with the cancellations it asks for in earnest: how many disconnects each
  task gets from it. A connection's task is new when it enters and its session leaves before it is
  done (\<open>handle_session\<close>'s \<open>finally\<close>). \<open>quiet\<close> covers the operations that neither cancel nor add nor
  remove a session.
\<close>

definition tasks :: "('s, 't) registry \<Rightarrow> 't list" where
  "tasks r = map (en_task \<circ> snd) (rg_sessions r)"

definition earnest :: "('s, 't) registry \<Rightarrow> 't list \<Rightarrow> 't \<Rightarrow> nat" where
  "earnest r ts t = (if rg_done r t then 0 else count_list ts t)"

definition task_of :: "('s, 't) registry \<Rightarrow> 's \<Rightarrow> 't list" where
  "task_of r s = (case entry_of r s of None \<Rightarrow> [] | Some e \<Rightarrow> [en_task e])"

definition no_cancel :: "'t \<Rightarrow> nat" where "no_cancel t = 0"

inductive rg_step :: "('s, 't) registry \<Rightarrow> ('t \<Rightarrow> nat) \<Rightarrow> ('s, 't) registry \<Rightarrow> bool" where
  enter: "t \<notin> set (tasks r) \<Longrightarrow> rg_cancelling r t = 0 \<Longrightarrow> \<not> rg_done r t \<Longrightarrow> entry_of r s = None \<Longrightarrow>
    rg_step r no_cancel (enter t now ticks s r)"
| leave: "rg_step r no_cancel (leave now s r)"
| authenticate: "rg_step r no_cancel (mark_authenticated now tr s name sysop r)"
| account: "rg_step r no_cancel (record_account s level verify staff r)"
| recheck: "rg_step r no_cancel (request_account_recheck name r)"
| event: "rg_step r no_cancel (note_event now msg r)"
| broadcast: "rg_step r no_cancel (broadcast_to_all hooked raises msg exclude r)"
| notify: "rg_step r no_cancel (snd (notify_one hooked belled raises s msg ring r))"
| arm: "rg_step r no_cancel (arm_level_unwind s armed r)"
| unwind: "rg_step r no_cancel (snd (request_level_unwind s r))"
| finish: "rg_step r no_cancel (snd (finish_level_unwind s r))"
| cancel: "rg_step r (earnest r (task_of r s)) (snd (cancel_one s r))"
| disconnect: "rg_step r (earnest r (task_of r s)) (snd (disconnect_one s r))"
| disconnect_user: "rg_step r (earnest r (concat (map (task_of r)
      (filter (\<lambda>s. Some s \<noteq> exclude) (sessions_for_username name r))))) (snd (disconnect_username name exclude r))"
| disconnect_everyone: "rg_step r (earnest r (map (\<lambda>(s, e). en_task e)
      (filter (\<lambda>(s, e). \<not> (exclude \<and> en_is_sysop e)) (rg_sessions r)))) (disconnect_all exclude r)"
| task_ends: "t \<notin> set (tasks r) \<Longrightarrow> rg_step r no_cancel (r\<lparr>rg_done := (rg_done r)(t := True)\<rparr>)"

text \<open>A task that has not been cancelled in earnest may enter; the counts add up.\<close>

inductive rg_reach :: "('s, 't) registry \<Rightarrow> ('t \<Rightarrow> nat) \<Rightarrow> bool" where
  start: "rg_reach new_registry no_cancel"
| step: "rg_reach r real \<Longrightarrow> rg_step r extra r' \<Longrightarrow>
    (\<forall>t\<in>set (tasks r') - set (tasks r). real t = 0) \<Longrightarrow> rg_reach r' (\<lambda>t. real t + extra t)"

definition entry_ok :: "('s, 't) registry \<Rightarrow> ('t \<Rightarrow> nat) \<Rightarrow> 't entry \<Rightarrow> bool" where
  "entry_ok r real e \<longleftrightarrow> \<not> rg_done r (en_task e) \<and> en_session_id e < rg_next r \<and>
     rg_cancelling r (en_task e) = real (en_task e) + of_bool (en_pending e)"

definition rg_ok :: "('s, 't) registry \<Rightarrow> ('t \<Rightarrow> nat) \<Rightarrow> bool" where
  "rg_ok r real \<longleftrightarrow> distinct (map fst (rg_sessions r)) \<and> distinct (tasks r) \<and>
     distinct (map (en_session_id \<circ> snd) (rg_sessions r)) \<and>
     (\<forall>p\<in>set (rg_sessions r). entry_ok r real (snd p))"

lemma alist_update_present:
  assumes "map_of xs k = Some v" and "distinct (map fst xs)"
  shows "AList.update k v' xs = map (\<lambda>(k', w). (k', if k' = k then v' else w)) xs"
  using assms
proof (induction xs)
  case (Cons p xs)
  have "k \<notin> fst ` set xs \<Longrightarrow> map (\<lambda>(k', w). (k', if k' = k then v' else w)) xs = xs"
    by (rule map_idI) (auto simp: image_iff)
  then show ?case using Cons by (cases p) (auto split: if_splits)
qed simp

lemma alist_update_absent: "map_of xs k = None \<Longrightarrow> AList.update k v xs = xs @ [(k, v)]"
  by (induction xs) (auto split: if_splits)

lemma set_entry_sessions:
  assumes "entry_of r s = Some e" and "rg_ok r real"
  shows "rg_sessions (set_entry s e' r) = map (\<lambda>(k, w). (k, if k = s then e' else w)) (rg_sessions r)"
  using assms alist_update_present[of "rg_sessions r" s e e'] by (simp add: entry_of_def set_entry_def rg_ok_def)

lemma set_entry_ok:
  assumes "entry_of r s = Some e" and "rg_ok r real"
    and "en_task e' = en_task e" and "en_session_id e' = en_session_id e"
    and "rg_sessions r' = rg_sessions (set_entry s e' r)" and "rg_next r' = rg_next r" and "rg_done r' = rg_done r"
    and "entry_ok r' real' e'"
    and "\<And>p. p \<in> set (rg_sessions r) \<Longrightarrow> fst p \<noteq> s \<Longrightarrow> entry_ok r' real' (snd p)"
  shows "rg_ok r' real'"
proof -
  let ?f = "\<lambda>(k, w). (k, if k = s then e' else w)"
  have sess: "rg_sessions r' = map ?f (rg_sessions r)"
    using assms(5) set_entry_sessions[OF assms(1,2)] by simp
  have e: "(k, w) \<in> set (rg_sessions r) \<Longrightarrow> k = s \<Longrightarrow> w = e" for k w
    using assms(1,2) by (auto simp: entry_of_def rg_ok_def)
  have same: "map fst (map ?f (rg_sessions r)) = map fst (rg_sessions r)"
    "map (en_task \<circ> snd) (map ?f (rg_sessions r)) = map (en_task \<circ> snd) (rg_sessions r)"
    "map (en_session_id \<circ> snd) (map ?f (rg_sessions r)) = map (en_session_id \<circ> snd) (rg_sessions r)"
    using e assms(3,4) by auto
  have "\<forall>p\<in>set (map ?f (rg_sessions r)). entry_ok r' real' (snd p)"
    using assms(8,9) by auto
  then show ?thesis
    using assms(2) unfolding rg_ok_def tasks_def sess same by blast
qed

lemma rg_ok_frame:
  assumes "rg_ok r real" and "rg_sessions r' = rg_sessions r" and "rg_next r' = rg_next r"
    and "\<And>t. t \<in> set (tasks r) \<Longrightarrow> rg_done r' t = rg_done r t"
    and "\<And>t. t \<in> set (tasks r) \<Longrightarrow> rg_cancelling r' t = rg_cancelling r t + extra t"
  shows "rg_ok r' (\<lambda>t. real t + extra t)"
proof -
  have "entry_ok r' (\<lambda>t. real t + extra t) e" if "(s, e) \<in> set (rg_sessions r)" for s e
  proof -
    have t: "en_task e \<in> set (tasks r)" using that by (force simp: tasks_def)
    have "entry_ok r real e" using assms(1) that by (auto simp: rg_ok_def)
    then show ?thesis using assms(3) assms(4,5)[OF t] by (simp add: entry_ok_def)
  qed
  then show ?thesis
    using assms(1,2) by (auto simp: rg_ok_def tasks_def)
qed

lemma task_cancels:
  "rg_sessions (foldl (\<lambda>r t. task_cancel t r) r ts) = rg_sessions r"
  "rg_next (foldl (\<lambda>r t. task_cancel t r) r ts) = rg_next r"
  "rg_done (foldl (\<lambda>r t. task_cancel t r) r ts) = rg_done r"
  "rg_cancelling (foldl (\<lambda>r t. task_cancel t r) r ts) t = rg_cancelling r t + earnest r ts t"
  by (induction ts arbitrary: r) (auto simp: task_cancel_def earnest_def)

lemma task_cancels_ok:
  "rg_ok r real \<Longrightarrow> rg_ok (foldl (\<lambda>r t. task_cancel t r) r ts) (\<lambda>t. real t + earnest r ts t)"
  by (rule rg_ok_frame) (simp_all add: task_cancels)

lemma disconnect_one_tasks: "snd (disconnect_one s r) = foldl (\<lambda>r t. task_cancel t r) r (task_of r s)"
  by (simp add: disconnect_one_def task_of_def split: option.splits)

lemma cancel_one_tasks: "snd (cancel_one s r) = foldl (\<lambda>r t. task_cancel t r) r (task_of r s)"
  by (simp add: cancel_one_def task_of_def split: option.splits)

lemma disconnect_username_tasks:
  "snd (disconnect_username name exclude r) = foldl (\<lambda>r t. task_cancel t r) r
     (concat (map (task_of r) (filter (\<lambda>s. Some s \<noteq> exclude) (sessions_for_username name r))))"
proof -
  have "foldl (\<lambda>r s. snd (disconnect_one s r)) r' ss = foldl (\<lambda>r t. task_cancel t r) r' (concat (map (task_of r) ss))"
    if "rg_sessions r' = rg_sessions r" for r' ss
    using that
  proof (induction ss arbitrary: r')
    case (Cons s ss)
    then have "task_of r' s = task_of r s" by (simp add: task_of_def entry_of_def)
    then show ?case using Cons by (simp add: disconnect_one_tasks task_cancels)
  qed simp
  then show ?thesis by (simp add: disconnect_username_def Let_def)
qed

lemma send_one_frame:
  "rg_sessions (snd (send_one raises s d r)) = rg_sessions r" "rg_next (snd (send_one raises s d r)) = rg_next r"
  "rg_done (snd (send_one raises s d r)) = rg_done r"
  "rg_cancelling (snd (send_one raises s d r)) = rg_cancelling r"
  by (auto simp: send_one_def)

lemma broadcast_frame:
  "rg_sessions (broadcast_loop h raises msg x es r) = rg_sessions r"
  "rg_next (broadcast_loop h raises msg x es r) = rg_next r"
  "rg_done (broadcast_loop h raises msg x es r) = rg_done r"
  "rg_cancelling (broadcast_loop h raises msg x es r) = rg_cancelling r"
  by (induction h raises msg x es r rule: broadcast_loop.induct) (auto simp: send_one_frame)

lemma notify_frame:
  "rg_sessions (snd (notify_one h b raises s msg ring r)) = rg_sessions r"
  "rg_next (snd (notify_one h b raises s msg ring r)) = rg_next r"
  "rg_done (snd (notify_one h b raises s msg ring r)) = rg_done r"
  "rg_cancelling (snd (notify_one h b raises s msg ring r)) = rg_cancelling r"
  by (auto simp: notify_one_def send_one_def split: option.splits)

lemma no_cancel_add [simp]: "(\<lambda>t. f t + no_cancel t) = f"
  by (simp add: no_cancel_def)

lemma rg_ok_quiet:
  assumes "rg_ok r real" and "rg_sessions r' = rg_sessions r" and "rg_next r' = rg_next r"
    and "rg_done r' = rg_done r" and "rg_cancelling r' = rg_cancelling r"
  shows "rg_ok r' real"
  using rg_ok_frame[OF assms(1-3), of no_cancel] assms(4,5) by (simp add: no_cancel_def)

text \<open>An operation that only changes one entry, and neither its task, its id nor its pending unwind.\<close>

lemma set_entry_quiet:
  assumes "rg_ok r real" and "entry_of r s = Some e"
    and "en_task e' = en_task e" and "en_session_id e' = en_session_id e" and "en_pending e' = en_pending e"
  shows "rg_ok (set_entry s e' r) real"
proof (rule set_entry_ok[OF assms(2,1,3,4)])
  have "entry_ok r real e" using assms(1,2) by (auto simp: rg_ok_def entry_of_def dest!: map_of_SomeD)
  then show "entry_ok (set_entry s e' r) real e'" using assms(3-5) by (simp add: entry_ok_def set_entry_def)
qed (use assms(1) in \<open>auto simp: rg_ok_def entry_ok_def set_entry_def\<close>)

lemma note_event_quiet: "rg_ok r real \<Longrightarrow> rg_ok (note_event now msg r) real"
  by (erule rg_ok_quiet) (simp_all add: note_event_def)

lemma other_task:
  assumes "rg_ok r real" and "entry_of r s = Some e" and "(k, w) \<in> set (rg_sessions r)" and "k \<noteq> s"
  shows "en_task w \<noteq> en_task e"
proof
  assume same: "en_task w = en_task e"
  have e: "(s, e) \<in> set (rg_sessions r)" using assms(2) by (simp add: entry_of_def map_of_SomeD)
  have "inj_on (en_task \<circ> snd) (set (rg_sessions r))"
    using assms(1) by (simp add: rg_ok_def tasks_def distinct_map)
  from inj_onD[OF this _ assms(3) e] same assms(4) show False by simp
qed

lemma unwind_ok:
  assumes ok: "rg_ok r real" and e: "entry_of r s = Some e" and "en_armed e" and "\<not> en_pending e"
  shows "rg_ok (task_cancel (en_task e) (set_entry s (e\<lparr>en_pending := True\<rparr>) r)) real"
proof (rule set_entry_ok[OF e ok, where e' = "e\<lparr>en_pending := True\<rparr>"])
  have *: "entry_ok r real e" using ok e by (auto simp: rg_ok_def entry_of_def dest!: map_of_SomeD)
  then show "entry_ok (task_cancel (en_task e) (set_entry s (e\<lparr>en_pending := True\<rparr>) r)) real (e\<lparr>en_pending := True\<rparr>)"
    using assms(4) by (simp add: entry_ok_def task_cancel_def set_entry_def)
  show "entry_ok (task_cancel (en_task e) (set_entry s (e\<lparr>en_pending := True\<rparr>) r)) real (snd p)"
    if "p \<in> set (rg_sessions r)" "fst p \<noteq> s" for p
    using other_task[OF ok e, of "fst p" "snd p"] that ok
    by (auto simp: entry_ok_def task_cancel_def set_entry_def rg_ok_def)
qed (simp_all add: task_cancel_def set_entry_def)

lemma finish_ok:
  assumes ok: "rg_ok r real" and e: "entry_of r s = Some e" and "en_pending e"
  shows "rg_ok (snd (task_uncancel (en_task e) (set_entry s (e\<lparr>en_pending := False\<rparr>) r))) real"
proof (rule set_entry_ok[OF e ok, where e' = "e\<lparr>en_pending := False\<rparr>"])
  let ?r = "snd (task_uncancel (en_task e) (set_entry s (e\<lparr>en_pending := False\<rparr>) r))"
  have *: "entry_ok r real e" using ok e by (auto simp: rg_ok_def entry_of_def dest!: map_of_SomeD)
  then show "entry_ok ?r real (e\<lparr>en_pending := False\<rparr>)"
    using assms(3) by (simp add: entry_ok_def task_uncancel_def set_entry_def)
  show "entry_ok ?r real (snd p)" if "p \<in> set (rg_sessions r)" "fst p \<noteq> s" for p
    using other_task[OF ok e, of "fst p" "snd p"] that ok
    by (auto simp: entry_ok_def task_uncancel_def set_entry_def rg_ok_def)
qed (simp_all add: task_uncancel_def set_entry_def)

lemma enter_ok:
  assumes "rg_ok r real" and "t \<notin> set (tasks r)" and "rg_cancelling r t = 0" and "\<not> rg_done r t"
    and "entry_of r s = None" and "real t = 0"
  shows "rg_ok (enter t now ticks s r) real"
proof -
  let ?e = "\<lparr>en_task = t, en_session_id = rg_next r, en_username = None, en_is_sysop = False,
    en_connected_at = now, en_entered = ticks, en_user_level = None, en_can_verify = False, en_staff = 0,
    en_recheck = False, en_account_changed = False, en_armed = False, en_pending = False\<rparr>"
  have sess: "rg_sessions (enter t now ticks s r) = rg_sessions r @ [(s, ?e)]"
    using assms(5) by (simp add: enter_def Let_def set_entry_def entry_of_def alist_update_absent)
  have rest: "rg_next (enter t now ticks s r) = Suc (rg_next r)" "rg_done (enter t now ticks s r) = rg_done r"
    "rg_cancelling (enter t now ticks s r) = rg_cancelling r"
    by (simp_all add: enter_def Let_def set_entry_def)
  have "s \<notin> fst ` set (rg_sessions r)" using assms(5) by (simp add: entry_of_def map_of_eq_None_iff)
  then show ?thesis
    using assms(1-4,6) unfolding rg_ok_def tasks_def entry_ok_def sess rest by fastforce
qed

lemma leave_registry_ok: "rg_ok r real \<Longrightarrow> rg_ok (leave now s r) real"
proof -
  assume ok: "rg_ok r real"
  let ?r = "r\<lparr>rg_sessions := AList.delete s (rg_sessions r)\<rparr>"
  have "rg_ok ?r real"
    using ok by (auto simp: rg_ok_def tasks_def entry_ok_def AList.delete_eq distinct_map
        intro: inj_on_subset)
  then show ?thesis
    by (auto simp: leave_def Let_def intro: note_event_quiet split: option.splits)
qed

lemma recheck_ok: "rg_ok r real \<Longrightarrow> rg_ok (request_account_recheck name r) real"
proof -
  assume ok: "rg_ok r real"
  let ?f = "\<lambda>(s, e). (s, if en_username e = Some name then e\<lparr>en_recheck := True\<rparr> else e)"
  have same: "map fst (map ?f xs) = map fst xs" "map (en_task \<circ> snd) (map ?f xs) = map (en_task \<circ> snd) xs"
    "map (en_session_id \<circ> snd) (map ?f xs) = map (en_session_id \<circ> snd) xs" for xs
    by (induction xs) auto
  have sess: "rg_sessions (request_account_recheck name r) = map ?f (rg_sessions r)"
    by (simp add: request_account_recheck_def)
  have "entry_ok (request_account_recheck name r) real (snd (?f (s, e)))" if "(s, e) \<in> set (rg_sessions r)" for s e
  proof -
    have "entry_ok r real e" using ok that by (auto simp: rg_ok_def)
    then show ?thesis by (simp add: entry_ok_def request_account_recheck_def)
  qed
  then have "\<forall>p\<in>set (map ?f (rg_sessions r)). entry_ok (request_account_recheck name r) real (snd p)"
    by force
  then show ?thesis
    using ok unfolding rg_ok_def tasks_def sess same by blast
qed

lemma rg_step_ok:
  assumes "rg_step r extra r'" and "rg_ok r real"
    and "\<And>t. t \<in> set (tasks r') - set (tasks r) \<Longrightarrow> real t = 0"
  shows "rg_ok r' (\<lambda>t. real t + extra t)"
  using assms
proof (induction rule: rg_step.induct)
  case (enter t r s now ticks)
  have "t \<in> set (tasks (enter t now ticks s r))"
    using enter(4) by (simp add: enter_def Let_def set_entry_def entry_of_def alist_update_absent tasks_def)
  then have "real t = 0" using enter by simp
  then show ?case using enter_ok enter by simp
next
  case (leave r now s)
  then show ?case by (simp add: leave_registry_ok)
next
  case (authenticate r now tr s name sysop)
  then show ?case
    by (auto simp: mark_authenticated_def intro!: note_event_quiet set_entry_quiet split: option.splits)
next
  case (account r s level verify staff)
  then show ?case by (auto simp: record_account_def intro!: set_entry_quiet split: option.splits)
next
  case (recheck r name)
  then show ?case by (simp add: recheck_ok)
next
  case (event r now msg)
  then show ?case by (simp add: note_event_quiet)
next
  case (broadcast r hooked raises msg exclude)
  then show ?case by (auto simp: broadcast_to_all_def broadcast_frame intro: rg_ok_quiet)
next
  case (notify r hooked belled raises s msg ring)
  then show ?case by (auto simp: notify_frame intro: rg_ok_quiet)
next
  case (arm r s armed)
  then show ?case by (auto simp: arm_level_unwind_def intro!: set_entry_quiet split: option.splits)
next
  case (unwind r s)
  then show ?case by (auto simp: request_level_unwind_def intro: unwind_ok split: option.splits)
next
  case (finish r s)
  then show ?case
    using finish_ok[of r real s] by (auto simp: finish_level_unwind_def split: option.splits prod.splits)
next
  case (cancel r s)
  then show ?case by (simp add: cancel_one_tasks task_cancels_ok)
next
  case (disconnect r s)
  then show ?case by (simp add: disconnect_one_tasks task_cancels_ok)
next
  case (disconnect_user r exclude name)
  then show ?case by (simp only: disconnect_username_tasks task_cancels_ok)
next
  case (disconnect_everyone r exclude)
  then show ?case by (simp add: disconnect_all_def task_cancels_ok)
next
  case (task_ends t r)
  have "rg_ok (r\<lparr>rg_done := (rg_done r)(t := True)\<rparr>) (\<lambda>t. real t + no_cancel t)"
    by (rule rg_ok_frame[OF task_ends(2)]) (use task_ends(1) in \<open>auto simp: no_cancel_def\<close>)
  then show ?case .
qed

lemma new_registry_ok: "rg_ok new_registry no_cancel"
  by (simp add: rg_ok_def new_registry_def tasks_def)

lemma rg_reach_ok: "rg_reach r real \<Longrightarrow> rg_ok r real"
  by (induction rule: rg_reach.induct) (auto intro: new_registry_ok rg_step_ok)

section \<open>Ids are never reused\<close>

definition ids :: "('s, 't) registry \<Rightarrow> ('s \<times> nat) set" where
  "ids r = (\<lambda>(s, e). (s, en_session_id e)) ` set (rg_sessions r)"

lemma alist_update_set: "set (AList.update k v xs) \<subseteq> insert (k, v) (set xs)"
  by (induction xs) auto

lemma ids_set_entry:
  assumes "entry_of r s = Some e" and "en_session_id e' = en_session_id e"
  shows "ids (set_entry s e' r) \<subseteq> ids r"
proof -
  have "(s, e) \<in> set (rg_sessions r)" using assms(1) by (simp add: entry_of_def map_of_SomeD)
  then have "(s, en_session_id e) \<in> ids r" by (force simp: ids_def)
  then show ?thesis
    using alist_update_set[of s e' "rg_sessions r"] assms(2) by (force simp: ids_def set_entry_def)
qed

lemma ids_task_ops:
  "ids (task_cancel t r) = ids r" "ids (snd (task_uncancel t r)) = ids r"
  "rg_next (task_cancel t r) = rg_next r" "rg_next (snd (task_uncancel t r)) = rg_next r"
  by (simp_all add: ids_def task_cancel_def task_uncancel_def)

lemma ids_entry_update:
  assumes "\<And>e. en_session_id (f e) = en_session_id e"
  shows "ids (case entry_of r s of None \<Rightarrow> r | Some e \<Rightarrow> set_entry s (f e) r) \<subseteq> ids r \<and>
    rg_next (case entry_of r s of None \<Rightarrow> r | Some e \<Rightarrow> set_entry s (f e) r) = rg_next r"
  using ids_set_entry[of r s _ "f _"] assms by (auto simp: set_entry_def split: option.splits)

lemma ids_sessions: "rg_sessions r' = rg_sessions r \<Longrightarrow> ids r' = ids r"
  by (simp add: ids_def)

lemma note_event_sessions: "rg_sessions (note_event now msg r) = rg_sessions r" "rg_next (note_event now msg r) = rg_next r"
  by (simp_all add: note_event_def)

lemma set_entry_next [simp]: "rg_next (set_entry s e r) = rg_next r"
  by (simp add: set_entry_def)

lemma rg_ids_step:
  assumes "rg_step r extra r'"
  shows "rg_next r \<le> rg_next r' \<and> ids r' \<subseteq> ids r \<union> UNIV \<times> {rg_next r..}"
  using assms
proof cases
  case (enter t s now ticks)
  then show ?thesis by (auto simp: enter_def Let_def set_entry_def entry_of_def alist_update_absent ids_def)
next
  case (leave now s)
  have "ids (r\<lparr>rg_sessions := AList.delete s (rg_sessions r)\<rparr>) \<subseteq> ids r"
    by (auto simp: ids_def AList.delete_eq)
  then show ?thesis
    unfolding leave by (auto simp: leave_def Let_def ids_def note_event_sessions split: option.splits)
next
  case (authenticate now tr s name sysop)
  have "ids (set_entry s (e\<lparr>en_username := Some name, en_is_sysop := sysop\<rparr>) r) \<subseteq> ids r"
    if "entry_of r s = Some e" for e
    by (rule ids_set_entry[OF that]) simp
  then show ?thesis
    unfolding authenticate
    by (auto simp: mark_authenticated_def ids_sessions[OF note_event_sessions(1)] note_event_sessions
        split: option.splits)
next
  case (account s level verify staff)
  then show ?thesis
    using ids_entry_update[of "\<lambda>e. e\<lparr>en_user_level := Some level, en_can_verify := verify, en_staff := staff,
      en_is_sysop := (SYSOP_LEVEL \<le> level)\<rparr>" r s]
    by (auto simp: record_account_def)
next
  case (recheck name)
  then show ?thesis by (auto simp: request_account_recheck_def ids_def image_image case_prod_beta)
next
  case (event now msg)
  then show ?thesis by (simp add: ids_def note_event_sessions)
next
  case (broadcast hooked raises msg exclude)
  then show ?thesis by (simp add: ids_def broadcast_to_all_def broadcast_frame)
next
  case (notify hooked belled raises s msg ring)
  then show ?thesis by (simp add: ids_def notify_frame)
next
  case (arm s armed)
  then show ?thesis
    using ids_entry_update[of "\<lambda>e. e\<lparr>en_armed := armed\<rparr>" r s] by (auto simp: arm_level_unwind_def)
next
  case (unwind s)
  have "ids (set_entry s (e\<lparr>en_pending := True\<rparr>) r) \<subseteq> ids r" if "entry_of r s = Some e" for e
    by (rule ids_set_entry[OF that]) simp
  then show ?thesis
    unfolding unwind by (auto simp: request_level_unwind_def ids_task_ops split: option.splits)
next
  case (finish s)
  have "ids (set_entry s (e\<lparr>en_pending := False\<rparr>) r) \<subseteq> ids r" if "entry_of r s = Some e" for e
    by (rule ids_set_entry[OF that]) simp
  then show ?thesis
    unfolding finish by (auto simp: finish_level_unwind_def ids_task_ops case_prod_beta split: option.splits)
next
  case (cancel s)
  then show ?thesis by (simp add: ids_def cancel_one_tasks task_cancels)
next
  case (disconnect s)
  then show ?thesis by (simp add: ids_def disconnect_one_tasks task_cancels)
next
  case (disconnect_user exclude name)
  then show ?thesis by (simp add: ids_def disconnect_username_tasks task_cancels)
next
  case (disconnect_everyone exclude)
  then show ?thesis by (simp add: ids_def disconnect_all_def task_cancels)
next
  case (task_ends t)
  then show ?thesis by (simp add: ids_def)
qed

lemma rg_ids_steps:
  assumes "(\<lambda>r r'. \<exists>extra. rg_step r extra r')\<^sup>*\<^sup>* r r'"
  shows "rg_next r \<le> rg_next r' \<and> ids r' \<subseteq> ids r \<union> UNIV \<times> {rg_next r..}"
  using assms
proof (induction rule: rtranclp_induct)
  case (step r1 r2)
  then show ?case using rg_ids_step[of r1 _ r2] by fastforce
qed simp

section \<open>Properties\<close>

text \<open>
  A session id on a page a SysOp is looking at never comes to name another session: whatever
  happens after the page was read, an entry with an id from that page belongs to the session it
  belonged to then.
\<close>

theorem session_ids_never_reused:
  assumes "rg_reach r real" and "(\<lambda>r r'. \<exists>extra. rg_step r extra r')\<^sup>*\<^sup>* r r'"
    and "(s, e) \<in> set (rg_sessions r)" and "(s', e') \<in> set (rg_sessions r')"
    and "en_session_id e = en_session_id e'"
  shows "s = s'"
proof -
  have ok: "rg_ok r real" using rg_reach_ok[OF assms(1)] .
  have "en_session_id e < rg_next r" using ok assms(3) by (auto simp: rg_ok_def entry_ok_def)
  moreover have "(s', en_session_id e') \<in> ids r'" using assms(4) by (force simp: ids_def)
  ultimately have "(s', en_session_id e') \<in> ids r"
    using rg_ids_steps[OF assms(2)] assms(5) by auto
  then obtain e0 where e0: "(s', e0) \<in> set (rg_sessions r)" "en_session_id e0 = en_session_id e"
    using assms(5) by (auto simp: ids_def)
  have "inj_on (en_session_id \<circ> snd) (set (rg_sessions r))"
    using ok by (simp add: rg_ok_def distinct_map)
  from inj_onD[OF this _ e0(1) assms(3)] e0(2) show ?thesis by simp
qed

definition two_sessions :: "(nat, nat) registry" where
  "two_sessions = enter 11 0 0 1 new_registry"

lemma two_sessions_reach: "rg_reach two_sessions no_cancel"
proof -
  have "rg_reach two_sessions (\<lambda>t. no_cancel t + no_cancel t)"
    unfolding two_sessions_def
    by (rule rg_reach.step[OF rg_reach.start rg_step.enter])
      (simp_all add: new_registry_def tasks_def entry_of_def no_cancel_def)
  then show ?thesis by simp
qed

theorem session_ids_never_reused_witness:
  "fst (hd (rg_sessions two_sessions)) =
    fst (hd (rg_sessions (enter 12 5 5 2 two_sessions)))"
proof (rule session_ids_never_reused[OF two_sessions_reach])
  have "rg_step two_sessions no_cancel (enter 12 5 5 2 two_sessions)"
    by (rule rg_step.enter)
      (simp_all add: two_sessions_def new_registry_def tasks_def entry_of_def enter_def Let_def set_entry_def)
  then show "(\<lambda>r r'. \<exists>extra. rg_step r extra r')\<^sup>*\<^sup>* two_sessions (enter 12 5 5 2 two_sessions)" by blast
  show "(fst (hd (rg_sessions two_sessions)), snd (hd (rg_sessions two_sessions))) \<in> set (rg_sessions two_sessions)"
    "(fst (hd (rg_sessions (enter 12 5 5 2 two_sessions))), snd (hd (rg_sessions (enter 12 5 5 2 two_sessions))))
      \<in> set (rg_sessions (enter 12 5 5 2 two_sessions))"
    "en_session_id (snd (hd (rg_sessions two_sessions)))
      = en_session_id (snd (hd (rg_sessions (enter 12 5 5 2 two_sessions))))"
    by (simp_all add: two_sessions_def new_registry_def enter_def Let_def set_entry_def)
qed

text \<open>
  The unwind of a demoted session's screens never costs it a disconnect and never hides one. It
  cancels the task only when the main menu is armed and none is pending; retiring it succeeds exactly
  when it was pending and the task was not cancelled in earnest as well; and afterwards the task's
  count of cancellations is that of the earnest ones.
\<close>

theorem level_unwind_exact:
  assumes "rg_reach r real" and "entry_of r s = Some e"
  shows "(fst (request_level_unwind s r) \<longleftrightarrow> en_armed e \<and> \<not> en_pending e) \<and>
    rg_cancelling (snd (request_level_unwind s r)) (en_task e)
      = real (en_task e) + of_bool (en_pending e \<or> en_armed e) \<and>
    (fst (finish_level_unwind s r) \<longleftrightarrow> en_pending e \<and> real (en_task e) = 0) \<and>
    rg_cancelling (snd (finish_level_unwind s r)) (en_task e) = real (en_task e)"
proof -
  have "rg_ok r real" using rg_reach_ok[OF assms(1)] .
  then have "entry_ok r real e" using assms(2) by (auto simp: rg_ok_def entry_of_def dest!: map_of_SomeD)
  then have t: "\<not> rg_done r (en_task e)" "rg_cancelling r (en_task e) = real (en_task e) + of_bool (en_pending e)"
    by (simp_all add: entry_ok_def)
  then show ?thesis
    using assms(2) t
    by (auto simp: request_level_unwind_def finish_level_unwind_def task_cancel_def task_uncancel_def
        set_entry_def)
qed

theorem level_unwind_exact_witness:
  "\<exists>e :: nat entry. (fst (request_level_unwind 1 two_sessions) \<longleftrightarrow> en_armed e \<and> \<not> en_pending e) \<and>
    rg_cancelling (snd (request_level_unwind 1 two_sessions)) (en_task e)
      = no_cancel (en_task e) + of_bool (en_pending e \<or> en_armed e) \<and>
    (fst (finish_level_unwind 1 two_sessions) \<longleftrightarrow> en_pending e \<and> no_cancel (en_task e) = 0) \<and>
    rg_cancelling (snd (finish_level_unwind 1 two_sessions)) (en_task e) = no_cancel (en_task e)"
proof -
  obtain e where "entry_of two_sessions 1 = Some e"
    by (auto simp: two_sessions_def new_registry_def enter_def Let_def set_entry_def entry_of_def)
  from level_unwind_exact[OF two_sessions_reach this] show ?thesis by (rule exI)
qed

end
