(* ===== verification/Moderator_Roles.thy ===== *)
theory Moderator_Roles
  imports NB_Prelude "HOL-Library.Word"
begin

unbundle bit_operations_syntax

text \<open>
  \<^verbatim>\<open>src/netbbs/moderation/roles.py\<close>: who may moderate what. A permission is an \<open>IntFlag\<close> of one of two
  enumerations, a bit mask on Python's unbounded integers; the table \<open>moderator_grants\<close> is the list
  of its rows with its three unique indexes. Whether an account is the guest account, and what the Link
  delegates, are arguments.
\<close>

section \<open>Rows and permissions\<close>

datatype kind = Board | File_Area | Channel

datatype permission = Board_Perm int | Channel_Perm int

fun int_of :: "permission \<Rightarrow> int" where
  "int_of (Board_Perm m) = m"
| "int_of (Channel_Perm m) = m"

definition kind_of :: "string \<Rightarrow> kind option" where
  "kind_of s =
     (if s = ''board'' then Some Board else if s = ''file_area'' then Some File_Area
      else if s = ''channel'' then Some Channel else None)"

text \<open>READ, WRITE, EDIT, DELETE, APPROVE are the bits 1, 2, 4, 8, 16.\<close>

definition MODERATOR_BOARD_PERMISSIONS :: int where "MODERATOR_BOARD_PERMISSIONS = 4 OR 8 OR 16"
definition SYSOP_LEVEL :: int where "SYSOP_LEVEL = 255"

record grant =
  g_id :: nat
  g_user :: int
  g_kind :: kind
  g_object :: "int option"
  g_mask :: int
  g_by :: int
  g_created :: int
  g_community :: "int option"

record account =
  us_id :: int
  us_level :: int
  us_moderate_all :: bool

text \<open>\<open>r_community k i\<close> is the Community of an object, \<open>None\<close> if the object is gone or in none.\<close>

record roles =
  r_grants :: "grant list"
  r_community :: "kind \<Rightarrow> int \<Rightarrow> int option"
  r_log :: "(bool \<times> int \<times> kind \<times> int option \<times> int) list"

datatype role_error = Grant_Error | Integrity_Error

definition validate :: "string \<Rightarrow> permission \<Rightarrow> role_error + kind" where
  "validate ot p =
     (case kind_of ot of
        None \<Rightarrow> Inl Grant_Error
      | Some k \<Rightarrow>
          (case p of
             Board_Perm _ \<Rightarrow> if k = Channel then Inl Grant_Error else Inr k
           | Channel_Perm _ \<Rightarrow> if k = Channel then Inr k else Inl Grant_Error))"

definition is_moderator_grant :: "kind \<Rightarrow> int \<Rightarrow> bool" where
  "is_moderator_grant k m \<longleftrightarrow> (if k = Channel then m \<noteq> 0 else m AND MODERATOR_BOARD_PERMISSIONS \<noteq> 0)"

definition holds_moderator_powers :: "roles \<Rightarrow> account \<Rightarrow> bool" where
  "holds_moderator_powers r a \<longleftrightarrow>
     list_ex (\<lambda>g. g_user g = us_id a \<and> is_moderator_grant (g_kind g) (g_mask g)) (r_grants r)"

definition has_bits :: "grant \<Rightarrow> int \<Rightarrow> bool" where
  "has_bits g m \<longleftrightarrow> g_mask g AND m \<noteq> 0"

section \<open>Granting and revoking\<close>

definition keyed_by :: "int \<Rightarrow> kind \<Rightarrow> int option \<Rightarrow> int option \<Rightarrow> grant \<Rightarrow> bool" where
  "keyed_by user k obj com g \<longleftrightarrow> g_user g = user \<and> g_kind g = k \<and> g_object g = obj \<and> g_community g = com"

definition get_grant_row :: "roles \<Rightarrow> int \<Rightarrow> kind \<Rightarrow> int option \<Rightarrow> int option \<Rightarrow> grant option" where
  "get_grant_row r user k obj com = find (keyed_by user k obj com) (r_grants r)"

text \<open>The unique indexes: per object, local-blanket and Community-blanket.\<close>

definition clashes :: "grant \<Rightarrow> grant \<Rightarrow> bool" where
  "clashes g h \<longleftrightarrow> g_user g = g_user h \<and> g_kind g = g_kind h \<and> g_object g = g_object h \<and>
     (g_object g \<noteq> None \<or> g_community g = g_community h)"

definition insert_grant :: "grant \<Rightarrow> roles \<Rightarrow> role_error + roles" where
  "insert_grant g r =
     (if list_ex (clashes g) (r_grants r) then Inl Integrity_Error
      else Inr (r\<lparr>r_grants := r_grants r @ [g]\<rparr>))"

definition next_grant_id :: "grant list \<Rightarrow> nat" where
  "next_grant_id gs = Suc (foldr max (map g_id gs) 0)"

definition set_mask :: "nat \<Rightarrow> int \<Rightarrow> roles \<Rightarrow> roles" where
  "set_mask i m r = r\<lparr>r_grants := map (\<lambda>g. if g_id g = i then g\<lparr>g_mask := m\<rparr> else g) (r_grants r)\<rparr>"

definition delete_grant :: "nat \<Rightarrow> roles \<Rightarrow> roles" where
  "delete_grant i r = r\<lparr>r_grants := filter (\<lambda>g. g_id g \<noteq> i) (r_grants r)\<rparr>"

definition record_role_action :: "bool \<Rightarrow> int \<Rightarrow> kind \<Rightarrow> int option \<Rightarrow> int \<Rightarrow> roles \<Rightarrow> roles" where
  "record_role_action granted user k obj m r = r\<lparr>r_log := r_log r @ [(granted, user, k, obj, m)]\<rparr>"

definition add_bits ::
  "int \<Rightarrow> int \<Rightarrow> int \<Rightarrow> kind \<Rightarrow> int option \<Rightarrow> int \<Rightarrow> int option \<Rightarrow> roles \<Rightarrow> role_error + roles" where
  "add_bits now user granted_by k obj m com r =
     (case get_grant_row r user k obj com of
        None \<Rightarrow> insert_grant \<lparr>g_id = next_grant_id (r_grants r), g_user = user, g_kind = k, g_object = obj,
                  g_mask = m, g_by = granted_by, g_created = now, g_community = com\<rparr> r
      | Some g \<Rightarrow> Inr (set_mask (g_id g) (g_mask g OR m) r))"

definition bind_role :: "role_error + 'a \<Rightarrow> ('a \<Rightarrow> role_error + 'b) \<Rightarrow> role_error + 'b" where
  "bind_role x f = (case x of Inl e \<Rightarrow> Inl e | Inr y \<Rightarrow> f y)"

definition grant_permissions ::
  "(int \<Rightarrow> bool) \<Rightarrow> int \<Rightarrow> int \<Rightarrow> string \<Rightarrow> int option \<Rightarrow> permission \<Rightarrow> int \<Rightarrow> int option \<Rightarrow> roles \<Rightarrow>
   role_error + grant option \<times> roles" where
  "grant_permissions guest now target ot obj p granted_by com r =
     bind_role (validate ot p) (\<lambda>k.
       if is_moderator_grant k (int_of p) \<and> guest target then Inl Grant_Error
       else bind_role (add_bits now target granted_by k obj (int_of p) com r) (\<lambda>r.
         let r = record_role_action True target k obj (int_of p) r
         in Inr (get_grant_row r target k obj com, r)))"

fun grant_all ::
  "int \<Rightarrow> int \<Rightarrow> int \<Rightarrow> int option \<Rightarrow> (kind \<times> int) list \<Rightarrow> roles \<Rightarrow> role_error + roles" where
  "grant_all now target granted_by com [] r = Inr r"
| "grant_all now target granted_by com ((k, m) # ws) r =
     bind_role (add_bits now target granted_by k None m com r) (\<lambda>r.
       grant_all now target granted_by com ws (record_role_action True target k None m r))"

text \<open>One transaction: an error leaves the caller with the old state.\<close>

definition grant_everywhere ::
  "(int \<Rightarrow> bool) \<Rightarrow> int \<Rightarrow> int \<Rightarrow> permission \<Rightarrow> permission \<Rightarrow> int \<Rightarrow> int option \<Rightarrow> roles \<Rightarrow>
   role_error + grant option list \<times> roles" where
  "grant_everywhere guest now target bp cp granted_by com r =
     bind_role (validate ''board'' bp) (\<lambda>_. bind_role (validate ''file_area'' bp) (\<lambda>_.
     bind_role (validate ''channel'' cp) (\<lambda>_.
       let wanted = [(Board, int_of bp), (File_Area, int_of bp), (Channel, int_of cp)] in
       if list_ex (\<lambda>(k, m). is_moderator_grant k m) wanted \<and> guest target then Inl Grant_Error
       else bind_role (grant_all now target granted_by com wanted r) (\<lambda>r.
         Inr (map (\<lambda>(k, m). get_grant_row r target k None com) wanted, r)))))"

definition revoke_permissions ::
  "int \<Rightarrow> string \<Rightarrow> int option \<Rightarrow> permission \<Rightarrow> int option \<Rightarrow> roles \<Rightarrow> role_error + grant option \<times> roles" where
  "revoke_permissions target ot obj p com r =
     bind_role (validate ot p) (\<lambda>k.
       let r = (case get_grant_row r target k obj com of
                  None \<Rightarrow> r
                | Some g \<Rightarrow>
                    let new_mask = g_mask g AND NOT (int_of p)
                    in if new_mask = 0 then delete_grant (g_id g) r else set_mask (g_id g) new_mask r);
           r = record_role_action False target k obj (int_of p) r
       in Inr (get_grant_row r target k obj com, r))"

section \<open>Asking\<close>

definition applies :: "kind \<Rightarrow> int \<Rightarrow> int option \<Rightarrow> grant \<Rightarrow> bool" where
  "applies k obj com g \<longleftrightarrow> g_kind g = k \<and>
     (g_object g = Some obj \<or> (g_object g = None \<and> g_community g = None)
      \<or> (g_object g = None \<and> g_community g \<noteq> None \<and> g_community g = com))"

definition combined_mask :: "grant list \<Rightarrow> int" where
  "combined_mask gs = foldl (\<lambda>m g. m OR g_mask g) 0 gs"

definition has_permission ::
  "(account \<Rightarrow> kind \<Rightarrow> int \<Rightarrow> permission \<Rightarrow> bool) \<Rightarrow> roles \<Rightarrow> account \<Rightarrow> string \<Rightarrow> int \<Rightarrow> permission \<Rightarrow>
   role_error + bool" where
  "has_permission link r a ot obj p =
     bind_role (validate ot p) (\<lambda>k. Inr
       (if SYSOP_LEVEL \<le> us_level a then True
        else if us_moderate_all a then True
        else
          let rows = filter (\<lambda>g. g_user g = us_id a \<and> applies k obj (r_community r k obj) g) (r_grants r)
          in if combined_mask rows AND int_of p \<noteq> 0 then True else link a k obj p))"

definition list_grants_for_object :: "roles \<Rightarrow> kind \<Rightarrow> int \<Rightarrow> grant list" where
  "list_grants_for_object r k obj = filter (applies k obj (r_community r k obj)) (r_grants r)"

definition list_grants_for_community :: "roles \<Rightarrow> int \<Rightarrow> grant list" where
  "list_grants_for_community r com = filter (\<lambda>g. g_community g = Some com) (r_grants r)"

fun kind_rank :: "kind \<Rightarrow> nat" where
  "kind_rank Board = 0" | "kind_rank Channel = 1" | "kind_rank File_Area = 2"

text \<open>\<open>ORDER BY object_type, object_id\<close>, a NULL before every number: two stable sorts.\<close>

definition list_grants_for_user :: "roles \<Rightarrow> int \<Rightarrow> grant list" where
  "list_grants_for_user r user =
     sort_key (\<lambda>g. kind_rank (g_kind g))
       (filter (\<lambda>g. g_object g = None) (filter (\<lambda>g. g_user g = user) (r_grants r))
        @ sort_key (\<lambda>g. the (g_object g)) (filter (\<lambda>g. g_object g \<noteq> None) (filter (\<lambda>g. g_user g = user) (r_grants r))))"

section \<open>The specification: sets of bits per scope\<close>

datatype scope = On_Object int | In_Community int | Everywhere

fun scope_object :: "scope \<Rightarrow> int option" where
  "scope_object (On_Object i) = Some i" | "scope_object _ = None"

fun scope_community :: "scope \<Rightarrow> int option" where
  "scope_community (In_Community c) = Some c" | "scope_community _ = None"

fun blanket :: "int option \<Rightarrow> scope" where
  "blanket None = Everywhere" | "blanket (Some c) = In_Community c"

type_synonym grants_spec = "int \<times> kind \<times> scope \<Rightarrow> nat set"

definition bits :: "int \<Rightarrow> nat set" where "bits m = {i. bit m i}"

datatype role_op =
  Grant int string scope permission
| Grant_Everywhere int permission permission "int option"
| Revoke int string scope permission

definition kept :: "roles \<Rightarrow> role_error + 'a \<times> roles \<Rightarrow> roles" where
  "kept r x = (case x of Inl _ \<Rightarrow> r | Inr (_, r') \<Rightarrow> r')"

fun role_step :: "(int \<Rightarrow> bool) \<Rightarrow> roles \<Rightarrow> role_op \<Rightarrow> roles" where
  "role_step guest r (Grant user ot s p) =
     kept r (grant_permissions guest 0 user ot (scope_object s) p 0 (scope_community s) r)"
| "role_step guest r (Grant_Everywhere user bp cp com) =
     kept r (grant_everywhere guest 0 user bp cp 0 com r)"
| "role_step guest r (Revoke user ot s p) =
     kept r (revoke_permissions user ot (scope_object s) p (scope_community s) r)"

definition give :: "int \<Rightarrow> scope \<Rightarrow> kind \<Rightarrow> int \<Rightarrow> grants_spec \<Rightarrow> grants_spec" where
  "give user s k m \<sigma> = \<sigma>((user, k, s) := \<sigma> (user, k, s) \<union> bits m)"

definition take_away :: "int \<Rightarrow> scope \<Rightarrow> kind \<Rightarrow> int \<Rightarrow> grants_spec \<Rightarrow> grants_spec" where
  "take_away user s k m \<sigma> = \<sigma>((user, k, s) := \<sigma> (user, k, s) - bits m)"

fun spec_step :: "(int \<Rightarrow> bool) \<Rightarrow> grants_spec \<Rightarrow> role_op \<Rightarrow> grants_spec" where
  "spec_step guest \<sigma> (Grant user ot s p) =
     (case validate ot p of
        Inl _ \<Rightarrow> \<sigma>
      | Inr k \<Rightarrow> if is_moderator_grant k (int_of p) \<and> guest user then \<sigma> else give user s k (int_of p) \<sigma>)"
| "spec_step guest \<sigma> (Grant_Everywhere user (Board_Perm b) (Channel_Perm c) com) =
     (if (is_moderator_grant Board b \<or> c \<noteq> 0) \<and> guest user then \<sigma>
      else give user (blanket com) Channel c
             (give user (blanket com) File_Area b (give user (blanket com) Board b \<sigma>)))"
| "spec_step guest \<sigma> (Grant_Everywhere user _ _ com) = \<sigma>"
| "spec_step guest \<sigma> (Revoke user ot s p) =
     (case validate ot p of Inl _ \<Rightarrow> \<sigma> | Inr k \<Rightarrow> take_away user s k (int_of p) \<sigma>)"

definition no_grants :: "(kind \<Rightarrow> int \<Rightarrow> int option) \<Rightarrow> roles" where
  "no_grants communities = \<lparr>r_grants = [], r_community = communities, r_log = []\<rparr>"

section \<open>The table keeps its keys\<close>

definition key_of :: "grant \<Rightarrow> int \<times> kind \<times> int option \<times> int option" where
  "key_of g = (g_user g, g_kind g, g_object g, g_community g)"

definition scoped :: "grant \<Rightarrow> bool" where
  "scoped g \<longleftrightarrow> (g_object g = None \<or> g_community g = None)"

definition roles_ok :: "roles \<Rightarrow> bool" where
  "roles_ok r \<longleftrightarrow> inj_on g_id (set (r_grants r)) \<and> inj_on key_of (set (r_grants r)) \<and>
     (\<forall>g\<in>set (r_grants r). scoped g)"

text \<open>What the table stores for a scope.\<close>

definition stored :: "roles \<Rightarrow> grants_spec" where
  "stored r = (\<lambda>(us, k, s). {i. \<exists>g\<in>set (r_grants r).
     key_of g = (us, k, scope_object s, scope_community s) \<and> bit (g_mask g) i})"

lemma keyed_by_key: "keyed_by us k ob com g \<longleftrightarrow> key_of g = (us, k, ob, com)"
  by (auto simp: keyed_by_def key_of_def)

lemma get_row_Some:
  assumes "get_grant_row r us k ob com = Some g"
  shows "g \<in> set (r_grants r)" "key_of g = (us, k, ob, com)"
  using assms unfolding get_grant_row_def
  by (auto simp: find_Some_iff keyed_by_key in_set_conv_nth)

lemma get_row_None:
  "get_grant_row r us k ob com = None \<longleftrightarrow> (\<forall>g\<in>set (r_grants r). key_of g \<noteq> (us, k, ob, com))"
  by (auto simp: get_grant_row_def find_None_iff keyed_by_key)

lemma next_grant_id_fresh: "g \<in> set gs \<Longrightarrow> g_id g < next_grant_id gs"
proof -
  have "g \<in> set gs \<Longrightarrow> g_id g \<le> foldr max (map g_id gs) 0" by (induction gs) auto
  then show "g \<in> set gs \<Longrightarrow> g_id g < next_grant_id gs" by (simp add: next_grant_id_def less_Suc_eq_le)
qed

lemma scope_keys_inj:
  "scope_object s = scope_object s' \<and> scope_community s = scope_community s' \<longleftrightarrow> s = s'"
  by (cases s; cases s') auto

lemma scope_one_sided: "scope_object s = None \<or> scope_community s = None"
  by (cases s) auto

lemma scope_of_blanket [simp]: "scope_object (blanket com) = None" "scope_community (blanket com) = com"
  by (cases com; simp)+

lemma clash_is_same_key:
  assumes "scoped g" "scoped h" shows "clashes g h \<longleftrightarrow> key_of g = key_of h"
  using assms by (auto simp: clashes_def key_of_def scoped_def)


lemma stored_iff:
  "i \<in> stored r (us, k, s) \<longleftrightarrow> (\<exists>g\<in>set (r_grants r). key_of g = (us, k, scope_object s, scope_community s) \<and> bit (g_mask g) i)"
  by (simp add: stored_def)

lemma stored_log [simp]: "stored (record_role_action b us k ob m r) = stored r"
  by (simp add: stored_def record_role_action_def)

lemma roles_ok_log [simp]: "roles_ok (record_role_action b us k ob m r) = roles_ok r"
  by (simp add: roles_ok_def record_role_action_def)

lemma get_row_log [simp]: "get_grant_row (record_role_action b us k ob m r) = get_grant_row r"
  by (intro ext) (simp add: get_grant_row_def record_role_action_def)

lemma community_log [simp]: "r_community (record_role_action b us k ob m r) = r_community r"
  by (simp add: record_role_action_def)

subsection \<open>Inserting, replacing a mask, deleting\<close>

text \<open>Inserting a row under a key no row has: the unique indexes accept it.\<close>

lemma insert_new_key:
  assumes ok: "roles_ok r" and key: "key_of g = (us, k, scope_object s, scope_community s)"
    and free: "get_grant_row r us k (scope_object s) (scope_community s) = None"
    and id: "g_id g = next_grant_id (r_grants r)"
  shows "insert_grant g r = Inr (r\<lparr>r_grants := r_grants r @ [g]\<rparr>)"
    and "roles_ok (r\<lparr>r_grants := r_grants r @ [g]\<rparr>)"
    and "stored (r\<lparr>r_grants := r_grants r @ [g]\<rparr>) = give us s k (g_mask g) (stored r)"
proof -
  have sc: "scoped g" using scope_one_sided [of s] key by (auto simp: scoped_def key_of_def)
  have fresh: "\<forall>h\<in>set (r_grants r). key_of h \<noteq> key_of g" using free key by (simp add: get_row_None)
  have ids: "\<forall>h\<in>set (r_grants r). g_id h \<noteq> g_id g" using next_grant_id_fresh id by fastforce
  have "\<not> list_ex (clashes g) (r_grants r)"
    using ok sc fresh by (auto simp: list_ex_iff roles_ok_def clash_is_same_key)
  then show "insert_grant g r = Inr (r\<lparr>r_grants := r_grants r @ [g]\<rparr>)" by (simp add: insert_grant_def)
  show "roles_ok (r\<lparr>r_grants := r_grants r @ [g]\<rparr>)"
    using ok sc fresh ids by (auto simp: roles_ok_def)
  show "stored (r\<lparr>r_grants := r_grants r @ [g]\<rparr>) = give us s k (g_mask g) (stored r)"
    using key by (auto simp: stored_def give_def bits_def fun_eq_iff scope_keys_inj)
qed

text \<open>Replacing the mask of the row found under a key.\<close>

lemma set_mask_grants:
  assumes "roles_ok r" "g \<in> set (r_grants r)"
  shows "set (r_grants (set_mask (g_id g) m r)) = insert (g\<lparr>g_mask := m\<rparr>) (set (r_grants r) - {g})"
proof -
  have one: "h \<in> set (r_grants r) \<Longrightarrow> g_id h = g_id g \<longleftrightarrow> h = g" for h
    using assms by (auto simp: roles_ok_def inj_on_def)
  have "set (r_grants (set_mask (g_id g) m r)) =
          (\<lambda>h. if h = g then g\<lparr>g_mask := m\<rparr> else h) ` set (r_grants r)"
    using one by (auto simp: set_mask_def image_iff)
  then show ?thesis using assms(2) by auto
qed

lemma set_mask_effect:
  assumes ok: "roles_ok r" and row: "get_grant_row r us k (scope_object s) (scope_community s) = Some g"
  shows "roles_ok (set_mask (g_id g) m r)"
    and "stored (set_mask (g_id g) m r) = (stored r)((us, k, s) := bits m)"
proof -
  note g = get_row_Some [OF row]
  have key: "key_of (g\<lparr>g_mask := m\<rparr>) = key_of g" by (simp add: key_of_def)
  note eq = set_mask_grants [OF ok g(1), of m]
  show "roles_ok (set_mask (g_id g) m r)"
    unfolding roles_ok_def eq using ok g(1) key
    by (auto simp: roles_ok_def inj_on_def scoped_def)
  have others: "h = g" if "h \<in> set (r_grants r)" "key_of h = key_of g" for h
    using ok that g(1) by (auto simp: roles_ok_def inj_on_def)
  show "stored (set_mask (g_id g) m r) = (stored r)((us, k, s) := bits m)"
  proof (intro ext)
    fix x :: "int \<times> kind \<times> scope"
    obtain us' k' s' where x: "x = (us', k', s')" by (cases x)
    show "stored (set_mask (g_id g) m r) x = ((stored r)((us, k, s) := bits m)) x"
    proof (cases "x = (us, k, s)")
      case True
      then show ?thesis unfolding stored_def eq using g(2) key others by (auto simp: bits_def)
    next
      case False
      then have "(us, k, scope_object s, scope_community s) \<noteq> (us', k', scope_object s', scope_community s')"
        using x scope_keys_inj by auto
      then show ?thesis unfolding stored_def eq x using g(2) key False by (auto simp: x)
    qed
  qed
qed

lemma delete_effect:
  assumes ok: "roles_ok r" and row: "get_grant_row r us k (scope_object s) (scope_community s) = Some g"
  shows "roles_ok (delete_grant (g_id g) r)"
    and "stored (delete_grant (g_id g) r) = (stored r)((us, k, s) := {})"
proof -
  note g = get_row_Some [OF row]
  have eq: "set (r_grants (delete_grant (g_id g) r)) = set (r_grants r) - {g}"
    using ok g(1) by (auto simp: delete_grant_def roles_ok_def inj_on_def)
  show "roles_ok (delete_grant (g_id g) r)"
    unfolding roles_ok_def eq using ok by (auto simp: roles_ok_def inj_on_def)
  have others: "h = g" if "h \<in> set (r_grants r)" "key_of h = key_of g" for h
    using ok that g(1) by (auto simp: roles_ok_def inj_on_def)
  show "stored (delete_grant (g_id g) r) = (stored r)((us, k, s) := {})"
  proof (intro ext)
    fix x :: "int \<times> kind \<times> scope"
    obtain us' k' s' where x: "x = (us', k', s')" by (cases x)
    show "stored (delete_grant (g_id g) r) x = ((stored r)((us, k, s) := {})) x"
    proof (cases "x = (us, k, s)")
      case True
      then show ?thesis unfolding stored_def eq using g(2) others by auto
    next
      case False
      then have "(us, k, scope_object s, scope_community s) \<noteq> (us', k', scope_object s', scope_community s')"
        using x scope_keys_inj by auto
      then show ?thesis unfolding stored_def eq x using g(2) False by (auto simp: x)
    qed
  qed
qed

lemma set_mask_community [simp]: "r_community (set_mask i m r) = r_community r"
  "r_community (delete_grant i r) = r_community r"
  by (simp_all add: set_mask_def delete_grant_def)


subsection \<open>The operations on the specification\<close>

lemma bits_or [simp]: "bits (a OR b) = bits a \<union> bits b" by (auto simp: bits_def bit_or_iff)
lemma bits_and [simp]: "bits (a AND b) = bits a \<inter> bits b" by (auto simp: bits_def bit_and_iff)
lemma bits_not [simp]: "bits (NOT a) = - bits a" by (auto simp: bits_def bit_not_iff_eq)
lemma bits_empty: "bits m = {} \<longleftrightarrow> m = 0" by (auto simp: bits_def bit_eq_iff)

lemma and_nonzero:
  assumes "bits a = A" shows "a AND b \<noteq> 0 \<longleftrightarrow> bits b \<inter> A \<noteq> {}"
  using assms bits_empty [of "a AND b"] by (simp add: Int_commute)

lemma stored_at_row:
  assumes "roles_ok r" "get_grant_row r us k (scope_object s) (scope_community s) = Some g"
  shows "stored r (us, k, s) = bits (g_mask g)"
proof -
  have "h = g" if "h \<in> set (r_grants r)" "key_of h = key_of g" for h
    using assms(1) that get_row_Some(1) [OF assms(2)] by (auto simp: roles_ok_def inj_on_def)
  note g = this get_row_Some [OF assms(2)]
  show ?thesis
  proof (intro set_eqI iffI)
    fix i assume "i \<in> stored r (us, k, s)"
    then obtain h where "h \<in> set (r_grants r)" "key_of h = key_of g" "bit (g_mask h) i"
      using g(3) by (auto simp: stored_iff)
    then show "i \<in> bits (g_mask g)" using g(1) by (auto simp: bits_def)
  next
    fix i assume "i \<in> bits (g_mask g)"
    then show "i \<in> stored r (us, k, s)" using g(2,3) by (auto simp: stored_iff bits_def)
  qed
qed

lemma stored_at_none:
  "get_grant_row r us k (scope_object s) (scope_community s) = None \<Longrightarrow> stored r (us, k, s) = {}"
  by (auto simp: stored_def get_row_None)

lemma add_bits_effect:
  assumes ok: "roles_ok r"
  shows "\<exists>r'. add_bits now us by k (scope_object s) m (scope_community s) r = Inr r' \<and> roles_ok r' \<and>
    stored r' = give us s k m (stored r) \<and> r_community r' = r_community r"
proof (cases "get_grant_row r us k (scope_object s) (scope_community s)")
  case None
  define g where "g = \<lparr>g_id = next_grant_id (r_grants r), g_user = us, g_kind = k, g_object = scope_object s,
                  g_mask = m, g_by = by, g_created = now, g_community = scope_community s\<rparr>"
  have "key_of g = (us, k, scope_object s, scope_community s)" "g_id g = next_grant_id (r_grants r)" "g_mask g = m"
    by (simp_all add: g_def key_of_def)
  then show ?thesis
    using insert_new_key [OF ok, of g us k s] None by (simp add: add_bits_def g_def)
next
  case (Some g)
  then show ?thesis
    using set_mask_effect [OF ok Some, of "g_mask g OR m"] stored_at_row [OF ok Some]
    by (simp add: add_bits_def give_def)
qed

text \<open>One invariant for every step: the table is well formed, stores what the specification says, and the
  objects stay in their Communities.\<close>

definition implements :: "(kind \<Rightarrow> int \<Rightarrow> int option) \<Rightarrow> roles \<Rightarrow> grants_spec \<Rightarrow> bool" where
  "implements com r \<sigma> \<longleftrightarrow> roles_ok r \<and> stored r = \<sigma> \<and> r_community r = com"

lemma implements_log [simp]: "implements com (record_role_action b us k ob m r) \<sigma> = implements com r \<sigma>"
  by (simp add: implements_def)

lemma add_bits_implements:
  assumes "implements com r \<sigma>"
  obtains r' where "add_bits now us by k (scope_object s) m (scope_community s) r = Inr r'"
    "implements com r' (give us s k m \<sigma>)"
  using assms add_bits_effect [of r now us "by" k s m] by (auto simp: implements_def)

lemma grant_implements:
  assumes "implements com r \<sigma>"
  shows "implements com (kept r (grant_permissions guest now us ot (scope_object s) p by (scope_community s) r))
           (spec_step guest \<sigma> (Grant us ot s p))"
proof (cases "validate ot p")
  case (Inr k)
  obtain r' where r': "add_bits now us by k (scope_object s) (int_of p) (scope_community s) r = Inr r'"
    "implements com r' (give us s k (int_of p) \<sigma>)" by (rule add_bits_implements [OF assms])
  show ?thesis
    using Inr r' assms by (auto simp: grant_permissions_def bind_role_def kept_def Let_def)
qed (use assms in \<open>simp add: grant_permissions_def bind_role_def kept_def\<close>)

lemma revoke_implements:
  assumes "implements com r \<sigma>"
  shows "implements com (kept r (revoke_permissions us ot (scope_object s) p (scope_community s) r))
           (spec_step guest \<sigma> (Revoke us ot s p))"
proof (cases "validate ot p")
  case (Inr k)
  have ok: "roles_ok r" and \<sigma>: "stored r = \<sigma>" and com: "r_community r = com"
    using assms by (simp_all add: implements_def)
  show ?thesis
  proof (cases "get_grant_row r us k (scope_object s) (scope_community s)")
    case None
    then have "take_away us s k (int_of p) \<sigma> = \<sigma>" using stored_at_none [OF None] \<sigma> by (auto simp: take_away_def fun_upd_idem)
    then show ?thesis using Inr None assms by (simp add: revoke_permissions_def bind_role_def kept_def Let_def)
  next
    case (Some g)
    have left: "bits (g_mask g AND NOT (int_of p)) = \<sigma> (us, k, s) - bits (int_of p)"
      using stored_at_row [OF ok Some] \<sigma> by auto
    have gone: "g_mask g AND NOT (int_of p) = 0 \<Longrightarrow> \<sigma> (us, k, s) - bits (int_of p) = {}"
      using left by (metis bits_empty)
    have "implements com (if g_mask g AND NOT (int_of p) = 0 then delete_grant (g_id g) r
                          else set_mask (g_id g) (g_mask g AND NOT (int_of p)) r) (take_away us s k (int_of p) \<sigma>)"
    proof (cases "g_mask g AND NOT (int_of p) = 0")
      case True
      then show ?thesis using delete_effect [OF ok Some] com \<sigma>
        by (simp add: implements_def take_away_def gone del: Diff_eq_empty_iff)
    next
      case False
      then show ?thesis using set_mask_effect [OF ok Some, of "g_mask g AND NOT (int_of p)"] left com \<sigma>
        by (simp add: implements_def take_away_def)
    qed
    then show ?thesis using Inr Some by (simp add: revoke_permissions_def bind_role_def kept_def Let_def)
  qed
qed (use assms in \<open>simp add: revoke_permissions_def bind_role_def kept_def\<close>)

lemma grant_all_implements:
  assumes "implements com r \<sigma>"
  shows "\<exists>r'. grant_all now us by c ws r = Inr r' \<and>
     implements com r' (foldl (\<lambda>\<sigma> (k, m). give us (blanket c) k m \<sigma>) \<sigma> ws)"
  using assms
proof (induction ws arbitrary: r \<sigma>)
  case (Cons w ws)
  obtain k m where w: "w = (k, m)" by (cases w)
  obtain r' where "add_bits now us by k (scope_object (blanket c)) m (scope_community (blanket c)) r = Inr r'"
    "implements com r' (give us (blanket c) k m \<sigma>)" by (rule add_bits_implements [OF Cons.prems])
  then show ?case using Cons.IH w by (auto simp: bind_role_def)
qed simp

lemma validate_literals [simp]:
  "validate ''board'' p = (case p of Board_Perm _ \<Rightarrow> Inr Board | Channel_Perm _ \<Rightarrow> Inl Grant_Error)"
  "validate ''file_area'' p = (case p of Board_Perm _ \<Rightarrow> Inr File_Area | Channel_Perm _ \<Rightarrow> Inl Grant_Error)"
  "validate ''channel'' p = (case p of Channel_Perm _ \<Rightarrow> Inr Channel | Board_Perm _ \<Rightarrow> Inl Grant_Error)"
  by (simp_all add: validate_def kind_of_def split: permission.splits)

lemma everywhere_implements:
  assumes "implements com r \<sigma>"
  shows "implements com (kept r (grant_everywhere guest now us bp cp by c r))
           (spec_step guest \<sigma> (Grant_Everywhere us bp cp c))"
proof (cases bp)
  case (Board_Perm b)
  show ?thesis
  proof (cases cp)
    case (Channel_Perm ch)
    obtain r' where "grant_all now us by c [(Board, b), (File_Area, b), (Channel, ch)] r = Inr r'"
      "implements com r' (foldl (\<lambda>\<sigma> (k, m). give us (blanket c) k m \<sigma>) \<sigma> [(Board, b), (File_Area, b), (Channel, ch)])"
      using grant_all_implements [OF assms] by blast
    then show ?thesis
      using assms Board_Perm Channel_Perm
      by (auto simp del: grant_all.simps simp: grant_everywhere_def bind_role_def kept_def Let_def is_moderator_grant_def)
  qed (use assms Board_Perm in \<open>simp add: grant_everywhere_def bind_role_def kept_def\<close>)
qed (use assms in \<open>simp add: grant_everywhere_def bind_role_def kept_def\<close>)

lemma roles_implement:
  assumes "implements com r \<sigma>"
  shows "implements com (foldl (role_step guest) r ops) (foldl (spec_step guest) \<sigma> ops)"
  using assms
proof (induction ops arbitrary: r \<sigma>)
  case (Cons op ops)
  have "implements com (role_step guest r op) (spec_step guest \<sigma> op)"
    using Cons.prems
    by (cases op) (simp_all only: role_step.simps grant_implements everywhere_implements revoke_implements)
  then show ?case using Cons.IH by simp
qed simp

lemma no_grants_implement: "implements com (no_grants com) (\<lambda>_. {})"
  by (auto simp: implements_def no_grants_def roles_ok_def stored_def)


section \<open>What an account may do\<close>

lemma combined_mask_bits: "bits (combined_mask gs) = (\<Union>g\<in>set gs. bits (g_mask g))"
proof -
  have "bits (foldl (\<lambda>m g. m OR g_mask g) m gs) = bits m \<union> (\<Union>g\<in>set gs. bits (g_mask g))" for m
    by (induction gs arbitrary: m) auto
  moreover have "bits 0 = {}" by (simp add: bits_def)
  ultimately show ?thesis by (simp add: combined_mask_def)
qed

text \<open>The scopes that reach an object.\<close>

definition scopes_of :: "(kind \<Rightarrow> int \<Rightarrow> int option) \<Rightarrow> kind \<Rightarrow> int \<Rightarrow> scope set" where
  "scopes_of com k obj = {On_Object obj, Everywhere} \<union> (case com k obj of None \<Rightarrow> {} | Some c \<Rightarrow> {In_Community c})"

lemma applies_scopes:
  assumes "scoped g"
  shows "g_user g = us \<and> applies k obj (com k obj) g \<longleftrightarrow>
    (\<exists>s\<in>scopes_of com k obj. key_of g = (us, k, scope_object s, scope_community s))"
  using assms by (cases "com k obj") (auto simp: applies_def scopes_of_def key_of_def scoped_def)

lemma row_scope:
  assumes "scoped g"
  obtains s where "key_of g = (g_user g, g_kind g, scope_object s, scope_community s)"
proof (cases "g_object g")
  case None
  then show ?thesis using that [of "blanket (g_community g)"] by (simp add: key_of_def)
next
  case (Some i)
  then show ?thesis using that [of "On_Object i"] assms by (simp add: key_of_def scoped_def)
qed

lemma applying_bits:
  assumes "implements com r \<sigma>"
  shows "bits (combined_mask (filter (\<lambda>g. g_user g = us \<and> applies k obj (r_community r k obj) g) (r_grants r))) =
    (\<Union>s\<in>scopes_of com k obj. \<sigma> (us, k, s))"
proof -
  have sc: "\<forall>g\<in>set (r_grants r). scoped g" and com: "r_community r = com" and \<sigma>: "\<sigma> = stored r"
    using assms by (auto simp: implements_def roles_ok_def)
  have "{g\<in>set (r_grants r). g_user g = us \<and> applies k obj (com k obj) g} =
        {g\<in>set (r_grants r). \<exists>s\<in>scopes_of com k obj. key_of g = (us, k, scope_object s, scope_community s)}"
    using sc applies_scopes [where com = com] by blast
  then show ?thesis
    unfolding combined_mask_bits com \<sigma> by (auto simp: stored_def bits_def)
qed

text \<open>The specification's answer for an account without a rank.\<close>

definition spec_allows ::
  "(kind \<Rightarrow> int \<Rightarrow> int option) \<Rightarrow> grants_spec \<Rightarrow> int \<Rightarrow> kind \<Rightarrow> int \<Rightarrow> int \<Rightarrow> bool" where
  "spec_allows com \<sigma> us k obj m \<longleftrightarrow> bits m \<inter> (\<Union>s\<in>scopes_of com k obj. \<sigma> (us, k, s)) \<noteq> {}"

text \<open>
  C39: for every history of grants, grants of everything and revocations, asking for a permission answers
  exactly by the specification's bit sets: an invalid type is an error; a SysOp and a moderate-everything
  account hold everything; any other account holds a permission when one of its bits is in what is granted
  to it on the object, everywhere, or in the Community the object belongs to now, or when the Link
  delegates it.
\<close>

theorem roles_refine_bits:
  "has_permission link (foldl (role_step guest) (no_grants com) ops) a ot obj p =
     (case validate ot p of
        Inl e \<Rightarrow> Inl e
      | Inr k \<Rightarrow> Inr (255 \<le> us_level a \<or> us_moderate_all a
          \<or> spec_allows com (foldl (spec_step guest) (\<lambda>_. {}) ops) (us_id a) k obj (int_of p)
          \<or> link a k obj p))"
proof (cases "validate ot p")
  case (Inr k)
  let ?r = "foldl (role_step guest) (no_grants com) ops"
  let ?m = "combined_mask (filter (\<lambda>g. g_user g = us_id a \<and> applies k obj (r_community ?r k obj) g) (r_grants ?r))"
  note and_nonzero [OF applying_bits [OF roles_implement [OF no_grants_implement]]]
  from this [of "us_id a" k obj guest com ops "int_of p"] show ?thesis using Inr by (auto simp: has_permission_def bind_role_def SYSOP_LEVEL_def Let_def spec_allows_def)
qed (simp add: has_permission_def bind_role_def)

section \<open>The guest account\<close>

lemma moderator_bits:
  "is_moderator_grant k m \<longleftrightarrow> bits m \<inter> (if k = Channel then UNIV else bits MODERATOR_BOARD_PERMISSIONS) \<noteq> {}"
proof -
  have "m AND MODERATOR_BOARD_PERMISSIONS = 0 \<longleftrightarrow> bits m \<inter> bits MODERATOR_BOARD_PERMISSIONS = {}"
    using bits_empty [of "m AND MODERATOR_BOARD_PERMISSIONS"] by simp
  then show ?thesis using bits_empty [of m] by (simp add: is_moderator_grant_def)
qed

text \<open>A history, evaluated: the guest keeps its access bits, account 8 moderates its channel.\<close>

lemma roles_example:
  "map (\<lambda>g. (g_user g, g_kind g, g_object g, g_mask g))
     (r_grants (foldl (role_step (\<lambda>i. i = 7)) (no_grants (\<lambda>_ _. None))
        [Grant 7 ''board'' (On_Object 3) (Board_Perm 7), Grant 7 ''board'' Everywhere (Board_Perm 3),
         Grant 8 ''channel'' (On_Object 2) (Channel_Perm 2)]))
   = [(7, Board, None, 3), (8, Channel, Some 2, 2)]"
  by code_simp

end
