(* ===== verification/Guest_Account.thy ===== *)
theory Guest_Account
  imports Moderator_Roles Py_Number
begin

text \<open>
  \<^verbatim>\<open>src/netbbs/guest.py\<close>: the account that signs in without a password, and what refuses to give it
  privileges: \<open>set_can_verify_identity\<close> and \<open>set_staff_permissions\<close> of \<^verbatim>\<open>src/netbbs/auth/users.py\<close>, and the
  moderator grants of Moderator_Roles. The node is its users' rows, its grants and the one configuration
  value that names the guest.
\<close>

section \<open>The node\<close>

record user =
  gu_id :: nat
  gu_name :: ustr
  gu_level :: int
  gu_created :: ustr
  gu_disabled :: bool
  gu_pending :: bool
  gu_verify :: bool
  gu_staff :: int

record node =
  n_users :: "user list"
  n_roles :: roles
  n_guest :: "ustr option"

definition account_of :: "user \<Rightarrow> account" where
  "account_of a = \<lparr>us_id = int (gu_id a), us_level = gu_level a, us_moderate_all = bit (gu_staff a) 2\<rparr>"

definition get_user_by_id :: "node \<Rightarrow> nat \<Rightarrow> user option" where
  "get_user_by_id s i = find (\<lambda>a. gu_id a = i) (n_users s)"

text \<open>SQLite's \<open>COLLATE NOCASE\<close> folds the ASCII letters.\<close>

definition nocase :: "ustr \<Rightarrow> ustr" where
  "nocase = map (\<lambda>c. if 65 \<le> c \<and> c \<le> 90 then c + 32 else c)"

definition get_user_by_username :: "node \<Rightarrow> ustr \<Rightarrow> user option" where
  "get_user_by_username s name = find (\<lambda>a. nocase (gu_name a) = nocase name) (n_users s)"

section \<open>The designation\<close>

definition designation_value :: "user option \<Rightarrow> ustr" where
  "designation_value a = (case a of None \<Rightarrow> [] | Some a \<Rightarrow> dec (gu_id a) @ 58 # gu_created a)"

definition set_guest_user :: "user option \<Rightarrow> node \<Rightarrow> node" where
  "set_guest_user a s = s\<lparr>n_guest := Some (designation_value a)\<rparr>"

definition guest_designation :: "unitext \<Rightarrow> node \<Rightarrow> (int \<times> ustr) option" where
  "guest_designation T s =
     (case n_guest s of None \<Rightarrow> None
      | Some raw \<Rightarrow>
          if raw = [] \<or> 58 \<notin> set raw then None
          else map_option (\<lambda>i. (i, tl (dropWhile (\<lambda>c. c \<noteq> 58) raw)))
            (py_int_word T (py_strip (ut_space T) (takeWhile (\<lambda>c. c \<noteq> 58) raw))))"

definition guest_user :: "unitext \<Rightarrow> node \<Rightarrow> user option" where
  "guest_user T s =
     (case guest_designation T s of None \<Rightarrow> None
      | Some (i, created) \<Rightarrow>
          (case (if i < 0 then None else get_user_by_id s (nat i)) of None \<Rightarrow> None
           | Some a \<Rightarrow> if gu_created a \<noteq> created then None else Some a))"

definition is_guest_account :: "unitext \<Rightarrow> node \<Rightarrow> user \<Rightarrow> bool" where
  "is_guest_account T s a \<longleftrightarrow> guest_designation T s = Some (int (gu_id a), gu_created a)"

datatype privilege = Staff_Permissions | Identity_Verification | Moderator_Grant

definition guest_privileges :: "node \<Rightarrow> user \<Rightarrow> privilege list" where
  "guest_privileges s a =
     (if gu_staff a \<noteq> 0 then [Staff_Permissions] else []) @
     (if gu_verify a then [Identity_Verification] else []) @
     (if holds_moderator_powers (n_roles s) (account_of a) then [Moderator_Grant] else [])"

definition guest_is_eligible :: "unitext \<Rightarrow> node \<Rightarrow> user \<Rightarrow> bool" where
  "guest_is_eligible T s a \<longleftrightarrow>
     (case guest_designation T s of None \<Rightarrow> False
      | Some (i, created) \<Rightarrow>
          if int (gu_id a) \<noteq> i \<or> gu_created a \<noteq> created then False
          else if gu_disabled a \<or> gu_pending a then False
          else if SYSOP_LEVEL \<le> gu_level a then False
          else guest_privileges s a = [])"

definition guest_login_for :: "unitext \<Rightarrow> node \<Rightarrow> ustr \<Rightarrow> user option" where
  "guest_login_for T s name =
     (case guest_user T s of None \<Rightarrow> None
      | Some designated \<Rightarrow>
          (case get_user_by_username s (py_strip (ut_space T) name) of None \<Rightarrow> None
           | Some typed \<Rightarrow>
               if gu_id typed \<noteq> gu_id designated \<or> gu_created typed \<noteq> gu_created designated then None
               else if guest_is_eligible T s designated then Some designated else None))"

section \<open>Granting privileges\<close>

datatype user_error = Management_Error | Bits_Error

definition is_usable_sysop :: "user \<Rightarrow> bool" where
  "is_usable_sysop a \<longleftrightarrow> SYSOP_LEVEL \<le> gu_level a \<and> \<not> gu_disabled a \<and> \<not> gu_pending a"

definition require_sysop :: "node \<Rightarrow> user \<Rightarrow> bool" where
  "require_sysop s actor = (case get_user_by_id s (gu_id actor) of None \<Rightarrow> False | Some a \<Rightarrow> is_usable_sysop a)"

definition update_user :: "nat \<Rightarrow> (user \<Rightarrow> user) \<Rightarrow> node \<Rightarrow> node" where
  "update_user i f s = s\<lparr>n_users := map (\<lambda>a. if gu_id a = i then f a else a) (n_users s)\<rparr>"

text \<open>The row given may be an old one; only its identity and the flag it shows are read.\<close>

definition set_can_verify_identity :: "unitext \<Rightarrow> user \<Rightarrow> bool \<Rightarrow> user \<Rightarrow> node \<Rightarrow> user_error + node" where
  "set_can_verify_identity T target v changed_by s =
     (if gu_verify target = v then Inr s
      else if \<not> require_sysop s changed_by then Inl Management_Error
      else if v \<and> is_guest_account T s target then Inl Management_Error
      else Inr (update_user (gu_id target) (\<lambda>a. a\<lparr>gu_verify := v\<rparr>) s))"

definition CO_SYSOP_PRESET :: int where "CO_SYSOP_PRESET = 1 OR 2 OR 4"

definition set_staff_permissions :: "unitext \<Rightarrow> user \<Rightarrow> int \<Rightarrow> user \<Rightarrow> node \<Rightarrow> user_error + node" where
  "set_staff_permissions T target m changed_by s =
     (if m AND NOT CO_SYSOP_PRESET \<noteq> 0 then Inl Bits_Error
      else case get_user_by_id s (gu_id target) of None \<Rightarrow> Inl Management_Error
       | Some current \<Rightarrow>
           if m = gu_staff current then Inr s
           else if \<not> require_sysop s changed_by then Inl Management_Error
           else if m \<noteq> 0 \<and> SYSOP_LEVEL \<le> gu_level current then Inl Management_Error
           else if m \<noteq> 0 \<and> gu_pending current then Inl Management_Error
           else if m \<noteq> 0 \<and> is_guest_account T s current then Inl Management_Error
           else Inr (update_user (gu_id current) (\<lambda>a. a\<lparr>gu_staff := m\<rparr>) s))"

text \<open>What may happen to a node: the designation is set or cleared, privileges are given and taken by screens
  that hold a row read earlier (whose flag of verification may be an old one), and an account is renamed, promoted,
  disabled or approved, here in any way. Accounts are neither created nor deleted.\<close>

datatype node_op =
  Designate "user option"
| Set_Verify nat bool bool user
| Set_Staff nat int user
| Role_Change role_op
| Account_Change nat ustr int bool bool

definition is_guest_id :: "unitext \<Rightarrow> node \<Rightarrow> int \<Rightarrow> bool" where
  "is_guest_id T s i \<longleftrightarrow> (\<exists>a\<in>set (n_users s). int (gu_id a) = i \<and> is_guest_account T s a)"

definition done_or_kept :: "node \<Rightarrow> user_error + node \<Rightarrow> node" where
  "done_or_kept s x = (case x of Inl _ \<Rightarrow> s | Inr s' \<Rightarrow> s')"

fun node_step :: "unitext \<Rightarrow> node \<Rightarrow> node_op \<Rightarrow> node" where
  "node_step T s (Designate a) = set_guest_user a s"
| "node_step T s (Set_Verify i seen v actor) =
     (case get_user_by_id s i of None \<Rightarrow> s
      | Some a \<Rightarrow> done_or_kept s (set_can_verify_identity T (a\<lparr>gu_verify := seen\<rparr>) v actor s))"
| "node_step T s (Set_Staff i m actor) =
     (case get_user_by_id s i of None \<Rightarrow> s | Some a \<Rightarrow> done_or_kept s (set_staff_permissions T a m actor s))"
| "node_step T s (Role_Change op) = s\<lparr>n_roles := role_step (is_guest_id T s) (n_roles s) op\<rparr>"
| "node_step T s (Account_Change i name level disabled pending) =
     update_user i (\<lambda>a. a\<lparr>gu_name := name, gu_level := level, gu_disabled := disabled, gu_pending := pending\<rparr>) s"

definition run_node :: "unitext \<Rightarrow> node \<Rightarrow> node_op list \<Rightarrow> node" where
  "run_node T s ops = foldl (node_step T) s ops"


section \<open>The guest gains nothing\<close>

definition guest_row :: "unitext \<Rightarrow> node \<Rightarrow> nat \<Rightarrow> bool" where
  "guest_row T s i \<longleftrightarrow> (case get_user_by_id s i of None \<Rightarrow> False | Some a \<Rightarrow> is_guest_account T s a)"

definition privileges_of :: "node \<Rightarrow> nat \<Rightarrow> privilege set" where
  "privileges_of s i = (case get_user_by_id s i of None \<Rightarrow> {} | Some a \<Rightarrow> set (guest_privileges s a))"

definition moderator_bits_of :: "kind \<Rightarrow> nat set" where
  "moderator_bits_of k = (if k = Channel then UNIV else bits MODERATOR_BOARD_PERMISSIONS)"

lemma find_update:
  "\<forall>a. gu_id (f a) = gu_id a \<Longrightarrow> get_user_by_id (update_user j f s) i =
    map_option (\<lambda>a. if gu_id a = j then f a else a) (get_user_by_id s i)"
proof -
  assume f: "\<forall>a. gu_id (f a) = gu_id a"
  have "find (\<lambda>a. gu_id a = i) (map (\<lambda>a. if gu_id a = j then f a else a) as) =
      map_option (\<lambda>a. if gu_id a = j then f a else a) (find (\<lambda>a. gu_id a = i) as)" for as
    using f by (induction as) auto
  then show ?thesis by (simp add: get_user_by_id_def update_user_def)
qed

lemma find_id: "get_user_by_id s i = Some a \<Longrightarrow> gu_id a = i \<and> a \<in> set (n_users s)"
  by (auto simp: get_user_by_id_def find_Some_iff)

lemma update_user_rest [simp]: "n_roles (update_user j f s) = n_roles s" "n_guest (update_user j f s) = n_guest s"
  by (simp_all add: update_user_def)

lemma designation_update [simp]: "guest_designation T (update_user j f s) = guest_designation T s"
  by (simp add: guest_designation_def)

lemma holds_powers_iff:
  assumes "implements com r \<sigma>"
  shows "holds_moderator_powers r a \<longleftrightarrow> (\<exists>k sc. \<sigma> (us_id a, k, sc) \<inter> moderator_bits_of k \<noteq> {})"
proof
  assume "holds_moderator_powers r a"
  then obtain g where g: "g \<in> set (r_grants r)" "g_user g = us_id a" "is_moderator_grant (g_kind g) (g_mask g)"
    by (auto simp: holds_moderator_powers_def list_ex_iff)
  then obtain sc where "key_of g = (us_id a, g_kind g, scope_object sc, scope_community sc)"
    using assms row_scope by (metis implements_def roles_ok_def)
  then have "bits (g_mask g) \<subseteq> \<sigma> (us_id a, g_kind g, sc)"
    using g(1) assms by (auto simp: implements_def stored_def bits_def)
  then show "\<exists>k sc. \<sigma> (us_id a, k, sc) \<inter> moderator_bits_of k \<noteq> {}"
    using g(3) unfolding moderator_bits moderator_bits_of_def by blast
next
  assume "\<exists>k sc. \<sigma> (us_id a, k, sc) \<inter> moderator_bits_of k \<noteq> {}"
  then obtain k sc b where "b \<in> \<sigma> (us_id a, k, sc)" "b \<in> moderator_bits_of k" by blast
  then obtain g where "g \<in> set (r_grants r)" "g_user g = us_id a" "g_kind g = k" "b \<in> bits (g_mask g)"
    using assms by (auto simp: implements_def stored_def bits_def key_of_def)
  then show "holds_moderator_powers r a"
    using \<open>b \<in> moderator_bits_of k\<close> unfolding holds_moderator_powers_def list_ex_iff moderator_bits moderator_bits_of_def
    by blast
qed

lemma spec_guest_gains_nothing:
  assumes "guest us"
  shows "spec_step guest \<sigma> op (us, k, sc) \<inter> moderator_bits_of k \<subseteq> \<sigma> (us, k, sc)"
proof (cases op)
  case (Grant user ot s p)
  then show ?thesis
    using assms moderator_bits[of k "int_of p"] by (auto simp: give_def moderator_bits_of_def split: sum.splits)
next
  case (Grant_Everywhere user bp cp c)
  have "is_moderator_grant Channel m \<longleftrightarrow> m \<noteq> 0" "is_moderator_grant File_Area m = is_moderator_grant Board m" for m
    by (simp_all add: is_moderator_grant_def)
  then show ?thesis
    using assms Grant_Everywhere moderator_bits by (cases bp; cases cp) (auto simp: give_def moderator_bits_of_def)
next
  case (Revoke user ot s p)
  then show ?thesis by (auto simp: take_away_def split: sum.splits)
qed

lemma roles_guest_gains_nothing:
  assumes "implements com r \<sigma>" "guest (us_id a)" "holds_moderator_powers (role_step guest r op) a"
  shows "holds_moderator_powers r a"
proof -
  have "implements com (role_step guest r op) (spec_step guest \<sigma> op)"
    using roles_implement[OF assms(1), of guest "[op]"] by simp
  then obtain k sc where "spec_step guest \<sigma> op (us_id a, k, sc) \<inter> moderator_bits_of k \<noteq> {}"
    using assms(3) holds_powers_iff by blast
  then have "\<sigma> (us_id a, k, sc) \<inter> moderator_bits_of k \<noteq> {}"
    using spec_guest_gains_nothing[of guest "us_id a" \<sigma> op k sc, OF assms(2)] by blast
  then show ?thesis unfolding holds_powers_iff[OF assms(1)] by blast
qed

lemma step_gains_nothing:
  assumes "implements com (n_roles s) \<sigma>" "guest_row T s i"
  shows "privileges_of (node_step T s op) i \<subseteq> privileges_of s i"
proof -
  obtain a where a: "get_user_by_id s i = Some a" "is_guest_account T s a" "gu_id a = i" "a \<in> set (n_users s)"
    using assms(2) find_id by (auto simp: guest_row_def split: option.splits)
  have unchanged: "privileges_of (update_user j f s) i \<subseteq> privileges_of s i"
    if "\<And>b. gu_id (f b) = gu_id b" "j = i \<Longrightarrow> gu_staff (f a) \<in> {0, gu_staff a} \<and> (gu_verify (f a) \<longrightarrow> gu_verify a)" for j f
    using a(1,3) that by (auto simp: find_update privileges_of_def guest_privileges_def account_of_def holds_moderator_powers_def)
  have others: "privileges_of (update_user (gu_id b) f s) i \<subseteq> privileges_of s i"
    if "get_user_by_id s j = Some b" "j \<noteq> i" "\<forall>b. gu_id (f b) = gu_id b" for j b f
    using find_id[OF that(1)] that by (intro unchanged) auto
  show ?thesis
  proof (cases op)
    case (Designate x)
    then show ?thesis
      by (auto simp: privileges_of_def set_guest_user_def get_user_by_id_def guest_privileges_def split: option.split)
  next
    case (Set_Verify j seen v actor)
    show ?thesis
    proof (cases "j = i")
      case True
      then show ?thesis
        using a Set_Verify by (auto simp: set_can_verify_identity_def done_or_kept_def is_guest_account_def unchanged)
    next
      case False
      then show ?thesis
        using Set_Verify others by (simp add: set_can_verify_identity_def done_or_kept_def split: option.split)
    qed
  next
    case (Set_Staff j m actor)
    show ?thesis
    proof (cases "j = i")
      case True
      then show ?thesis
        using a Set_Staff by (auto simp: set_staff_permissions_def done_or_kept_def is_guest_account_def unchanged)
    next
      case False
      show ?thesis
      proof (cases "get_user_by_id s j")
        case (Some b)
        then have "gu_id b = j" using find_id by blast
        then show ?thesis
          using Set_Staff Some others[OF Some False] by (simp add: set_staff_permissions_def done_or_kept_def)
      qed (use Set_Staff in simp)
    qed
  next
    case (Role_Change rop)
    have "is_guest_id T s (us_id (account_of a))" using a by (auto simp: is_guest_id_def account_of_def)
    then show ?thesis
      using Role_Change a(1) roles_guest_gains_nothing[OF assms(1)]
      by (auto simp: privileges_of_def guest_privileges_def get_user_by_id_def)
  next
    case (Account_Change j name level disabled pending)
    then show ?thesis
      by (simp only: node_step.simps) (rule unchanged, simp_all)
  qed
qed

lemma step_keeps_designation:
  assumes "\<And>a. op \<noteq> Designate a"
  shows "guest_row T (node_step T s op) i = guest_row T s i"
proof -
  have same: "guest_row T (update_user j f s) i = guest_row T s i"
    if "\<forall>a. gu_id (f a) = gu_id a \<and> gu_created (f a) = gu_created a" for j f
    using that by (auto simp: guest_row_def find_update is_guest_account_def split: option.split)
  show ?thesis
  proof (cases op)
    case (Role_Change rop)
    then show ?thesis by (simp add: guest_row_def get_user_by_id_def is_guest_account_def guest_designation_def cong: option.case_cong)
  qed (use assms in \<open>auto simp: same set_can_verify_identity_def set_staff_permissions_def done_or_kept_def split: option.split\<close>)
qed

lemma designation_keeps_privileges: "privileges_of (node_step T s (Designate a)) i = privileges_of s i"
  by (simp add: privileges_of_def set_guest_user_def get_user_by_id_def guest_privileges_def split: option.split)

lemma run_implements:
  assumes "implements com (n_roles s) \<sigma>"
  shows "\<exists>\<sigma>. implements com (n_roles (run_node T s ops)) \<sigma>"
proof (induction ops rule: rev_induct)
  case (snoc op ops)
  then obtain \<sigma> where \<sigma>: "implements com (n_roles (run_node T s ops)) \<sigma>" by blast
  have "\<exists>\<sigma>. implements com (role_step g (n_roles (run_node T s ops)) rop) \<sigma>" for g rop
    using roles_implement[OF \<sigma>, of g "[rop]"] by auto
  then show ?case
    using \<sigma> by (cases op) (auto simp: run_node_def set_guest_user_def done_or_kept_def set_can_verify_identity_def
      set_staff_permissions_def split: option.split)
qed (use assms in \<open>auto simp: run_node_def\<close>)

lemma privileged_guest_refused:
  assumes "guest_row T s i" "p \<in> privileges_of s i"
  shows "guest_login_for T s name = None"
proof -
  obtain a where a: "get_user_by_id s i = Some a" "is_guest_account T s a" "gu_id a = i"
    using assms(1) find_id by (auto simp: guest_row_def split: option.splits)
  then have "guest_privileges s a \<noteq> []" using assms(2) by (auto simp: privileges_of_def)
  then have "\<not> guest_is_eligible T s a" by (simp add: guest_is_eligible_def split: option.split)
  then show ?thesis
    using a by (auto simp: guest_login_for_def guest_user_def is_guest_account_def split: option.split)
qed

text \<open>A step of the run: the state a designation period has reached.\<close>

lemma privileged_since:
  assumes "implements com (n_roles s) \<sigma>" "\<not> guest_row T s i"
  shows "guest_row T (run_node T s ops) i \<Longrightarrow> p \<in> privileges_of (run_node T s ops) i \<Longrightarrow>
    \<exists>before a since. ops = before @ Designate a # since \<and> \<not> guest_row T (run_node T s before) i \<and>
      p \<in> privileges_of (run_node T s before) i \<and>
      (\<forall>k\<le>length since. guest_row T (run_node T s (before @ Designate a # take k since)) i \<and>
        p \<in> privileges_of (run_node T s (before @ Designate a # take k since)) i)"
proof (induction ops rule: rev_induct)
  case (snoc op ops)
  let ?s = "run_node T s ops"
  have run: "run_node T s (ops @ [op]) = node_step T ?s op" by (simp add: run_node_def)
  show ?case
  proof (cases "guest_row T ?s i")
    case True
    obtain \<sigma>' where "implements com (n_roles ?s) \<sigma>'" using run_implements[OF assms(1)] by blast
    then have "p \<in> privileges_of ?s i" using step_gains_nothing[OF _ True] snoc.prems(2) unfolding run by blast
    then obtain before a since where ih: "ops = before @ Designate a # since" "\<not> guest_row T (run_node T s before) i"
      "p \<in> privileges_of (run_node T s before) i"
      "\<forall>k\<le>length since. guest_row T (run_node T s (before @ Designate a # take k since)) i \<and>
        p \<in> privileges_of (run_node T s (before @ Designate a # take k since)) i"
      using snoc.IH[OF True] by blast
    have "guest_row T (run_node T s (before @ Designate a # take k (since @ [op]))) i \<and>
        p \<in> privileges_of (run_node T s (before @ Designate a # take k (since @ [op]))) i" if "k \<le> length (since @ [op])" for k
    proof (cases "k \<le> length since")
      case False
      then have "before @ Designate a # take k (since @ [op]) = ops @ [op]" using that ih(1) by simp
      then show ?thesis using snoc.prems by simp
    qed (use ih(4) in simp)
    moreover have "ops @ [op] = before @ Designate a # (since @ [op])" using ih(1) by simp
    ultimately show ?thesis using ih(2,3) by blast
  next
    case False
    then obtain a where a: "op = Designate a"
      using step_keeps_designation[of op T ?s i] snoc.prems(1) unfolding run by blast
    have "privileges_of (run_node T s (ops @ [op])) i = privileges_of ?s i"
      unfolding run by (simp only: a designation_keeps_privileges)
    then have "p \<in> privileges_of ?s i" using snoc.prems(2) by blast
    then have "ops @ [op] = ops @ Designate a # [] \<and> \<not> guest_row T ?s i \<and> p \<in> privileges_of ?s i \<and>
        (\<forall>k\<le>length []. guest_row T (run_node T s (ops @ Designate a # take k [])) i \<and>
          p \<in> privileges_of (run_node T s (ops @ Designate a # take k [])) i)"
      using False snoc.prems unfolding a by simp
    then show ?thesis by blast
  qed
qed (use assms(2) in \<open>simp add: run_node_def\<close>)

text \<open>
  C40: The guest account, which every anonymous caller shares, never comes to hold staff permissions, identity
  verification or a moderator grant while it is the guest account: in any history of designations, grants, revocations
  and changes to accounts, beginning with no moderator grants and an account that is not the guest, if the account is the guest in the end
  and holds such a privilege, it held it already when it was designated and has held it ever since, and in all that
  time \<^verbatim>\<open>guest_login_for\<close> signed nobody in. (Accounts are neither created nor deleted in the history.)
\<close>

theorem guest_privileges_predate_designation:
  assumes "n_roles s = no_grants com" "\<not> guest_row T s i"
    "guest_row T (run_node T s ops) i" "p \<in> privileges_of (run_node T s ops) i"
  shows "\<exists>before a since. ops = before @ Designate a # since \<and> \<not> guest_row T (run_node T s before) i \<and>
    p \<in> privileges_of (run_node T s before) i \<and>
    (\<forall>k\<le>length since. let s' = run_node T s (before @ Designate a # take k since) in
      guest_row T s' i \<and> p \<in> privileges_of s' i \<and> (\<forall>name. guest_login_for T s' name = None))"
proof -
  have "implements com (n_roles s) (\<lambda>_. {})" unfolding assms(1) by (rule no_grants_implement)
  from privileged_since[OF this assms(2-4)] obtain before a since where h: "ops = before @ Designate a # since"
    "\<not> guest_row T (run_node T s before) i" "p \<in> privileges_of (run_node T s before) i"
    "\<And>k. k \<le> length since \<Longrightarrow> guest_row T (run_node T s (before @ Designate a # take k since)) i \<and>
      p \<in> privileges_of (run_node T s (before @ Designate a # take k since)) i"
    by blast
  then show ?thesis
    unfolding Let_def by (intro exI[of _ before] exI[of _ a] exI[of _ since] conjI allI impI) (auto intro: privileged_guest_refused)
qed

section \<open>A history\<close>

definition sample_user :: "nat \<Rightarrow> ustr \<Rightarrow> int \<Rightarrow> user" where
  "sample_user i name level = \<lparr>gu_id = i, gu_name = name, gu_level = level, gu_created = u ''2026-01-01T00:00:00'',
     gu_disabled = False, gu_pending = False, gu_verify = False, gu_staff = 0\<rparr>"

definition sample_node :: node where
  "sample_node = \<lparr>n_users = [sample_user 1 (u ''sysop'') 255, sample_user 7 (u ''guest'') 10],
     n_roles = no_grants (\<lambda>_ _. None), n_guest = None\<rparr>"

text \<open>A grant made before the designation stays, as do the refusals; nothing more is granted.\<close>

definition sample_history :: "node_op list" where
  "sample_history = [Role_Change (Grant 7 ''channel'' Everywhere (Channel_Perm 1)),
     Designate (Some (sample_user 7 (u ''guest'') 10)),
     Set_Verify 7 False True (sample_user 1 (u ''sysop'') 255), Set_Staff 7 1 (sample_user 1 (u ''sysop'') 255),
     Role_Change (Grant 7 ''board'' (On_Object 3) (Board_Perm 4))]"

lemma sample_run:
  "\<not> guest_row small_tables sample_node 7" "guest_row small_tables (run_node small_tables sample_node sample_history) 7"
  "privileges_of (run_node small_tables sample_node sample_history) 7 = {Moderator_Grant}"
  by code_simp+

theorem guest_privileges_predate_designation_witness:
  "\<exists>before a since. sample_history = before @ Designate a # since \<and>
    Moderator_Grant \<in> privileges_of (run_node small_tables sample_node before) 7"
proof -
  have "n_roles sample_node = no_grants (\<lambda>_ _. None)" by (simp add: sample_node_def)
  from guest_privileges_predate_designation[OF this sample_run(1,2), of Moderator_Grant] show ?thesis
    unfolding sample_run(3) by blast
qed

text \<open>Without the old grant the guest signs in.\<close>

lemma sample_login:
  "map_option gu_id (guest_login_for small_tables (run_node small_tables sample_node (tl sample_history)) (u '' GUEST '')) = Some 7"
  by code_simp

end
