(* ===== verification/Binkp.thy ===== *)
theory Binkp
  imports Py_Text "HOL-Library.Word"
begin

unbundle bit_operations_syntax

text \<open>
  BinkP sessions, \<^verbatim>\<open>src/netbbs/ftn/binkp.py\<close>: frames, received file names, and the transfer stage, whose
  sending and receiving tasks share one state. A task runs from one \<open>await\<close> to the next without
  interruption, so every stretch of code between two of them is one step, and a run is any sequence of
  steps of the two tasks. The record holds the attributes of \<open>_Transfer\<close>, what \<open>_Session\<close> and its
  \<open>SessionResult\<close> keep during a transfer, the frames written so far, and where each task stands.
\<close>

section \<open>Frames\<close>

type_synonym byte = "8 word"

abbreviation (input) M_NUL :: nat where "M_NUL \<equiv> 0"
abbreviation (input) M_FILE :: nat where "M_FILE \<equiv> 3"
abbreviation (input) M_EOB :: nat where "M_EOB \<equiv> 5"
abbreviation (input) M_GOT :: nat where "M_GOT \<equiv> 6"
abbreviation (input) M_ERR :: nat where "M_ERR \<equiv> 7"
abbreviation (input) M_BSY :: nat where "M_BSY \<equiv> 8"
abbreviation (input) M_GET :: nat where "M_GET \<equiv> 9"
abbreviation (input) M_SKIP :: nat where "M_SKIP \<equiv> 10"

definition MAX_FRAME :: nat where "MAX_FRAME = 0x7FFF"
definition MAX_FILE_BYTES :: nat where "MAX_FILE_BYTES = 64 * 1024 * 1024"
definition MAX_SESSION_BYTES :: nat where "MAX_SESSION_BYTES = 256 * 1024 * 1024"
definition MAX_FILES :: nat where "MAX_FILES = 512"
definition MAX_INFO_FRAMES :: nat where "MAX_INFO_FRAMES = 100"
definition MAX_BATCHES :: nat where "MAX_BATCHES = 64"

text \<open>What may be raised: the module's own exceptions, and two that are not.\<close>

datatype binkp_error = Binkp_Error | Remote_Closed | OS_Error | Value_Error

definition latin1 :: "ustr \<Rightarrow> byte list" where
  "latin1 s = map (\<lambda>c. if c < 256 then of_nat c else 63) s"

definition unlatin1 :: "byte list \<Rightarrow> ustr" where
  "unlatin1 b = map unat b"

text \<open>\<open>None\<close> is the \<open>ValueError\<close>.\<close>

definition encode_frame :: "nat option \<Rightarrow> byte list \<Rightarrow> byte list option" where
  "encode_frame command payload =
     (let body = (case command of None \<Rightarrow> payload | Some k \<Rightarrow> of_nat k # payload) in
      if MAX_FRAME < length body then None
      else
        let header = length body OR (if command \<noteq> None then 0x8000 else 0)
        in Some (of_nat (header div 256) # of_nat (header mod 256) # body))"

definition rstrip_nul :: "byte list \<Rightarrow> byte list" where
  "rstrip_nul b = rev (dropWhile (\<lambda>c. c = 0) (rev b))"

text \<open>\<open>read_frame\<close> on everything the remote will ever send: the frame and the rest of the stream.\<close>

fun read_frame :: "byte list \<Rightarrow> binkp_error + (nat option \<times> byte list) \<times> byte list" where
  "read_frame (h0 # h1 # s) =
     (let n = (unat h0 * 256 + unat h1) AND 0x7FFF in
      if length s < n then Inl Remote_Closed
      else
        let body = take n s in
        if h0 AND 0x80 \<noteq> 0 then
          (case body of [] \<Rightarrow> Inl Binkp_Error
           | k # argument \<Rightarrow> Inr ((Some (unat k), rstrip_nul argument), drop n s))
        else Inr ((None, body), drop n s))"
| "read_frame _ = Inl Remote_Closed"

section \<open>Received names\<close>

definition safe_char :: "nat \<Rightarrow> bool" where
  "safe_char c \<longleftrightarrow> (65 \<le> c \<and> c \<le> 90) \<or> (97 \<le> c \<and> c \<le> 122) \<or> is_digit c \<or> c = 46 \<or> c = 95 \<or> c = 45"

definition safe_file_name :: "ustr \<Rightarrow> ustr" where
  "safe_file_name name =
     (let base = last (split_on 47 (map (\<lambda>c. if c = 92 then 47 else c) name));
          cleaned = dropWhile (\<lambda>c. c = 46) (take 64 (map (\<lambda>c. if safe_char c then c else 95) base))
      in if cleaned = [] then u ''unnamed'' else cleaned)"

section \<open>Numbers on a line\<close>

text \<open>
  \<open>int(s)\<close>: spaces around, a sign, digits with single underscores between them, at most 4300 digits.
\<close>

definition py_int_signed :: "unitext \<Rightarrow> ustr \<Rightarrow> int option" where
  "py_int_signed T s =
     (let t = py_strip (ut_space T) s;
          body = (if t \<noteq> [] \<and> (hd t = 43 \<or> hd t = 45) then tl t else t);
          parts = split_on 95 body in
      if [] \<in> set parts then None
      else map_option (\<lambda>n. if t \<noteq> [] \<and> hd t = 45 then - int n else int n) (py_int T (concat parts)))"

definition int_text :: "int \<Rightarrow> ustr" where
  "int_text i = (if i < 0 then 45 # dec (nat (- i)) else dec (nat i))"

text \<open>\<open>text.split(" ", 1)[0]\<close>.\<close>

definition first_field :: "ustr \<Rightarrow> ustr" where
  "first_field t = takeWhile (\<lambda>c. c \<noteq> 32) t"

definition parse_file_line :: "unitext \<Rightarrow> ustr \<Rightarrow> (ustr \<times> int \<times> int \<times> int) option" where
  "parse_file_line T t =
     (case py_words (ut_space T) t of
        name # size_text # mtime_text # offset_text # _ \<Rightarrow> do {
          sz \<leftarrow> py_int_signed T size_text;
          mtime \<leftarrow> py_int_signed T mtime_text;
          offset \<leftarrow> py_int_signed T offset_text;
          Some (name, sz, mtime, offset)
        }
      | _ \<Rightarrow> None)"

section \<open>The state of a transfer\<close>

record outgoing =
  og_name :: ustr
  og_data :: "byte list"
  og_mtime :: nat

record received =
  rv_name :: ustr
  rv_data :: "byte list"

record incoming =
  in_name :: ustr
  in_size :: nat
  in_mtime :: int
  in_data :: "byte list"

text \<open>
  Where the tasks stand. The sender: at the top of its loop, about to write \<open>M_FILE\<close>, in the middle of a
  file, about to write \<open>M_EOB\<close>, draining it, waiting for a new batch or the end, asking the hook. The
  receiver: waiting for a frame, writing \<open>M_GET\<close> or \<open>M_GOT\<close> (the flag says that it has been written
  and is draining), at its end.
\<close>

datatype sender =
  Sending | Announcing outgoing nat | Chunks outgoing nat | Ending | Draining | Waiting | Asking
| Sender_Done | Sender_Failed binkp_error

datatype receiver =
  Reading | Getting incoming bool | Confirming incoming bool | Receiver_Done | Receiver_Failed binkp_error

record binkp =
  multi_batch :: bool
  batch :: nat
  rx_batch :: nat
  files :: "ustr \<rightharpoonup> outgoing"
  to_send :: "(outgoing \<times> nat) list"
  awaiting :: "ustr set"
  eob_started :: bool
  eob_sent :: bool
  rx_ended :: "nat set"
  moved :: "nat \<Rightarrow> nat"
  receiving :: bool
  since_hook :: "received list"
  wake :: bool
  over :: bool
  failure :: bool
  hung_up :: bool
  result_batches :: nat
  got :: "received list"
  sent :: "ustr list"
  received_bytes :: nat
  info_frames :: nat
  current :: "incoming option"
  sending :: sender
  reading :: receiver
  wire :: "byte list list"

section \<open>The methods of \<open>_Transfer\<close>\<close>

fun add_files :: "outgoing list \<Rightarrow> binkp \<Rightarrow> binkp" where
  "add_files [] s = s"
| "add_files (f # fs) s =
     (if files s (og_name f) \<noteq> None then add_files fs s
      else add_files fs (s\<lparr>files := (files s)(og_name f \<mapsto> f), to_send := to_send s @ [(f, 0)]\<rparr>))"

definition start_transfer :: "bool \<Rightarrow> outgoing list \<Rightarrow> binkp" where
  "start_transfer multi fs = add_files fs
     \<lparr>multi_batch = multi, batch = 1, rx_batch = 1, files = Map.empty, to_send = [], awaiting = {},
      eob_started = False, eob_sent = False, rx_ended = {}, moved = (\<lambda>_. 0), receiving = False,
      since_hook = [], wake = False, over = False, failure = False, hung_up = False, result_batches = 0,
      got = [], sent = [], received_bytes = 0, info_frames = 0, current = None, sending = Sending,
      reading = Reading, wire = []\<rparr>"

definition note_file :: "nat \<Rightarrow> binkp \<Rightarrow> binkp" where
  "note_file b s = s\<lparr>moved := (moved s)(b := moved s b + 1)\<rparr>"

definition remote_file_announced :: "binkp \<Rightarrow> binkp" where
  "remote_file_announced s =
     (let s = (if multi_batch s \<and> rx_batch s \<in> rx_ended s then s\<lparr>rx_batch := rx_batch s + 1\<rparr> else s)
      in note_file (rx_batch s) s)"

definition remote_end_of_batch :: "binkp \<Rightarrow> binkp" where
  "remote_end_of_batch s =
     (if rx_batch s \<in> rx_ended s then
        if \<not> multi_batch s then s
        else let s = s\<lparr>rx_batch := rx_batch s + 1\<rparr> in s\<lparr>rx_ended := insert (rx_batch s) (rx_ended s)\<rparr>
      else s\<lparr>rx_ended := insert (rx_batch s) (rx_ended s)\<rparr>)"

definition between_batches :: "binkp \<Rightarrow> bool" where
  "between_batches s \<longleftrightarrow> batch s > 1 \<and> awaiting s = {} \<and> to_send s = [] \<and> \<not> receiving s"

definition confirm :: "ustr \<Rightarrow> binkp \<Rightarrow> binkp" where
  "confirm name s =
     (if name \<in> awaiting s then s\<lparr>awaiting := awaiting s - {name}, sent := sent s @ [name]\<rparr> else s)"

definition skip_file :: "ustr \<Rightarrow> binkp \<Rightarrow> binkp" where
  "skip_file name s = s\<lparr>awaiting := awaiting s - {name}\<rparr>"

text \<open>\<open>None\<close> is the \<open>ValueError\<close> of \<open>int\<close>, which \<open>isdigit\<close> does not rule out.\<close>

definition resend :: "unitext \<Rightarrow> ustr \<Rightarrow> binkp \<Rightarrow> binkp option" where
  "resend T t s =
     (if eob_started s then Some s
      else
        case py_words (ut_space T) t of
          name # _ # _ # offset_text # _ \<Rightarrow>
            (case files s name of
               None \<Rightarrow> Some s
             | Some f \<Rightarrow>
                 if py_isdigit T offset_text then do {
                   offset \<leftarrow> py_int T offset_text;
                   Some (if offset \<le> length (og_data f)
                         then s\<lparr>to_send := (f, offset) # filter (\<lambda>(g, _). og_name g \<noteq> og_name f) (to_send s)\<rparr>
                         else s)
                 }
                 else Some s)
        | _ \<Rightarrow> Some s)"

definition check_done :: "binkp \<Rightarrow> binkp" where
  "check_done s =
     (if over s then s
      else if \<not> (eob_sent s \<and> batch s \<in> rx_ended s \<and> awaiting s = {} \<and> to_send s = []) then s
      else if receiving s \<and> rx_batch s = batch s then s
      else
        let b = batch s;
            s = s\<lparr>result_batches := b\<rparr>;
            another = multi_batch s \<and> (moved s b > 0 \<or> rx_batch s > b) in
        if \<not> another then s\<lparr>over := True, wake := True\<rparr>
        else if MAX_BATCHES \<le> b then s\<lparr>failure := True, over := True, wake := True\<rparr>
        else s\<lparr>batch := b + 1, eob_started := False, eob_sent := False, wake := True\<rparr>)"

section \<open>The sending task\<close>

definition file_line :: "nat \<Rightarrow> outgoing \<Rightarrow> nat \<Rightarrow> ustr" where
  "file_line now f offset =
     join_with [32] [og_name f, dec (length (og_data f)), dec (if og_mtime f = 0 then now else og_mtime f), dec offset]"

text \<open>\<open>_Session.send\<close> writes one frame; the sender goes on at \<open>next\<close> once it has drained.\<close>

definition sender_writes :: "nat option \<Rightarrow> byte list \<Rightarrow> sender \<Rightarrow> binkp \<Rightarrow> binkp" where
  "sender_writes command payload goes_on s =
     (case encode_frame command payload of
        None \<Rightarrow> s\<lparr>sending := Sender_Failed Value_Error\<rparr>
      | Some f \<Rightarrow> s\<lparr>wire := wire s @ [f], sending := goes_on\<rparr>)"

definition sender_step :: "bool \<Rightarrow> nat \<Rightarrow> binkp \<Rightarrow> binkp" where
  "sender_step hook now s =
     (case sending s of
        Sending \<Rightarrow>
          (case to_send s of
             [] \<Rightarrow> s\<lparr>eob_started := True, sending := Ending\<rparr>
           | (f, offset) # rest \<Rightarrow>
               note_file (batch s)
                 (s\<lparr>to_send := rest, awaiting := insert (og_name f) (awaiting s), sending := Announcing f offset\<rparr>))
      | Announcing f offset \<Rightarrow> sender_writes (Some M_FILE) (latin1 (file_line now f offset)) (Chunks f offset) s
      | Chunks f start \<Rightarrow>
          if start < length (og_data f)
          then sender_writes None (take MAX_FRAME (drop start (og_data f))) (Chunks f (start + MAX_FRAME)) s
          else s\<lparr>sending := Sending\<rparr>
      | Ending \<Rightarrow> sender_writes (Some M_EOB) [] Draining s
      | Draining \<Rightarrow> (check_done (s\<lparr>eob_sent := True\<rparr>))\<lparr>sending := Waiting\<rparr>
      | Waiting \<Rightarrow>
          if \<not> wake s then s
          else if over s then s\<lparr>wake := False, sending := Sender_Done\<rparr>
          else if hook then s\<lparr>wake := False, since_hook := [], sending := Asking\<rparr>
          else s\<lparr>wake := False, sending := Sending\<rparr>
      | _ \<Rightarrow> s)"

definition hook_answers :: "outgoing list \<Rightarrow> binkp \<Rightarrow> binkp" where
  "hook_answers fs s = (if sending s = Asking then (add_files fs s)\<lparr>sending := Sending\<rparr> else s)"

section \<open>The receiving task\<close>

definition fails :: "binkp_error \<Rightarrow> binkp \<Rightarrow> binkp" where
  "fails e s = s\<lparr>reading := Receiver_Failed e\<rparr>"

text \<open>The top of the loop.\<close>

definition read_on :: "binkp \<Rightarrow> binkp" where
  "read_on s = s\<lparr>reading := (if over s then Receiver_Done else Reading)\<rparr>"

definition finish_file :: "incoming \<Rightarrow> binkp \<Rightarrow> binkp" where
  "finish_file k s =
     (let r = \<lparr>rv_name = safe_file_name (in_name k), rv_data = in_data k\<rparr>
      in s\<lparr>got := got s @ [r], since_hook := since_hook s @ [r], receiving := False, reading := Confirming k False\<rparr>)"

definition begin_file :: "incoming \<Rightarrow> binkp \<Rightarrow> binkp" where
  "begin_file k s =
     (let s = s\<lparr>receiving := True\<rparr>
      in if in_size k = 0 then finish_file k s else read_on (check_done (s\<lparr>current := Some k\<rparr>)))"

definition start_file :: "unitext \<Rightarrow> ustr \<Rightarrow> binkp \<Rightarrow> binkp" where
  "start_file T t s =
     (case parse_file_line T t of
        None \<Rightarrow> fails Binkp_Error s
      | Some (name, sz, mtime, offset) \<Rightarrow>
          if sz < 0 \<or> int MAX_FILE_BYTES < sz then fails Binkp_Error s
          else if MAX_FILES \<le> length (got s) then fails Binkp_Error s
          else
            let k = \<lparr>in_name = name, in_size = nat sz, in_mtime = mtime, in_data = []\<rparr>
            in if offset \<noteq> 0 then s\<lparr>reading := Getting k False\<rparr> else begin_file k s)"

definition take_data :: "byte list \<Rightarrow> binkp \<Rightarrow> binkp" where
  "take_data d s =
     (case current s of
        None \<Rightarrow> fails Binkp_Error s
      | Some k \<Rightarrow>
          let k = k\<lparr>in_data := in_data k @ d\<rparr>;
              s = s\<lparr>current := Some k, received_bytes := received_bytes s + length d\<rparr> in
          if MAX_SESSION_BYTES < received_bytes s then fails Binkp_Error s
          else if in_size k < length (in_data k) then fails Binkp_Error s
          else if length (in_data k) = in_size k then finish_file k s
          else read_on s)"

definition take_command :: "unitext \<Rightarrow> nat \<Rightarrow> ustr \<Rightarrow> binkp \<Rightarrow> binkp" where
  "take_command T command t s =
     (if command = M_ERR \<or> command = M_BSY then fails Binkp_Error s
      else if command = M_FILE then
        (case current s of
           None \<Rightarrow> start_file T t (remote_file_announced s)
         | Some k \<Rightarrow>
             if in_data k = [] \<and> first_field t = in_name k then start_file T t s else fails Binkp_Error s)
      else if command = M_GOT then read_on (check_done (confirm (first_field t) s))
      else if command = M_SKIP then read_on (check_done (skip_file (first_field t) s))
      else if command = M_GET then
        (case resend T t s of None \<Rightarrow> fails Value_Error s | Some s \<Rightarrow> read_on (check_done s))
      else if command = M_NUL then
        let s = s\<lparr>info_frames := info_frames s + 1\<rparr>
        in if MAX_INFO_FRAMES < info_frames s then fails Binkp_Error s else read_on (check_done s)
      else if command = M_EOB then
        (if current s \<noteq> None then fails Binkp_Error s else read_on (check_done (remote_end_of_batch s)))
      else read_on (check_done s))"

definition take_frame :: "unitext \<Rightarrow> nat option \<times> byte list \<Rightarrow> binkp \<Rightarrow> binkp" where
  "take_frame T f s =
     (if reading s \<noteq> Reading then s
      else case f of (None, d) \<Rightarrow> take_data d s | (Some k, argument) \<Rightarrow> take_command T k (unlatin1 argument) s)"

definition receiver_writes :: "nat \<Rightarrow> ustr \<Rightarrow> receiver \<Rightarrow> binkp \<Rightarrow> binkp" where
  "receiver_writes command t goes_on s =
     (case encode_frame (Some command) (latin1 t) of
        None \<Rightarrow> fails Value_Error s
      | Some f \<Rightarrow> s\<lparr>wire := wire s @ [f], reading := goes_on\<rparr>)"

definition receiver_step :: "binkp \<Rightarrow> binkp" where
  "receiver_step s =
     (case reading s of
        Getting k False \<Rightarrow>
          receiver_writes M_GET (join_with [32] [in_name k, dec (in_size k), int_text (in_mtime k), dec 0])
            (Getting k True) s
      | Getting k True \<Rightarrow> begin_file k s
      | Confirming k False \<Rightarrow>
          receiver_writes M_GOT (join_with [32] [in_name k, dec (in_size k), int_text (in_mtime k)])
            (Confirming k True) s
      | Confirming k True \<Rightarrow> read_on (check_done (s\<lparr>current := None\<rparr>))
      | Reading \<Rightarrow> if over s then s\<lparr>reading := Receiver_Done\<rparr> else s
      | _ \<Rightarrow> s)"

text \<open>The remote hangs up while a frame is awaited.\<close>

definition remote_closes :: "binkp \<Rightarrow> binkp" where
  "remote_closes s =
     (if reading s \<noteq> Reading then s
      else if current s = None \<and> between_batches s
      then s\<lparr>hung_up := True, over := True, wake := True, reading := Receiver_Done\<rparr>
      else fails Remote_Closed s)"

section \<open>Runs and their end\<close>

text \<open>
  An event is one step of a task, an answer of the hook, a frame or the end of the stream, or an error of
  the connection in either task (also a timeout). Once the receiver has ended, the sender is cancelled.
\<close>

datatype event =
  Sender_Step nat | Hook_Answers "outgoing list" | Sender_Error binkp_error
| Frame "nat option \<times> byte list" | Closes | Receiver_Step | Receiver_Error binkp_error

definition ended :: "binkp \<Rightarrow> bool" where
  "ended s \<longleftrightarrow> (case reading s of Receiver_Done \<Rightarrow> True | Receiver_Failed _ \<Rightarrow> True | _ \<Rightarrow> False)"

definition step :: "unitext \<Rightarrow> bool \<Rightarrow> binkp \<Rightarrow> event \<Rightarrow> binkp" where
  "step T hook s e =
     (if ended s then s
      else case e of
        Sender_Step now \<Rightarrow> sender_step hook now s
      | Hook_Answers fs \<Rightarrow> hook_answers fs s
      | Sender_Error x \<Rightarrow> (if sending s = Sender_Done then s else s\<lparr>sending := Sender_Failed x\<rparr>)
      | Frame f \<Rightarrow> take_frame T f s
      | Closes \<Rightarrow> remote_closes s
      | Receiver_Step \<Rightarrow> receiver_step s
      | Receiver_Error x \<Rightarrow> fails x s)"

definition run :: "unitext \<Rightarrow> bool \<Rightarrow> binkp \<Rightarrow> event list \<Rightarrow> binkp" where
  "run T hook s es = foldl (step T hook) s es"

text \<open>\<open>transfer\<close>: \<open>None\<close> while it runs, then how it ends.\<close>

definition outcome :: "binkp \<Rightarrow> (binkp_error + unit) option" where
  "outcome s =
     (case reading s of
        Receiver_Failed e \<Rightarrow> Some (Inl e)
      | Receiver_Done \<Rightarrow> Some
          (case sending s of
             Sender_Failed e \<Rightarrow>
               if hung_up s \<and> e \<noteq> Value_Error then (if failure s then Inl Binkp_Error else Inr ()) else Inl e
           | _ \<Rightarrow> if failure s then Inl Binkp_Error else Inr ())
      | _ \<Rightarrow> None)"

text \<open>
  What the caller of \<open>run_session\<close> has in its hands afterwards: the result of a session that ended well, or
  the \<open>result\<close> of the \<open>BinkpError\<close>; any other exception passes without one.
\<close>

definition caller_result :: "binkp \<Rightarrow> (received list \<times> ustr list) option" where
  "caller_result s =
     (case outcome s of
        None \<Rightarrow> None
      | Some (Inl Value_Error) \<Rightarrow> None
      | Some _ \<Rightarrow> Some (got s, sent s))"

end
