(* ===== verification/Binkp_Safety.thy ===== *)
theory Binkp_Safety
  imports Binkp
begin

text \<open>
  What every interleaving of a BinkP transfer keeps (\<open>Binkp\<close>): the bounds on what a remote can make the
  node hold, and that a session that returns has delivered its files.
\<close>

section \<open>Bounds\<close>

definition safe_name :: "ustr \<Rightarrow> bool" where
  "safe_name n \<longleftrightarrow> n \<noteq> [] \<and> length n \<le> 64 \<and> list_all safe_char n \<and> hd n \<noteq> 46"

lemma safe_name_strip:
  assumes "\<forall>c\<in>set t. safe_char c" "length t \<le> 64" "dropWhile P t \<noteq> []" "P 46"
  shows "safe_name (dropWhile P t)"
  unfolding safe_name_def list_all_iff
proof (intro conjI ballI)
  show "length (dropWhile P t) \<le> 64" using assms(2) length_dropWhile_le [of P t] by linarith
  show "safe_char c" if "c \<in> set (dropWhile P t)" for c using that assms(1) set_dropWhileD by fast
  show "hd (dropWhile P t) \<noteq> 46" using hd_dropWhile [OF assms(3)] assms(4) by auto
qed (rule assms(3))

lemma safe_file_name_safe: "safe_name (safe_file_name n)"
proof -
  define t where "t = take 64 (map (\<lambda>c. if safe_char c then c else 95)
    (last (split_on 47 (map (\<lambda>c. if c = 92 then 47 else c) n))))"
  have "safe_char (95::nat)" by (simp add: safe_char_def)
  then have t: "\<forall>c\<in>set t. safe_char c" "length t \<le> 64" by (auto simp: t_def dest!: in_set_takeD)
  have "safe_file_name n = (if dropWhile (\<lambda>c. c = 46) t = [] then u ''unnamed'' else dropWhile (\<lambda>c. c = 46) t)"
    unfolding safe_file_name_def Let_def t_def ..
  moreover have "safe_name (u ''unnamed'')" by (simp add: safe_name_def safe_char_def is_digit_def)
  ultimately show ?thesis using safe_name_strip [OF t] by presburger
qed

definition bytes_held :: "binkp \<Rightarrow> nat" where
  "bytes_held s = sum_list (map (\<lambda>r. length (rv_data r)) (got s))"

definition bounded :: "binkp \<Rightarrow> bool" where
  "bounded s \<longleftrightarrow> length (got s) \<le> MAX_FILES \<and> bytes_held s \<le> MAX_SESSION_BYTES \<and>
     (\<forall>r\<in>set (got s). safe_name (rv_name r) \<and> length (rv_data r) \<le> MAX_FILE_BYTES)"

text \<open>The file that is arriving.\<close>

definition arriving_ok :: "incoming \<Rightarrow> binkp \<Rightarrow> bool" where
  "arriving_ok k s \<longleftrightarrow> in_size k \<le> MAX_FILE_BYTES \<and> length (in_data k) \<le> in_size k \<and>
     length (got s) < MAX_FILES \<and> bytes_held s + length (in_data k) \<le> received_bytes s"

definition accounted :: "binkp \<Rightarrow> bool" where
  "accounted s \<longleftrightarrow> bounded s \<and>
     (case reading s of
        Reading \<Rightarrow> bytes_held s \<le> received_bytes s \<and> received_bytes s \<le> MAX_SESSION_BYTES
          \<and> (case current s of None \<Rightarrow> True | Some k \<Rightarrow> arriving_ok k s)
      | Getting k _ \<Rightarrow> received_bytes s \<le> MAX_SESSION_BYTES \<and> arriving_ok k s
      | Confirming k _ \<Rightarrow> bytes_held s \<le> received_bytes s \<and> received_bytes s \<le> MAX_SESSION_BYTES
      | _ \<Rightarrow> True)"

lemma reading_irrelevant [simp]:
  "bytes_held (s\<lparr>reading := r\<rparr>) = bytes_held s" "bounded (s\<lparr>reading := r\<rparr>) = bounded s"
  "arriving_ok k (s\<lparr>reading := r\<rparr>) = arriving_ok k s"
  by (simp_all add: bytes_held_def bounded_def arriving_ok_def)

text \<open>Most operations change none of the fields these speak about.\<close>

definition same_receipt :: "binkp \<Rightarrow> binkp \<Rightarrow> bool" where
  "same_receipt s s' \<longleftrightarrow> got s' = got s \<and> received_bytes s' = received_bytes s \<and> current s' = current s \<and>
     reading s' = reading s"

named_theorems receipt "operations that leave what is received alone"

lemma same_receipt_ok: "same_receipt s s' \<Longrightarrow> accounted s' = accounted s"
  by (simp add: same_receipt_def accounted_def bounded_def bytes_held_def arriving_ok_def split: receiver.splits option.splits)

lemma same_receipt_refl [receipt]: "same_receipt s s" by (simp add: same_receipt_def)

lemma add_files_receipt [receipt]: "same_receipt s (add_files fs s)"
  by (induction fs s rule: add_files.induct) (auto simp: same_receipt_def)

lemma note_file_receipt [receipt]: "same_receipt s (note_file b s)"
  by (simp add: same_receipt_def note_file_def)

lemma announced_receipt [receipt]: "same_receipt s (remote_file_announced s)"
  by (simp add: same_receipt_def remote_file_announced_def note_file_def Let_def)

lemma end_of_batch_receipt [receipt]: "same_receipt s (remote_end_of_batch s)"
  by (simp add: same_receipt_def remote_end_of_batch_def Let_def)

lemma confirm_receipt [receipt]: "same_receipt s (confirm n s)" "same_receipt s (skip_file n s)"
  by (simp_all add: same_receipt_def confirm_def skip_file_def)

lemma check_done_receipt [receipt]: "same_receipt s (check_done s)"
  by (simp add: same_receipt_def check_done_def Let_def)

lemma resend_receipt [receipt]: "resend T t s = Some s' \<Longrightarrow> same_receipt s s'"
  by (auto simp: resend_def same_receipt_def split: if_splits list.splits option.splits bind_splits)

lemma sender_step_receipt [receipt]: "same_receipt s (sender_step hook now s)"
  using check_done_receipt [of "s\<lparr>eob_sent := True\<rparr>"]
  by (auto simp: sender_step_def same_receipt_def sender_writes_def note_file_def
      split: sender.splits list.splits option.splits)

lemma hook_answers_receipt [receipt]: "same_receipt s (hook_answers fs s)"
  using add_files_receipt [of s fs] by (auto simp: hook_answers_def same_receipt_def)

lemma accounted_start: "accounted (start_transfer multi fs)"
  unfolding start_transfer_def
  by (subst same_receipt_ok [OF add_files_receipt]) (simp add: accounted_def bounded_def bytes_held_def)

lemma fails_accounted [simp]: "accounted (fails e s) = bounded s"
  by (simp add: accounted_def fails_def bounded_def bytes_held_def)

lemma accounted_bounded: "accounted s \<Longrightarrow> bounded s" by (simp add: accounted_def)

lemma read_on_accounted:
  "accounted (read_on (check_done s)) = accounted (s\<lparr>reading := if over (check_done s) then Receiver_Done else Reading\<rparr>)"
  using check_done_receipt [of s]
  by (simp add: same_receipt_def read_on_def accounted_def bounded_def bytes_held_def arriving_ok_def split: option.split)

lemma reading_accounted: "accounted s \<Longrightarrow> reading s = Reading \<Longrightarrow> accounted (read_on (check_done s))"
  unfolding read_on_accounted by (auto simp: accounted_def split: option.splits)

lemma finish_file_accounted:
  assumes "bounded s" "arriving_ok k s" "received_bytes s \<le> MAX_SESSION_BYTES"
  shows "accounted (finish_file k s)"
  using assms safe_file_name_safe
  by (auto simp: finish_file_def accounted_def bounded_def bytes_held_def arriving_ok_def Let_def)

lemma begin_file_accounted:
  assumes "bounded s" "arriving_ok k s" "received_bytes s \<le> MAX_SESSION_BYTES"
  shows "accounted (begin_file k s)"
proof (cases "in_size k = 0")
  case True
  moreover have "accounted (finish_file k (s\<lparr>receiving := True\<rparr>))"
    using assms by (intro finish_file_accounted) (simp_all add: bounded_def bytes_held_def arriving_ok_def)
  ultimately show ?thesis by (simp add: begin_file_def)
next
  case False
  moreover have "accounted (read_on (check_done (s\<lparr>receiving := True, current := Some k\<rparr>)))"
    unfolding read_on_accounted using assms by (simp add: accounted_def bounded_def bytes_held_def arriving_ok_def)
  ultimately show ?thesis by (simp add: begin_file_def)
qed

lemma start_file_accounted:
  assumes "bounded s" "bytes_held s \<le> received_bytes s" "received_bytes s \<le> MAX_SESSION_BYTES"
  shows "accounted (start_file T t s)"
proof (cases "parse_file_line T t")
  case (Some line)
  obtain name sz mtime offset where line: "line = (name, sz, mtime, offset)" by (cases line) auto
  define k where "k = \<lparr>in_name = name, in_size = nat sz, in_mtime = mtime, in_data = []\<rparr>"
  show ?thesis
  proof (cases "(sz < 0 \<or> int MAX_FILE_BYTES < sz) \<or> MAX_FILES \<le> length (got s)")
    case True
    then show ?thesis using assms Some line by (auto simp: start_file_def)
  next
    case False
    then have "arriving_ok k s" using assms by (auto simp: k_def arriving_ok_def)
    then show ?thesis
      using assms Some line False begin_file_accounted [of s k]
      by (auto simp: start_file_def k_def [symmetric] accounted_def bounded_def bytes_held_def arriving_ok_def)
  qed
qed (use assms in \<open>simp add: start_file_def\<close>)

lemma take_data_accounted:
  assumes acc: "accounted s" and rd: "reading s = Reading"
  shows "accounted (take_data d s)"
proof (cases "current s")
  case (Some k)
  define k' where "k' = k\<lparr>in_data := in_data k @ d\<rparr>"
  define s' where "s' = s\<lparr>current := Some k', received_bytes := received_bytes s + length d\<rparr>"
  have b: "bounded s'" using acc by (simp add: accounted_def bounded_def bytes_held_def s'_def)
  have ok: "length (in_data k') \<le> in_size k' \<Longrightarrow> arriving_ok k' s'"
    using acc rd Some by (auto simp: accounted_def arriving_ok_def k'_def s'_def bytes_held_def)
  have le: "bytes_held s' \<le> received_bytes s'" using acc rd by (auto simp: accounted_def s'_def bytes_held_def)
  have "take_data d s =
     (if MAX_SESSION_BYTES < received_bytes s' then fails Binkp_Error s'
      else if in_size k' < length (in_data k') then fails Binkp_Error s'
      else if length (in_data k') = in_size k' then finish_file k' s'
      else read_on s')"
    using Some by (simp add: take_data_def k'_def s'_def Let_def)
  moreover have "length (in_data k') \<le> in_size k' \<Longrightarrow> received_bytes s' \<le> MAX_SESSION_BYTES \<Longrightarrow> accounted (read_on s')"
    using b ok le by (auto simp: read_on_def accounted_def bounded_def bytes_held_def arriving_ok_def s'_def)
  ultimately show ?thesis
    using b ok finish_file_accounted [of s' k'] by simp
qed (use acc in \<open>simp add: take_data_def accounted_bounded\<close>)

lemma take_command_accounted:
  assumes acc: "accounted s" and rd: "reading s = Reading"
  shows "accounted (take_command T c t s)"
proof -
  have b: "bounded s" using acc by (rule accounted_bounded)
  have h: "bytes_held s \<le> received_bytes s" "received_bytes s \<le> MAX_SESSION_BYTES"
    using acc rd by (simp_all add: accounted_def)
  have s': "accounted (read_on (check_done s'))" if "same_receipt s s'" for s'
    using that acc rd same_receipt_ok [OF that] by (intro reading_accounted) (simp_all add: same_receipt_def)
  have an: "bounded (remote_file_announced s)" "bytes_held (remote_file_announced s) \<le> received_bytes (remote_file_announced s)"
    "received_bytes (remote_file_announced s) \<le> MAX_SESSION_BYTES"
    using announced_receipt [of s] b h by (simp_all add: same_receipt_def bounded_def bytes_held_def)
  have nul: "same_receipt s (s\<lparr>info_frames := n\<rparr>)" for n by (simp add: same_receipt_def)
  have nb: "bounded (s\<lparr>info_frames := n\<rparr>)" for n using b by (simp add: bounded_def bytes_held_def)
  have fresh: "accounted (start_file T t (remote_file_announced s))" by (rule start_file_accounted [OF an])
  have again: "accounted (start_file T t s)" by (rule start_file_accounted [OF b h])
  have get: "accounted (read_on (check_done s'))" if "resend T t s = Some s'" for s'
    using that by (intro s' resend_receipt)
  note ends = s' [OF end_of_batch_receipt] s' [OF confirm_receipt(1)] s' [OF confirm_receipt(2)] s' [OF nul]
    s' [OF same_receipt_refl]
  show ?thesis
    unfolding take_command_def Let_def
    using b nb fresh again get ends by (simp split: option.split)
qed

lemma accounted_step:
  assumes "accounted s" shows "accounted (step T hook s e)"
proof (cases "ended s")
  case False
  have b: "bounded s" using assms by (rule accounted_bounded)
  show ?thesis
  proof (cases e)
    case (Frame f)
    then show ?thesis
      using assms False take_data_accounted take_command_accounted
      by (auto simp: step_def take_frame_def split: prod.splits option.splits)
  next
    case Closes
    then show ?thesis using assms b False
      by (auto simp: step_def remote_closes_def accounted_def bounded_def bytes_held_def fails_def)
  next
    case Receiver_Step
    have "accounted (read_on (check_done (s\<lparr>current := None\<rparr>)))" if "reading s = Confirming k b" for k b
      unfolding read_on_accounted using assms that by (simp add: accounted_def bounded_def bytes_held_def)
    moreover have "accounted (begin_file k s)" if "reading s = Getting k b" for k b
      using assms that by (intro begin_file_accounted) (simp_all add: accounted_def)
    moreover have "accounted (receiver_writes c t r s)"
      if "reading s = Getting k False \<and> r = Getting k True \<or> reading s = Confirming k False \<and> r = Confirming k True" for k c t r
      using assms that by (auto simp: receiver_writes_def accounted_def bounded_def bytes_held_def arriving_ok_def fails_def split: option.splits)
    moreover have "accounted (s\<lparr>reading := Receiver_Done\<rparr>)" using b by (simp add: accounted_def bounded_def bytes_held_def)
    ultimately have "accounted (receiver_step s)"
      using assms unfolding receiver_step_def by (simp split: receiver.split bool.split)
    then show ?thesis using Receiver_Step False by (simp add: step_def)
  next
    case (Sender_Error x)
    then show ?thesis using assms False same_receipt_ok [of s "s\<lparr>sending := Sender_Failed x\<rparr>"]
      by (simp add: step_def same_receipt_def)
  next
    case (Receiver_Error x)
    then show ?thesis using b False by (simp add: step_def)
  qed (use assms False same_receipt_ok [OF sender_step_receipt] same_receipt_ok [OF hook_answers_receipt]
      in \<open>simp_all add: step_def\<close>)
qed (use assms in \<open>simp add: step_def\<close>)

lemma accounted_run: "accounted s \<Longrightarrow> accounted (run T hook s es)"
  by (induction es arbitrary: s) (simp_all add: run_def accounted_step)

text \<open>
  C14: whatever a remote sends and however the two tasks interleave, a BinkP session holds at most 512
  received files of at most 64 MB each and 256 MB together, and every file is named by a base name of
  1 to 64 safe characters that does not start with a dot.
\<close>

theorem binkp_receipt_bounded:
  "length (got (run T hook (start_transfer multi fs) es)) \<le> 512 \<and>
   sum_list (map (\<lambda>r. length (rv_data r)) (got (run T hook (start_transfer multi fs) es))) \<le> 268435456 \<and>
   list_all (\<lambda>r. length (rv_data r) \<le> 67108864 \<and> safe_name (rv_name r)) (got (run T hook (start_transfer multi fs) es))"
  using accounted_bounded [OF accounted_run [OF accounted_start]]
  by (fastforce simp: bounded_def bytes_held_def MAX_FILES_def MAX_FILE_BYTES_def MAX_SESSION_BYTES_def list_all_iff)


section \<open>Delivery\<close>

text \<open>Every file to send is queued, on its way, confirmed, or in \<open>K\<close>, the names the remote skipped.\<close>

definition names_ok :: "ustr set \<Rightarrow> binkp \<Rightarrow> bool" where
  "names_ok K s \<longleftrightarrow>
     (\<forall>n f. files s n = Some f \<longrightarrow> og_name f = n) \<and>
     (\<forall>p\<in>set (to_send s). files s (og_name (fst p)) = Some (fst p)) \<and>
     awaiting s \<subseteq> dom (files s) \<and> set (sent s) \<subseteq> dom (files s) \<and>
     dom (files s) \<subseteq> (og_name \<circ> fst) ` set (to_send s) \<union> awaiting s \<union> set (sent s) \<union> K"

definition same_names :: "binkp \<Rightarrow> binkp \<Rightarrow> bool" where
  "same_names s s' \<longleftrightarrow> files s' = files s \<and> to_send s' = to_send s \<and> awaiting s' = awaiting s \<and> sent s' = sent s"

lemma same_names_ok: "same_names s s' \<Longrightarrow> names_ok K s' = names_ok K s"
  by (simp add: same_names_def names_ok_def)

lemma names_ok_more: "names_ok K s \<Longrightarrow> K \<subseteq> K' \<Longrightarrow> names_ok K' s"
  by (auto simp: names_ok_def)

lemma add_files_names: "names_ok K s \<Longrightarrow> names_ok K (add_files fs s)"
proof (induction fs s rule: add_files.induct)
  case (2 f fs s)
  show ?case
  proof (cases "files s (og_name f)")
    case None
    have "names_ok K (s\<lparr>files := (files s)(og_name f \<mapsto> f), to_send := to_send s @ [(f, 0)]\<rparr>)"
      using 2(3) None by (auto simp: names_ok_def image_Un)
    then show ?thesis using 2(2) None by simp
  next
    case (Some g)
    then show ?thesis using 2 by simp
  qed
qed simp

lemma confirm_names: "names_ok K s \<Longrightarrow> names_ok K (confirm n s)"
  by (auto simp: names_ok_def confirm_def)

lemma skip_names: "names_ok K s \<Longrightarrow> names_ok (insert n K) (skip_file n s)"
  by (auto simp: names_ok_def skip_file_def)

lemma resend_cases:
  assumes "resend T t s = Some s'"
  obtains "s' = s"
  | n f off where "\<not> eob_started s" "files s n = Some f"
      "s' = s\<lparr>to_send := (f, off) # filter (\<lambda>(g, _). og_name g \<noteq> og_name f) (to_send s)\<rparr>"
proof (cases "s' = s")
  case False
  have e: "\<not> eob_started s" using assms False by (simp add: resend_def split: if_splits)
  obtain n a b x r where w: "py_words (ut_space T) t = n # a # b # x # r"
    using assms False e by (simp add: resend_def split: list.splits)
  obtain f where f: "files s n = Some f" using assms False e w by (simp add: resend_def split: option.splits)
  obtain off where "py_int T x = Some off" "off \<le> length (og_data f)"
      "s' = s\<lparr>to_send := (f, off) # filter (\<lambda>(g, _). og_name g \<noteq> og_name f) (to_send s)\<rparr>"
    using assms False e w f by (simp add: resend_def split: if_splits bind_splits)
  then show ?thesis using that(2) [OF e f] by blast
qed (rule that(1))

lemma resend_names:
  assumes "resend T t s = Some s'" "names_ok K s" shows "names_ok K s'"
  using assms(1)
proof (cases rule: resend_cases)
  case (2 n f off)
  have ff: "files s (og_name f) = Some f" using assms(2) 2(2) unfolding names_ok_def by metis
  have im: "(og_name \<circ> fst) ` set (to_send s) \<subseteq> (og_name \<circ> fst) ` set (to_send s')"
    by (auto simp: 2(3) image_iff)
  have sub: "set (to_send s') \<subseteq> insert (f, off) (set (to_send s))" by (auto simp: 2(3))
  have same: "files s' = files s" "awaiting s' = awaiting s" "sent s' = sent s" by (simp_all add: 2(3))
  have old: "\<forall>n f. files s n = Some f \<longrightarrow> og_name f = n"
      "\<forall>p\<in>set (to_send s). files s (og_name (fst p)) = Some (fst p)"
      "awaiting s \<subseteq> dom (files s)" "set (sent s) \<subseteq> dom (files s)"
      "dom (files s) \<subseteq> (og_name \<circ> fst) ` set (to_send s) \<union> awaiting s \<union> set (sent s) \<union> K"
    using assms(2) unfolding names_ok_def by blast+
  have "dom (files s) \<subseteq> (og_name \<circ> fst) ` set (to_send s') \<union> awaiting s \<union> set (sent s) \<union> K"
    using old(5) im by (meson Un_mono order_refl order_trans)
  moreover have "\<forall>p\<in>set (to_send s'). files s (og_name (fst p)) = Some (fst p)"
    using old(2) sub ff by (metis fst_conv insertE subsetD)
  ultimately show ?thesis unfolding names_ok_def same using old(1,3,4) by blast
qed (use assms in simp)

lemma check_done_names [simp]: "names_ok K (check_done s) = names_ok K s"
  by (rule same_names_ok) (simp add: same_names_def check_done_def Let_def)

lemma pop_names:
  assumes "names_ok K s" "to_send s = (f, off) # rest"
  shows "names_ok K (note_file b (s\<lparr>to_send := rest, awaiting := insert (og_name f) (awaiting s), sending := x\<rparr>))"
  using assms by (auto simp: names_ok_def note_file_def)

lemma sender_step_names: "names_ok K s \<Longrightarrow> names_ok K (sender_step hook now s)"
proof (cases "sending s = Sending \<and> to_send s \<noteq> []")
  case True
  assume "names_ok K s"
  then show ?thesis using True pop_names by (cases "to_send s") (auto simp: sender_step_def)
next
  case False
  have "same_names (s\<lparr>eob_sent := True\<rparr>) (check_done (s\<lparr>eob_sent := True\<rparr>))"
    by (simp add: same_names_def check_done_def Let_def)
  then have "same_names s (sender_step hook now s)"
    using False by (auto simp: sender_step_def sender_writes_def same_names_def split: sender.split list.split option.split)
  then show "names_ok K s \<Longrightarrow> names_ok K (sender_step hook now s)" by (simp add: same_names_ok)
qed

subsection \<open>Control\<close>

definition control_ok :: "binkp \<Rightarrow> bool" where
  "control_ok s \<longleftrightarrow>
     (case sending s of
        Waiting \<Rightarrow>
          if over s then wake s \<and> eob_started s \<and> eob_sent s
          else if wake s then \<not> eob_started s \<and> \<not> eob_sent s
          else eob_started s \<and> eob_sent s
      | Ending \<Rightarrow> eob_started s \<and> \<not> eob_sent s \<and> \<not> wake s \<and> \<not> over s
      | Draining \<Rightarrow> eob_started s \<and> \<not> eob_sent s \<and> \<not> wake s \<and> \<not> over s
      | Sender_Done \<Rightarrow> over s \<and> eob_started s \<and> eob_sent s
      | Sender_Failed _ \<Rightarrow> (eob_sent s \<longrightarrow> eob_started s) \<and> (over s \<longrightarrow> eob_sent s)
      | _ \<Rightarrow> \<not> eob_started s \<and> \<not> eob_sent s \<and> \<not> wake s \<and> \<not> over s)"

text \<open>This side's batch is over.\<close>

definition complete :: "binkp \<Rightarrow> bool" where
  "complete s \<longleftrightarrow> eob_sent s \<and> batch s \<in> rx_ended s \<and> awaiting s = {} \<and> to_send s = []
     \<and> \<not> (receiving s \<and> rx_batch s = batch s)"

definition flow_ok :: "binkp \<Rightarrow> bool" where
  "flow_ok s \<longleftrightarrow> (eob_started s \<longrightarrow> to_send s = []) \<and> (over s \<longrightarrow> awaiting s = {} \<and> to_send s = []) \<and>
     (if hung_up s then reading s = Receiver_Done else control_ok s \<and> (over s \<longrightarrow> batch s \<in> rx_ended s))"

lemma check_done_complete: "complete (check_done s) \<Longrightarrow> over (check_done s)"
  by (auto simp: check_done_def complete_def Let_def split: if_splits)

lemma check_done_cases:
  obtains "check_done s = s"
  | x where "\<not> over s" "complete s"
      "check_done s = s\<lparr>result_batches := batch s, failure := x, over := True, wake := True\<rparr>"
  | "\<not> over s" "complete s"
      "check_done s = s\<lparr>result_batches := batch s, batch := batch s + 1, eob_started := False, eob_sent := False, wake := True\<rparr>"
proof (cases "over s \<or> \<not> complete s")
  case True
  then have "check_done s = s" by (auto simp: check_done_def complete_def)
  then show ?thesis by (rule that(1))
next
  case False
  then have c: "\<not> over s" "complete s" by simp_all
  have same: "s\<lparr>result_batches := b, over := True, wake := True\<rparr> =
      s\<lparr>result_batches := b, failure := failure s, over := True, wake := True\<rparr>" for b by (cases s) simp
  have "check_done s = s\<lparr>result_batches := batch s, over := True, wake := True\<rparr> \<or>
      check_done s = s\<lparr>result_batches := batch s, failure := True, over := True, wake := True\<rparr> \<or>
      check_done s = s\<lparr>result_batches := batch s, batch := batch s + 1, eob_started := False, eob_sent := False, wake := True\<rparr>"
    using c by (auto simp: check_done_def complete_def Let_def)
  then show ?thesis unfolding same using that(2,3) c by blast
qed

lemma check_done_flow:
  assumes "flow_ok s" "\<not> hung_up s" shows "flow_ok (check_done s)"
proof -
  have rest: "(sending s = Waiting \<and> eob_started s \<and> \<not> wake s) \<or> (\<exists>e. sending s = Sender_Failed e \<and> eob_started s)"
    if "\<not> over s" "complete s"
  proof -
    have "control_ok s" "eob_sent s" using assms that by (simp_all add: flow_ok_def complete_def)
    then show ?thesis using that(1) by (cases "sending s") (simp_all add: control_ok_def split: if_split_asm)
  qed
  show ?thesis
  proof (cases s rule: check_done_cases)
    case (2 x)
    show ?thesis unfolding 2(3) using rest [OF 2(1,2)] 2(2) assms
      by (auto simp: flow_ok_def control_ok_def complete_def)
  next
    case 3
    show ?thesis unfolding 3(3) using rest [OF 3(1,2)] 3(1,2) assms
      by (auto simp: flow_ok_def control_ok_def complete_def)
  qed (use assms in simp)
qed


text \<open>What the receiver does leaves the flow alone, or lets it advance.\<close>

definition flows_to :: "binkp \<Rightarrow> binkp \<Rightarrow> bool" where
  "flows_to s s' \<longleftrightarrow> eob_started s' = eob_started s \<and> eob_sent s' = eob_sent s \<and> to_send s' = to_send s \<and>
     over s' = over s \<and> wake s' = wake s \<and> hung_up s' = hung_up s \<and> sending s' = sending s \<and> batch s' = batch s \<and>
     awaiting s' \<subseteq> awaiting s \<and> rx_ended s \<subseteq> rx_ended s'"

lemma flows_to_ok: "flows_to s s' \<Longrightarrow> flow_ok s \<Longrightarrow> \<not> hung_up s \<Longrightarrow> flow_ok s' \<and> \<not> hung_up s'"
  by (auto simp: flows_to_def flow_ok_def control_ok_def split: sender.splits)

lemma resend_flow:
  assumes "resend T t s = Some s'" "flow_ok s" "\<not> hung_up s" shows "flow_ok s' \<and> \<not> hung_up s'"
  using assms(1)
proof (cases rule: resend_cases)
  case (2 n f off)
  then have "\<not> over s" using assms(2,3) by (cases "sending s") (auto simp: flow_ok_def control_ok_def split: if_splits)
  then show ?thesis using 2 assms(2,3) by (cases "wake s") (simp_all add: flow_ok_def control_ok_def split: sender.splits)
qed (use assms in simp)

definition orderly :: "ustr set \<Rightarrow> binkp \<Rightarrow> bool" where
  "orderly K s \<longleftrightarrow> names_ok K s \<and> flow_ok s \<and> (reading s = Reading \<and> complete s \<longrightarrow> over s) \<and>
     (reading s = Receiver_Done \<longrightarrow> over s)"

lemma check_done_hung [simp]: "hung_up (check_done s) = hung_up s"
  by (simp add: check_done_def Let_def)

lemma orderly_read_on:
  assumes "names_ok K s" "flow_ok s" "\<not> hung_up s"
  shows "orderly K (read_on (check_done s))"
proof -
  let ?s = "check_done s"
  have "flow_ok ?s" "names_ok K ?s" "complete ?s \<Longrightarrow> over ?s" "\<not> hung_up ?s"
    using assms check_done_flow check_done_complete by simp_all
  then show ?thesis
    using flows_to_ok [of ?s "read_on ?s"] same_names_ok [of ?s "read_on ?s"]
    by (simp add: orderly_def read_on_def flows_to_def same_names_def complete_def)
qed

lemma orderly_away:
  assumes "names_ok K s" "flow_ok s" "\<not> hung_up s" "r \<noteq> Reading" "r \<noteq> Receiver_Done \<or> over s"
  shows "orderly K (s\<lparr>reading := r\<rparr>)"
  using assms flows_to_ok [of s "s\<lparr>reading := r\<rparr>"] same_names_ok [of s "s\<lparr>reading := r\<rparr>"]
  by (simp add: orderly_def flows_to_def same_names_def)

lemma receiver_fields [simp]:
  "flow_ok s \<Longrightarrow> \<not> hung_up s \<Longrightarrow> flow_ok (s\<lparr>receiving := b\<rparr>)"
  "flow_ok s \<Longrightarrow> \<not> hung_up s \<Longrightarrow> flow_ok (s\<lparr>current := c\<rparr>)"
  "flow_ok s \<Longrightarrow> \<not> hung_up s \<Longrightarrow> flow_ok (s\<lparr>info_frames := n\<rparr>)"
  "flow_ok s \<Longrightarrow> \<not> hung_up s \<Longrightarrow> flow_ok (s\<lparr>current := c, received_bytes := n\<rparr>)"
  "flow_ok s \<Longrightarrow> \<not> hung_up s \<Longrightarrow> flow_ok (s\<lparr>wire := w\<rparr>)"
  "names_ok K (s\<lparr>receiving := b\<rparr>) = names_ok K s"
  "names_ok K (s\<lparr>current := c\<rparr>) = names_ok K s"
  "names_ok K (s\<lparr>info_frames := n\<rparr>) = names_ok K s"
  "names_ok K (s\<lparr>current := c, received_bytes := n\<rparr>) = names_ok K s"
  "names_ok K (s\<lparr>wire := w\<rparr>) = names_ok K s"
  using flows_to_ok [of s "s\<lparr>receiving := b\<rparr>"] flows_to_ok [of s "s\<lparr>current := c\<rparr>"]
    flows_to_ok [of s "s\<lparr>info_frames := n\<rparr>"] flows_to_ok [of s "s\<lparr>current := c, received_bytes := n\<rparr>"]
    flows_to_ok [of s "s\<lparr>wire := w\<rparr>"]
  by (simp_all add: flows_to_def names_ok_def)

lemma orderly_fails: "names_ok K s \<Longrightarrow> flow_ok s \<Longrightarrow> \<not> hung_up s \<Longrightarrow> orderly K (fails e s)"
  unfolding fails_def by (rule orderly_away) simp_all

lemma orderly_finish:
  assumes "names_ok K s" "flow_ok s" "\<not> hung_up s" shows "orderly K (finish_file k s)"
  using assms flows_to_ok [of s "finish_file k s"] same_names_ok [of s "finish_file k s"]
  by (simp add: finish_file_def Let_def orderly_def flows_to_def same_names_def)

lemma orderly_begin:
  assumes "names_ok K s" "flow_ok s" "\<not> hung_up s" shows "orderly K (begin_file k s)"
  using assms by (auto simp: begin_file_def Let_def intro!: orderly_finish orderly_read_on)

lemma orderly_start:
  assumes "names_ok K s" "flow_ok s" "\<not> hung_up s" shows "orderly K (start_file T t s)"
  using assms by (auto simp: start_file_def Let_def intro!: orderly_fails orderly_begin orderly_away split: option.split)

lemma announced_flow:
  assumes "names_ok K s" "flow_ok s" "\<not> hung_up s"
  shows "names_ok K (remote_file_announced s)" "flow_ok (remote_file_announced s)" "\<not> hung_up (remote_file_announced s)"
proof -
  have "flows_to s (remote_file_announced s)" "same_names s (remote_file_announced s)"
    by (simp_all add: flows_to_def same_names_def remote_file_announced_def note_file_def Let_def)
  then show "names_ok K (remote_file_announced s)" "flow_ok (remote_file_announced s)" "\<not> hung_up (remote_file_announced s)"
    using assms flows_to_ok same_names_ok by blast+
qed

lemma orderly_advance:
  assumes "flows_to s s'" "names_ok K s'" "flow_ok s" "\<not> hung_up s"
  shows "orderly K (read_on (check_done s'))"
  using flows_to_ok [OF assms(1,3,4)] orderly_read_on [OF assms(2)] by simp

definition skips :: "event \<Rightarrow> ustr set" where
  "skips e = (case e of Frame (Some k, a) \<Rightarrow> if k = M_SKIP then {first_field (unlatin1 a)} else {} | _ \<Rightarrow> {})"

lemma take_command_orderly:
  assumes n: "names_ok K s" and f: "flow_ok s" "\<not> hung_up s"
  shows "orderly (if c = M_SKIP then insert (first_field t) K else K) (take_command T c t s)"
proof -
  have skip_file: "orderly (insert (first_field t) K) (read_on (check_done (skip_file (first_field t) s)))"
    by (rule orderly_advance [OF _ skip_names [OF n] f]) (auto simp: flows_to_def skip_file_def)
  have confirm: "orderly K (read_on (check_done (confirm (first_field t) s)))"
    by (rule orderly_advance [OF _ confirm_names [OF n] f]) (auto simp: flows_to_def confirm_def)
  have eob: "orderly K (read_on (check_done (remote_end_of_batch s)))"
    using n same_names_ok [of s "remote_end_of_batch s"]
    by (intro orderly_advance [OF _ _ f])
       (auto simp: flows_to_def same_names_def remote_end_of_batch_def Let_def)
  have get: "orderly K (read_on (check_done s'))" if "resend T t s = Some s'" for s'
    using that resend_names [OF that n] resend_flow [OF that f] orderly_read_on by blast
  have nul: "orderly K (read_on (check_done (s\<lparr>info_frames := x\<rparr>)))" "orderly K (fails e (s\<lparr>info_frames := x\<rparr>))" for x e
    using n f by (auto intro!: orderly_read_on orderly_fails)
  note announced = orderly_start [OF announced_flow [OF n f]] orderly_start [OF n f]
  show ?thesis
    unfolding take_command_def Let_def
    using skip_file confirm eob get nul announced orderly_fails [OF n f] orderly_read_on [OF n f]
    by (simp split: option.split)
qed

lemma take_data_orderly:
  assumes o: "orderly K s" and r: "reading s = Reading" "\<not> hung_up s"
  shows "orderly K (take_data d s)"
proof (cases "current s")
  case None
  then show ?thesis using o r orderly_fails [of K s] by (simp add: take_data_def orderly_def)
next
  case (Some k)
  define s' where "s' = s\<lparr>current := Some (k\<lparr>in_data := in_data k @ d\<rparr>), received_bytes := received_bytes s + length d\<rparr>"
  have s': "names_ok K s'" "flow_ok s'" "\<not> hung_up s'" using assms by (simp_all add: orderly_def s'_def)
  have "complete s' = complete s" "over s' = over s" by (simp_all add: complete_def s'_def)
  then have "orderly K (read_on s')"
    using s' o r flows_to_ok [of s' "read_on s'"] same_names_ok [of s' "read_on s'"]
    by (simp add: orderly_def read_on_def flows_to_def same_names_def complete_def)
  then show ?thesis
    using Some orderly_fails [OF s'] orderly_finish [OF s'] by (simp add: take_data_def Let_def s'_def [symmetric])
qed


subsection \<open>Every step\<close>

lemma sender_step_flow:
  assumes "flow_ok s" "\<not> hung_up s"
  shows "flow_ok (sender_step hook now s) \<and> \<not> hung_up (sender_step hook now s)"
proof (cases "sending s")
  case Sending
  then show ?thesis using assms
    by (auto simp: sender_step_def flow_ok_def control_ok_def note_file_def split: list.split)
next
  case Draining
  have "flow_ok (s\<lparr>eob_sent := True, sending := Waiting\<rparr>)"
    using assms Draining by (simp add: flow_ok_def control_ok_def)
  then have "flow_ok (check_done (s\<lparr>eob_sent := True, sending := Waiting\<rparr>))"
    using assms(2) check_done_flow by simp
  moreover have "check_done (s\<lparr>eob_sent := True, sending := Waiting\<rparr>) = (check_done (s\<lparr>eob_sent := True\<rparr>))\<lparr>sending := Waiting\<rparr>"
    by (simp add: check_done_def Let_def)
  ultimately show ?thesis using assms(2) Draining by (simp add: sender_step_def)
qed (use assms in \<open>auto simp: sender_step_def sender_writes_def flow_ok_def control_ok_def split: option.split\<close>)

lemma sender_step_complete:
  assumes "control_ok s" "complete s \<longrightarrow> over s"
  shows "complete (sender_step hook now s) \<longrightarrow> over (sender_step hook now s)"
proof (cases "sending s")
  case Draining
  have "complete ((check_done (s\<lparr>eob_sent := True\<rparr>))\<lparr>sending := Waiting\<rparr>) = complete (check_done (s\<lparr>eob_sent := True\<rparr>))"
    by (simp add: complete_def)
  then show ?thesis using check_done_complete [of "s\<lparr>eob_sent := True\<rparr>"] Draining by (simp add: sender_step_def)
next
  case Sending
  then have "\<not> eob_sent (sender_step hook now s)"
    using assms(1) by (simp add: sender_step_def control_ok_def note_file_def split: list.split)
  then show ?thesis by (simp add: complete_def)
qed (use assms(2) in \<open>auto simp: sender_step_def sender_writes_def complete_def split: option.split\<close>)

lemma sender_step_reading [simp]: "reading (sender_step hook now s) = reading s"
  using sender_step_receipt [of s hook now] by (simp add: same_receipt_def)

lemma hook_answers_flow:
  assumes "flow_ok s" "\<not> hung_up s"
  shows "flow_ok (hook_answers fs s) \<and> \<not> hung_up (hook_answers fs s)"
proof -
  have keep: "eob_started (add_files fs s) = eob_started s \<and> eob_sent (add_files fs s) = eob_sent s \<and>
      over (add_files fs s) = over s \<and> wake (add_files fs s) = wake s \<and> hung_up (add_files fs s) = hung_up s"
    by (induction fs s rule: add_files.induct) auto
  then show ?thesis using assms by (auto simp: hook_answers_def flow_ok_def control_ok_def)
qed

lemma receiver_writes_orderly:
  assumes "names_ok K s" "flow_ok s" "\<not> hung_up s" "r \<noteq> Reading" "r \<noteq> Receiver_Done"
  shows "orderly K (receiver_writes c t r s)"
proof -
  have "orderly K (s\<lparr>wire := w, reading := r\<rparr>)" for w
    using orderly_away [of K "s\<lparr>wire := w\<rparr>" r] assms by simp
  then show ?thesis using orderly_fails [OF assms(1-3)] by (simp add: receiver_writes_def split: option.split)
qed

lemma orderly_step:
  assumes o: "orderly K s"
  shows "orderly (K \<union> skips e) (step T hook s e)"
proof (cases "ended s")
  case True
  then show ?thesis using o names_ok_more [of K s "K \<union> skips e"] by (simp add: step_def orderly_def)
next
  case False
  have nd: "reading s \<noteq> Receiver_Done" using False by (auto simp: ended_def)
  then have h: "\<not> hung_up s" using o by (auto simp: orderly_def flow_ok_def ended_def)
  have n: "names_ok K s" and f: "flow_ok s" "\<not> hung_up s" using o h by (simp_all add: orderly_def)
  have "orderly (K \<union> skips e) (step T hook s e)" if "skips e = {} \<Longrightarrow> orderly K (step T hook s e)"
    "skips e \<noteq> {} \<Longrightarrow> orderly (K \<union> skips e) (step T hook s e)"
    using that by (cases "skips e = {}") simp_all
  show ?thesis
  proof (cases e)
    case (Sender_Step now)
    have "control_ok s" using f by (simp add: flow_ok_def)
    then have "reading s = Reading \<and> complete (sender_step hook now s) \<longrightarrow> over (sender_step hook now s)"
      using o sender_step_complete by (simp add: orderly_def)
    then show ?thesis
      using Sender_Step False nd sender_step_names [OF n] sender_step_flow [OF f]
      by (simp add: step_def orderly_def skips_def)
  next
    case (Hook_Answers fs)
    have "names_ok K (hook_answers fs s)"
      using add_files_names [OF n, of fs] same_names_ok [of "add_files fs s" "(add_files fs s)\<lparr>sending := Sending\<rparr>"] n
      by (simp add: hook_answers_def same_names_def)
    moreover have "reading (hook_answers fs s) = reading s"
      using hook_answers_receipt [of s fs] by (simp add: same_receipt_def)
    moreover have "complete (hook_answers fs s) \<longrightarrow> reading s = Reading \<longrightarrow> over (hook_answers fs s)"
    proof (cases "sending s = Asking")
      case True
      have "eob_sent (add_files fs s) = eob_sent s" by (induction fs s rule: add_files.induct) auto
      then show ?thesis using True f by (simp add: hook_answers_def complete_def flow_ok_def control_ok_def)
    qed (use o in \<open>simp add: hook_answers_def orderly_def\<close>)
    ultimately show ?thesis using Hook_Answers False nd hook_answers_flow [OF f]
      by (simp add: step_def orderly_def skips_def)
  next
    case (Sender_Error x)
    have "control_ok s" using f by (simp add: flow_ok_def)
    then have "control_ok (s\<lparr>sending := Sender_Failed x\<rparr>)"
      by (cases "sending s") (simp_all add: control_ok_def split: if_splits)
    then have "flow_ok (s\<lparr>sending := Sender_Failed x\<rparr>)" using f by (simp add: flow_ok_def)
    moreover have "names_ok K (s\<lparr>sending := Sender_Failed x\<rparr>)"
      using n by (subst same_names_ok [of s]) (simp_all add: same_names_def)
    moreover have "complete (s\<lparr>sending := Sender_Failed x\<rparr>) = complete s" by (simp add: complete_def)
    ultimately have "orderly K (s\<lparr>sending := Sender_Failed x\<rparr>)" using o by (simp add: orderly_def)
    then show ?thesis using Sender_Error False o by (simp add: step_def skips_def)
  next
    case (Frame fr)
    obtain c a where fr: "fr = (c, a)" by (cases fr)
    show ?thesis
    proof (cases "reading s = Reading")
      case True
      show ?thesis
      proof (cases c)
        case None
        then show ?thesis using Frame fr False True take_data_orderly [OF o True h]
          by (simp add: step_def take_frame_def skips_def)
      next
        case (Some k)
        then show ?thesis using Frame fr False True take_command_orderly [OF n f, of k "unlatin1 a" T]
          by (simp add: step_def take_frame_def skips_def split: if_splits)
      qed
    next
      case False
      then show ?thesis using Frame fr o names_ok_more [of K s "K \<union> skips e"]
        by (simp add: step_def take_frame_def orderly_def)
    qed
  next
    case Closes
    have "orderly K (remote_closes s)"
    proof (cases "reading s = Reading \<and> current s = None \<and> between_batches s")
      case True
      let ?s = "s\<lparr>hung_up := True, over := True, wake := True, reading := Receiver_Done\<rparr>"
      have "names_ok K ?s" using n by (subst same_names_ok [of s]) (simp_all add: same_names_def)
      moreover have "flow_ok ?s" using True by (simp add: flow_ok_def between_batches_def)
      ultimately show ?thesis using True by (simp add: remote_closes_def orderly_def)
    next
      case False
      then show ?thesis using o orderly_fails [OF n f] by (auto simp: remote_closes_def)
    qed
    then show ?thesis using Closes False by (simp add: step_def skips_def)
  next
    case Receiver_Step
    have "orderly K (read_on (check_done (s\<lparr>current := None\<rparr>)))" using n f by (intro orderly_read_on) simp_all
    then have "orderly K (receiver_step s)"
      using o orderly_away [OF n f] orderly_begin [OF n f] receiver_writes_orderly [OF n f]
      by (simp add: receiver_step_def split: receiver.split bool.split)
    then show ?thesis using Receiver_Step False by (simp add: step_def skips_def)
  next
    case (Receiver_Error x)
    then show ?thesis using False orderly_fails [OF n f] by (simp add: step_def skips_def)
  qed
qed

lemma orderly_run: "orderly K s \<Longrightarrow> orderly (K \<union> \<Union> (skips ` set es)) (run T hook s es)"
proof (induction es arbitrary: K s)
  case (Cons e es)
  then show ?case using Cons.IH [OF orderly_step [OF Cons.prems, of e T hook]] by (simp add: run_def Un_assoc)
qed (simp add: run_def)

lemma orderly_initial: "orderly {} (start_transfer multi fs)"
proof -
  have keep: "eob_started (add_files fs s) = eob_started s \<and> eob_sent (add_files fs s) = eob_sent s \<and>
      over (add_files fs s) = over s \<and> wake (add_files fs s) = wake s \<and> hung_up (add_files fs s) = hung_up s \<and>
      sending (add_files fs s) = sending s \<and> reading (add_files fs s) = reading s" for s
    by (induction fs s rule: add_files.induct) auto
  show ?thesis
    unfolding start_transfer_def orderly_def
    by (auto simp: keep flow_ok_def control_ok_def complete_def intro!: add_files_names) (simp add: names_ok_def)
qed


lemma orderly_reachable:
  "orderly (\<Union> (skips ` set es)) (run T hook (start_transfer multi fs) es)"
  using orderly_run [OF orderly_initial, of es T hook multi fs] by simp

lemma step_keeps_files: "files s \<subseteq>\<^sub>m files (step T hook s e)"
proof -
  have add: "files s \<subseteq>\<^sub>m files (add_files fs s)" for fs s
  proof (induction fs s rule: add_files.induct)
    case (2 f fs s)
    show ?case
    proof (cases "files s (og_name f)")
      case None
      let ?s = "s\<lparr>files := (files s)(og_name f \<mapsto> f), to_send := to_send s @ [(f, 0)]\<rparr>"
      have a: "files s \<subseteq>\<^sub>m files ?s" using None by (auto simp: map_le_def)
      have b: "files ?s \<subseteq>\<^sub>m files (add_files fs ?s)" using 2(2) None by blast
      have "add_files (f # fs) s = add_files fs ?s" using None by simp
      then show ?thesis using map_le_trans [OF a b] by (simp only:)
    qed (use 2 in simp)
  qed simp
  have cd: "files (check_done s) = files s" for s by (simp add: check_done_def Let_def)
  have ff: "files (finish_file k s) = files s" for k s by (simp add: finish_file_def Let_def)
  have bf: "files (begin_file k s) = files s" for k s by (simp add: begin_file_def Let_def read_on_def cd ff)
  have sf: "files (start_file T t s) = files s" for t s
    by (simp add: start_file_def fails_def bf Let_def split: option.split)
  have re: "files s' = files s" if "resend T t s = Some s'" for t s'
    using that by (cases rule: resend_cases) simp_all
  have tc: "files (take_command T c t s) = files s" for c t
    unfolding take_command_def
    by (auto simp: fails_def read_on_def cd sf confirm_def skip_file_def remote_file_announced_def note_file_def
        remote_end_of_batch_def Let_def split: option.split dest: re)
  have td: "files (take_data d s) = files s" for d
    by (simp add: take_data_def fails_def read_on_def ff Let_def split: option.split)
  have ss: "files (sender_step hook now s) = files s" for now
    by (simp add: sender_step_def note_file_def sender_writes_def cd split: sender.split list.split option.split)
  have rs: "files (receiver_step s) = files s"
    by (simp add: receiver_step_def receiver_writes_def fails_def read_on_def cd bf split: receiver.split bool.split option.split)
  show ?thesis
    using add by (simp add: step_def ss rs hook_answers_def take_frame_def tc td remote_closes_def fails_def
        split: event.split prod.split option.split)
qed

lemma run_keeps_files: "files s \<subseteq>\<^sub>m files (run T hook s es)"
proof (induction es arbitrary: s)
  case (Cons e es)
  then show ?case using step_keeps_files map_le_trans by (fastforce simp: run_def)
qed (simp add: run_def)

lemma offered_files: "og_name ` set fs \<subseteq> dom (files (start_transfer multi fs))"
proof -
  have "og_name ` set fs \<union> dom (files s) \<subseteq> dom (files (add_files fs s))" for s
  proof (induction fs s rule: add_files.induct)
    case (2 f fs s)
    show ?case
    proof (cases "files s (og_name f)")
      case None
      let ?s = "s\<lparr>files := (files s)(og_name f \<mapsto> f), to_send := to_send s @ [(f, 0)]\<rparr>"
      have "dom (files ?s) = insert (og_name f) (dom (files s))" by simp
      moreover have "og_name ` set fs \<union> dom (files ?s) \<subseteq> dom (files (add_files fs ?s))"
        using 2(2) None by blast
      moreover have "add_files (f # fs) s = add_files fs ?s" using None by simp
      ultimately show ?thesis by auto
    qed (use 2 in auto)
  qed simp
  then show ?thesis unfolding start_transfer_def by blast
qed

text \<open>Only an \<open>M_GOT\<close> frame for a file that is awaiting it adds to the files reported as sent.\<close>

lemma add_files_sent: "sent (add_files fs s) = sent s"
  by (induction fs s rule: add_files.induct) auto

lemma step_sent:
  "sent (step T hook s e) = sent s \<or>
    (\<exists>a. e = Frame (Some M_GOT, a) \<and> first_field (unlatin1 a) \<in> awaiting s \<and>
      sent (step T hook s e) = sent s @ [first_field (unlatin1 a)])"
proof -
  have cd: "sent (check_done s) = sent s" for s by (simp add: check_done_def Let_def)
  have ro: "sent (read_on s) = sent s" for s by (simp add: read_on_def)
  have fa: "sent (fails x s) = sent s" for x s by (simp add: fails_def)
  have ff: "sent (finish_file k s) = sent s" for k s by (simp add: finish_file_def Let_def)
  have bf: "sent (begin_file k s) = sent s" for k s by (simp add: begin_file_def Let_def ro cd ff)
  have sf: "sent (start_file T t s) = sent s" for t s
    by (simp add: start_file_def fa bf Let_def split: option.split)
  have re: "sent s' = sent s" if "resend T t s = Some s'" for t s'
    using that by (cases rule: resend_cases) simp_all
  have sk: "sent (skip_file n s) = sent s" for n s by (simp add: skip_file_def)
  have an: "sent (remote_file_announced s) = sent s" "sent (remote_end_of_batch s) = sent s" for s
    by (simp_all add: remote_file_announced_def note_file_def remote_end_of_batch_def Let_def)
  have tc: "sent (take_command T k t s) = sent s" if "k \<noteq> M_GOT" for k t
    unfolding take_command_def Let_def using that
    by (auto simp: fa ro cd sf sk an split: option.split dest: re)
  have got: "sent (take_command T M_GOT t s) = sent (confirm (first_field t) s)" for t
    by (simp add: take_command_def ro cd)
  have td: "sent (take_data d s) = sent s" for d
    by (simp add: take_data_def fa ro ff Let_def split: option.split)
  have ss: "sent (sender_step hook now s) = sent s" for now
    by (simp add: sender_step_def note_file_def sender_writes_def cd split: sender.split list.split option.split)
  have rs: "sent (receiver_step s) = sent s"
    by (simp add: receiver_step_def receiver_writes_def fa ro cd bf split: receiver.split bool.split option.split)
  have ha: "sent (hook_answers fs s) = sent s" for fs by (simp add: hook_answers_def add_files_sent)
  show ?thesis
  proof (cases "\<exists>a. e = Frame (Some M_GOT, a)")
    case True
    then show ?thesis by (auto simp: step_def take_frame_def got confirm_def)
  next
    case False
    have "sent (step T hook s e) = sent s"
    proof (cases e)
      case (Frame f)
      obtain c a where f: "f = (c, a)" by (cases f)
      then have "sent (take_frame T f s) = sent s"
        using False Frame tc by (cases c) (simp_all add: take_frame_def td)
      then show ?thesis by (simp add: step_def Frame)
    qed (simp_all add: step_def ss rs ha remote_closes_def fa)
    then show ?thesis ..
  qed
qed

lemma sent_was_confirmed:
  "n \<in> set (sent (run T hook s es)) \<Longrightarrow> n \<notin> set (sent s) \<Longrightarrow>
    \<exists>es1 a es2. es = es1 @ Frame (Some M_GOT, a) # es2 \<and> first_field (unlatin1 a) = n \<and>
      n \<in> awaiting (run T hook s es1)"
proof (induction es rule: rev_induct)
  case (snoc e es)
  have r: "run T hook s (es @ [e]) = step T hook (run T hook s es) e" by (simp add: run_def)
  show ?case
  proof (cases "n \<in> set (sent (run T hook s es))")
    case True
    then obtain es1 a es2 where "es = es1 @ Frame (Some M_GOT, a) # es2" "first_field (unlatin1 a) = n"
      "n \<in> awaiting (run T hook s es1)" using snoc by blast
    then show ?thesis by (intro exI [of _ es1] exI [of _ a] exI [of _ "es2 @ [e]"]) simp
  next
    case False
    then obtain a where "e = Frame (Some M_GOT, a)" "first_field (unlatin1 a) = n" "n \<in> awaiting (run T hook s es)"
      using step_sent [of T hook "run T hook s es" e] snoc(2) r by auto
    then show ?thesis by (intro exI [of _ es] exI [of _ a] exI [of _ "[]"]) simp
  qed
qed (simp add: run_def)

lemma start_sent: "sent (start_transfer multi fs) = []"
  by (simp add: start_transfer_def add_files_sent)

text \<open>
  C10: when a transfer returns without an error, whatever the remote sent and however the two tasks
  interleaved, every file given to it, at the start or by a batch hook later, has been confirmed or
  refused: an \<open>M_GOT\<close> frame with its name arrived while the file was on its way, after its announcement
  had begun, or an \<open>M_SKIP\<close> frame with its name arrived. The names reported as sent are names of such
  files, each confirmed by such an \<open>M_GOT\<close>.
\<close>

theorem returned_session_delivered:
  assumes "outcome (run T hook (start_transfer multi fs) es) = Some (Inr ())"
  shows "og_name ` set fs \<subseteq> dom (files (run T hook (start_transfer multi fs) es)) \<and>
    set (sent (run T hook (start_transfer multi fs) es)) \<subseteq> dom (files (run T hook (start_transfer multi fs) es)) \<and>
    (\<forall>n\<in>dom (files (run T hook (start_transfer multi fs) es)).
      n \<in> set (sent (run T hook (start_transfer multi fs) es)) \<or>
      (\<exists>a. Frame (Some M_SKIP, a) \<in> set es \<and> first_field (unlatin1 a) = n)) \<and>
    (\<forall>n\<in>set (sent (run T hook (start_transfer multi fs) es)).
      \<exists>es1 a es2. es = es1 @ Frame (Some M_GOT, a) # es2 \<and> first_field (unlatin1 a) = n \<and>
        n \<in> awaiting (run T hook (start_transfer multi fs) es1))"
proof -
  let ?s = "run T hook (start_transfer multi fs) es"
  have o: "orderly (\<Union> (skips ` set es)) ?s" by (rule orderly_reachable)
  have "reading ?s = Receiver_Done" using assms by (simp add: outcome_def split: receiver.splits)
  then have "over ?s" using o by (simp add: orderly_def)
  then have empty: "awaiting ?s = {}" "to_send ?s = []" using o by (simp_all add: orderly_def flow_ok_def)
  have n: "names_ok (\<Union> (skips ` set es)) ?s" using o by (simp add: orderly_def)
  have off: "og_name ` set fs \<subseteq> dom (files ?s)"
    using offered_files run_keeps_files map_le_implies_dom_le by (metis order_trans)
  have "dom (files ?s) \<subseteq> (og_name \<circ> fst) ` set (to_send ?s) \<union> awaiting ?s \<union> set (sent ?s) \<union> \<Union> (skips ` set es)"
    and sent: "set (sent ?s) \<subseteq> dom (files ?s)" using n unfolding names_ok_def by blast+
  then have all: "dom (files ?s) \<subseteq> set (sent ?s) \<union> \<Union> (skips ` set es)" by (simp add: empty)
  have "\<exists>a. Frame (Some M_SKIP, a) \<in> set es \<and> first_field (unlatin1 a) = n" if "n \<in> \<Union> (skips ` set es)" for n
    using that by (fastforce simp: skips_def split: event.splits option.splits if_splits)
  then have each: "\<forall>n\<in>dom (files ?s). n \<in> set (sent ?s) \<or>
      (\<exists>a. Frame (Some M_SKIP, a) \<in> set es \<and> first_field (unlatin1 a) = n)" using all by blast
  have "\<forall>n\<in>set (sent ?s). \<exists>es1 a es2. es = es1 @ Frame (Some M_GOT, a) # es2 \<and>
      first_field (unlatin1 a) = n \<and> n \<in> awaiting (run T hook (start_transfer multi fs) es1)"
    using sent_was_confirmed by (simp add: start_sent)
  then show ?thesis using off sent each by blast
qed

text \<open>
  C13: the sending task never sleeps through the end of a batch. Whenever it waits with no wake-up set
  while the receiver waits for a frame, this side has sent its end of batch and the remote owes something:
  the confirmation of a file, its own end of batch, or the rest of a file it announced.
\<close>

theorem sleeping_sender_is_owed:
  assumes "sending (run T hook (start_transfer multi fs) es) = Waiting"
    and "\<not> wake (run T hook (start_transfer multi fs) es)"
    and "reading (run T hook (start_transfer multi fs) es) = Reading"
  shows "eob_sent (run T hook (start_transfer multi fs) es) \<and> to_send (run T hook (start_transfer multi fs) es) = [] \<and>
    (awaiting (run T hook (start_transfer multi fs) es) \<noteq> {} \<or>
     batch (run T hook (start_transfer multi fs) es) \<notin> rx_ended (run T hook (start_transfer multi fs) es) \<or>
     receiving (run T hook (start_transfer multi fs) es))"
proof -
  let ?s = "run T hook (start_transfer multi fs) es"
  have o: "flow_ok ?s" "complete ?s \<longrightarrow> over ?s" using orderly_reachable assms(3) by (auto simp: orderly_def)
  then have "control_ok ?s" using assms(3) by (simp add: flow_ok_def split: if_splits)
  then have "eob_started ?s" "eob_sent ?s" "\<not> over ?s" using assms(1,2) by (auto simp: control_ok_def split: if_splits)
  moreover have "to_send ?s = []" using o calculation by (simp add: flow_ok_def)
  ultimately show ?thesis using o(2) by (auto simp: complete_def)
qed

end
