(* ===== verification/Binkp_Exchange.thy ===== *)
theory Binkp_Exchange
  imports Binkp_Safety
begin

unbundle bit_operations_syntax

text \<open>
  Two BinkP sessions talking to each other (\<open>Binkp\<close>): what one side's sending task writes, read frame
  by frame by the other side, arrives whole, and the answers settle the first side. And an \<open>M_GET\<close> that
  makes a session lose what it has already confirmed.
\<close>

section \<open>Frames survive the wire\<close>

lemma or_command_bit: "n \<le> 0x7FFF \<Longrightarrow> n OR 0x8000 = n + (0x8000::nat)"
proof -
  assume n: "n \<le> 0x7FFF"
  have "n AND 2 ^ 15 = 0"
  proof -
    have "\<not> bit n 15" using n by (simp add: bit_iff_odd div_eq_0_iff)
    then show ?thesis by (rule and_exp_eq_0_iff_not_bit [THEN iffD2])
  qed
  then have "n + 2 ^ 15 = n OR 2 ^ 15" by (rule disjunctive_add_eq_or)
  then show ?thesis by simp
qed

lemma and_length_bits: "(h::nat) AND 0x7FFF = h mod 0x8000"
proof -
  have "h AND mask 15 = h mod 2 ^ 15" by (simp only: take_bit_eq_mask [symmetric] take_bit_eq_mod)
  then show ?thesis by (simp add: mask_eq_exp_minus_1)
qed

lemma command_bit: "n < 256 \<Longrightarrow> (of_nat n :: byte) AND 0x80 \<noteq> 0 \<longleftrightarrow> 128 \<le> n"
proof -
  assume n: "n < 256"
  have "(of_nat n :: byte) AND 2 ^ 7 = 0 \<longleftrightarrow> \<not> bit (of_nat n :: byte) 7" by (rule and_exp_eq_0_iff_not_bit)
  also have "bit (of_nat n :: byte) 7 \<longleftrightarrow> bit n 7" by (simp add: bit_simps)
  also have "bit n 7 \<longleftrightarrow> 128 \<le> n"
  proof -
    have "n div 128 = (if 128 \<le> n then 1 else 0)" using n by (auto simp: div_nat_eqI)
    then show ?thesis by (simp add: bit_iff_odd)
  qed
  finally show ?thesis by simp
qed

text \<open>A frame that is written is read back; a command's argument loses its trailing NULs.\<close>

lemma read_encoded:
  assumes "encode_frame c p = Some w" "case c of None \<Rightarrow> True | Some k \<Rightarrow> k < 256"
  shows "read_frame (w @ rest) = Inr ((c, if c = None then p else rstrip_nul p), rest)"
proof -
  define body where "body = (case c of None \<Rightarrow> p | Some k \<Rightarrow> of_nat k # p)"
  define h where "h = length body + (if c \<noteq> None then 0x8000 else 0)"
  have len: "length body \<le> 0x7FFF" using assms(1) by (auto simp: encode_frame_def body_def MAX_FRAME_def Let_def split: if_splits)
  have "length body OR (if c \<noteq> None then 0x8000 else 0) = h" using or_command_bit [OF len] by (simp add: h_def)
  then have w: "w = of_nat (h div 256) # of_nat (h mod 256) # body"
    using assms(1) len unfolding encode_frame_def Let_def body_def [symmetric] by (simp split: if_splits)
  have h: "h < 65536" using len by (simp add: h_def)
  then have d: "h div 256 < 256" by (simp add: div_less_iff_less_mult)
  have u0: "unat (of_nat (h div 256) :: byte) = h div 256" "unat (of_nat (h mod 256) :: byte) = h mod 256"
    using d by (simp_all add: unat_of_nat)
  have n: "(unat (of_nat (h div 256) :: byte) * 256 + unat (of_nat (h mod 256) :: byte)) AND 0x7FFF = length body"
    unfolding u0 and_length_bits using len by (simp add: h_def)
  have b: "(of_nat (h div 256) :: byte) AND 0x80 \<noteq> 0 \<longleftrightarrow> c \<noteq> None"
    unfolding command_bit [OF d] using len by (auto simp: h_def)
  show ?thesis
    using n b assms(2) by (cases c) (simp_all add: w body_def unat_of_nat Let_def)
qed

lemma encode_small: "length p < MAX_FRAME \<Longrightarrow> \<exists>w. encode_frame (Some k) p = Some w"
  "length p \<le> MAX_FRAME \<Longrightarrow> \<exists>w. encode_frame None p = Some w"
  by (simp_all add: encode_frame_def Let_def)

section \<open>Lines survive the wire\<close>

lemma unlatin1_latin1: "\<forall>c\<in>set s. c < 256 \<Longrightarrow> unlatin1 (latin1 s) = s"
  by (induction s) (auto simp: unlatin1_def latin1_def unat_of_nat)

lemma rstrip_nul_id: "p \<noteq> [] \<Longrightarrow> last p \<noteq> 0 \<Longrightarrow> rstrip_nul p = p"
  by (simp add: rstrip_nul_def dropWhile_id hd_rev)

definition plain_name :: "unitext \<Rightarrow> ustr \<Rightarrow> bool" where
  "plain_name T n \<longleftrightarrow> n \<noteq> [] \<and> length n \<le> 255 \<and> (\<forall>c\<in>set n. c < 256 \<and> \<not> ut_space T c)"

lemma digits_plain:
  assumes "unicode_laws T" "c \<in> set (dec n)" shows "c < 256 \<and> \<not> ut_space T c \<and> c \<noteq> 32 \<and> c \<noteq> 95 \<and> c \<noteq> 43 \<and> c \<noteq> 45 \<and> c \<noteq> 0"
  using dec_not_space [OF assms] dec_digits [OF assms(2)] by (auto simp: is_digit_def)

lemma py_int_signed_dec:
  assumes T: "unicode_laws T" and n: "n < 10 ^ 20" shows "py_int_signed T (dec n) = Some (int n)"
proof -
  have hd: "hd (dec n) \<in> set (dec n)" "last (dec n) \<in> set (dec n)" by simp_all
  have strip: "py_strip (ut_space T) (dec n) = dec n"
    using digits_plain [OF T hd(1)] digits_plain [OF T hd(2)] by (intro py_strip_id) simp_all
  have "95 \<notin> set (dec n)" using digits_plain [OF T] by blast
  then show ?thesis
    using py_int_dec [OF T n] digits_plain [OF T hd(1)]
    by (simp add: py_int_signed_def strip split_on_absent Let_def del: dec_ne) (metis dec_ne)
qed

lemma space32: "unicode_laws T \<Longrightarrow> ut_space T 32" by (simp add: unicode_laws_def ascii_space_def)

lemma first_field_join: "32 \<notin> set n \<Longrightarrow> first_field (join_with [32] (n # ps)) = n"
  by (cases ps) (auto simp: first_field_def takeWhile_append)


definition plain_file :: "unitext \<Rightarrow> outgoing \<Rightarrow> bool" where
  "plain_file T f \<longleftrightarrow> plain_name T (og_name f) \<and> length (og_data f) \<le> MAX_FILE_BYTES \<and> og_mtime f < 10 ^ 20"

lemma length_dec20: "n < 10 ^ 20 \<Longrightarrow> length (dec n) \<le> 20" by (rule length_dec) simp_all

lemma file_size20: "plain_file T f \<Longrightarrow> length (og_data f) < 10 ^ 20"
  by (simp add: plain_file_def MAX_FILE_BYTES_def)

definition sent_at :: "nat \<Rightarrow> outgoing \<Rightarrow> nat" where
  "sent_at now f = (if og_mtime f = 0 then now else og_mtime f)"

lemma file_line_plain:
  assumes T: "unicode_laws T" and f: "plain_file T f" and now: "now < 10 ^ 20"
  shows "\<forall>c\<in>set (file_line now f 0). c < 256" "length (file_line now f 0) < 400"
    "unlatin1 (rstrip_nul (latin1 (file_line now f 0))) = file_line now f 0"
    "parse_file_line T (file_line now f 0) =
       Some (og_name f, int (length (og_data f)), int (sent_at now f), 0)"
proof -
  have m: "sent_at now f < 10 ^ 20" using f now by (simp add: sent_at_def plain_file_def)
  note sz = file_size20 [OF f]
  have line: "file_line now f 0 = og_name f @ [32] @ dec (length (og_data f)) @ [32] @ dec (sent_at now f) @ [32] @ dec 0"
    by (simp add: file_line_def sent_at_def)
  show small: "\<forall>c\<in>set (file_line now f 0). c < 256"
    using f digits_plain [OF T] by (fastforce simp: line plain_file_def plain_name_def)
  show "length (file_line now f 0) < 400"
    using f length_dec20 [OF sz] length_dec20 [OF m] length_dec20 [of 0]
    by (simp add: line plain_file_def plain_name_def)
  have "last (latin1 (file_line now f 0)) = of_nat (last (dec 0))"
    by (simp add: line latin1_def last_map dec.simps)
  also have "\<dots> \<noteq> 0" by (simp add: dec.simps)
  finally have "rstrip_nul (latin1 (file_line now f 0)) = latin1 (file_line now f 0)"
    by (intro rstrip_nul_id) (simp_all add: line latin1_def)
  then show "unlatin1 (rstrip_nul (latin1 (file_line now f 0))) = file_line now f 0"
    using unlatin1_latin1 [OF small] by simp
  have "py_words (ut_space T) (file_line now f 0) =
      [og_name f, dec (length (og_data f)), dec (sent_at now f), dec 0]"
    unfolding file_line_def sent_at_def [symmetric]
    using f digits_plain [OF T] space32 [OF T]
    by (intro py_words_join) (auto simp: plain_file_def plain_name_def)
  then show "parse_file_line T (file_line now f 0) =
       Some (og_name f, int (length (og_data f)), int (sent_at now f), 0)"
    using py_int_signed_dec [OF T sz] py_int_signed_dec [OF T m] py_int_signed_dec [OF T, of 0]
    by (simp add: parse_file_line_def)
qed

definition got_line :: "nat \<Rightarrow> outgoing \<Rightarrow> ustr" where
  "got_line now f = join_with [32] [og_name f, dec (length (og_data f)), int_text (int (sent_at now f))]"

lemma got_line_plain:
  assumes T: "unicode_laws T" and f: "plain_file T f" and now: "now < 10 ^ 20"
  shows "length (got_line now f) < 400" "first_field (unlatin1 (rstrip_nul (latin1 (got_line now f)))) = og_name f"
proof -
  have m: "sent_at now f < 10 ^ 20" using f now by (simp add: sent_at_def plain_file_def)
  note sz = file_size20 [OF f]
  have line: "got_line now f = og_name f @ [32] @ dec (length (og_data f)) @ [32] @ dec (sent_at now f)"
    by (simp add: got_line_def int_text_def)
  have small: "\<forall>c\<in>set (got_line now f). c < 256"
    using f digits_plain [OF T] by (fastforce simp: line plain_file_def plain_name_def)
  show "length (got_line now f) < 400"
    using f length_dec20 [OF sz] length_dec20 [OF m] by (simp add: line plain_file_def plain_name_def)
  have "last (dec (sent_at now f)) \<in> set (dec (sent_at now f))" by simp
  note last_digit = digits_plain [OF T this]
  then have "last (latin1 (got_line now f)) = of_nat (last (dec (sent_at now f)))"
    by (simp add: line latin1_def last_map)
  also have "\<dots> \<noteq> (0 :: byte)"
  proof
    assume "(of_nat (last (dec (sent_at now f))) :: byte) = 0"
    then have "unat (of_nat (last (dec (sent_at now f))) :: byte) = 0" by simp
    then show False using last_digit by (simp add: unat_of_nat)
  qed
  finally have "rstrip_nul (latin1 (got_line now f)) = latin1 (got_line now f)"
    by (intro rstrip_nul_id) (simp_all add: line latin1_def)
  moreover have "32 \<notin> set (og_name f)" using f space32 [OF T] by (auto simp: plain_file_def plain_name_def)
  then have "first_field (got_line now f) = og_name f" unfolding got_line_def by (rule first_field_join)
  ultimately show "first_field (unlatin1 (rstrip_nul (latin1 (got_line now f)))) = og_name f"
    using unlatin1_latin1 [OF small] by simp
qed


section \<open>The sending side\<close>

definition enc :: "nat option \<Rightarrow> byte list \<Rightarrow> byte list" where
  "enc c p = the (encode_frame c p)"

lemma encode_enc:
  "length p < MAX_FRAME \<Longrightarrow> encode_frame (Some k) p = Some (enc (Some k) p)"
  "length p \<le> MAX_FRAME \<Longrightarrow> encode_frame None p = Some (enc None p)"
  using encode_small(1) [of p k] encode_small(2) [of p] by (auto simp: enc_def)

function data_chunks :: "byte list \<Rightarrow> byte list list" where
  "data_chunks d = (if d = [] then [] else take MAX_FRAME d # data_chunks (drop MAX_FRAME d))"
  by pat_completeness auto
termination by (relation "measure length") (auto simp: MAX_FRAME_def)

declare data_chunks.simps [simp del]

definition file_frames :: "nat \<Rightarrow> outgoing \<Rightarrow> byte list list" where
  "file_frames now f = enc (Some M_FILE) (latin1 (file_line now f 0)) # map (enc None) (data_chunks (og_data f))"

text \<open>\<open>s'\<close> is what the sending task makes of \<open>s\<close> in some number of steps.\<close>

definition sends :: "unitext \<Rightarrow> bool \<Rightarrow> nat \<Rightarrow> binkp \<Rightarrow> binkp \<Rightarrow> bool" where
  "sends T hook now s s' \<longleftrightarrow> (\<exists>k. run T hook s (replicate k (Sender_Step now)) = s')"

lemma sends_refl [simp]: "sends T hook now s s"
  unfolding sends_def by (rule exI [of _ 0]) (simp add: run_def)

lemma run_append: "run T hook s (es @ es') = run T hook (run T hook s es) es'"
  by (simp add: run_def)

lemma sends_trans [trans]: "sends T hook now s s' \<Longrightarrow> sends T hook now s' s'' \<Longrightarrow> sends T hook now s s''"
  unfolding sends_def by (metis replicate_add run_append)

lemma sends_step:
  assumes "\<not> ended s" "sends T hook now (sender_step hook now s) s'" shows "sends T hook now s s'"
proof -
  obtain k where "run T hook (sender_step hook now s) (replicate k (Sender_Step now)) = s'"
    using assms(2) by (auto simp: sends_def)
  then have "run T hook s (replicate (Suc k) (Sender_Step now)) = s'" using assms(1) by (simp add: run_def step_def)
  then show ?thesis unfolding sends_def by blast
qed

lemma ended_sender [simp]:
  "ended (s\<lparr>sending := x\<rparr>) = ended s" "ended (s\<lparr>wire := w\<rparr>) = ended s"
  "ended (s\<lparr>eob_started := b\<rparr>) = ended s" "ended (s\<lparr>eob_sent := b\<rparr>) = ended s"
  "ended (s\<lparr>to_send := q\<rparr>) = ended s" "ended (s\<lparr>awaiting := a\<rparr>) = ended s" "ended (s\<lparr>moved := m\<rparr>) = ended s"
  by (simp_all add: ended_def)

lemma chunks_sent:
  assumes "\<not> ended s" "sending s = Chunks f start"
  shows "sends T hook now s
    (s\<lparr>wire := wire s @ map (enc None) (data_chunks (drop start (og_data f))), sending := Sending\<rparr>)"
  using assms
proof (induction "length (og_data f) - start" arbitrary: s start rule: less_induct)
  case less
  show ?case
  proof (cases "start < length (og_data f)")
    case True
    let ?s = "s\<lparr>wire := wire s @ [enc None (take MAX_FRAME (drop start (og_data f)))], sending := Chunks f (start + MAX_FRAME)\<rparr>"
    have st: "sender_step hook now s = ?s"
      using less.prems True by (simp add: sender_step_def sender_writes_def encode_enc)
    let ?e = "?s\<lparr>wire := wire ?s @ map (enc None) (data_chunks (drop (start + MAX_FRAME) (og_data f))), sending := Sending\<rparr>"
    have "sends T hook now ?s ?e"
      using less.prems True by (intro less.hyps) (simp_all add: MAX_FRAME_def)
    then have "sends T hook now s ?e" using less.prems(1) st by (metis sends_step)
    moreover have "data_chunks (drop start (og_data f)) =
        take MAX_FRAME (drop start (og_data f)) # data_chunks (drop (start + MAX_FRAME) (og_data f))"
      using True by (subst data_chunks.simps) (simp add: add.commute)
    ultimately show ?thesis by simp
  next
    case False
    then have "sender_step hook now s = s\<lparr>sending := Sending\<rparr>" "drop start (og_data f) = []"
      using less.prems by (simp_all add: sender_step_def)
    then show ?thesis using less.prems(1) sends_step [of s T hook now] by (simp add: data_chunks.simps)
  qed
qed

lemma file_sent:
  assumes T: "unicode_laws T" and f: "plain_file T f" and now: "now < 10 ^ 20"
    and s: "\<not> ended s" "sending s = Sending" "to_send s = (f, 0) # rest"
  shows "\<exists>m. sends T hook now s (s\<lparr>to_send := rest, awaiting := insert (og_name f) (awaiting s), moved := m,
    wire := wire s @ file_frames now f, sending := Sending\<rparr>)"
proof -
  let ?m = "(moved s)(batch s := moved s (batch s) + 1)"
  let ?s1 = "s\<lparr>to_send := rest, awaiting := insert (og_name f) (awaiting s), moved := ?m, sending := Announcing f 0\<rparr>"
  let ?s2 = "?s1\<lparr>wire := wire s @ [enc (Some M_FILE) (latin1 (file_line now f 0))], sending := Chunks f 0\<rparr>"
  have 1: "sender_step hook now s = ?s1" using s by (simp add: sender_step_def note_file_def)
  have "length (latin1 (file_line now f 0)) < MAX_FRAME"
    using file_line_plain(2) [OF T f now] by (simp add: latin1_def MAX_FRAME_def)
  then have 2: "sender_step hook now ?s1 = ?s2" by (simp add: sender_step_def sender_writes_def encode_enc)
  let ?e = "?s2\<lparr>wire := wire ?s2 @ map (enc None) (data_chunks (drop 0 (og_data f))), sending := Sending\<rparr>"
  have 3: "sends T hook now ?s2 ?e" using s(1) by (intro chunks_sent) simp_all
  have "sends T hook now ?s1 ?e" by (rule sends_step) (use s(1) in simp, unfold 2, rule 3)
  then have "sends T hook now s ?e" using s(1) 1 by (metis sends_step)
  moreover have "?e = s\<lparr>to_send := rest, awaiting := insert (og_name f) (awaiting s), moved := ?m,
      wire := wire s @ file_frames now f, sending := Sending\<rparr>" by (simp add: file_frames_def)
  ultimately show ?thesis by (intro exI [of _ ?m]) simp
qed

lemma files_sent:
  assumes T: "unicode_laws T" and now: "now < 10 ^ 20" and f: "\<forall>f\<in>set fs. plain_file T f"
    and s: "\<not> ended s" "sending s = Sending" "to_send s = map (\<lambda>f. (f, 0)) fs"
  shows "\<exists>m. sends T hook now s (s\<lparr>to_send := [], awaiting := awaiting s \<union> og_name ` set fs, moved := m,
    wire := wire s @ concat (map (file_frames now) fs), sending := Sending\<rparr>)"
  using f s
proof (induction fs arbitrary: s)
  case Nil
  have "s\<lparr>to_send := [], awaiting := awaiting s, moved := moved s, wire := wire s, sending := Sending\<rparr> = s"
    using Nil by (cases s) simp
  then show ?case by (intro exI [of _ "moved s"]) simp
next
  case (Cons f fs)
  obtain m where 1: "sends T hook now s (s\<lparr>to_send := map (\<lambda>f. (f, 0)) fs, awaiting := insert (og_name f) (awaiting s),
      moved := m, wire := wire s @ file_frames now f, sending := Sending\<rparr>)" (is "sends T hook now s ?s")
    using file_sent [OF T _ now] Cons.prems by fastforce
  obtain m' where 2: "sends T hook now ?s (?s\<lparr>to_send := [], awaiting := awaiting ?s \<union> og_name ` set fs, moved := m',
      wire := wire ?s @ concat (map (file_frames now) fs), sending := Sending\<rparr>)"
    using Cons.IH [of ?s] Cons.prems by (auto simp: ended_def)
  show ?case using sends_trans [OF 1 2] by (intro exI [of _ m']) (simp add: insert_commute)
qed

lemma end_sent:
  assumes "\<not> ended s" "sending s = Sending" "to_send s = []" "batch s \<notin> rx_ended s" "\<not> eob_sent s"
  shows "sends T hook now s (s\<lparr>eob_started := True, eob_sent := True, wire := wire s @ [enc (Some M_EOB) []], sending := Waiting\<rparr>)"
proof -
  let ?s1 = "s\<lparr>eob_started := True, sending := Ending\<rparr>"
  let ?s2 = "s\<lparr>eob_started := True, wire := wire s @ [enc (Some M_EOB) []], sending := Draining\<rparr>"
  have 1: "sender_step hook now s = ?s1" using assms by (simp add: sender_step_def)
  have 2: "sender_step hook now ?s1 = ?s2" by (simp add: sender_step_def sender_writes_def encode_enc MAX_FRAME_def)
  have 3: "sender_step hook now ?s2 = ?s2\<lparr>eob_sent := True, sending := Waiting\<rparr>"
    using assms(4) by (simp add: sender_step_def check_done_def)
  let ?e = "?s2\<lparr>eob_sent := True, sending := Waiting\<rparr>"
  have "sends T hook now ?s2 ?e" by (rule sends_step) (use assms(1) in simp, unfold 3, rule sends_refl)
  then have "sends T hook now ?s1 ?e" using assms(1) 2 by (metis ended_sender(1,3) sends_step)
  then have "sends T hook now s ?e" using assms(1) 1 by (metis sends_step)
  moreover have "?e = s\<lparr>eob_started := True, eob_sent := True, wire := wire s @ [enc (Some M_EOB) []], sending := Waiting\<rparr>"
    by simp
  ultimately show ?thesis by simp
qed


section \<open>The receiving side\<close>

lemma read_frame_shorter: "read_frame s = Inr (f, rest) \<Longrightarrow> length rest < length s"
  by (cases s rule: read_frame.cases) (auto simp: Let_def split: if_splits list.splits)

text \<open>Everything a stream of bytes holds, and what the receiving task does with it.\<close>

function read_all :: "byte list \<Rightarrow> (nat option \<times> byte list) list" where
  "read_all s = (case read_frame s of Inl _ \<Rightarrow> [] | Inr (f, rest) \<Rightarrow> f # read_all rest)"
  by pat_completeness auto
termination by (relation "measure length") (auto simp: read_frame_shorter)

declare read_all.simps [simp del]

definition arrival :: "nat option \<times> byte list \<Rightarrow> event list" where
  "arrival f = [Frame f, Receiver_Step, Receiver_Step]"

definition arrivals :: "byte list list \<Rightarrow> event list" where
  "arrivals ws = concat (map arrival (read_all (concat ws)))"

lemma arrivals_Nil [simp]: "arrivals [] = []"
  by (simp add: arrivals_def read_all.simps)

lemma arrivals_Cons:
  assumes "encode_frame c p = Some w" "case c of None \<Rightarrow> True | Some k \<Rightarrow> k < 256"
  shows "arrivals (w # ws) = arrival (c, if c = None then p else rstrip_nul p) @ arrivals ws"
proof -
  have "read_all (w @ concat ws) = (c, if c = None then p else rstrip_nul p) # read_all (concat ws)"
    by (subst read_all.simps) (simp add: read_encoded [OF assms])
  then show ?thesis by (simp add: arrivals_def)
qed

definition framed :: "byte list list \<Rightarrow> bool" where
  "framed ws \<longleftrightarrow> (\<forall>w\<in>set ws. \<exists>c p. encode_frame c p = Some w \<and> (case c of None \<Rightarrow> True | Some k \<Rightarrow> k < 256))"

lemma arrivals_append: "framed ws \<Longrightarrow> arrivals (ws @ ws') = arrivals ws @ arrivals ws'"
proof (induction ws)
  case (Cons w ws)
  then obtain c p where "encode_frame c p = Some w" "case c of None \<Rightarrow> True | Some k \<Rightarrow> k < 256"
    by (auto simp: framed_def)
  note w = arrivals_Cons [OF this]
  show ?case using Cons by (simp add: w framed_def)
qed simp

lemma data_chunks_short: "c \<in> set (data_chunks d) \<Longrightarrow> length c \<le> MAX_FRAME"
proof (induction d rule: data_chunks.induct)
  case (1 d)
  then show ?case by (subst (asm) (2) data_chunks.simps) (auto split: if_splits)
qed

lemma file_frames_framed:
  assumes "unicode_laws T" "plain_file T f" "now < 10 ^ 20" shows "framed (file_frames now f)"
proof -
  have "encode_frame (Some M_FILE) (latin1 (file_line now f 0)) = Some (enc (Some M_FILE) (latin1 (file_line now f 0)))"
    using file_line_plain(2) [OF assms] by (intro encode_enc) (simp add: latin1_def MAX_FRAME_def)
  moreover have "\<forall>c\<in>set (data_chunks (og_data f)). encode_frame None c = Some (enc None c)"
    using data_chunks_short encode_enc(2) by blast
  ultimately show ?thesis by (fastforce simp: framed_def file_frames_def)
qed

lemma check_done_waits: "batch s \<notin> rx_ended s \<Longrightarrow> check_done s = s"
  by (simp add: check_done_def)

lemma set_reading: "reading s = r \<Longrightarrow> s\<lparr>reading := r\<rparr> = s"
  by (cases s) simp

text \<open>A receiver at rest: between files, before the remote's end of batch.\<close>

definition ready :: "binkp \<Rightarrow> bool" where
  "ready s \<longleftrightarrow> reading s = Reading \<and> current s = None \<and> \<not> over s \<and> batch s \<notin> rx_ended s \<and> \<not> multi_batch s"

lemma idle_steps:
  "reading s = Reading \<Longrightarrow> \<not> over s \<Longrightarrow> run T hook s [Receiver_Step, Receiver_Step] = s"
  by (simp add: run_def step_def ended_def receiver_step_def)

text \<open>A file whose last byte has come.\<close>

definition settled :: "incoming \<Rightarrow> byte list \<Rightarrow> nat \<Rightarrow> binkp \<Rightarrow> binkp" where
  "settled k d n s =
     (let r = \<lparr>rv_name = safe_file_name (in_name k), rv_data = d\<rparr>
      in s\<lparr>got := got s @ [r], since_hook := since_hook s @ [r], receiving := False, current := None,
           received_bytes := received_bytes s + n,
           wire := wire s @ [enc (Some M_GOT) (latin1 (join_with [32] [in_name k, dec (in_size k), int_text (in_mtime k)]))]\<rparr>)"

definition answerable :: "incoming \<Rightarrow> bool" where
  "answerable k \<longleftrightarrow> length (join_with [32] [in_name k, dec (in_size k), int_text (in_mtime k)]) < MAX_FRAME"

lemma confirm_written:
  assumes "answerable k" "reading s = Confirming k False" "\<not> over s" "batch s \<notin> rx_ended s"
  shows "run T hook s [Receiver_Step, Receiver_Step] =
    s\<lparr>current := None, reading := Reading,
      wire := wire s @ [enc (Some M_GOT) (latin1 (join_with [32] [in_name k, dec (in_size k), int_text (in_mtime k)]))]\<rparr>"
proof -
  let ?w = "enc (Some M_GOT) (latin1 (join_with [32] [in_name k, dec (in_size k), int_text (in_mtime k)]))"
  let ?s = "s\<lparr>wire := wire s @ [?w], reading := Confirming k True\<rparr>"
  have "encode_frame (Some M_GOT) (latin1 (join_with [32] [in_name k, dec (in_size k), int_text (in_mtime k)])) = Some ?w"
    using assms(1) by (intro encode_enc) (simp add: answerable_def latin1_def)
  then have "receiver_step s = ?s" using assms(2) by (simp add: receiver_step_def receiver_writes_def)
  moreover have "receiver_step ?s = ?s\<lparr>current := None, reading := Reading\<rparr>"
    using assms(3,4) by (simp add: receiver_step_def read_on_def check_done_waits)
  ultimately show ?thesis using assms(2) by (simp add: run_def step_def ended_def)
qed

lemma data_arrives:
  assumes "answerable k" "d \<noteq> []" "in_size k = length (in_data k) + length d"
    and "received_bytes s + length d \<le> MAX_SESSION_BYTES"
    and "reading s = Reading" "current s = Some k" "\<not> over s" "batch s \<notin> rx_ended s"
  shows "run T hook s (arrivals (map (enc None) (data_chunks d))) = settled k (in_data k @ d) (length d) s"
  using assms
proof (induction "length d" arbitrary: d k s rule: less_induct)
  case less
  note [simp] = less.prems(5-8)
  let ?d = "take MAX_FRAME d"
  define k' where "k' = k\<lparr>in_data := in_data k @ ?d\<rparr>"
  define s' where "s' = s\<lparr>current := Some k', received_bytes := received_bytes s + length ?d\<rparr>"
  have chunks: "arrivals (map (enc None) (data_chunks d)) =
      arrival (None, ?d) @ arrivals (map (enc None) (data_chunks (drop MAX_FRAME d)))"
    using less.prems(2) encode_enc(2) [of ?d] arrivals_Cons [of None ?d]
    by (subst data_chunks.simps) simp
  have total: "received_bytes s' \<le> MAX_SESSION_BYTES" using less.prems(4) by (simp add: s'_def)
  have same: "answerable k'" "in_name k' = in_name k" "in_size k' = in_size k" "in_mtime k' = in_mtime k"
    using less.prems(1) by (simp_all add: k'_def answerable_def)
  show ?case
  proof (cases "length d \<le> MAX_FRAME")
    case True
    have "take_frame T (None, ?d) s = finish_file k' s'"
      using True less.prems(3,4) total
      by (simp add: take_frame_def take_data_def k'_def [symmetric] s'_def [symmetric] Let_def)
         (simp add: k'_def s'_def)
    moreover have "run T hook (finish_file k' s') [Receiver_Step, Receiver_Step] = settled k (in_data k @ d) (length d) s"
      using True same
      by (subst confirm_written [of k'])
         (simp_all add: finish_file_def Let_def s'_def settled_def k'_def set_reading)
    ultimately show ?thesis
      using True unfolding chunks by (simp add: run_def arrival_def step_def ended_def data_chunks.simps)
  next
    case False
    have "take_frame T (None, ?d) s = s'"
      using False less.prems(3) total
      by (simp add: take_frame_def take_data_def k'_def [symmetric] s'_def [symmetric] Let_def)
         (simp add: k'_def read_on_def s'_def set_reading)
    then have 1: "run T hook s (arrival (None, ?d)) = s'"
      using idle_steps [of s' T hook] by (simp add: run_def arrival_def step_def ended_def s'_def)
    have 2: "run T hook s' (arrivals (map (enc None) (data_chunks (drop MAX_FRAME d)))) =
        settled k' (in_data k' @ drop MAX_FRAME d) (length (drop MAX_FRAME d)) s'"
      using False less.prems same by (intro less.hyps) (simp_all add: k'_def s'_def MAX_FRAME_def)
    show ?thesis
      unfolding chunks run_append 1 2 using False same
      by (simp add: settled_def s'_def k'_def Let_def)
  qed
qed


definition as_received :: "outgoing \<Rightarrow> received" where
  "as_received f = \<lparr>rv_name = safe_file_name (og_name f), rv_data = og_data f\<rparr>"

definition got_frame :: "nat \<Rightarrow> outgoing \<Rightarrow> byte list" where
  "got_frame now f = enc (Some M_GOT) (latin1 (got_line now f))"

text \<open>The state after the files \<open>fs\<close> have come, with whatever count of them.\<close>

definition received_all :: "nat \<Rightarrow> outgoing list \<Rightarrow> (nat \<Rightarrow> nat) \<Rightarrow> binkp \<Rightarrow> binkp" where
  "received_all now fs m s =
     s\<lparr>got := got s @ map as_received fs, since_hook := since_hook s @ map as_received fs, receiving := False,
       current := None, moved := m, received_bytes := received_bytes s + sum_list (map (\<lambda>f. length (og_data f)) fs),
       wire := wire s @ map (got_frame now) fs\<rparr>"

lemma file_arrives:
  assumes T: "unicode_laws T" and f: "plain_file T f" and now: "now < 10 ^ 20"
    and r: "ready s" "length (got s) < MAX_FILES" "received_bytes s + length (og_data f) \<le> MAX_SESSION_BYTES"
  shows "\<exists>m. run T hook s (arrivals (file_frames now f)) = received_all now [f] m s"
proof -
  define k where "k = \<lparr>in_name = og_name f, in_size = length (og_data f), in_mtime = int (sent_at now f), in_data = []\<rparr>"
  have [simp]: "reading s = Reading" "current s = None" "\<not> over s" "batch s \<notin> rx_ended s" "\<not> multi_batch s"
    using r(1) by (simp_all add: ready_def)
  define m where "m = (moved s)(rx_batch s := moved s (rx_batch s) + 1)"
  define s1 where "s1 = s\<lparr>moved := m\<rparr>"
  have ann: "remote_file_announced s = s1" by (simp add: remote_file_announced_def note_file_def s1_def m_def Let_def)
  have kk: "\<lparr>in_name = og_name f, in_size = nat (int (length (og_data f))), in_mtime = int (sent_at now f), in_data = []\<rparr> = k"
    by (simp add: k_def)
  have frame: "take_frame T (Some M_FILE, rstrip_nul (latin1 (file_line now f 0))) s = begin_file k s1"
    using file_line_plain(3,4) [OF T f now] f r(2)
    by (simp add: take_frame_def take_command_def ann start_file_def kk plain_file_def Let_def) (simp add: s1_def k_def)
  have ans: "answerable k"
    using got_line_plain(1) [OF T f now] by (simp add: answerable_def k_def got_line_def MAX_FRAME_def)
  have gl: "join_with [32] [in_name k, dec (in_size k), int_text (in_mtime k)] = got_line now f"
    by (simp add: k_def got_line_def)
  have first: "arrivals (file_frames now f) =
      arrival (Some M_FILE, rstrip_nul (latin1 (file_line now f 0))) @ arrivals (map (enc None) (data_chunks (og_data f)))"
    using encode_enc(1) [of "latin1 (file_line now f 0)"] file_line_plain(2) [OF T f now]
      arrivals_Cons [of "Some M_FILE" "latin1 (file_line now f 0)"]
    by (simp add: file_frames_def latin1_def MAX_FRAME_def)
  show ?thesis
  proof (cases "og_data f = []")
    case True
    then have "begin_file k s1 = finish_file k (s1\<lparr>receiving := True\<rparr>)" by (simp add: begin_file_def k_def)
    then have "run T hook s (arrivals (file_frames now f)) =
        run T hook (finish_file k (s1\<lparr>receiving := True\<rparr>)) [Receiver_Step, Receiver_Step]"
      unfolding first using True frame by (simp add: run_def arrival_def step_def ended_def data_chunks.simps)
    also have "\<dots> = received_all now [f] m s"
      using True gl
      by (subst confirm_written [OF ans])
         (simp_all add: finish_file_def Let_def s1_def received_all_def as_received_def got_frame_def k_def set_reading)
    finally show ?thesis by blast
  next
    case False
    define s2 where "s2 = s1\<lparr>receiving := True, current := Some k\<rparr>"
    have "begin_file k s1 = read_on (check_done s2)" using False by (simp add: begin_file_def s2_def) (simp add: k_def)
    moreover have "check_done s2 = s2" by (rule check_done_waits) (simp add: s2_def s1_def)
    moreover have "read_on s2 = s2" by (simp add: read_on_def set_reading s2_def s1_def)
    ultimately have "begin_file k s1 = s2" by simp
    then have 1: "run T hook s (arrival (Some M_FILE, rstrip_nul (latin1 (file_line now f 0)))) = s2"
      using frame idle_steps [of s2 T hook]
      by (simp add: run_def arrival_def step_def ended_def s2_def s1_def)
    have 2: "run T hook s2 (arrivals (map (enc None) (data_chunks (og_data f)))) =
        settled k (in_data k @ og_data f) (length (og_data f)) s2"
      using False r(3) by (intro data_arrives [OF ans]) (simp_all add: s2_def s1_def, simp add: k_def)
    have "settled k (in_data k @ og_data f) (length (og_data f)) s2 = received_all now [f] m s"
      by (simp add: settled_def s2_def s1_def received_all_def as_received_def got_frame_def gl Let_def)
         (simp add: k_def got_line_def)
    then show ?thesis unfolding first run_append 1 2 by blast
  qed
qed

lemma files_arrive:
  assumes T: "unicode_laws T" and now: "now < 10 ^ 20" and f: "\<forall>f\<in>set fs. plain_file T f"
    and r: "ready s" "length (got s) + length fs \<le> MAX_FILES"
      "received_bytes s + sum_list (map (\<lambda>f. length (og_data f)) fs) \<le> MAX_SESSION_BYTES" "\<not> receiving s"
  shows "\<exists>m. run T hook s (arrivals (concat (map (file_frames now) fs) @ ws)) =
    run T hook (received_all now fs m s) (arrivals ws)"
  using f r
proof (induction fs arbitrary: s)
  case Nil
  have "received_all now [] (moved s) s = s" using Nil by (cases s) (simp add: received_all_def ready_def)
  then show ?case by (intro exI [of _ "moved s"]) simp
next
  case (Cons f fs)
  obtain m where 1: "run T hook s (arrivals (file_frames now f)) = received_all now [f] m s"
    using file_arrives [OF T _ now, of f s hook] Cons.prems by auto
  obtain m' where 2: "run T hook (received_all now [f] m s) (arrivals (concat (map (file_frames now) fs) @ ws)) =
      run T hook (received_all now fs m' (received_all now [f] m s)) (arrivals ws)"
    using Cons.IH [of "received_all now [f] m s"] Cons.prems by (auto simp: received_all_def ready_def)
  have "received_all now fs m' (received_all now [f] m s) = received_all now (f # fs) m' s"
    by (simp add: received_all_def)
  moreover have "arrivals (concat (map (file_frames now) (f # fs)) @ ws) =
      arrivals (file_frames now f) @ arrivals (concat (map (file_frames now) fs) @ ws)"
    using arrivals_append [OF file_frames_framed [OF T _ now]] Cons.prems(1) by simp
  ultimately show ?case using 1 2 by (intro exI [of _ m']) (simp add: run_append)
qed


section \<open>Both sides\<close>

lemma add_files_fresh:
  "distinct (map og_name fs) \<Longrightarrow> \<forall>f\<in>set fs. files s (og_name f) = None \<Longrightarrow>
   \<exists>F. add_files fs s = s\<lparr>files := F, to_send := to_send s @ map (\<lambda>f. (f, 0)) fs\<rparr>"
proof (induction fs s rule: add_files.induct)
  case (1 s)
  show ?case by (intro exI [of _ "files s"]) (cases s, simp)
next
  case (2 f fs s)
  let ?s = "s\<lparr>files := (files s)(og_name f \<mapsto> f), to_send := to_send s @ [(f, 0)]\<rparr>"
  have "files s (og_name f) = None" using 2(4) by simp
  moreover have "distinct (map og_name fs)" "\<forall>f'\<in>set fs. files ?s (og_name f') = None"
    using 2(3,4) by (auto simp: image_iff)
  ultimately obtain F where "add_files fs ?s = ?s\<lparr>files := F, to_send := to_send ?s @ map (\<lambda>f. (f, 0)) fs\<rparr>"
    using 2(2) by blast
  then have "add_files (f # fs) s = s\<lparr>files := F, to_send := to_send s @ map (\<lambda>f. (f, 0)) (f # fs)\<rparr>"
    using \<open>files s (og_name f) = None\<close> by simp
  then show ?case by blast
qed

text \<open>A side that has sent its end of batch and waits.\<close>

definition waiting :: "binkp \<Rightarrow> bool" where
  "waiting s \<longleftrightarrow> reading s = Reading \<and> current s = None \<and> \<not> over s \<and> \<not> multi_batch s \<and> eob_sent s \<and>
     rx_batch s = batch s \<and> to_send s = [] \<and> \<not> receiving s \<and> \<not> failure s \<and> \<not> hung_up s \<and> sending s = Waiting"

lemma eob_arrives:
  assumes "waiting s" "batch s \<notin> rx_ended s"
  shows "run T hook s (arrivals (enc (Some M_EOB) [] # ws)) =
    run T hook (read_on (check_done (s\<lparr>rx_ended := insert (batch s) (rx_ended s)\<rparr>))) (arrivals ws)"
proof -
  let ?s = "read_on (check_done (s\<lparr>rx_ended := insert (batch s) (rx_ended s)\<rparr>))"
  have "arrivals (enc (Some M_EOB) [] # ws) = arrival (Some M_EOB, []) @ arrivals ws"
    using arrivals_Cons [OF encode_enc(1) [of "[]" M_EOB], of ws] by (simp add: MAX_FRAME_def rstrip_nul_def)
  moreover have "take_frame T (Some M_EOB, []) s = ?s"
    using assms by (simp add: waiting_def take_frame_def take_command_def remote_end_of_batch_def)
  moreover have "run T hook ?s [Receiver_Step, Receiver_Step] = ?s"
  proof (cases "over (check_done (s\<lparr>rx_ended := insert (batch s) (rx_ended s)\<rparr>))")
    case True
    then show ?thesis by (simp add: run_def step_def ended_def read_on_def)
  next
    case False
    then show ?thesis using idle_steps [of ?s T hook] by (simp add: read_on_def)
  qed
  ultimately show ?thesis using assms by (simp add: run_def arrival_def step_def ended_def waiting_def)
qed

lemma last_answer:
  assumes "waiting s" "batch s \<in> rx_ended s" "awaiting s = {}"
  shows "outcome (run T hook (read_on (check_done s)) es) = Some (Inr ()) \<and>
    got (run T hook (read_on (check_done s)) es) = got s \<and> sent (run T hook (read_on (check_done s)) es) = sent s"
proof -
  have fin: "check_done s = s\<lparr>result_batches := batch s, over := True, wake := True\<rparr>"
    using assms by (simp add: check_done_def waiting_def Let_def)
  have "ended (read_on (check_done s))" by (simp add: fin read_on_def ended_def)
  then have "run T hook (read_on (check_done s)) es = read_on (check_done s)"
    by (induction es) (simp_all add: run_def step_def)
  then show ?thesis using assms by (simp add: fin read_on_def outcome_def waiting_def)
qed

lemma answers_arrive:
  assumes T: "unicode_laws T" and now: "now < 10 ^ 20" and f: "\<forall>f\<in>set fs. plain_file T f" "distinct (map og_name fs)"
    and s: "waiting s" "batch s \<in> rx_ended s" "awaiting s = og_name ` set fs"
  shows "outcome (run T hook (read_on (check_done s)) (arrivals (map (got_frame now) fs))) = Some (Inr ()) \<and>
    sent (run T hook (read_on (check_done s)) (arrivals (map (got_frame now) fs))) = sent s @ map og_name fs"
  using f s
proof (induction fs arbitrary: s)
  case Nil
  then show ?case using last_answer [of s T hook "[]"] by simp
next
  case (Cons f fs)
  have w: "read_on (check_done s) = s"
    using Cons.prems by (simp add: check_done_def read_on_def waiting_def set_reading)
  let ?s = "confirm (og_name f) s"
  have "awaiting s - {og_name f} = og_name ` set fs" using Cons.prems by (auto simp: image_iff)
  then have conf: "?s = s\<lparr>awaiting := og_name ` set fs, sent := sent s @ [og_name f]\<rparr>"
    using Cons.prems by (simp add: confirm_def)
  have ws: "waiting ?s" using Cons.prems(3) by (simp add: conf waiting_def)
  have pl: "plain_file T f" using Cons.prems by simp
  have "arrivals (map (got_frame now) (f # fs)) =
      arrival (Some M_GOT, rstrip_nul (latin1 (got_line now f))) @ arrivals (map (got_frame now) fs)"
    using arrivals_Cons [OF encode_enc(1) [of "latin1 (got_line now f)" M_GOT]] got_line_plain(1) [OF T pl now]
    by (simp add: got_frame_def latin1_def MAX_FRAME_def)
  moreover have "take_frame T (Some M_GOT, rstrip_nul (latin1 (got_line now f))) s = read_on (check_done ?s)"
    using Cons.prems(3) got_line_plain(2) [OF T pl now] by (simp add: waiting_def take_frame_def take_command_def)
  moreover have "run T hook (read_on (check_done ?s)) [Receiver_Step, Receiver_Step] = read_on (check_done ?s)"
  proof (cases "over (check_done ?s)")
    case True
    then show ?thesis by (simp add: run_def step_def ended_def read_on_def)
  next
    case False
    then show ?thesis using idle_steps [of "read_on (check_done ?s)" T hook] by (simp add: read_on_def)
  qed
  ultimately have "run T hook s (arrivals (map (got_frame now) (f # fs))) =
      run T hook (read_on (check_done ?s)) (arrivals (map (got_frame now) fs))"
    using Cons.prems(3) by (simp add: run_def arrival_def step_def ended_def waiting_def)
  then show ?case using Cons.IH [of ?s] Cons.prems ws unfolding w by (simp add: conf)
qed


lemma all_sent:
  assumes T: "unicode_laws T" and now: "now < 10 ^ 20" and f: "\<forall>f\<in>set fs. plain_file T f" "distinct (map og_name fs)"
  obtains k a where "run T hook (start_transfer False fs) (replicate k (Sender_Step now)) = a"
    "waiting a" "ready a" "awaiting a = og_name ` set fs" "\<not> wake a" "sent a = []" "got a = []" "received_bytes a = 0"
    "wire a = concat (map (file_frames now) fs) @ [enc (Some M_EOB) []]"
proof -
  define i0 where "i0 = start_transfer False []"
  note i0 = i0_def [unfolded start_transfer_def add_files.simps]
  obtain F where "add_files fs i0 = i0\<lparr>files := F, to_send := to_send i0 @ map (\<lambda>f. (f, 0)) fs\<rparr>"
    using add_files_fresh [OF f(2), of i0] by (auto simp: i0)
  moreover define i1 where "i1 = i0\<lparr>files := F, to_send := map (\<lambda>f. (f, 0)) fs\<rparr>"
  ultimately have F: "start_transfer False fs = i1" by (simp add: start_transfer_def i0)
  note i1 = i1_def [unfolded i0]
  obtain m where "sends T hook now i1 (i1\<lparr>to_send := [], awaiting := awaiting i1 \<union> og_name ` set fs, moved := m,
      wire := wire i1 @ concat (map (file_frames now) fs), sending := Sending\<rparr>)" (is "sends T hook now _ ?a1")
    using files_sent [OF T now f(1), of i1 hook] by (auto simp: i1 ended_def)
  moreover have "sends T hook now ?a1 (?a1\<lparr>eob_started := True, eob_sent := True,
      wire := wire ?a1 @ [enc (Some M_EOB) []], sending := Waiting\<rparr>)" (is "sends T hook now _ ?a")
    by (rule end_sent) (simp_all add: i1 ended_def)
  ultimately obtain k where "run T hook i1 (replicate k (Sender_Step now)) = ?a"
    using sends_trans unfolding sends_def by blast
  then show ?thesis using that [of k ?a] by (simp add: F) (simp add: i1 waiting_def ready_def)
qed

text \<open>The side that had nothing to send, once it has read all of the other's bytes.\<close>

lemma all_received:
  assumes T: "unicode_laws T" and now: "now < 10 ^ 20" and f: "\<forall>f\<in>set fs. plain_file T f"
    and b: "waiting b" "ready b" "awaiting b = {}" "got b = []" "received_bytes b = 0"
      "length fs \<le> MAX_FILES" "sum_list (map (\<lambda>f. length (og_data f)) fs) \<le> MAX_SESSION_BYTES"
  shows "outcome (run T hook b (arrivals (concat (map (file_frames now) fs) @ [enc (Some M_EOB) []]))) = Some (Inr ()) \<and>
    got (run T hook b (arrivals (concat (map (file_frames now) fs) @ [enc (Some M_EOB) []]))) = map as_received fs \<and>
    wire (run T hook b (arrivals (concat (map (file_frames now) fs) @ [enc (Some M_EOB) []]))) = wire b @ map (got_frame now) fs"
proof -
  obtain m where r: "run T hook b (arrivals (concat (map (file_frames now) fs) @ [enc (Some M_EOB) []])) =
      run T hook (received_all now fs m b) (arrivals [enc (Some M_EOB) []])"
    using files_arrive [OF T now f b(2), of hook "[enc (Some M_EOB) []]"] b by (auto simp: waiting_def)
  define b1 where "b1 = received_all now fs m b"
  define b2 where "b2 = b1\<lparr>rx_ended := insert (batch b1) (rx_ended b1)\<rparr>"
  have w: "waiting b1" "batch b1 \<notin> rx_ended b1"
    using b(1,2) by (simp_all add: b1_def received_all_def waiting_def ready_def)
  have "run T hook b1 (arrivals [enc (Some M_EOB) []]) = run T hook (read_on (check_done b2)) []"
    using eob_arrives [OF w, of T hook "[]"] by (simp add: b2_def)
  moreover have "waiting b2" "batch b2 \<in> rx_ended b2" "awaiting b2 = {}"
    using w(1) b(3) by (simp_all add: b2_def waiting_def) (simp add: b1_def received_all_def)
  note last_answer [OF this, of T hook "[]"]
  moreover have "wire (read_on (check_done b2)) = wire b1" by (simp add: read_on_def check_done_def b2_def Let_def)
  ultimately show ?thesis unfolding r b1_def [symmetric] using b(4) by (simp add: run_def b2_def) (simp add: b1_def received_all_def)
qed

text \<open>The side that sent, once it has read the answers.\<close>

lemma all_confirmed:
  assumes T: "unicode_laws T" and now: "now < 10 ^ 20" and f: "\<forall>f\<in>set fs. plain_file T f" "distinct (map og_name fs)"
    and a: "waiting a" "ready a" "awaiting a = og_name ` set fs" "sent a = []"
  shows "outcome (run T hook a (arrivals (enc (Some M_EOB) [] # map (got_frame now) fs))) = Some (Inr ()) \<and>
    sent (run T hook a (arrivals (enc (Some M_EOB) [] # map (got_frame now) fs))) = map og_name fs"
proof -
  have "batch a \<notin> rx_ended a" using a(2) by (simp add: ready_def)
  note eob_arrives [OF a(1) this]
  moreover have "waiting (a\<lparr>rx_ended := insert (batch a) (rx_ended a)\<rparr>)" using a(1) by (simp add: waiting_def)
  note answers_arrive [OF T now f this, of hook]
  ultimately show ?thesis using a(3,4) by simp
qed

text \<open>
  C9: a whole binkp/1.0 session. One side sends its files and its end of batch; the bytes it wrote, read
  frame by frame by the other side, which had nothing to send, give that side exactly the files, in order
  and byte for byte, under their safe names, and it returns; the bytes that side wrote in answer, read by
  the first, report every file as sent, and it returns as well.
\<close>

theorem binkp_session_exchanges_files:
  assumes T: "unicode_laws T" and now: "now < 10 ^ 20"
    and f: "list_all (plain_file T) fs" "distinct (map og_name fs)" "length fs \<le> MAX_FILES"
      "sum_list (map (\<lambda>f. length (og_data f)) fs) \<le> MAX_SESSION_BYTES"
  shows "\<exists>k l. let a = run T hook (start_transfer False fs) (replicate k (Sender_Step now));
                 b = run T hook (start_transfer False []) (replicate l (Sender_Step now) @ arrivals (wire a));
                 a' = run T hook a (arrivals (wire b))
             in outcome b = Some (Inr ()) \<and> got b = map as_received fs \<and>
                outcome a' = Some (Inr ()) \<and> sent a' = map og_name fs"
proof -
  have plain: "\<forall>f\<in>set fs. plain_file T f" using f(1) by (simp add: list_all_iff)
  obtain k a where a: "run T hook (start_transfer False fs) (replicate k (Sender_Step now)) = a"
    "waiting a" "ready a" "awaiting a = og_name ` set fs" "sent a = []"
    "wire a = concat (map (file_frames now) fs) @ [enc (Some M_EOB) []]"
    using all_sent [OF T now plain f(2)] by metis
  obtain l b where b: "run T hook (start_transfer False []) (replicate l (Sender_Step now)) = b"
    "waiting b" "ready b" "awaiting b = {}" "got b = []" "received_bytes b = 0" "wire b = [enc (Some M_EOB) []]"
    using all_sent [OF T now, of "[]" hook] by auto
  note ends = all_received [OF T now plain b(2-6) f(3,4), of hook] all_confirmed [OF T now plain f(2) a(2-5), of hook]
  show ?thesis
    by (intro exI [of _ k] exI [of _ l]) (use ends in \<open>simp add: Let_def run_append a(1,6) b(1,7)\<close>)
qed

theorem binkp_session_exchanges_files_witness:
  "\<exists>k l. let a = run small_tables False (start_transfer False [\<lparr>og_name = [97], og_data = [1, 2], og_mtime = 5\<rparr>, \<lparr>og_name = [98], og_data = [], og_mtime = 0\<rparr>])
                   (replicate k (Sender_Step 9));
             b = run small_tables False (start_transfer False []) (replicate l (Sender_Step 9) @ arrivals (wire a));
             a' = run small_tables False a (arrivals (wire b))
         in outcome b = Some (Inr ()) \<and> map rv_data (got b) = [[1, 2], []] \<and>
            outcome a' = Some (Inr ()) \<and> sent a' = [[97], [98]]"
proof -
  let ?fs = "[\<lparr>og_name = [97], og_data = [1, 2], og_mtime = 5\<rparr>, \<lparr>og_name = [98], og_data = [], og_mtime = 0\<rparr>]"
  have "list_all (plain_file small_tables) ?fs"
    by (simp add: plain_file_def plain_name_def MAX_FILE_BYTES_def small_tables_def ascii_space_def)
  moreover have "distinct (map og_name ?fs)" "length ?fs \<le> MAX_FILES"
      "sum_list (map (\<lambda>f. length (og_data f)) ?fs) \<le> MAX_SESSION_BYTES"
    by (simp_all add: MAX_FILES_def MAX_SESSION_BYTES_def)
  ultimately obtain k l where "let a = run small_tables False (start_transfer False ?fs) (replicate k (Sender_Step 9));
             b = run small_tables False (start_transfer False []) (replicate l (Sender_Step 9) @ arrivals (wire a));
             a' = run small_tables False a (arrivals (wire b))
         in outcome b = Some (Inr ()) \<and> got b = map as_received ?fs \<and>
            outcome a' = Some (Inr ()) \<and> sent a' = map og_name ?fs"
    using binkp_session_exchanges_files [OF small_tables_laws, of 9 ?fs False] by auto
  then show ?thesis unfolding Let_def by (intro exI [of _ k] exI [of _ l]) (simp add: as_received_def)
qed

section \<open>The safety theorems at a concrete session\<close>

lemma one_file_plain: "plain_file small_tables \<lparr>og_name = [97], og_data = [1, 2], og_mtime = 5\<rparr>"
  by (simp add: plain_file_def plain_name_def MAX_FILE_BYTES_def small_tables_def ascii_space_def)

theorem returned_session_delivered_witness:
  "\<exists>es. let s = run small_tables False (start_transfer False [\<lparr>og_name = [97], og_data = [1, 2], og_mtime = 5\<rparr>]) es
        in outcome s = Some (Inr ()) \<and> [97] \<in> dom (files s) \<and> sent s = [[97]]"
proof -
  let ?f = "\<lparr>og_name = [97], og_data = [1, 2], og_mtime = 5\<rparr>"
  obtain k a where a: "run small_tables False (start_transfer False [?f]) (replicate k (Sender_Step 9)) = a"
    "waiting a" "ready a" "awaiting a = og_name ` set [?f]" "sent a = []"
    using all_sent [of small_tables 9 "[?f]" False] small_tables_laws one_file_plain by auto
  define es where "es = replicate k (Sender_Step 9) @ arrivals (enc (Some M_EOB) [] # map (got_frame 9) [?f])"
  have o: "outcome (run small_tables False (start_transfer False [?f]) es) = Some (Inr ()) \<and>
      sent (run small_tables False (start_transfer False [?f]) es) = [[97]]"
    using all_confirmed [OF small_tables_laws, of 9 "[?f]" a False] a one_file_plain
    by (simp add: es_def run_append)
  then show ?thesis using returned_session_delivered [of small_tables False False "[?f]" es]
    by (intro exI [of _ es]) (simp add: Let_def)
qed

theorem sleeping_sender_is_owed_witness:
  "\<exists>es. let s = run small_tables False (start_transfer False [\<lparr>og_name = [97], og_data = [1, 2], og_mtime = 5\<rparr>]) es
        in sending s = Waiting \<and> \<not> wake s \<and> reading s = Reading \<and> eob_sent s \<and> to_send s = [] \<and> awaiting s = {[97]}"
proof -
  let ?f = "\<lparr>og_name = [97], og_data = [1, 2], og_mtime = 5\<rparr>"
  obtain k a where a: "run small_tables False (start_transfer False [?f]) (replicate k (Sender_Step 9)) = a"
    "waiting a" "ready a" "awaiting a = og_name ` set [?f]" "\<not> wake a"
    using all_sent [of small_tables 9 "[?f]" False] small_tables_laws one_file_plain by auto
  then show ?thesis
    using sleeping_sender_is_owed [of small_tables False False "[?f]" "replicate k (Sender_Step 9)"]
    by (intro exI [of _ "replicate k (Sender_Step 9)"]) (simp add: Let_def waiting_def)
qed

section \<open>A request that loses a session\<close>

text \<open>
  C15: \<open>isdigit\<close> accepts the superscript two, byte B2 of Latin-1, that \<open>int\<close> refuses. So an \<open>M_GET\<close> that
  names a file this side has to send, with that character as offset, ends the transfer with a
  \<open>ValueError\<close>, which is no \<open>BinkpError\<close>: the caller gets no result, although the files received so far
  have been confirmed and the remote has let go of them.
\<close>

theorem superscript_offset_loses_session:
  assumes T: "unicode_laws T" "ut_isdigit T 178" "ut_decimal T 178 = None" "\<not> ut_space T 178"
    and s: "s = run T hook (start_transfer multi fs) es" "reading s = Reading" "\<not> eob_started s"
    and n: "plain_name T n" "files s n = Some f"
  shows "outcome (run T hook (start_transfer multi fs) (es @ [Frame (Some M_GET, latin1 (join_with [32] [n, [48], [48], [178]]))])) =
      Some (Inl Value_Error) \<and>
    caller_result (run T hook (start_transfer multi fs) (es @ [Frame (Some M_GET, latin1 (join_with [32] [n, [48], [48], [178]]))])) = None \<and>
    got (run T hook (start_transfer multi fs) (es @ [Frame (Some M_GET, latin1 (join_with [32] [n, [48], [48], [178]]))])) = got s"
proof -
  let ?t = "join_with [32] [n, [48], [48], [178]]"
  have "\<forall>c\<in>set ?t. c < 256" using n(1) by (auto simp: plain_name_def)
  then have t: "unlatin1 (latin1 ?t) = ?t" by (rule unlatin1_latin1)
  have "\<not> ut_space T 48" using T(1) by (simp add: unicode_laws_def ascii_space_def)
  then have "py_words (ut_space T) ?t = [n, [48], [48], [178]]"
    using n(1) T(4) space32 [OF T(1)] by (intro py_words_join) (auto simp: plain_name_def)
  then have "resend T ?t s = None"
    using s(3) n(2) T(2,3) by (simp add: resend_def py_isdigit_def py_int_def)
  then have "take_frame T (Some M_GET, latin1 ?t) s = fails Value_Error s"
    using s(2) by (simp add: take_frame_def take_command_def t del: join_with.simps)
  moreover have "run T hook (start_transfer multi fs) (es @ [Frame (Some M_GET, latin1 ?t)]) =
      step T hook s (Frame (Some M_GET, latin1 ?t))"
    using s(1) by (simp add: run_def)
  moreover have "\<not> ended s" using s(2) by (simp add: ended_def)
  ultimately have "run T hook (start_transfer multi fs) (es @ [Frame (Some M_GET, latin1 ?t)]) = fails Value_Error s"
    by (simp add: step_def)
  then show ?thesis by (simp add: fails_def outcome_def caller_result_def)
qed

text \<open>One file to send; the remote's, one byte, has been received and confirmed.\<close>

theorem superscript_offset_loses_session_witness:
  "\<exists>es. let s = run small_tables False (start_transfer False [\<lparr>og_name = [97], og_data = [1, 2], og_mtime = 5\<rparr>]) es
        in outcome s = Some (Inl Value_Error) \<and> caller_result s = None \<and> map rv_data (got s) = [[7]]"
proof -
  let ?f = "\<lparr>og_name = [97], og_data = [1, 2], og_mtime = 5\<rparr>"
  let ?g = "\<lparr>og_name = [98], og_data = [7], og_mtime = 5\<rparr>"
  let ?a = "start_transfer False [?f]"
  have g: "plain_file small_tables ?g"
    by (simp add: plain_file_def plain_name_def MAX_FILE_BYTES_def small_tables_def ascii_space_def)
  obtain m where m: "run small_tables False ?a (arrivals (file_frames 9 ?g)) = received_all 9 [?g] m ?a"
    using file_arrives [OF small_tables_laws g, of 9 ?a False]
    by (auto simp: start_transfer_def ready_def MAX_FILES_def MAX_SESSION_BYTES_def)
  show ?thesis
    using superscript_offset_loses_session [of small_tables "received_all 9 [?g] m ?a" False False "[?f]"
        "arrivals (file_frames 9 ?g)" "[97]" ?f] m small_tables_laws
    by (intro exI [of _ "arrivals (file_frames 9 ?g) @ [Frame (Some M_GET, latin1 (join_with [32] [[97], [48], [48], [178]]))]"])
       (simp add: Let_def received_all_def start_transfer_def plain_name_def as_received_def,
        simp add: small_tables_def ascii_space_def is_digit_def)
qed

end
