(* ===== verification/Binkp_Handshake.thy ===== *)
theory Binkp_Handshake
  imports Binkp Ftn_Address "HOL-Library.AList"
begin

text \<open>
  The handshake of a BinkP session, \<^verbatim>\<open>src/netbbs/ftn/binkp.py\<close>: what each side sends, what it learns from the
  other's lines, and when a session is secure. The input is everything the other side will send: frames,
  or the error that ends the reading (a timeout, the deadline of the handshake, a closed connection). The
  keyed digest is a parameter (\<open>hmac\<close>), as are the date line and the fresh challenge; a write that
  fails ends the session and is not represented.
\<close>

section \<open>What is learned from a line\<close>

abbreviation (input) M_ADR :: nat where "M_ADR \<equiv> 1"
abbreviation (input) M_PWD :: nat where "M_PWD \<equiv> 2"
abbreviation (input) M_OK :: nat where "M_OK \<equiv> 4"

definition MAX_ADDRESSES :: nat where "MAX_ADDRESSES = 32"

record handshake =
  hs_challenge :: "ustr option"
  hs_version :: "nat \<times> nat"
  hs_offers_mb :: bool
  hs_info :: "(ustr \<times> ustr) list"
  hs_info_frames :: nat
  hs_addresses :: "ftn_address list"
  hs_secure :: bool
  hs_plaintext :: bool
  hs_multi_batch :: bool
  hs_established :: bool
  hs_sent :: "(nat \<times> ustr) list"

definition new_handshake :: handshake where
  "new_handshake = \<lparr>hs_challenge = None, hs_version = (1, 0), hs_offers_mb = False, hs_info = [],
     hs_info_frames = 0, hs_addresses = [], hs_secure = False, hs_plaintext = False, hs_multi_batch = False,
     hs_established = False, hs_sent = []\<rparr>"

definition lower1 :: "nat \<Rightarrow> nat" where
  "lower1 c = (if (65 \<le> c \<and> c \<le> 90) \<or> (192 \<le> c \<and> c \<le> 222 \<and> c \<noteq> 215) then c + 32 else c)"

definition starts_with :: "ustr \<Rightarrow> ustr \<Rightarrow> bool" where
  "starts_with p s \<longleftrightarrow> take (length p) s = p"

definition is_hex :: "nat \<Rightarrow> bool" where
  "is_hex c \<longleftrightarrow> is_digit c \<or> (97 \<le> c \<and> c \<le> 102) \<or> (65 \<le> c \<and> c \<le> 70)"

definition CRAM :: ustr where "CRAM = u ''CRAM-MD5-''"

definition note_option :: "ustr \<Rightarrow> handshake \<Rightarrow> handshake" where
  "note_option opt h =
     (if starts_with CRAM opt \<and> hs_challenge h = None then
        let c = drop (length CRAM) opt in
        if list_all is_hex c \<and> 2 \<le> length c \<and> length c \<le> 128 \<and> even (length c) then h\<lparr>hs_challenge := Some c\<rparr> else h
      else if opt = u ''MB'' then h\<lparr>hs_offers_mb := True\<rparr> else h)"

text \<open>\<open>binkp/(\d{1,3})\.(\d{1,3})\<close>, ignoring case, at the start of \<open>s\<close>, then at the first place it matches.\<close>

definition version_at :: "ustr \<Rightarrow> (nat \<times> nat) option" where
  "version_at s =
     (if map lower1 (take 6 s) = u ''binkp/'' then
        let a = takeWhile is_digit (drop 6 s); r = dropWhile is_digit (drop 6 s) in
        if 1 \<le> length a \<and> length a \<le> 3 \<and> r \<noteq> [] \<and> hd r = 46 then
          let b = take 3 (takeWhile is_digit (tl r)) in if b = [] then None else Some (undec a, undec b)
        else None
      else None)"

fun find_version :: "ustr \<Rightarrow> (nat \<times> nat) option" where
  "find_version [] = None"
| "find_version (c # s) = (case version_at (c # s) of Some v \<Rightarrow> Some v | None \<Rightarrow> find_version s)"

definition note_info :: "unitext \<Rightarrow> ustr \<Rightarrow> handshake \<Rightarrow> handshake" where
  "note_info T t h =
     (let key = first_field t; val = drop 1 (dropWhile (\<lambda>c. c \<noteq> 32) t) in
      if key = u ''OPT'' then fold note_option (py_words (ut_space T) val) h
      else
        let h = (if key = u ''VER'' then
                   (case find_version val of None \<Rightarrow> h | Some v \<Rightarrow> h\<lparr>hs_version := v\<rparr>)
                 else h)
        in if key \<noteq> [] \<and> length (hs_info h) < 32
           then h\<lparr>hs_info := AList.update (take 16 key) (take 200 val) (hs_info h)\<rparr> else h)"

section \<open>Reading\<close>

type_synonym input = "(binkp_error + nat option \<times> byte list) list"

definition read_command ::
  "unitext \<Rightarrow> handshake \<Rightarrow> input \<Rightarrow> binkp_error + (nat \<times> ustr) \<times> handshake \<times> input" where
  "read_command T h inp =
     (case inp of
        [] \<Rightarrow> Inl Remote_Closed
      | Inl e # _ \<Rightarrow> Inl e
      | Inr (None, _) # _ \<Rightarrow> Inl Binkp_Error
      | Inr (Some c, argument) # rest \<Rightarrow>
          let t = unlatin1 argument in
          if c = M_ERR \<or> c = M_BSY then Inl Binkp_Error
          else if c = M_NUL then
            let h = h\<lparr>hs_info_frames := hs_info_frames h + 1\<rparr> in
            if MAX_INFO_FRAMES < hs_info_frames h then Inl Binkp_Error
            else Inr ((c, t), note_info T t h, rest)
          else Inr ((c, t), h, rest))"

lemma read_command_shorter:
  "read_command T h inp = Inr (ct, h', rest) \<Longrightarrow> length rest < length inp"
  by (auto simp: read_command_def Let_def split: list.splits sum.splits prod.splits option.splits if_splits)

function read_until :: "unitext \<Rightarrow> nat \<Rightarrow> handshake \<Rightarrow> input \<Rightarrow> binkp_error + ustr \<times> handshake \<times> input" where
  "read_until T wanted h inp =
     (case read_command T h inp of
        Inl e \<Rightarrow> Inl e
      | Inr ((c, t), h', rest) \<Rightarrow>
          if c = wanted then Inr (t, h', rest)
          else if c \<noteq> M_NUL then Inl Binkp_Error
          else read_until T wanted h' rest)"
  by pat_completeness auto
termination by (relation "measure (\<lambda>(_, _, _, inp). length inp)") (auto dest: read_command_shorter)

declare read_until.simps [simp del]

definition says :: "nat \<Rightarrow> ustr \<Rightarrow> handshake \<Rightarrow> handshake" where
  "says c t h = h\<lparr>hs_sent := hs_sent h @ [(c, t)]\<rparr>"

definition read_until_address :: "unitext \<Rightarrow> handshake \<Rightarrow> input \<Rightarrow> binkp_error + handshake \<times> input" where
  "read_until_address T h inp =
     (case read_until T M_ADR h inp of
        Inl e \<Rightarrow> Inl e
      | Inr (t, h, rest) \<Rightarrow>
          let addresses = List.map_filter (parse_address T) (take MAX_ADDRESSES (py_words (ut_space T) t))
          in if addresses = [] then Inl Binkp_Error else Inr (h\<lparr>hs_addresses := addresses\<rparr>, rest))"

section \<open>Passwords\<close>

definition hex_digit :: "nat \<Rightarrow> nat" where
  "hex_digit c = (if is_digit c then c - 48 else if 97 \<le> c then c - 87 else c - 55)"

fun hex_bytes :: "ustr \<Rightarrow> byte list" where
  "hex_bytes (a # b # s) = of_nat (16 * hex_digit a + hex_digit b) # hex_bytes s"
| "hex_bytes _ = []"

text \<open>\<open>hmac key message\<close> is the hexadecimal digest; \<open>None\<close> is the \<open>UnicodeEncodeError\<close> of a password beyond
  Latin-1.\<close>

type_synonym hmac = "byte list \<Rightarrow> byte list \<Rightarrow> ustr"

definition cram_digest :: "hmac \<Rightarrow> ustr \<Rightarrow> ustr \<Rightarrow> ustr option" where
  "cram_digest hmac password challenge =
     (if list_all (\<lambda>c. c < 256) password then Some (hmac (latin1 password) (hex_bytes challenge)) else None)"

definition password_matches :: "hmac \<Rightarrow> ustr \<Rightarrow> ustr \<Rightarrow> ustr option \<Rightarrow> bool option" where
  "password_matches hmac offered expected challenge =
     (if starts_with CRAM offered then
        (case challenge of
           None \<Rightarrow> Some False
         | Some c \<Rightarrow>
             map_option (\<lambda>d. latin1 (map lower1 (drop (length CRAM) offered)) = latin1 d) (cram_digest hmac expected c))
      else Some (latin1 offered = latin1 expected))"

section \<open>Both roles\<close>

record system_info =
  si_name :: ustr
  si_sysop :: ustr
  si_location :: ustr
  si_version :: ustr
  si_time :: ustr

definition send_info :: "system_info \<Rightarrow> ustr option \<Rightarrow> handshake \<Rightarrow> handshake" where
  "send_info si challenge h =
     (let h = fold (says M_NUL)
                [u ''SYS '' @ si_name si, u ''ZYZ '' @ si_sysop si,
                 u ''LOC '' @ (if si_location si = [] then [45] else si_location si),
                 u ''VER '' @ si_version si @ [32] @ u ''binkp/1.1'', u ''TIME '' @ si_time si] h;
          h = (case challenge of
                 None \<Rightarrow> h
               | Some c \<Rightarrow> (says M_NUL (u ''OPT '' @ CRAM @ c) h)\<lparr>hs_challenge := Some c\<rparr>)
      in says M_NUL (u ''OPT MB'') h)"

definition introduces :: "system_info \<Rightarrow> ustr option \<Rightarrow> ftn_address list \<Rightarrow> handshake" where
  "introduces si challenge ours =
     says M_ADR (join_with [32] (map show_address ours)) (send_info si challenge new_handshake)"

definition establish :: "handshake \<Rightarrow> handshake" where
  "establish h = h\<lparr>hs_multi_batch := (fst (hs_version h) > 1 \<or> fst (hs_version h) = 1 \<and> snd (hs_version h) \<ge> 1 \<or> hs_offers_mb h),
     hs_established := True\<rparr>"

definition strip_text :: "unitext \<Rightarrow> ustr \<Rightarrow> ustr" where
  "strip_text T s = py_strip (ut_space T) s"

text \<open>The originating side's password line; \<open>None\<close> where the digest cannot be made.\<close>

definition log_in :: "hmac \<Rightarrow> ustr \<Rightarrow> handshake \<Rightarrow> handshake option" where
  "log_in hmac password h =
     (if password = [] then Some (says M_PWD [45] h)
      else case hs_challenge h of
        Some c \<Rightarrow> map_option (\<lambda>d. says M_PWD (CRAM @ d) h) (cram_digest hmac password c)
      | None \<Rightarrow> Some (says M_PWD password (h\<lparr>hs_plaintext := True\<rparr>)))"

text \<open>The originating side, from the first frame it reads.\<close>

definition originate ::
  "unitext \<Rightarrow> hmac \<Rightarrow> system_info \<Rightarrow> ftn_address list \<Rightarrow> ustr \<Rightarrow> ftn_address option \<Rightarrow> input \<Rightarrow>
   binkp_error + handshake \<times> input" where
  "originate T hmac si ours password expected inp =
     (case read_until_address T (introduces si None ours) inp of
        Inl e \<Rightarrow> Inl e
      | Inr (h, inp) \<Rightarrow>
          if (case expected of None \<Rightarrow> False | Some x \<Rightarrow> \<not> list_ex (\<lambda>a. same_node a x) (hs_addresses h)) then Inl Binkp_Error
          else
            (case log_in hmac password h of
               None \<Rightarrow> Inl Value_Error
             | Some h \<Rightarrow>
                 (case read_until T M_OK h inp of
                    Inl e \<Rightarrow> Inl e
                  | Inr (t, h, inp) \<Rightarrow>
                      Inr (establish (h\<lparr>hs_secure := (password \<noteq> [] \<and> map lower1 (strip_text T t) \<noteq> u ''non-secure'')\<rparr>), inp))))"

text \<open>The answering side; \<open>password_for\<close> gives the password held for a caller's addresses.\<close>

definition answer ::
  "unitext \<Rightarrow> hmac \<Rightarrow> system_info \<Rightarrow> ustr \<Rightarrow> ftn_address list \<Rightarrow> (ftn_address list \<Rightarrow> ustr option) \<Rightarrow> input \<Rightarrow>
   binkp_error + handshake \<times> input" where
  "answer T hmac si challenge ours password_for inp =
     (case read_until_address T (introduces si (Some challenge) ours) inp of
        Inl e \<Rightarrow> Inl e
      | Inr (h, inp) \<Rightarrow>
          (case read_until T M_PWD h inp of
             Inl e \<Rightarrow> Inl e
           | Inr (t, h, inp) \<Rightarrow>
               let offered = strip_text T t in
               (case password_for (hs_addresses h) of
                  None \<Rightarrow> Inr (establish (says M_OK (u ''non-secure'') h), inp)
                | Some expected \<Rightarrow>
                    if expected = [] then Inr (establish (says M_OK (u ''non-secure'') h), inp)
                    else
                      (case password_matches hmac offered expected (hs_challenge h) of
                         None \<Rightarrow> Inl Value_Error
                       | Some False \<Rightarrow> Inl Binkp_Error
                       | Some True \<Rightarrow>
                           Inr (establish (says M_OK (u ''secure'')
                             (h\<lparr>hs_secure := True, hs_plaintext := \<not> starts_with CRAM offered\<rparr>)), inp)))))"


section \<open>A secure session is a proven one\<close>

text \<open>Once there is a challenge, nothing the other side says replaces it.\<close>

lemma note_option_challenge: "hs_challenge h = Some c \<Longrightarrow> hs_challenge (note_option opt h) = Some c"
  by (simp add: note_option_def)

lemma note_options_challenge: "hs_challenge h = Some c \<Longrightarrow> hs_challenge (fold note_option opts h) = Some c"
  by (induction opts arbitrary: h) (simp_all add: note_option_challenge)

lemma note_info_challenge: "hs_challenge h = Some c \<Longrightarrow> hs_challenge (note_info T t h) = Some c"
  by (simp add: note_info_def note_options_challenge Let_def split: option.split)

text \<open>Reading changes what is known of the other side, and nothing else.\<close>

definition same_verdict :: "handshake \<Rightarrow> handshake \<Rightarrow> bool" where
  "same_verdict h h' \<longleftrightarrow> hs_addresses h' = hs_addresses h \<and> hs_secure h' = hs_secure h \<and> hs_plaintext h' = hs_plaintext h \<and>
     hs_sent h' = hs_sent h"

lemma same_verdict_trans: "same_verdict h h' \<Longrightarrow> same_verdict h' h'' \<Longrightarrow> same_verdict h h''"
  by (simp add: same_verdict_def)

lemma note_options_verdict: "same_verdict h (fold note_option opts h)"
  by (induction opts arbitrary: h) (simp_all add: same_verdict_def note_option_def Let_def)

lemma note_info_verdict: "same_verdict h (note_info T t h)"
  using note_options_verdict by (simp add: note_info_def Let_def) (simp add: same_verdict_def split: option.split)

lemma read_command_keeps:
  assumes "read_command T h inp = Inr ((c, t), h', rest)"
  shows "same_verdict h h' \<and> (\<forall>x. hs_challenge h = Some x \<longrightarrow> hs_challenge h' = Some x) \<and>
    (\<exists>k. inp = Inr (Some c, k) # rest \<and> t = unlatin1 k)"
proof -
  obtain k where inp: "inp = Inr (Some c, k) # rest" "t = unlatin1 k"
    using assms by (auto simp: read_command_def Let_def split: list.splits sum.splits prod.splits option.splits if_splits)
  have "h' = h \<or> h' = note_info T t (h\<lparr>hs_info_frames := hs_info_frames h + 1\<rparr>)"
    using assms unfolding inp by (auto simp: read_command_def Let_def split: if_splits)
  moreover have "same_verdict h (note_info T t (h\<lparr>hs_info_frames := hs_info_frames h + 1\<rparr>))"
    using note_info_verdict [of "h\<lparr>hs_info_frames := hs_info_frames h + 1\<rparr>" T t] by (simp add: same_verdict_def)
  ultimately show ?thesis using inp note_info_challenge by (auto simp: same_verdict_def)
qed

lemma read_until_keeps:
  assumes "read_until T w h inp = Inr (t, h', rest)"
  shows "same_verdict h h' \<and> (\<forall>x. hs_challenge h = Some x \<longrightarrow> hs_challenge h' = Some x) \<and>
    (\<exists>pre k. inp = pre @ Inr (Some w, k) # rest \<and> t = unlatin1 k)"
  using assms
proof (induction T w h inp rule: read_until.induct)
  case (1 T w h inp)
  obtain c t1 h1 rest1 where rc: "read_command T h inp = Inr ((c, t1), h1, rest1)"
    using 1(2) by (subst (asm) read_until.simps) (auto split: sum.splits)
  note keep = read_command_keeps [OF rc]
  show ?case
  proof (cases "c = w")
    case True
    then show ?thesis using 1(2) rc keep by (subst (asm) read_until.simps) auto
  next
    case False
    then have nul: "\<not> c \<noteq> M_NUL" and further: "read_until T w h1 rest1 = Inr (t, h', rest)"
      using 1(2) rc by (subst (asm) read_until.simps, auto split: if_splits)+
    obtain pre k where "rest1 = pre @ Inr (Some w, k) # rest" "t = unlatin1 k"
      using 1(1) [OF rc refl refl refl False nul further] by blast
    moreover obtain k1 where "inp = Inr (Some c, k1) # rest1" using keep by blast
    ultimately have "\<exists>pre k. inp = pre @ Inr (Some w, k) # rest \<and> t = unlatin1 k"
      by (intro exI [of _ "Inr (Some c, k1) # pre"] exI [of _ k]) simp
    then show ?thesis
      using 1(1) [OF rc refl refl refl False nul further] keep same_verdict_trans by blast
  qed
qed

lemma introduces_facts:
  "hs_challenge (introduces si (Some c) ours) = Some c" "\<not> hs_secure (introduces si x ours)"
  by (simp_all add: introduces_def send_info_def says_def new_handshake_def Let_def split: option.split)

section \<open>Two sides that share a password\<close>

text \<open>What the other side reads of the lines that were sent.\<close>

definition heard :: "(nat \<times> ustr) list \<Rightarrow> input" where
  "heard ls = map (\<lambda>(c, t). Inr (Some c, rstrip_nul (latin1 t))) ls"

lemma heard_append [simp]: "heard (as @ bs) = heard as @ heard bs"
  by (simp add: heard_def)

definition clean_line :: "ustr \<Rightarrow> bool" where
  "clean_line t \<longleftrightarrow> t \<noteq> [] \<and> (\<forall>c\<in>set t. 0 < c \<and> c < 256)"

lemma clean_line_heard: "clean_line t \<Longrightarrow> unlatin1 (rstrip_nul (latin1 t)) = t"
proof -
  assume t: "clean_line t"
  then have "last t \<in> set t" by (simp add: clean_line_def)
  then have "0 < last t" "last t < 256" using t by (auto simp: clean_line_def)
  moreover have "last (latin1 t) = of_nat (last t)" using t \<open>last t < 256\<close> by (simp add: latin1_def last_map clean_line_def)
  moreover have "(of_nat (last t) :: byte) \<noteq> 0"
  proof
    assume "(of_nat (last t) :: byte) = 0"
    then have "unat (of_nat (last t) :: byte) = 0" by simp
    then show False using calculation(1,2) by (simp add: unat_of_nat)
  qed
  ultimately have "rstrip_nul (latin1 t) = latin1 t"
    using t by (simp add: rstrip_nul_def dropWhile_id hd_rev latin1_def clean_line_def)
  moreover have "\<forall>c\<in>set t. c < 256" using t by (simp add: clean_line_def)
  then have "unlatin1 (latin1 t) = t" by (induction t) (auto simp: unlatin1_def latin1_def unat_of_nat)
  ultimately show ?thesis by simp
qed

definition learn :: "unitext \<Rightarrow> ustr list \<Rightarrow> handshake \<Rightarrow> handshake" where
  "learn T ts h = fold (\<lambda>t h. note_info T t (h\<lparr>hs_info_frames := hs_info_frames h + 1\<rparr>)) ts h"

lemma note_options_frames: "hs_info_frames (fold note_option opts h) = hs_info_frames h"
  by (induction opts arbitrary: h) (simp_all add: note_option_def Let_def)

lemma note_info_frames: "hs_info_frames (note_info T t h) = hs_info_frames h"
  by (simp add: note_info_def Let_def note_options_frames split: option.split)

lemma read_until_after_info:
  assumes "list_all clean_line ts" "hs_info_frames h + length ts \<le> MAX_INFO_FRAMES"
    and "c \<noteq> M_NUL" "c \<noteq> M_ERR" "c \<noteq> M_BSY" "clean_line t"
  shows "read_until T c h (heard (map (\<lambda>t. (M_NUL, t)) ts) @ heard [(c, t)] @ rest) = Inr (t, learn T ts h, rest)"
  using assms(1,2)
proof (induction ts arbitrary: h)
  case Nil
  then show ?case using assms(3-) clean_line_heard by (subst read_until.simps) (simp add: heard_def read_command_def learn_def)
next
  case (Cons a ts)
  let ?h = "note_info T a (h\<lparr>hs_info_frames := hs_info_frames h + 1\<rparr>)"
  have "read_command T h (heard (map (\<lambda>t. (M_NUL, t)) (a # ts)) @ heard [(c, t)] @ rest) =
      Inr ((M_NUL, a), ?h, heard (map (\<lambda>t. (M_NUL, t)) ts) @ heard [(c, t)] @ rest)"
    using Cons.prems clean_line_heard [of a] by (simp add: heard_def read_command_def Let_def)
  moreover have "read_until T c ?h (heard (map (\<lambda>t. (M_NUL, t)) ts) @ heard [(c, t)] @ rest) = Inr (t, learn T ts ?h, rest)"
    using Cons.prems by (intro Cons.IH) (simp_all add: note_info_frames)
  ultimately show ?case using assms(3) by (subst read_until.simps) (simp add: learn_def)
qed

subsection \<open>What the information lines teach\<close>

definition plain_text :: "ustr \<Rightarrow> bool" where
  "plain_text t \<longleftrightarrow> (\<forall>c\<in>set t. 0 < c \<and> c < 256)"

definition plain_info :: "system_info \<Rightarrow> bool" where
  "plain_info si \<longleftrightarrow> plain_text (si_name si) \<and> plain_text (si_sysop si) \<and> plain_text (si_location si) \<and>
     plain_text (si_version si) \<and> plain_text (si_time si)"

definition info_lines :: "system_info \<Rightarrow> ustr option \<Rightarrow> ustr list" where
  "info_lines si challenge =
     [u ''SYS '' @ si_name si, u ''ZYZ '' @ si_sysop si, u ''LOC '' @ (if si_location si = [] then [45] else si_location si),
      u ''VER '' @ si_version si @ [32] @ u ''binkp/1.1'', u ''TIME '' @ si_time si] @
     (case challenge of None \<Rightarrow> [] | Some c \<Rightarrow> [u ''OPT '' @ CRAM @ c]) @ [u ''OPT MB'']"

lemma introduces_lines:
  "hs_sent (introduces si challenge ours) =
     map (\<lambda>t. (M_NUL, t)) (info_lines si challenge) @ [(M_ADR, join_with [32] (map show_address ours))]"
  "hs_challenge (introduces si challenge ours) = challenge" "hs_info_frames (introduces si challenge ours) = 0"
  "hs_secure (introduces si challenge ours) = False"
  by (cases challenge; simp add: introduces_def send_info_def says_def new_handshake_def info_lines_def Let_def)+

lemma other_line:
  assumes "first_field t \<noteq> u ''OPT''"
  shows "hs_challenge (note_info T t h) = hs_challenge h" "hs_offers_mb (note_info T t h) = hs_offers_mb h"
  using assms by (simp_all add: note_info_def Let_def split: option.split)

definition hex_challenge :: "ustr \<Rightarrow> bool" where
  "hex_challenge c \<longleftrightarrow> list_all is_hex c \<and> 2 \<le> length c \<and> length c \<le> 128 \<and> even (length c)"

lemma hex_plain: "is_hex c \<Longrightarrow> 32 < c \<and> c < 128" by (auto simp: is_hex_def is_digit_def)

lemma cram_words:
  assumes "unicode_laws T" "list_all is_hex c" shows "py_words (ut_space T) (CRAM @ c) = [CRAM @ c]"
proof -
  have "\<forall>x\<in>set (CRAM @ c). 32 < x \<and> x < 128" using assms(2) hex_plain by (auto simp: CRAM_def list_all_iff)
  then have "\<forall>x\<in>set (CRAM @ c). \<not> ut_space T x"
    using assms(1) by (fastforce simp: unicode_laws_def ascii_space_def)
  then show ?thesis using py_words_word [of "CRAM @ c" "ut_space T" "[]"] by (simp add: CRAM_def)
qed

lemma cram_line:
  assumes "unicode_laws T" "hex_challenge c"
  shows "hs_challenge (note_info T (u ''OPT '' @ CRAM @ c) h) = (case hs_challenge h of None \<Rightarrow> Some c | Some x \<Rightarrow> Some x)"
    "hs_offers_mb (note_info T (u ''OPT '' @ CRAM @ c) h) = hs_offers_mb h"
proof -
  have "note_info T (u ''OPT '' @ CRAM @ c) h = note_option (CRAM @ c) h"
    using cram_words [OF assms(1), of c] assms(2)
    by (simp add: note_info_def first_field_def hex_challenge_def)
  then show "hs_challenge (note_info T (u ''OPT '' @ CRAM @ c) h) = (case hs_challenge h of None \<Rightarrow> Some c | Some x \<Rightarrow> Some x)"
    "hs_offers_mb (note_info T (u ''OPT '' @ CRAM @ c) h) = hs_offers_mb h"
    using assms(2) by (simp_all add: note_option_def starts_with_def hex_challenge_def CRAM_def split: option.split)
qed

lemma mb_line:
  assumes "unicode_laws T"
  shows "hs_challenge (note_info T (u ''OPT MB'') h) = hs_challenge h" "hs_offers_mb (note_info T (u ''OPT MB'') h)"
proof -
  have "\<not> ut_space T 77" "\<not> ut_space T 66" using assms by (simp_all add: unicode_laws_def ascii_space_def)
  then have "py_words (ut_space T) [77, 66] = [[77, 66]]" using py_words_word [of "[77, 66]" "ut_space T" "[]"] by simp
  then have "note_info T (u ''OPT MB'') h = h\<lparr>hs_offers_mb := True\<rparr>"
    by (simp add: note_info_def first_field_def note_option_def starts_with_def CRAM_def)
  then show "hs_challenge (note_info T (u ''OPT MB'') h) = hs_challenge h" "hs_offers_mb (note_info T (u ''OPT MB'') h)"
    by simp_all
qed

lemma lines_taught:
  assumes T: "unicode_laws T" and c: "case challenge of None \<Rightarrow> True | Some c \<Rightarrow> hex_challenge c"
  shows "hs_challenge (learn T (info_lines si challenge) h) = (case hs_challenge h of None \<Rightarrow> challenge | Some x \<Rightarrow> Some x)"
    "hs_offers_mb (learn T (info_lines si challenge) h)"
proof -
  have keys: "first_field (u ''SYS '' @ x) \<noteq> u ''OPT''" "first_field (u ''ZYZ '' @ x) \<noteq> u ''OPT''"
    "first_field (u ''LOC '' @ x) \<noteq> u ''OPT''" "first_field (u ''VER '' @ x) \<noteq> u ''OPT''"
    "first_field (u ''TIME '' @ x) \<noteq> u ''OPT''" for x by (simp_all add: first_field_def)
  note other = other_line [OF keys(1)] other_line [OF keys(2)] other_line [OF keys(3)] other_line [OF keys(4)] other_line [OF keys(5)]
  show "hs_challenge (learn T (info_lines si challenge) h) = (case hs_challenge h of None \<Rightarrow> challenge | Some x \<Rightarrow> Some x)"
    using c cram_line [OF T] by (cases challenge) (simp_all add: learn_def info_lines_def other mb_line [OF T] del: u_Cons split: option.split)
  show "hs_offers_mb (learn T (info_lines si challenge) h)"
    by (cases challenge) (simp_all add: learn_def info_lines_def mb_line [OF T] del: u_Cons)
qed

lemma learn_verdict: "same_verdict h (learn T ts h)"
proof (induction ts arbitrary: h)
  case (Cons t ts)
  have "same_verdict h (note_info T t (h\<lparr>hs_info_frames := hs_info_frames h + 1\<rparr>))"
    using note_info_verdict [of "h\<lparr>hs_info_frames := hs_info_frames h + 1\<rparr>" T t] by (simp add: same_verdict_def)
  then show ?case using Cons same_verdict_trans by (fastforce simp: learn_def)
qed (simp add: learn_def same_verdict_def)

lemma info_lines_clean:
  assumes "plain_info si" "case challenge of None \<Rightarrow> True | Some c \<Rightarrow> hex_challenge c"
  shows "list_all clean_line (info_lines si challenge)"
  using assms hex_plain
  by (cases challenge) (fastforce simp: info_lines_def clean_line_def plain_info_def plain_text_def hex_challenge_def
      CRAM_def list_all_iff)+


subsection \<open>The addresses and the proof\<close>

definition presentable :: "ftn_address list \<Rightarrow> bool" where
  "presentable as \<longleftrightarrow> as \<noteq> [] \<and> length as \<le> MAX_ADDRESSES \<and> list_all address_ok as"

lemma addresses_read:
  assumes T: "unicode_laws T" and a: "presentable as"
    and ts: "list_all clean_line ts" "hs_info_frames h + length ts \<le> MAX_INFO_FRAMES"
  shows "read_until_address T h (heard (map (\<lambda>t. (M_NUL, t)) ts) @ heard [(M_ADR, join_with [32] (map show_address as))] @ rest) =
    Inr ((learn T ts h)\<lparr>hs_addresses := as\<rparr>, rest)"
proof -
  let ?l = "join_with [32] (map show_address as)"
  have ok: "\<forall>a\<in>set as. address_ok a" using a by (simp add: presentable_def list_all_iff)
  have ne: "show_address x \<noteq> []" for x by (simp add: show_address_def)
  have chars: "c \<in> set (join_with [32] ps) \<Longrightarrow> c = 32 \<or> (\<exists>p\<in>set ps. c \<in> set p)" for c :: nat and ps
    by (induction "[32] :: nat list" ps rule: join_with.induct) auto
  have "?l \<noteq> []" using a ne by (cases as; cases "tl as") (auto simp: presentable_def)
  then have line: "clean_line ?l"
    unfolding clean_line_def using chars ok show_address_plain [OF T] by fastforce
  have words: "py_words (ut_space T) ?l = map show_address as"
    using ok show_address_plain [OF T] ne T
    by (intro py_words_join) (auto simp: unicode_laws_def ascii_space_def)
  have "List.map_filter (parse_address T) (map show_address as) = as"
    using ok by (induction as) (simp_all add: List.map_filter_simps parse_show_address [OF T])
  then show ?thesis
    using read_until_after_info [OF ts, of M_ADR ?l T rest] line words a
    by (simp add: read_until_address_def presentable_def)
qed

definition printable :: "ustr \<Rightarrow> bool" where
  "printable p \<longleftrightarrow> p \<noteq> [] \<and> (\<forall>c\<in>set p. 32 < c \<and> c < 127)"

definition hex_digests :: "hmac \<Rightarrow> bool" where
  "hex_digests hmac \<longleftrightarrow> (\<forall>k m. hmac k m \<noteq> [] \<and> (\<forall>c\<in>set (hmac k m). is_digit c \<or> 97 \<le> c \<and> c \<le> 102))"

lemma digest_line:
  assumes T: "unicode_laws T" and d: "d \<noteq> []" "\<forall>c\<in>set d. is_digit c \<or> 97 \<le> c \<and> c \<le> 102"
  shows "clean_line (CRAM @ d)" "strip_text T (CRAM @ d) = CRAM @ d" "map lower1 d = d" "starts_with CRAM (CRAM @ d)"
proof -
  have chars: "\<forall>c\<in>set (CRAM @ d). 32 < c \<and> c < 128" using d(2) by (auto simp: CRAM_def is_digit_def)
  then have nsp: "\<forall>c\<in>set (CRAM @ d). \<not> ut_space T c" using T by (fastforce simp: unicode_laws_def ascii_space_def)
  have "hd (CRAM @ d) \<in> set (CRAM @ d)" "last (CRAM @ d) \<in> set (CRAM @ d)" using d(1) by (auto simp: CRAM_def)
  then show "strip_text T (CRAM @ d) = CRAM @ d"
    unfolding strip_text_def using nsp d(1) by (intro py_strip_id) auto
  have "0 < x \<and> x < 256" if "x \<in> set (CRAM @ d)" for x using bspec [OF chars that] by simp
  then show "clean_line (CRAM @ d)" using d(1) by (simp add: clean_line_def)
  show "map lower1 d = d" using d(2) by (intro map_idI) (auto simp: lower1_def is_digit_def)
  show "starts_with CRAM (CRAM @ d)" by (simp add: starts_with_def)
qed

lemma password_proven:
  assumes "printable p" "\<forall>c\<in>set d. is_digit c \<or> 97 \<le> c \<and> c \<le> 102" "d = hmac (latin1 p) (hex_bytes c)"
  shows "cram_digest hmac p c = Some d" "password_matches hmac (CRAM @ d) p (Some c) = Some True"
proof -
  have "list_all (\<lambda>c. c < 256) p" using assms(1) by (fastforce simp: printable_def list_all_iff)
  then show "cram_digest hmac p c = Some d" using assms(3) by (simp add: cram_digest_def)
  moreover have "map lower1 d = d" using assms(2) by (intro map_idI) (auto simp: lower1_def is_digit_def)
  ultimately show "password_matches hmac (CRAM @ d) p (Some c) = Some True"
    by (simp add: password_matches_def starts_with_def)
qed

lemma one_line_read:
  assumes "c \<noteq> M_NUL" "c \<noteq> M_ERR" "c \<noteq> M_BSY" "clean_line t" "hs_info_frames h \<le> MAX_INFO_FRAMES"
  shows "read_until T c h (heard [(c, t)]) = Inr (t, h, [])"
  using read_until_after_info [of "[]" h c t T "[]"] assms by (simp add: heard_def learn_def)

lemma learn_frames: "hs_info_frames (learn T ts h) = hs_info_frames h + length ts"
  by (induction ts arbitrary: h) (simp_all add: learn_def note_info_frames)

lemma handshake_runs:
  assumes T: "unicode_laws T" and hm: "hex_digests hmac" and c: "hex_challenge c" and p: "printable p"
    and si: "plain_info si" "plain_info si'" and as: "presentable ours" "presentable theirs"
    and pf: "password_for ours = Some p"
  shows "\<exists>a b. originate T hmac si ours p (Some (hd theirs)) (heard (hs_sent b)) = Inr (a, []) \<and>
    answer T hmac si' c theirs password_for (heard (hs_sent a)) = Inr (b, []) \<and>
    hs_secure a \<and> hs_secure b \<and> \<not> hs_plaintext a \<and> \<not> hs_plaintext b \<and>
    hs_multi_batch a \<and> hs_multi_batch b \<and> hs_addresses a = theirs \<and> hs_addresses b = ours \<and>
    hs_sent a = hs_sent (introduces si None ours) @ [(M_PWD, CRAM @ hmac (latin1 p) (hex_bytes c))] \<and>
    hs_sent b = hs_sent (introduces si' (Some c) theirs) @ [(M_OK, u ''secure'')]"
proof -
  define d where "d = hmac (latin1 p) (hex_bytes c)"
  have d: "d \<noteq> []" "\<forall>x\<in>set d. is_digit x \<or> 97 \<le> x \<and> x \<le> 102" using hm by (simp_all add: hex_digests_def d_def)
  note dl = digest_line [OF T d] and pp = password_proven [where hmac = hmac and c = c, OF p d(2) d_def]
  let ?ia = "introduces si None ours" and ?ib = "introduces si' (Some c) theirs"
  define a1 where "a1 = (learn T (info_lines si' (Some c)) ?ia)\<lparr>hs_addresses := theirs\<rparr>"
  define b1 where "b1 = (learn T (info_lines si None) ?ib)\<lparr>hs_addresses := ours\<rparr>"
  define a where "a = establish ((says M_PWD (CRAM @ d) a1)\<lparr>hs_secure := True\<rparr>)"
  define b where "b = establish (says M_OK (u ''secure'') (b1\<lparr>hs_secure := True, hs_plaintext := False\<rparr>))"
  have a1: "hs_challenge a1 = Some c" "hs_offers_mb a1" "hs_info_frames a1 = 7" "\<not> hs_plaintext a1" "hs_sent a1 = hs_sent ?ia"
    using lines_taught [OF T, of "Some c" si' ?ia] learn_verdict [of ?ia T] c
    by (simp_all add: a1_def introduces_lines learn_frames same_verdict_def)
       (simp_all add: info_lines_def introduces_def send_info_def says_def new_handshake_def Let_def)
  have b1: "hs_challenge b1 = Some c" "hs_offers_mb b1" "hs_info_frames b1 = 6" "hs_sent b1 = hs_sent ?ib"
    using lines_taught [OF T, of None si ?ib] learn_verdict [of ?ib T]
    by (simp_all add: b1_def introduces_lines learn_frames same_verdict_def) (simp add: info_lines_def)
  have heard_b: "heard (hs_sent b) = heard (map (\<lambda>t. (M_NUL, t)) (info_lines si' (Some c))) @
      heard [(M_ADR, join_with [32] (map show_address theirs))] @ heard [(M_OK, u ''secure'')]"
    by (simp add: b_def establish_def says_def b1(4) introduces_lines heard_def)
  have heard_a: "heard (hs_sent a) = heard (map (\<lambda>t. (M_NUL, t)) (info_lines si None)) @
      heard [(M_ADR, join_with [32] (map show_address ours))] @ heard [(M_PWD, CRAM @ d)]"
    by (simp add: a_def establish_def says_def a1(5) introduces_lines heard_def)
  have ra: "read_until_address T ?ia (heard (hs_sent b)) = Inr (a1, heard [(M_OK, u ''secure'')])"
    unfolding heard_b a1_def using info_lines_clean [OF si(2), of "Some c"] c
    by (intro addresses_read [OF T as(2)]) (simp_all add: introduces_lines, simp add: info_lines_def MAX_INFO_FRAMES_def)
  have rb: "read_until_address T ?ib (heard (hs_sent a)) = Inr (b1, heard [(M_PWD, CRAM @ d)])"
    unfolding heard_a b1_def using info_lines_clean [OF si(1), of None]
    by (intro addresses_read [OF T as(1)]) (simp_all add: introduces_lines, simp add: info_lines_def MAX_INFO_FRAMES_def)
  have "clean_line (u ''secure'')" by (simp add: clean_line_def)
  then have ok: "read_until T M_OK (says M_PWD (CRAM @ d) a1) (heard [(M_OK, u ''secure'')]) =
      Inr (u ''secure'', says M_PWD (CRAM @ d) a1, [])"
    using a1(3) by (intro one_line_read) (simp_all add: says_def MAX_INFO_FRAMES_def)
  have pwd: "read_until T M_PWD b1 (heard [(M_PWD, CRAM @ d)]) = Inr (CRAM @ d, b1, [])"
    using b1(3) dl(1) by (intro one_line_read) (simp_all add: MAX_INFO_FRAMES_def)
  have "\<not> ut_space T 115" "\<not> ut_space T 101" using T by (simp_all add: unicode_laws_def ascii_space_def)
  then have "strip_text T (u ''secure'') = u ''secure''" unfolding strip_text_def by (intro py_strip_id) simp_all
  then have "map lower1 (strip_text T (u ''secure'')) \<noteq> u ''non-secure''" by (simp add: lower1_def)
  moreover have "theirs \<noteq> []" "p \<noteq> []" using as(2) p by (simp_all add: presentable_def printable_def)
  moreover have "list_ex (\<lambda>x. same_node x (hd theirs)) (hs_addresses a1)"
    using \<open>theirs \<noteq> []\<close> by (cases theirs) (simp_all add: a1_def same_node_def)
  ultimately have "originate T hmac si ours p (Some (hd theirs)) (heard (hs_sent b)) = Inr (a, [])"
    using ra a1(1) pp(1) ok by (simp add: originate_def log_in_def a_def)
  moreover have "answer T hmac si' c theirs password_for (heard (hs_sent a)) = Inr (b, [])"
    using rb pwd b1(1) pf \<open>p \<noteq> []\<close> dl(2,4) pp(2) by (simp add: answer_def b_def) (simp add: b1_def)
  ultimately show ?thesis
    using a1 b1 by (intro exI [of _ a] exI [of _ b]) (simp add: a_def b_def establish_def says_def d_def, simp add: a1_def b1_def)
qed

section \<open>What a handshake establishes\<close>

text \<open>A digest that is always the same, two nodes and a password.\<close>

definition one_digest :: hmac where "one_digest k m = [97, 49]"
definition node_a :: ftn_address where "node_a = \<lparr>a_zone = 2, a_net = 240, a_node = 1, a_point = 0, a_domain = None\<rparr>"
definition node_b :: ftn_address where "node_b = \<lparr>a_zone = 2, a_net = 240, a_node = 9, a_point = 0, a_domain = None\<rparr>"
definition plain_system :: system_info where
  "plain_system = \<lparr>si_name = [65], si_sysop = [66], si_location = [], si_version = [67], si_time = [68]\<rparr>"

lemma example_hypotheses:
  "hex_digests one_digest" "hex_challenge [48, 102]" "printable [120, 121]" "plain_info plain_system"
  "presentable [node_a]" "presentable [node_b]"
  by (simp_all add: hex_digests_def one_digest_def is_digit_def hex_challenge_def is_hex_def printable_def plain_info_def
      plain_text_def plain_system_def presentable_def MAX_ADDRESSES_def node_a_def node_b_def address_ok_def MAX_NUMBER_def)

text \<open>
  C11: an answered session is secure exactly when this node holds a password for the addresses the caller
  presented, and then the caller has proved it: it sent that password, or the digest of this session's own
  challenge keyed by it, whatever else it said before.
\<close>

theorem secure_session_is_proven:
  assumes "answer T hmac si challenge ours password_for inp = Inr (h, rest)"
  shows "hs_secure h = (\<exists>p. password_for (hs_addresses h) = Some p \<and> p \<noteq> []) \<and>
    (hs_secure h \<longrightarrow>
       (\<exists>p k. password_for (hs_addresses h) = Some p \<and> Inr (Some M_PWD, k) \<in> set inp \<and>
          (latin1 (strip_text T (unlatin1 k)) = latin1 p \<or>
           (\<exists>d. cram_digest hmac p challenge = Some d \<and> starts_with CRAM (strip_text T (unlatin1 k)) \<and>
             latin1 (map lower1 (drop (length CRAM) (strip_text T (unlatin1 k)))) = latin1 d))))"
proof -
  let ?h0 = "introduces si (Some challenge) ours"
  obtain h1 inp1 where r1: "read_until_address T ?h0 inp = Inr (h1, inp1)"
    using assms by (auto simp: answer_def split: sum.splits)
  then obtain t0 h0' where r0: "read_until T M_ADR ?h0 inp = Inr (t0, h0', inp1)" and h1: "h1 = h0'\<lparr>hs_addresses := hs_addresses h1\<rparr>"
    by (auto simp: read_until_address_def Let_def split: sum.splits if_splits)
  obtain t h2 rest2 where r2: "read_until T M_PWD h1 inp1 = Inr (t, h2, rest2)"
    using assms r1 by (auto simp: answer_def split: sum.splits)
  note k0 = read_until_keeps [OF r0] and k2 = read_until_keeps [OF r2]
  have "hs_challenge h0' = Some challenge" "\<not> hs_secure h0'"
    using k0 introduces_facts by (auto simp: same_verdict_def)
  then have "hs_challenge h1 = Some challenge" "\<not> hs_secure h1" by (subst h1, simp)+
  then have h2: "hs_challenge h2 = Some challenge" "\<not> hs_secure h2" "hs_addresses h2 = hs_addresses h1"
    using k2 by (auto simp: same_verdict_def)
  obtain pre k where k: "inp1 = pre @ Inr (Some M_PWD, k) # rest2" "t = unlatin1 k" using k2 by blast
  moreover have "set inp1 \<subseteq> set inp" using k0 by auto
  ultimately have mem: "Inr (Some M_PWD, k) \<in> set inp" by auto
  show ?thesis
  proof (cases "\<exists>p. password_for (hs_addresses h2) = Some p \<and> p \<noteq> []")
    case False
    then have "h = establish (says M_OK (u ''non-secure'') h2)"
      using assms r1 r2 by (auto simp: answer_def Let_def split: option.splits if_splits)
    then show ?thesis using False h2(2) by (simp add: establish_def says_def)
  next
    case True
    then obtain p where p: "password_for (hs_addresses h2) = Some p" "p \<noteq> []" by blast
    have m: "password_matches hmac (strip_text T t) p (Some challenge) = Some True"
      and h: "h = establish (says M_OK (u ''secure'') (h2\<lparr>hs_secure := True, hs_plaintext := \<not> starts_with CRAM (strip_text T t)\<rparr>))"
      using assms r1 r2 p h2(1) by (auto simp: answer_def Let_def split: option.splits bool.splits if_splits)
    have "latin1 (strip_text T (unlatin1 k)) = latin1 p \<or>
           (\<exists>d. cram_digest hmac p challenge = Some d \<and> starts_with CRAM (strip_text T (unlatin1 k)) \<and>
             latin1 (map lower1 (drop (length CRAM) (strip_text T (unlatin1 k)))) = latin1 d)"
      using m by (auto simp: password_matches_def k(2) split: if_splits)
    then show ?thesis using p mem by (auto simp: h establish_def says_def)
  qed
qed


theorem secure_session_is_proven_witness:
  "\<exists>inp h p. answer small_tables one_digest plain_system [48, 102] [node_b] (\<lambda>as. Some [120, 121]) inp = Inr (h, []) \<and>
     hs_secure h \<and> cram_digest one_digest p [48, 102] = Some [97, 49] \<and> p = [120, 121]"
proof -
  obtain inp h where a: "answer small_tables one_digest plain_system [48, 102] [node_b] (\<lambda>as. Some [120, 121]) inp = Inr (h, [])"
    using handshake_runs [OF small_tables_laws example_hypotheses(1-4) example_hypotheses(4-6), where password_for = "\<lambda>as. Some [120, 121]"]
    by blast
  have "hs_secure h" using secure_session_is_proven [OF a] by simp
  then show ?thesis using a by (intro exI [of _ inp] exI [of _ h] exI [of _ "[120, 121]"]) (simp add: cram_digest_def one_digest_def)
qed

end
