(* ===== verification/Binkp_Agreement.thy ===== *)
theory Binkp_Agreement
  imports Binkp_Handshake "HOL-Library.Sublist"
begin

text \<open>
  Two handshakes of \<^verbatim>\<open>src/netbbs/ftn/binkp.py\<close> against each other, line by line: each side has written what
  it can write from the lines it has heard so far, and the connection delivers what was written in order,
  one line at a time, in either direction. No order of deliveries leaves both sides waiting.
\<close>

section \<open>What a side has written\<close>

text \<open>
  The lines the originating side has written once it has heard \<open>inp\<close> and waits for more or is done: its
  introduction, and its password line as soon as the other side's addresses are read. (The \<open>M_ERR\<close> of a
  side that gives up is left out.)
\<close>

definition caller_wrote ::
  "unitext \<Rightarrow> hmac \<Rightarrow> system_info \<Rightarrow> ftn_address list \<Rightarrow> ustr \<Rightarrow> ftn_address option \<Rightarrow> input \<Rightarrow> (nat \<times> ustr) list" where
  "caller_wrote T hmac si ours password expected inp =
     (case read_until_address T (introduces si None ours) inp of
        Inl _ \<Rightarrow> hs_sent (introduces si None ours)
      | Inr (h, _) \<Rightarrow>
          if (case expected of None \<Rightarrow> False | Some x \<Rightarrow> \<not> list_ex (\<lambda>a. same_node a x) (hs_addresses h)) then hs_sent h
          else (case log_in hmac password h of None \<Rightarrow> hs_sent h | Some h \<Rightarrow> hs_sent h))"

text \<open>The answering side writes its introduction, and the verdict when it has read the password line.\<close>

definition answerer_wrote ::
  "unitext \<Rightarrow> hmac \<Rightarrow> system_info \<Rightarrow> ustr \<Rightarrow> ftn_address list \<Rightarrow> (ftn_address list \<Rightarrow> ustr option) \<Rightarrow> input \<Rightarrow> (nat \<times> ustr) list" where
  "answerer_wrote T hmac si challenge ours password_for inp =
     (case answer T hmac si challenge ours password_for inp of
        Inl _ \<Rightarrow> hs_sent (introduces si (Some challenge) ours)
      | Inr (h, _) \<Rightarrow> hs_sent h)"

text \<open>A side that is done has written what its result records.\<close>

lemma read_until_address_sent:
  assumes "read_until_address T h inp = Inr (h', rest)" shows "hs_sent h' = hs_sent h"
proof -
  obtain t h1 as where r: "read_until T M_ADR h inp = Inr (t, h1, rest)" "h' = h1\<lparr>hs_addresses := as\<rparr>"
    using assms by (auto simp: read_until_address_def Let_def split: sum.splits if_splits)
  then show ?thesis using read_until_keeps [OF r(1)] by (simp add: same_verdict_def)
qed

lemma caller_wrote_result:
  assumes "originate T hmac si ours password expected inp = Inr (h, rest)"
  shows "caller_wrote T hmac si ours password expected inp = hs_sent h"
  using assms read_until_keeps
  by (fastforce simp: originate_def caller_wrote_def establish_def same_verdict_def
      split: sum.splits if_splits option.splits)

lemma answerer_wrote_result:
  "answer T hmac si c ours password_for inp = Inr (h, rest) \<Longrightarrow>
    answerer_wrote T hmac si c ours password_for inp = hs_sent h"
  by (simp add: answerer_wrote_def)

section \<open>Deliveries\<close>

text \<open>What each side has heard; the next line one side wrote and the other has not heard may arrive.\<close>

inductive delivered ::
  "((nat \<times> ustr) list \<Rightarrow> (nat \<times> ustr) list) \<Rightarrow> ((nat \<times> ustr) list \<Rightarrow> (nat \<times> ustr) list) \<Rightarrow>
    (nat \<times> ustr) list \<Rightarrow> (nat \<times> ustr) list \<Rightarrow> bool" for A B where
  nothing: "delivered A B [] []"
| to_caller: "delivered A B ra rb \<Longrightarrow> length ra < length (B rb) \<Longrightarrow> delivered A B (ra @ [B rb ! length ra]) rb"
| to_answerer: "delivered A B ra rb \<Longrightarrow> length rb < length (A ra) \<Longrightarrow> delivered A B ra (rb @ [A ra ! length rb])"

text \<open>
  Two sides that introduce themselves unasked, one of which goes on when it has heard the other's
  introduction, and the other when it has heard everything.
\<close>

definition two_sides ::
  "((nat \<times> ustr) list \<Rightarrow> (nat \<times> ustr) list) \<Rightarrow> ((nat \<times> ustr) list \<Rightarrow> (nat \<times> ustr) list) \<Rightarrow>
    (nat \<times> ustr) list \<Rightarrow> (nat \<times> ustr) list \<Rightarrow> (nat \<times> ustr) list \<Rightarrow> (nat \<times> ustr) list \<Rightarrow> bool" where
  "two_sides A B ia fa ib fb \<longleftrightarrow> prefix ia fa \<and> prefix ib fb \<and>
     (\<forall>ra. prefix ra fb \<longrightarrow> A ra = (if length ra < length ib then ia else fa)) \<and>
     (\<forall>rb. prefix rb fa \<longrightarrow> B rb = (if length rb < length fa then ib else fb))"

lemma next_prefix: "prefix r w \<Longrightarrow> prefix v w \<Longrightarrow> length r < length v \<Longrightarrow> prefix (r @ [v ! length r]) w"
proof -
  assume r: "prefix r w" and v: "prefix v w" and l: "length r < length v"
  have n: "length r < length w" using l prefix_length_le [OF v] by simp
  have "v ! length r = w ! length r" using v l by (auto simp: prefix_def nth_append)
  moreover have "r = take (length r) w" using r by (auto simp: prefix_def)
  ultimately have "r @ [v ! length r] = take (Suc (length r)) w"
    using take_Suc_conv_app_nth [OF n] by simp
  then show ?thesis by (simp add: take_is_prefix)
qed

lemma heard_prefix:
  assumes "two_sides A B ia fa ib fb"
  shows "delivered A B ra rb \<Longrightarrow> prefix ra fb \<and> prefix rb fa"
proof (induction rule: delivered.induct)
  case (to_caller ra rb)
  moreover have "prefix (B rb) fb" using to_caller assms by (simp add: two_sides_def)
  ultimately show ?case using next_prefix by blast
next
  case (to_answerer ra rb)
  moreover have "prefix (A ra) fa" using to_answerer assms by (simp add: two_sides_def)
  ultimately show ?case using next_prefix by blast
qed simp

lemma never_stuck:
  assumes t: "two_sides A B ia fa ib fb" and "delivered A B ra rb"
  shows "length ra < length (B rb) \<or> length rb < length (A ra) \<or> ra = fb \<and> rb = fa"
proof -
  have p: "prefix ra fb" "prefix rb fa" using heard_prefix [OF assms] by simp_all
  note caller = t [unfolded two_sides_def, THEN conjunct2, THEN conjunct2, THEN conjunct1, rule_format]
    and answerer = t [unfolded two_sides_def, THEN conjunct2, THEN conjunct2, THEN conjunct2, rule_format]
  have "ra = fb \<and> rb = fa" if "length (B rb) \<le> length ra" "length (A ra) \<le> length rb"
  proof -
    have "length fa \<le> length rb"
    proof (rule ccontr)
      assume "\<not> length fa \<le> length rb"
      then have "length ib \<le> length ra" using answerer [OF p(2)] that(1) by simp
      then show False using caller [OF p(1)] that(2) \<open>\<not> length fa \<le> length rb\<close> by simp
    qed
    then have "rb = fa" using p(2) by (auto simp: prefix_def)
    moreover from this have "ra = fb" using answerer [OF p(2)] that(1) p(1) by (auto simp: prefix_def)
    ultimately show ?thesis by simp
  qed
  then show ?thesis by linarith
qed

section \<open>The handshake takes turns\<close>

text \<open>A side that has heard information lines only waits for more.\<close>

lemma read_until_waits:
  "list_all clean_line ts \<Longrightarrow> hs_info_frames h + length ts \<le> MAX_INFO_FRAMES \<Longrightarrow> c \<noteq> M_NUL \<Longrightarrow>
    read_until T c h (heard (map (\<lambda>t. (M_NUL, t)) ts)) = Inl Remote_Closed"
proof (induction ts arbitrary: h)
  case Nil
  then show ?case by (subst read_until.simps) (simp add: heard_def read_command_def)
next
  case (Cons a ts)
  let ?h = "note_info T a (h\<lparr>hs_info_frames := hs_info_frames h + 1\<rparr>)"
  have "read_command T h (heard (map (\<lambda>t. (M_NUL, t)) (a # ts))) =
      Inr ((M_NUL, a), ?h, heard (map (\<lambda>t. (M_NUL, t)) ts))"
    using Cons.prems clean_line_heard [of a] by (simp add: heard_def read_command_def Let_def)
  moreover have "read_until T c ?h (heard (map (\<lambda>t. (M_NUL, t)) ts)) = Inl Remote_Closed"
    using Cons.prems by (intro Cons.IH) (simp_all add: note_info_frames)
  ultimately show ?case using Cons.prems(3) by (subst read_until.simps) simp
qed

lemma introduction_waits:
  assumes "plain_info si" "case challenge of None \<Rightarrow> True | Some c \<Rightarrow> hex_challenge c"
    and "prefix r w" "prefix (hs_sent (introduces si challenge as)) w"
    and "length r < length (hs_sent (introduces si challenge as))" "hs_info_frames h = 0"
  shows "read_until_address T h (heard r) = Inl Remote_Closed"
proof -
  let ?ts = "info_lines si challenge"
  have ts: "list_all clean_line ?ts" by (rule info_lines_clean [OF assms(1,2)])
  have n: "length ?ts \<le> 7" by (simp add: info_lines_def split: option.split)
  have "prefix r (hs_sent (introduces si challenge as))"
    using assms(3-5) prefix_same_cases [of r w] by (metis leD prefix_length_le)
  then have "prefix r (map (\<lambda>t. (M_NUL, t)) ?ts)"
    using assms(5) by (auto simp: introduces_lines prefix_snoc)
  then have "r = map (\<lambda>t. (M_NUL, t)) (take (length r) ?ts)"
    by (auto simp: prefix_def take_map [symmetric])
  moreover have "list_all clean_line (take (length r) ?ts)"
    using ts by (auto simp: list_all_iff dest: in_set_takeD)
  ultimately have "read_until T M_ADR h (heard r) = Inl Remote_Closed"
    using read_until_waits [of "take (length r) ?ts" h M_ADR T] n assms(6) by (simp add: MAX_INFO_FRAMES_def)
  then show ?thesis by (simp add: read_until_address_def)
qed

text \<open>Once the introduction is heard, the addresses in it are read, whatever follows.\<close>

lemma introduction_read:
  assumes T: "unicode_laws T" and si: "plain_info si" and c: "case challenge of None \<Rightarrow> True | Some c \<Rightarrow> hex_challenge c"
    and as: "presentable as" and "hs_info_frames h = 0"
  obtains h' where
    "\<And>rest. read_until_address T h (heard (hs_sent (introduces si challenge as)) @ rest) = Inr (h', rest)"
proof -
  have "length (info_lines si challenge) \<le> 7" by (simp add: info_lines_def split: option.split)
  then have "read_until_address T h (heard (hs_sent (introduces si challenge as)) @ rest)
      = Inr ((learn T (info_lines si challenge) h)\<lparr>hs_addresses := as\<rparr>, rest)" for rest
    using addresses_read [OF T as info_lines_clean [OF si c], of h rest] assms(5)
    by (simp add: introduces_lines MAX_INFO_FRAMES_def)
  then show ?thesis by (rule that)
qed

lemma handshake_takes_turns:
  assumes T: "unicode_laws T" and c: "hex_challenge c"
    and si: "plain_info si" "plain_info si'" and as: "presentable ours" "presentable theirs"
    and oa: "originate T hmac si ours p expected (heard (hs_sent b)) = Inr (a, [])"
    and ab: "answer T hmac si' c theirs password_for (heard (hs_sent a)) = Inr (b, [])"
    and sa: "hs_sent a = hs_sent (introduces si None ours) @ [(M_PWD, t)]"
    and sb: "hs_sent b = hs_sent (introduces si' (Some c) theirs) @ [(M_OK, t')]"
  shows "two_sides (\<lambda>ls. caller_wrote T hmac si ours p expected (heard ls))
      (\<lambda>ls. answerer_wrote T hmac si' c theirs password_for (heard ls))
      (hs_sent (introduces si None ours)) (hs_sent a) (hs_sent (introduces si' (Some c) theirs)) (hs_sent b)"
proof -
  let ?ia = "introduces si None ours" and ?ib = "introduces si' (Some c) theirs"
  have c': "case Some c of None \<Rightarrow> True | Some c \<Rightarrow> hex_challenge c" using c by simp
  obtain a1 where a1: "\<And>rest. read_until_address T ?ia (heard (hs_sent ?ib) @ rest) = Inr (a1, rest)"
    using introduction_read [OF T si(2) c' as(2), of ?ia] by (auto simp: introduces_lines)
  obtain b1 where b1: "\<And>rest. read_until_address T ?ib (heard (hs_sent ?ia) @ rest) = Inr (b1, rest)"
    using introduction_read [OF T si(1) _ as(1), of None ?ib] by (auto simp: introduces_lines)
  have caller: "caller_wrote T hmac si ours p expected (heard ra) = hs_sent (if length ra < length (hs_sent ?ib) then ?ia else a)"
    if "prefix ra (hs_sent b)" for ra
  proof (cases "length ra < length (hs_sent ?ib)")
    case True
    then show ?thesis
      using introduction_waits [OF si(2) c' that _ True, of ?ia T] sb
      by (simp add: caller_wrote_def introduces_lines)
  next
    case False
    have "prefix (hs_sent ?ib) ra"
      using False that sb by (metis linorder_le_less_linear prefix_length_prefix prefixI)
    then obtain z where z: "ra = hs_sent ?ib @ z" by (auto simp: prefix_def)
    have "caller_wrote T hmac si ours p expected (heard ra)
        = caller_wrote T hmac si ours p expected (heard (hs_sent b))"
      using a1 by (simp add: caller_wrote_def z sb)
    then show ?thesis using False caller_wrote_result [OF oa] by simp
  qed
  have answerer: "answerer_wrote T hmac si' c theirs password_for (heard rb) = hs_sent (if length rb < length (hs_sent a) then ?ib else b)"
    if "prefix rb (hs_sent a)" for rb
  proof (cases "length rb < length (hs_sent a)")
    case True
    have "answer T hmac si' c theirs password_for (heard rb) = Inl Remote_Closed"
    proof (cases "length rb < length (hs_sent ?ia)")
      case True
      then show ?thesis
        using introduction_waits [OF si(1) _ that _ True, of ?ib T] sa
        by (simp add: answer_def introduces_lines)
    next
      case False
      have "prefix rb (hs_sent ?ia)" using True that sa by (auto simp: prefix_snoc)
      then have "rb = hs_sent ?ia" using False by (auto simp: prefix_def)
      then show ?thesis using b1 [of "[]"] by (simp add: answer_def read_until.simps read_command_def)
    qed
    then show ?thesis using True by (simp add: answerer_wrote_def)
  next
    case False
    then have "rb = hs_sent a" using that by (auto simp: prefix_def)
    then show ?thesis using ab by (simp add: answerer_wrote_def)
  qed
  show ?thesis using caller answerer sa sb by (simp add: two_sides_def if_distrib)
qed

text \<open>
  C12: two nodes that hold the same password for each other complete the handshake, however their lines
  interleave on the connection. At every moment some line that was written is still to be heard, or both
  sides have heard everything: then each has finished, knows the other's addresses, finds the session
  secure although only the digest of the password crossed the wire, and both run multiple batches. What
  either side hears is always the beginning of one fixed transcript, so there are finitely many
  deliveries. (For a password of printable ASCII characters, system information in Latin-1 without NUL,
  between 1 and 32 valid addresses on either side, a challenge in hexadecimal, and a digest that is a
  nonempty string of lower-case hexadecimal digits.)
\<close>

theorem handshake_agrees:
  assumes T: "unicode_laws T" and hm: "hex_digests hmac" and c: "hex_challenge c" and p: "printable p"
    and si: "plain_info si" "plain_info si'" and as: "presentable ours" "presentable theirs"
    and pf: "password_for ours = Some p"
  shows "\<exists>a b. originate T hmac si ours p (Some (hd theirs)) (heard (hs_sent b)) = Inr (a, []) \<and>
    answer T hmac si' c theirs password_for (heard (hs_sent a)) = Inr (b, []) \<and>
    hs_secure a \<and> hs_secure b \<and> \<not> hs_plaintext a \<and> \<not> hs_plaintext b \<and>
    hs_multi_batch a \<and> hs_multi_batch b \<and> hs_addresses a = theirs \<and> hs_addresses b = ours \<and>
    hs_sent a = hs_sent (introduces si None ours) @ [(M_PWD, CRAM @ hmac (latin1 p) (hex_bytes c))] \<and>
    (\<forall>ra rb. delivered (\<lambda>ls. caller_wrote T hmac si ours p (Some (hd theirs)) (heard ls))
        (\<lambda>ls. answerer_wrote T hmac si' c theirs password_for (heard ls)) ra rb \<longrightarrow>
      prefix ra (hs_sent b) \<and> prefix rb (hs_sent a) \<and>
      (length ra < length (answerer_wrote T hmac si' c theirs password_for (heard rb)) \<or>
       length rb < length (caller_wrote T hmac si ours p (Some (hd theirs)) (heard ra)) \<or>
       ra = hs_sent b \<and> rb = hs_sent a))"
proof -
  obtain a b where ab: "originate T hmac si ours p (Some (hd theirs)) (heard (hs_sent b)) = Inr (a, [])"
    "answer T hmac si' c theirs password_for (heard (hs_sent a)) = Inr (b, [])"
    and good: "hs_secure a" "hs_secure b" "\<not> hs_plaintext a" "\<not> hs_plaintext b"
    "hs_multi_batch a" "hs_multi_batch b" "hs_addresses a = theirs" "hs_addresses b = ours"
    and sent: "hs_sent a = hs_sent (introduces si None ours) @ [(M_PWD, CRAM @ hmac (latin1 p) (hex_bytes c))]"
    "hs_sent b = hs_sent (introduces si' (Some c) theirs) @ [(M_OK, u ''secure'')]"
    using handshake_runs [where password_for = password_for, OF T hm c p si as pf] by blast
  note turns = handshake_takes_turns [OF T c si as ab sent]
  show ?thesis
    using ab good sent(1) heard_prefix [OF turns] never_stuck [OF turns] by blast
qed

theorem handshake_agrees_witness:
  "\<exists>a b. originate small_tables one_digest plain_system [node_a] [120, 121] (Some node_b) (heard (hs_sent b)) = Inr (a, []) \<and>
    answer small_tables one_digest plain_system [48, 102] [node_b] (\<lambda>as. Some [120, 121]) (heard (hs_sent a)) = Inr (b, []) \<and>
    hs_secure a \<and> hs_secure b \<and> hs_addresses a = [node_b] \<and> hs_addresses b = [node_a]"
proof -
  have "(\<lambda>as. Some [120, 121]) [node_a] = Some [120, 121]" by simp
  note handshake_agrees [OF small_tables_laws example_hypotheses(1-4) example_hypotheses(4-6) this]
  then show ?thesis unfolding list.sel by blast
qed

end
